(* ===== verification/Prelude.thy ===== *)
theory Prelude imports Main "HOL-Library.Word" "HOL-Library.Sublist" begin

text \<open>
  Shared vocabulary of the development: the theorem collections the component theories fill,
  a generic reachability predicate with the contract every state machine of the client
  discharges (\<^verbatim>\<open>invariant_system\<close>), and small facts on maps and 64-bit counters that
  more than one component needs.
\<close>

named_theorems chan_simps \<open>rewriting of channel operations\<close>
named_theorems broker_simps \<open>unfolding of the event broker's operations\<close>
named_theorems rpc_simps \<open>unfolding of the JSON-RPC transport's critical sections\<close>

type_synonym u64 = "64 word"
type_synonym addr = nat

section \<open>Reachable states\<close>

inductive reachable :: "('s \<Rightarrow> bool) \<Rightarrow> ('s \<Rightarrow> 's \<Rightarrow> bool) \<Rightarrow> 's \<Rightarrow> bool"
  for start :: "'s \<Rightarrow> bool" and step :: "'s \<Rightarrow> 's \<Rightarrow> bool" where
  reach_start: "start s \<Longrightarrow> reachable start step s"
| reach_step: "reachable start step s \<Longrightarrow> step s t \<Longrightarrow> reachable start step t"

text \<open>
  The contract of a state machine with an invariant.  Every machine of the development
  interprets it on its own start predicate and step relation.
\<close>

locale invariant_system =
  fixes start :: "'s \<Rightarrow> bool"
    and step :: "'s \<Rightarrow> 's \<Rightarrow> bool"
    and inv :: "'s \<Rightarrow> bool"
  assumes inv_start: "start s \<Longrightarrow> inv s"
    and inv_step: "inv s \<Longrightarrow> step s t \<Longrightarrow> inv t"
begin

lemma reachable_inv: "reachable start step s \<Longrightarrow> inv s"
  by (induction rule: reachable.induct) (auto intro: inv_start inv_step)

lemma run_inv: "inv s \<Longrightarrow> step\<^sup>*\<^sup>* s t \<Longrightarrow> inv t"
  by (rotate_tac 1, induction rule: rtranclp_induct) (auto intro: inv_step)

end

lemma reachable_run: "reachable start step s \<Longrightarrow> step\<^sup>*\<^sup>* s t \<Longrightarrow> reachable start step t"
  by (rotate_tac 1, induction rule: rtranclp_induct) (auto intro: reach_step)

section \<open>Maps with an injective range\<close>

definition map_inj :: "('k \<rightharpoonup> 'v) \<Rightarrow> bool" where
  "map_inj m \<longleftrightarrow> (\<forall>i j a. m i = Some a \<longrightarrow> m j = Some a \<longrightarrow> i = j)"

lemma map_inj_empty [simp]: "map_inj Map.empty"
  by (simp add: map_inj_def)

lemma map_inj_upd: "map_inj m \<Longrightarrow> (\<And>i. m i \<noteq> Some a) \<Longrightarrow> map_inj (m(k \<mapsto> a))"
  by (auto simp: map_inj_def)

lemma map_inj_del [intro]: "map_inj m \<Longrightarrow> map_inj (m(k := None))"
  by (auto simp: map_inj_def)

lemma map_injD: "map_inj m \<Longrightarrow> m i = Some a \<Longrightarrow> m j = Some a \<Longrightarrow> i = j"
  by (auto simp: map_inj_def)

section \<open>64-bit counters\<close>

text \<open>A counter that has not reached the largest 64-bit value grows when it is incremented.\<close>

lemma u64_inc_less: "n \<noteq> (- 1 :: u64) \<Longrightarrow> n < n + 1"
  by (meson inc_less_eq_triv_imp not_le)

lemma u64_inc_fresh: "n \<noteq> (- 1 :: u64) \<Longrightarrow> i \<le> n \<Longrightarrow> i \<noteq> n + 1"
  using u64_inc_less [of n] by auto

lemma u64_inc_mono: "n \<noteq> (- 1 :: u64) \<Longrightarrow> i \<le> n \<Longrightarrow> i \<le> n + 1"
  using u64_inc_less [of n] by (meson order_le_less_trans order_less_imp_le)

end
