(* ===== verification/GoChan.thy ===== *)
theory GoChan imports Prelude begin

text \<open>
  Buffered Go channels as the source uses them: a first-in first-out buffer of bounded size
  with a closed flag.  A send on a closed channel and a close of a closed channel panic; a
  receive drains the buffer first and only then reports that the channel is closed.  A
  channel lives at an address of a heap, because a broker and a subscription share it.
\<close>

record 'a gochan =
  chan_buf :: "'a list"
  chan_cap :: nat
  chan_closed :: bool

datatype 'a send_res = SendOk "'a gochan" | SendBlock | SendPanic

datatype 'a recv_res = RecvVal 'a "'a gochan" | RecvClosed | RecvBlock

definition make_chan :: "nat \<Rightarrow> 'a gochan" where
  "make_chan n = \<lparr>chan_buf = [], chan_cap = n, chan_closed = False\<rparr>"

definition chan_send :: "'a gochan \<Rightarrow> 'a \<Rightarrow> 'a send_res" where
  "chan_send ch x =
     (if chan_closed ch then SendPanic
      else if length (chan_buf ch) < chan_cap ch
      then SendOk (ch\<lparr>chan_buf := chan_buf ch @ [x]\<rparr>)
      else SendBlock)"

definition chan_recv :: "'a gochan \<Rightarrow> 'a recv_res" where
  "chan_recv ch =
     (case chan_buf ch of
        x # xs \<Rightarrow> RecvVal x (ch\<lparr>chan_buf := xs\<rparr>)
      | [] \<Rightarrow> if chan_closed ch then RecvClosed else RecvBlock)"

definition chan_close :: "'a gochan \<Rightarrow> 'a gochan option" where
  "chan_close ch = (if chan_closed ch then None else Some (ch\<lparr>chan_closed := True\<rparr>))"

lemma make_chan_sel [simp]:
  "chan_buf (make_chan n) = []" "chan_cap (make_chan n) = n" "\<not> chan_closed (make_chan n)"
  by (simp_all add: make_chan_def)

lemma chan_send_ok [chan_simps]:
  "\<not> chan_closed ch \<Longrightarrow> length (chan_buf ch) < chan_cap ch \<Longrightarrow>
     chan_send ch x = SendOk (ch\<lparr>chan_buf := chan_buf ch @ [x]\<rparr>)"
  by (simp add: chan_send_def)

lemma chan_send_block [chan_simps]:
  "\<not> chan_closed ch \<Longrightarrow> \<not> length (chan_buf ch) < chan_cap ch \<Longrightarrow> chan_send ch x = SendBlock"
  by (simp add: chan_send_def)

lemma chan_close_open [chan_simps]:
  "\<not> chan_closed ch \<Longrightarrow> chan_close ch = Some (ch\<lparr>chan_closed := True\<rparr>)"
  by (simp add: chan_close_def)

lemma chan_recv_Val_iff [chan_simps]:
  "chan_recv ch = RecvVal x ch' \<longleftrightarrow>
     (\<exists>xs. chan_buf ch = x # xs \<and> ch' = ch\<lparr>chan_buf := xs\<rparr>)"
  by (auto simp: chan_recv_def split: list.splits if_splits)

section \<open>The queue contract of a channel\<close>

text \<open>
  What the code relies on when it reads and writes a channel: the values come out in the
  order they went in, and nothing is lost between the two ends.
\<close>

locale bounded_fifo =
  fixes send :: "'q \<Rightarrow> 'a \<Rightarrow> 'q option"
    and recv :: "'q \<Rightarrow> ('a \<times> 'q) option"
    and contents :: "'q \<Rightarrow> 'a list"
    and bound :: "'q \<Rightarrow> nat"
  assumes send_contents: "send q x = Some q' \<Longrightarrow> contents q' = contents q @ [x]"
    and send_bound: "send q x = Some q' \<Longrightarrow> bound q' = bound q \<and> length (contents q) < bound q"
    and recv_contents: "recv q = Some (x, q') \<Longrightarrow> contents q = x # contents q'"
    and recv_bound: "recv q = Some (x, q') \<Longrightarrow> bound q' = bound q"
    and recv_progress: "contents q \<noteq> [] \<Longrightarrow> recv q \<noteq> None"
begin

lemma send_keeps_bound:
  "send q x = Some q' \<Longrightarrow> length (contents q') \<le> bound q'"
  using send_contents [of q x q'] send_bound [of q x q'] by auto

lemma recv_keeps_bound:
  "recv q = Some (x, q') \<Longrightarrow> length (contents q) \<le> bound q \<Longrightarrow> length (contents q') \<le> bound q'"
  using recv_contents [of q x q'] recv_bound [of q x q'] by auto

lemma send_recv_empty:
  assumes "contents q = []" and "send q x = Some q'"
  shows "\<exists>q''. recv q' = Some (x, q'') \<and> contents q'' = []"
proof -
  from assms have c: "contents q' = [x]" by (simp add: send_contents)
  then obtain y q'' where r: "recv q' = Some (y, q'')" using recv_progress [of q'] by auto
  with c show ?thesis using recv_contents [OF r] by auto
qed

text \<open>The history of a queue: what was received, followed by what is buffered, is what was sent.\<close>

lemma history_send:
  "got @ contents q = sent \<Longrightarrow> send q x = Some q' \<Longrightarrow> got @ contents q' = sent @ [x]"
  by (auto dest: send_contents)

lemma history_recv:
  "got @ contents q = sent \<Longrightarrow> recv q = Some (x, q') \<Longrightarrow> (got @ [x]) @ contents q' = sent"
  by (auto dest: recv_contents)

end

definition chan_try_send :: "'a gochan \<Rightarrow> 'a \<Rightarrow> 'a gochan option" where
  "chan_try_send ch x = (case chan_send ch x of SendOk ch' \<Rightarrow> Some ch' | _ \<Rightarrow> None)"

definition chan_try_recv :: "'a gochan \<Rightarrow> ('a \<times> 'a gochan) option" where
  "chan_try_recv ch = (case chan_recv ch of RecvVal x ch' \<Rightarrow> Some (x, ch') | _ \<Rightarrow> None)"

lemma chan_try_recv_Some [chan_simps]:
  "chan_try_recv ch = Some (x, ch') \<longleftrightarrow> chan_recv ch = RecvVal x ch'"
  by (auto simp: chan_try_recv_def split: recv_res.splits)

lemma chan_try_send_Some [chan_simps]:
  "chan_try_send ch x = Some ch' \<longleftrightarrow> chan_send ch x = SendOk ch'"
  by (auto simp: chan_try_send_def split: send_res.splits)

interpretation chan: bounded_fifo chan_try_send chan_try_recv chan_buf chan_cap
proof
  fix q q' :: "'a gochan" and x
  assume "chan_try_send q x = Some q'"
  then show "chan_buf q' = chan_buf q @ [x]"
    and "chan_cap q' = chan_cap q \<and> length (chan_buf q) < chan_cap q"
    by (auto simp: chan_try_send_Some chan_send_def split: if_splits)
next
  fix q q' :: "'a gochan" and x
  assume "chan_try_recv q = Some (x, q')"
  then show "chan_buf q = x # chan_buf q'" and "chan_cap q' = chan_cap q"
    by (auto simp: chan_try_recv_Some chan_recv_Val_iff)
next
  fix q :: "'a gochan"
  assume "chan_buf q \<noteq> []"
  then show "chan_try_recv q \<noteq> None"
    by (auto simp: chan_try_recv_def chan_recv_def split: list.splits)
qed

end
