(* ===== verification/Broker.thy ===== *)
theory Broker imports GoChan begin

text \<open>
  The event broker of \<^verbatim>\<open>events.go\<close> (types \<^verbatim>\<open>eventBroker\<close> and \<^verbatim>\<open>EventSubscription\<close>): it fans one
  stream of notifications out to any number of subscriptions, each with its own buffered
  channel of 128 events.  A subscriber that does not keep up is closed and removed instead of
  blocking the others.  Each operation runs under the broker's mutex, so one operation is one
  step; the channel a subscription holds is the one in the broker's map, hence the heap.
\<close>

section \<open>State\<close>

record broker =
  br_next :: u64
  br_subs :: "u64 \<rightharpoonup> addr"
  br_closed :: bool

record subscription =
  sub_ch :: addr
  sub_cancel :: "u64 option"

record 'e bworld =
  bw_broker :: broker
  bw_heap :: "addr \<rightharpoonup> 'e gochan"
  bw_brk :: addr

definition sub_buffer :: nat where
  "sub_buffer = 128"

definition new_event_broker :: broker where
  "new_event_broker = \<lparr>br_next = 0, br_subs = Map.empty, br_closed = False\<rparr>"

definition alloc_chan :: "'e gochan \<Rightarrow> ('e, 'z) bworld_scheme \<Rightarrow> addr \<times> ('e, 'z) bworld_scheme" where
  "alloc_chan ch w =
     (bw_brk w, w\<lparr>bw_heap := (bw_heap w)(bw_brk w \<mapsto> ch), bw_brk := Suc (bw_brk w)\<rparr>)"

text \<open>Closing the channel at an address; \<^term>\<open>None\<close> is a panic.\<close>

definition close_addr :: "addr \<Rightarrow> ('e, 'z) bworld_scheme \<Rightarrow> ('e, 'z) bworld_scheme option" where
  "close_addr a w =
     (case bw_heap w a of
        None \<Rightarrow> None
      | Some ch \<Rightarrow>
          (case chan_close ch of
             None \<Rightarrow> None
           | Some ch' \<Rightarrow> Some (w\<lparr>bw_heap := (bw_heap w)(a \<mapsto> ch')\<rparr>)))"

definition delete_sub :: "u64 \<Rightarrow> ('e, 'z) bworld_scheme \<Rightarrow> ('e, 'z) bworld_scheme" where
  "delete_sub i w = w\<lparr>bw_broker := (bw_broker w)\<lparr>br_subs := (br_subs (bw_broker w))(i := None)\<rparr>\<rparr>"

section \<open>Operations\<close>

text \<open>\<^verbatim>\<open>Subscribe\<close>: a fresh channel; registered under the next id unless the broker is closed.\<close>

definition br_subscribe :: "('e, 'z) bworld_scheme \<Rightarrow> (subscription \<times> ('e, 'z) bworld_scheme) option" where
  "br_subscribe w =
     (let (a, w1) = alloc_chan (make_chan sub_buffer) w in
      if br_closed (bw_broker w1)
      then map_option (\<lambda>w2. (\<lparr>sub_ch = a, sub_cancel = None\<rparr>, w2)) (close_addr a w1)
      else let i = br_next (bw_broker w1) + 1 in
        Some (\<lparr>sub_ch = a, sub_cancel = Some i\<rparr>,
              w1\<lparr>bw_broker := (bw_broker w1)\<lparr>br_next := i,
                                br_subs := (br_subs (bw_broker w1))(i \<mapsto> a)\<rparr>\<rparr>))"

text \<open>One iteration of the loop of \<^verbatim>\<open>publish\<close>: a send that never blocks, or close and remove.\<close>

definition publish_one :: "'e \<Rightarrow> u64 \<Rightarrow> ('e, 'z) bworld_scheme \<Rightarrow> ('e, 'z) bworld_scheme option" where
  "publish_one e i w =
     (case br_subs (bw_broker w) i of
        None \<Rightarrow> Some w
      | Some a \<Rightarrow>
          (case bw_heap w a of
             None \<Rightarrow> None
           | Some ch \<Rightarrow>
               (case chan_send ch e of
                  SendPanic \<Rightarrow> None
                | SendOk ch' \<Rightarrow> Some (w\<lparr>bw_heap := (bw_heap w)(a \<mapsto> ch')\<rparr>)
                | SendBlock \<Rightarrow> map_option (delete_sub i) (close_addr a w))))"

fun publish_loop :: "'e \<Rightarrow> u64 list \<Rightarrow> ('e, 'z) bworld_scheme \<Rightarrow> ('e, 'z) bworld_scheme option" where
  "publish_loop e [] w = Some w"
| "publish_loop e (i # is) w =
     (case publish_one e i w of None \<Rightarrow> None | Some w' \<Rightarrow> publish_loop e is w')"

text \<open>
  Go ranges over a map in an arbitrary order, so the order in which the subscriptions are
  visited is an argument: any enumeration of the ids.
\<close>

definition br_publish :: "u64 list \<Rightarrow> 'e \<Rightarrow> ('e, 'z) bworld_scheme \<Rightarrow> ('e, 'z) bworld_scheme option" where
  "br_publish is e w = (if br_closed (bw_broker w) then Some w else publish_loop e is w)"

fun close_loop :: "u64 list \<Rightarrow> ('e, 'z) bworld_scheme \<Rightarrow> ('e, 'z) bworld_scheme option" where
  "close_loop [] w = Some w"
| "close_loop (i # is) w =
     (case br_subs (bw_broker w) i of
        None \<Rightarrow> close_loop is w
      | Some a \<Rightarrow>
          (case close_addr a w of
             None \<Rightarrow> None
           | Some w' \<Rightarrow> close_loop is (delete_sub i w')))"

definition br_close :: "u64 list \<Rightarrow> ('e, 'z) bworld_scheme \<Rightarrow> ('e, 'z) bworld_scheme option" where
  "br_close is w =
     (if br_closed (bw_broker w) then Some w
      else close_loop is (w\<lparr>bw_broker := (bw_broker w)\<lparr>br_closed := True\<rparr>\<rparr>))"

definition br_unsubscribe :: "u64 \<Rightarrow> ('e, 'z) bworld_scheme \<Rightarrow> ('e, 'z) bworld_scheme option" where
  "br_unsubscribe i w =
     (case br_subs (bw_broker w) i of
        None \<Rightarrow> Some w
      | Some a \<Rightarrow> map_option (delete_sub i) (close_addr a w))"

text \<open>\<^verbatim>\<open>EventSubscription.Close\<close>: runs the cancel function once.\<close>

definition sub_close ::
    "subscription option \<Rightarrow> ('e, 'z) bworld_scheme \<Rightarrow> (subscription option \<times> ('e, 'z) bworld_scheme) option" where
  "sub_close s w =
     (case s of
        None \<Rightarrow> Some (None, w)
      | Some sub \<Rightarrow>
          (case sub_cancel sub of
             None \<Rightarrow> Some (Some sub, w)
           | Some i \<Rightarrow>
               map_option (\<lambda>w'. (Some (sub\<lparr>sub_cancel := None\<rparr>), w')) (br_unsubscribe i w)))"

definition sub_C :: "subscription option \<Rightarrow> addr option" where
  "sub_C s = map_option sub_ch s"

definition closed_event_subscription :: "('e, 'z) bworld_scheme \<Rightarrow> subscription \<times> ('e, 'z) bworld_scheme" where
  "closed_event_subscription w =
     (let (a, w1) = alloc_chan ((make_chan 0)\<lparr>chan_closed := True\<rparr>) w
      in (\<lparr>sub_ch = a, sub_cancel = None\<rparr>, w1))"

lemmas broker_unfold = br_subscribe_def publish_one_def close_addr_def delete_sub_def
  alloc_chan_def br_unsubscribe_def br_publish_def br_close_def sub_close_def

section \<open>What one pass over the subscriptions does\<close>

text \<open>
  The loops are characterised pointwise, for any set of ids: which channels receive the event,
  which are closed, and which ids stay registered.  The order of the visit disappears.
\<close>

definition open_at :: "('e, 'z) bworld_scheme \<Rightarrow> bool" where
  "open_at w \<longleftrightarrow> map_inj (br_subs (bw_broker w)) \<and>
     (\<forall>i a. br_subs (bw_broker w) i = Some a \<longrightarrow> (\<exists>ch. bw_heap w a = Some ch \<and> \<not> chan_closed ch))"

definition offer :: "'e \<Rightarrow> 'e gochan \<Rightarrow> 'e gochan" where
  "offer e ch =
     (if length (chan_buf ch) < chan_cap ch then ch\<lparr>chan_buf := chan_buf ch @ [e]\<rparr>
      else ch\<lparr>chan_closed := True\<rparr>)"

definition has_room :: "('e, 'z) bworld_scheme \<Rightarrow> u64 \<Rightarrow> bool" where
  "has_room w i =
     (case br_subs (bw_broker w) i of
        None \<Rightarrow> True
      | Some a \<Rightarrow> (case bw_heap w a of None \<Rightarrow> True | Some ch \<Rightarrow> length (chan_buf ch) < chan_cap ch))"

definition served :: "u64 set \<Rightarrow> ('e, 'z) bworld_scheme \<Rightarrow> addr \<Rightarrow> bool" where
  "served I w a \<longleftrightarrow> (\<exists>i\<in>I. br_subs (bw_broker w) i = Some a)"

definition pass :: "('e gochan \<Rightarrow> 'e gochan) \<Rightarrow> (u64 \<Rightarrow> bool) \<Rightarrow> u64 set \<Rightarrow>
    ('e, 'z) bworld_scheme \<Rightarrow> ('e, 'z) bworld_scheme" where
  "pass f keep I w =
     w\<lparr>bw_heap := (\<lambda>a. if served I w a then map_option f (bw_heap w a) else bw_heap w a),
       bw_broker := (bw_broker w)\<lparr>br_subs :=
         (\<lambda>i. if i \<in> I \<and> \<not> keep i then None else br_subs (bw_broker w) i)\<rparr>\<rparr>"

definition shut :: "'e gochan \<Rightarrow> 'e gochan" where
  "shut ch = ch\<lparr>chan_closed := True\<rparr>"

lemma open_atD:
  "open_at w \<Longrightarrow> br_subs (bw_broker w) i = Some a \<Longrightarrow> \<exists>ch. bw_heap w a = Some ch \<and> \<not> chan_closed ch"
  by (auto simp: open_at_def)

lemma open_at_inj: "open_at w \<Longrightarrow> br_subs (bw_broker w) i = Some a \<Longrightarrow> br_subs (bw_broker w) j = Some a \<Longrightarrow> i = j"
  by (auto simp: open_at_def map_inj_def)

lemma served_single:
  "open_at w \<Longrightarrow> br_subs (bw_broker w) i = Some a \<Longrightarrow> served {i} w b \<longleftrightarrow> b = a"
  by (auto simp: served_def)

lemma pass_empty [simp]: "pass f keep {} w = w"
  by (simp add: pass_def served_def)

lemma pass_unsubscribed: "br_subs (bw_broker w) i = None \<Longrightarrow> pass f keep {i} w = w"
proof -
  assume n: "br_subs (bw_broker w) i = None"
  then have "(\<lambda>a. if served {i} w a then map_option f (bw_heap w a) else bw_heap w a) = bw_heap w"
    and "(\<lambda>j. if j \<in> {i} \<and> \<not> keep j then None else br_subs (bw_broker w) j) = br_subs (bw_broker w)"
    by (auto simp: served_def fun_eq_iff)
  then show ?thesis by (simp only: pass_def) simp
qed

lemma publish_one_eq:
  assumes "open_at w"
  shows "publish_one e i w = Some (pass (offer e) (has_room w) {i} w)"
proof (cases "br_subs (bw_broker w) i")
  case None
  then show ?thesis by (simp add: publish_one_def pass_unsubscribed)
next
  case (Some a)
  from open_atD [OF assms Some] obtain ch where ch: "bw_heap w a = Some ch" "\<not> chan_closed ch" by blast
  have heap: "(\<lambda>b. if served {i} w b then map_option (offer e) (bw_heap w b) else bw_heap w b)
      = (bw_heap w)(a \<mapsto> offer e ch)"
    using served_single [OF assms Some] ch by (auto simp: fun_eq_iff)
  show ?thesis
  proof (cases "length (chan_buf ch) < chan_cap ch")
    case True
    then have "(\<lambda>j. if j \<in> {i} \<and> \<not> has_room w j then None else br_subs (bw_broker w) j) = br_subs (bw_broker w)"
      using Some ch by (auto simp: has_room_def fun_eq_iff)
    with True Some ch heap show ?thesis
      by (simp add: publish_one_def chan_simps pass_def offer_def)
  next
    case False
    then have "(\<lambda>j. if j \<in> {i} \<and> \<not> has_room w j then None else br_subs (bw_broker w) j)
        = (br_subs (bw_broker w))(i := None)"
      using Some ch by (auto simp: has_room_def fun_eq_iff)
    with False Some ch heap show ?thesis
      by (simp add: publish_one_def chan_simps pass_def offer_def close_addr_def delete_sub_def)
  qed
qed

lemma close_one_eq:
  assumes "open_at w" and "br_subs (bw_broker w) i = Some a"
  shows "map_option (delete_sub i) (close_addr a w) = Some (pass shut (\<lambda>_. False) {i} w)"
proof -
  from open_atD [OF assms] obtain ch where ch: "bw_heap w a = Some ch" "\<not> chan_closed ch" by blast
  have "(\<lambda>b. if served {i} w b then map_option shut (bw_heap w b) else bw_heap w b)
      = (bw_heap w)(a \<mapsto> shut ch)"
    using served_single [OF assms] ch by (auto simp: fun_eq_iff)
  moreover have "(\<lambda>j. if j \<in> {i} \<and> \<not> False then None else br_subs (bw_broker w) j)
        = (br_subs (bw_broker w))(i := None)"
    by (auto simp: fun_eq_iff)
  ultimately show ?thesis using ch
    by (simp add: chan_simps pass_def shut_def close_addr_def delete_sub_def)
qed

lemma pass_open_at:
  assumes "open_at w" and "\<And>i a ch. i \<in> I \<Longrightarrow> keep i \<Longrightarrow> br_subs (bw_broker w) i = Some a \<Longrightarrow>
      bw_heap w a = Some ch \<Longrightarrow> \<not> chan_closed ch \<Longrightarrow> \<not> chan_closed (f ch)"
  shows "open_at (pass f keep I w)"
  unfolding open_at_def
proof (intro conjI allI impI)
  show "map_inj (br_subs (bw_broker (pass f keep I w)))"
    using assms(1) by (auto simp: pass_def open_at_def map_inj_def)
next
  fix i a
  assume sub: "br_subs (bw_broker (pass f keep I w)) i = Some a"
  then have i: "br_subs (bw_broker w) i = Some a" "i \<in> I \<Longrightarrow> keep i"
    by (auto simp: pass_def split: if_splits)
  from open_atD [OF assms(1) i(1)] obtain ch where ch: "bw_heap w a = Some ch" "\<not> chan_closed ch" by blast
  have "served I w a \<Longrightarrow> i \<in> I"
    using open_at_inj [OF assms(1) i(1)] by (auto simp: served_def)
  then show "\<exists>ch. bw_heap (pass f keep I w) a = Some ch \<and> \<not> chan_closed ch"
    using ch assms(2) i by (auto simp: pass_def)
qed

lemma pass_insert:
  assumes "open_at w" and "i \<notin> I"
  shows "pass f keep I (pass f keep {i} w) = pass f keep (insert i I) w"
proof -
  let ?w = "pass f keep {i} w"
  have served: "served I ?w a = served I w a" for a
    using assms(2) by (auto simp: served_def pass_def)
  have apart: "served I w a \<Longrightarrow> \<not> served {i} w a" for a
    using assms open_at_inj [OF assms(1)] by (auto simp: served_def)
  have "(\<lambda>a. if served I ?w a then map_option f (bw_heap ?w a) else bw_heap ?w a)
      = (\<lambda>a. if served (insert i I) w a then map_option f (bw_heap w a) else bw_heap w a)"
    using apart by (auto simp: served fun_eq_iff) (auto simp: pass_def served_def)
  moreover have "(\<lambda>j. if j \<in> I \<and> \<not> keep j then None else br_subs (bw_broker ?w) j)
      = (\<lambda>j. if j \<in> insert i I \<and> \<not> keep j then None else br_subs (bw_broker w) j)"
    by (auto simp: fun_eq_iff pass_def)
  ultimately show ?thesis
    by (simp add: pass_def [of f keep I] pass_def [of f keep "insert i I"]) (simp add: pass_def)
qed

lemma has_room_pass:
  assumes "open_at w" and "j \<noteq> i"
  shows "has_room (pass f keep {i} w) j = has_room w j"
proof -
  have "served {i} w a \<Longrightarrow> br_subs (bw_broker w) j = Some a \<Longrightarrow> False" for a
    using assms open_at_inj [OF assms(1)] by (auto simp: served_def)
  then show ?thesis using assms(2)
    by (auto simp: has_room_def pass_def split: option.splits)
qed

lemma pass_keep_cong:
  "(\<And>i. i \<in> I \<Longrightarrow> keep i = keep' i) \<Longrightarrow> pass f keep I w = pass f keep' I w"
  by (simp add: pass_def cong: conj_cong)

lemma publish_loop_eq:
  "open_at w \<Longrightarrow> distinct is \<Longrightarrow>
     publish_loop e is w = Some (pass (offer e) (has_room w) (set is) w)"
proof (induction "is" arbitrary: w)
  case Nil
  then show ?case by simp
next
  case (Cons i "is")
  let ?w = "pass (offer e) (has_room w) {i} w"
  have "open_at ?w"
    by (rule pass_open_at [OF Cons.prems(1)]) (auto simp: has_room_def offer_def)
  with Cons have "publish_loop e is ?w = Some (pass (offer e) (has_room ?w) (set is) ?w)" by simp
  also have "pass (offer e) (has_room ?w) (set is) ?w = pass (offer e) (has_room w) (set is) ?w"
    using Cons.prems by (intro pass_keep_cong has_room_pass) auto
  finally show ?case
    using Cons.prems by (simp add: publish_one_eq pass_insert)
qed

lemma close_loop_eq:
  "open_at w \<Longrightarrow> distinct is \<Longrightarrow> close_loop is w = Some (pass shut (\<lambda>_. False) (set is) w)"
proof (induction "is" arbitrary: w)
  case Nil
  then show ?case by simp
next
  case (Cons i "is")
  let ?w = "pass shut (\<lambda>_. False) {i} w"
  have "open_at ?w" by (rule pass_open_at [OF Cons.prems(1)]) simp
  with Cons have IH: "close_loop is ?w = Some (pass shut (\<lambda>_. False) (set (i # is)) w)"
    by (simp add: pass_insert)
  show ?case
  proof (cases "br_subs (bw_broker w) i")
    case None
    with IH show ?thesis by (simp add: pass_unsubscribed)
  next
    case (Some a)
    from close_one_eq [OF Cons.prems(1) Some] obtain w' where
      "close_addr a w = Some w'" "delete_sub i w' = ?w" by auto
    with Some IH show ?thesis by simp
  qed
qed

end
