(* ===== verification/BrokerSystem.thy ===== *)
theory BrokerSystem imports Broker begin

text \<open>
  The event broker and its subscribers as one system: any interleaving of subscribe, publish,
  receive, unsubscribe and close.  Two history variables say, for each channel, what has been
  published since it was created and what its reader has received; they record the run and
  guide no step.
\<close>

record 'e bsys = "'e bworld" +
  bs_pub :: "addr \<Rightarrow> 'e list"
  bs_got :: "addr \<Rightarrow> 'e list"
  bs_handles :: "subscription list"

definition enumerates :: "'k list \<Rightarrow> ('k \<rightharpoonup> 'v) \<Rightarrow> bool" where
  "enumerates ks m \<longleftrightarrow> distinct ks \<and> set ks = dom m"

definition broker_start :: "'e bsys \<Rightarrow> bool" where
  "broker_start s \<longleftrightarrow>
     s = \<lparr>bw_broker = new_event_broker, bw_heap = Map.empty, bw_brk = 0,
          bs_pub = (\<lambda>_. []), bs_got = (\<lambda>_. []), bs_handles = []\<rparr>"

definition note_publish :: "'e \<Rightarrow> 'e bsys \<Rightarrow> addr \<Rightarrow> 'e list" where
  "note_publish e s a =
     (if \<not> br_closed (bw_broker s) \<and> a < bw_brk s then bs_pub s a @ [e] else bs_pub s a)"

inductive broker_step :: "'e bsys \<Rightarrow> 'e bsys \<Rightarrow> bool" where
  subscribe: "br_next (bw_broker s) \<noteq> - 1 \<Longrightarrow> br_subscribe s = Some (sub, t) \<Longrightarrow>
     broker_step s (t\<lparr>bs_handles := bs_handles s @ [sub]\<rparr>)"
| publish: "enumerates is (br_subs (bw_broker s)) \<Longrightarrow> br_publish is e s = Some t \<Longrightarrow>
     broker_step s (t\<lparr>bs_pub := note_publish e s\<rparr>)"
| receive: "bw_heap s a = Some ch \<Longrightarrow> chan_recv ch = RecvVal x ch' \<Longrightarrow>
     broker_step s (s\<lparr>bw_heap := (bw_heap s)(a \<mapsto> ch'), bs_got := (bs_got s)(a := bs_got s a @ [x])\<rparr>)"
| unsubscribe: "k < length (bs_handles s) \<Longrightarrow>
     sub_close (Some (bs_handles s ! k)) s = Some (Some sub, t) \<Longrightarrow>
     broker_step s (t\<lparr>bs_handles := (bs_handles s)[k := sub]\<rparr>)"
| close: "enumerates is (br_subs (bw_broker s)) \<Longrightarrow> br_close is s = Some t \<Longrightarrow> broker_step s t"

inductive_simps broker_step_iff: "broker_step s t"

section \<open>The invariant\<close>

definition chan_ok :: "'e bsys \<Rightarrow> addr \<Rightarrow> 'e gochan \<Rightarrow> bool" where
  "chan_ok s a ch \<longleftrightarrow>
     chan_cap ch = sub_buffer \<and> length (chan_buf ch) \<le> sub_buffer \<and>
     prefix (bs_got s a @ chan_buf ch) (bs_pub s a) \<and>
     (\<not> chan_closed ch \<longrightarrow>
        bs_got s a @ chan_buf ch = bs_pub s a \<and> (\<exists>i. br_subs (bw_broker s) i = Some a))"

definition broker_inv :: "'e bsys \<Rightarrow> bool" where
  "broker_inv s \<longleftrightarrow>
     open_at s \<and>
     (br_closed (bw_broker s) \<longrightarrow> br_subs (bw_broker s) = Map.empty) \<and>
     (\<forall>i a. br_subs (bw_broker s) i = Some a \<longrightarrow> i \<le> br_next (bw_broker s)) \<and>
     (\<forall>a. (bw_heap s a \<noteq> None) = (a < bw_brk s)) \<and>
     (\<forall>a. bw_brk s \<le> a \<longrightarrow> bs_pub s a = [] \<and> bs_got s a = []) \<and>
     (\<forall>a ch. bw_heap s a = Some ch \<longrightarrow> chan_ok s a ch)"

lemma broker_invD:
  assumes "broker_inv s"
  shows "open_at s" "br_closed (bw_broker s) \<Longrightarrow> br_subs (bw_broker s) = Map.empty"
    "br_subs (bw_broker s) i = Some a \<Longrightarrow> i \<le> br_next (bw_broker s)"
    "(bw_heap s a \<noteq> None) = (a < bw_brk s)"
    "bw_brk s \<le> a \<Longrightarrow> bs_pub s a = [] \<and> bs_got s a = []"
    "bw_heap s a = Some ch \<Longrightarrow> chan_ok s a ch"
  using assms unfolding broker_inv_def by blast+

lemma broker_inv_start: "broker_start s \<Longrightarrow> broker_inv s"
  by (auto simp: broker_start_def broker_inv_def open_at_def new_event_broker_def)

lemma live_below: "broker_inv s \<Longrightarrow> br_subs (bw_broker s) i = Some a \<Longrightarrow> a < bw_brk s"
  using open_atD [OF broker_invD(1)] broker_invD(4) by fastforce

lemma next_id_free:
  assumes "broker_inv s" and "br_next (bw_broker s) \<noteq> - 1"
  shows "br_subs (bw_broker s) (br_next (bw_broker s) + 1) = None"
  using broker_invD(3) [OF assms(1)] u64_inc_fresh [OF assms(2)] by (metis not_None_eq)

lemma inv_subscribe:
  assumes inv: "broker_inv s" and n: "br_next (bw_broker s) \<noteq> - 1"
    and sub: "br_subscribe s = Some (sub, t)"
  shows "broker_inv (t\<lparr>bs_handles := hs\<rparr>)"
proof (cases "br_closed (bw_broker s)")
  case True
  with sub have t: "t = s\<lparr>bw_heap := (bw_heap s)(bw_brk s \<mapsto> shut (make_chan sub_buffer)), bw_brk := Suc (bw_brk s)\<rparr>"
    by (auto simp: br_subscribe_def alloc_chan_def close_addr_def chan_simps shut_def)
  show ?thesis
    using inv True unfolding t broker_inv_def
    by (auto simp: open_at_def chan_ok_def less_Suc_eq shut_def not_less)
next
  case False
  let ?i = "br_next (bw_broker s) + 1" and ?a = "bw_brk s"
  from False sub have t: "t = s\<lparr>bw_heap := (bw_heap s)(?a \<mapsto> make_chan sub_buffer), bw_brk := Suc ?a,
       bw_broker := (bw_broker s)\<lparr>br_next := ?i, br_subs := (br_subs (bw_broker s))(?i \<mapsto> ?a)\<rparr>\<rparr>"
    by (auto simp: br_subscribe_def alloc_chan_def Let_def)
  have free: "br_subs (bw_broker s) ?i = None" by (rule next_id_free [OF inv n])
  have below: "br_subs (bw_broker s) i = Some a \<Longrightarrow> a < ?a" for i a by (rule live_below [OF inv])
  have "open_at t"
    using broker_invD(1) [OF inv] below unfolding t open_at_def map_inj_def
    by (auto split: if_splits)
  moreover have "\<forall>i a. br_subs (bw_broker t) i = Some a \<longrightarrow> i \<le> br_next (bw_broker t)"
    using broker_invD(3) [OF inv] u64_inc_mono [OF n] by (auto simp: t)
  moreover have "\<forall>a. (bw_heap t a \<noteq> None) = (a < bw_brk t)"
    using broker_invD(4) [OF inv] by (auto simp: t less_Suc_eq)
  moreover have "chan_ok t a ch" if "bw_heap t a = Some ch" for a ch
  proof (cases "a = ?a")
    case True
    with that broker_invD(5) [OF inv, of ?a] show ?thesis by (auto simp: t chan_ok_def)
  next
    case other: False
    with that have ok: "chan_ok s a ch" using broker_invD(6) [OF inv] by (simp add: t)
    have "j \<noteq> ?i" if "br_subs (bw_broker s) j = Some a" for j using that free by auto
    with ok show ?thesis by (auto simp: t chan_ok_def)
  qed
  ultimately show ?thesis
    using False broker_invD(5) [OF inv] unfolding broker_inv_def
    by (auto simp: t open_at_def chan_ok_def)
qed

lemma pass_sel [simp]:
  "br_closed (bw_broker (pass f keep I w)) = br_closed (bw_broker w)"
  "br_next (bw_broker (pass f keep I w)) = br_next (bw_broker w)"
  "bw_brk (pass f keep I w) = bw_brk w"
  "bs_pub (pass f keep I s) = bs_pub s"
  "bs_got (pass f keep I s) = bs_got s"
  by (simp_all add: pass_def)

lemma pass_heap: "bw_heap (pass f keep I w) a =
    (if served I w a then map_option f (bw_heap w a) else bw_heap w a)"
  by (simp add: pass_def)

lemma pass_subs: "br_subs (bw_broker (pass f keep I w)) i =
    (if i \<in> I \<and> \<not> keep i then None else br_subs (bw_broker w) i)"
  by (simp add: pass_def)

lemma served_dom: "served (dom (br_subs (bw_broker w))) w a \<longleftrightarrow> (\<exists>i. br_subs (bw_broker w) i = Some a)"
  by (auto simp: served_def)

lemma chan_ok_publish:
  assumes inv: "broker_inv s" and open_broker: "\<not> br_closed (bw_broker s)"
    and t: "t = (pass (offer e) (has_room s) (dom (br_subs (bw_broker s))) s)\<lparr>bs_pub := note_publish e s\<rparr>"
    and heap: "bw_heap t a = Some ch'"
  shows "chan_ok t a ch'"
proof -
  from heap obtain ch where ch: "bw_heap s a = Some ch"
    by (auto simp: t pass_heap split: if_splits)
  note ok = broker_invD(6) [OF inv ch]
  from ch broker_invD(4) [OF inv, of a] have pub: "bs_pub t a = bs_pub s a @ [e]"
    by (simp add: t note_publish_def open_broker)
  show ?thesis
  proof (cases "\<exists>i. br_subs (bw_broker s) i = Some a")
    case True
    then obtain i where i: "br_subs (bw_broker s) i = Some a" by blast
    from open_atD [OF broker_invD(1) [OF inv] i] ch have "\<not> chan_closed ch" by simp
    moreover from heap ch True have "ch' = offer e ch" by (simp add: t pass_heap served_dom)
    moreover have "has_room s i \<Longrightarrow> \<exists>j. br_subs (bw_broker t) j = Some a"
      using i by (intro exI [of _ i]) (simp add: t pass_subs)
    moreover have "has_room s i = (length (chan_buf ch) < chan_cap ch)"
      using i ch by (simp add: has_room_def)
    moreover have "prefix (bs_got s a @ chan_buf ch) (bs_pub s a @ [e])"
      using ok by (simp add: chan_ok_def)
    ultimately show ?thesis
      using ok pub by (auto simp: chan_ok_def offer_def t)
  next
    case False
    with ok have "chan_closed ch" by (auto simp: chan_ok_def)
    with False heap ch ok pub show ?thesis
      by (auto simp: chan_ok_def t pass_heap served_dom)
  qed
qed

lemma inv_publish:
  assumes inv: "broker_inv s" and en: "enumerates is (br_subs (bw_broker s))"
    and pub: "br_publish is e s = Some t"
  shows "broker_inv (t\<lparr>bs_pub := note_publish e s\<rparr>)"
proof (cases "br_closed (bw_broker s)")
  case True
  then have "note_publish e s = bs_pub s" by (simp add: note_publish_def fun_eq_iff)
  with True pub have "t\<lparr>bs_pub := note_publish e s\<rparr> = s" by (simp add: br_publish_def)
  with inv show ?thesis by simp
next
  case False
  let ?t = "t\<lparr>bs_pub := note_publish e s\<rparr>"
  from en have "distinct is" "set is = dom (br_subs (bw_broker s))" by (auto simp: enumerates_def)
  with pub False publish_loop_eq [OF broker_invD(1) [OF inv]]
  have t: "t = pass (offer e) (has_room s) (dom (br_subs (bw_broker s))) s"
    by (simp add: br_publish_def)
  have "open_at t" unfolding t
    by (rule pass_open_at [OF broker_invD(1) [OF inv]]) (auto simp: has_room_def offer_def)
  then have "open_at ?t" by (simp add: open_at_def)
  moreover have "\<forall>a. (bw_heap ?t a \<noteq> None) = (a < bw_brk ?t)"
    using broker_invD(4) [OF inv] by (simp add: t pass_heap)
  moreover have "\<forall>a. bw_brk ?t \<le> a \<longrightarrow> bs_pub ?t a = [] \<and> bs_got ?t a = []"
    using broker_invD(5) [OF inv] by (auto simp: t note_publish_def)
  moreover have "\<forall>a ch. bw_heap ?t a = Some ch \<longrightarrow> chan_ok ?t a ch"
    using chan_ok_publish [OF inv False] t by blast
  ultimately show ?thesis
    using False broker_invD(3) [OF inv] unfolding broker_inv_def by (auto simp: t pass_subs)
qed

lemma inv_shut:
  assumes inv: "broker_inv s" and t: "t = pass shut (\<lambda>_. False) I s"
  shows "broker_inv t"
proof -
  have "open_at t" unfolding t by (rule pass_open_at [OF broker_invD(1) [OF inv]]) simp
  moreover have "chan_ok t a ch'" if "bw_heap t a = Some ch'" for a ch'
  proof -
    from that obtain ch where ch: "bw_heap s a = Some ch"
      by (auto simp: t pass_heap split: if_splits)
    have "\<exists>j. br_subs (bw_broker t) j = Some a" if "br_subs (bw_broker s) i = Some a" "\<not> served I s a" for i
      using that by (intro exI [of _ i]) (auto simp: t pass_subs served_def)
    with that ch broker_invD(6) [OF inv ch] show ?thesis
      by (auto simp: t pass_heap chan_ok_def shut_def split: if_splits)
  qed
  ultimately show ?thesis
    using inv unfolding broker_inv_def by (auto simp: t pass_heap pass_subs)
qed

lemma inv_mark_closed:
  "broker_inv s \<Longrightarrow> br_subs (bw_broker s) = Map.empty \<Longrightarrow>
     broker_inv (s\<lparr>bw_broker := (bw_broker s)\<lparr>br_closed := True\<rparr>\<rparr>)"
  by (auto simp: broker_inv_def open_at_def chan_ok_def)

lemma br_close_eq:
  assumes inv: "broker_inv s" and en: "enumerates is (br_subs (bw_broker s))"
    and open_broker: "\<not> br_closed (bw_broker s)"
  shows "br_close is s = Some ((pass shut (\<lambda>_. False) (dom (br_subs (bw_broker s))) s)
      \<lparr>bw_broker := (bw_broker (pass shut (\<lambda>_. False) (dom (br_subs (bw_broker s))) s))\<lparr>br_closed := True\<rparr>\<rparr>)"
proof -
  let ?c = "s\<lparr>bw_broker := (bw_broker s)\<lparr>br_closed := True\<rparr>\<rparr>"
  have "open_at ?c" using broker_invD(1) [OF inv] by (simp add: open_at_def)
  moreover from en have "distinct is" "set is = dom (br_subs (bw_broker s))" by (auto simp: enumerates_def)
  ultimately have "close_loop is ?c = Some (pass shut (\<lambda>_. False) (dom (br_subs (bw_broker s))) ?c)"
    using close_loop_eq [of ?c "is"] by simp
  then have "br_close is s = Some (pass shut (\<lambda>_. False) (dom (br_subs (bw_broker s))) ?c)"
    using open_broker by (simp add: br_close_def)
  then show ?thesis by (simp add: pass_def served_def cong: if_cong)
qed

lemma inv_close:
  assumes inv: "broker_inv s" and en: "enumerates is (br_subs (bw_broker s))"
    and close: "br_close is s = Some t"
  shows "broker_inv t"
proof (cases "br_closed (bw_broker s)")
  case True
  with close inv show ?thesis by (simp add: br_close_def)
next
  case False
  let ?p = "pass shut (\<lambda>_. False) (dom (br_subs (bw_broker s))) s"
  have "broker_inv ?p" by (rule inv_shut [OF inv refl])
  moreover have "br_subs (bw_broker ?p) = Map.empty" by (auto simp: pass_subs fun_eq_iff)
  ultimately show ?thesis
    using close br_close_eq [OF inv en False] inv_mark_closed by auto
qed

lemma br_unsubscribe_eq:
  assumes "broker_inv s"
  shows "br_unsubscribe i s = Some (pass shut (\<lambda>_. False) {i} s)"
  using close_one_eq [OF broker_invD(1) [OF assms]]
  by (auto simp: br_unsubscribe_def pass_unsubscribed split: option.splits)

lemma sub_close_eq:
  assumes "broker_inv s"
  shows "sub_close (Some sub) s =
    Some (Some (sub\<lparr>sub_cancel := None\<rparr>),
          pass shut (\<lambda>_. False) (set_option (sub_cancel sub)) s)"
  by (cases sub) (simp add: sub_close_def br_unsubscribe_eq [OF assms] split: option.splits)

lemma inv_receive:
  assumes inv: "broker_inv s" and ch: "bw_heap s a = Some ch" and r: "chan_recv ch = RecvVal x ch'"
  shows "broker_inv (s\<lparr>bw_heap := (bw_heap s)(a \<mapsto> ch'), bs_got := (bs_got s)(a := bs_got s a @ [x])\<rparr>)"
proof -
  let ?t = "s\<lparr>bw_heap := (bw_heap s)(a \<mapsto> ch'), bs_got := (bs_got s)(a := bs_got s a @ [x])\<rparr>"
  from r obtain xs where xs: "chan_buf ch = x # xs" "ch' = ch\<lparr>chan_buf := xs\<rparr>"
    by (auto simp: chan_recv_Val_iff)
  have a: "a < bw_brk s" using broker_invD(4) [OF inv, of a] ch by simp
  have "open_at ?t" using broker_invD(1) [OF inv] ch xs by (fastforce simp: open_at_def)
  moreover have "chan_ok ?t b d" if "bw_heap ?t b = Some d" for b d
    using that xs broker_invD(6) [OF inv ch] broker_invD(6) [OF inv, of b d]
    by (auto simp: chan_ok_def split: if_splits)
  ultimately show ?thesis
    using inv a unfolding broker_inv_def by (auto simp: ch)
qed

lemma inv_handles: "broker_inv (s\<lparr>bs_handles := hs\<rparr>) = broker_inv s"
  by (simp add: broker_inv_def open_at_def chan_ok_def)

lemma broker_inv_step: "broker_step s t \<Longrightarrow> broker_inv s \<Longrightarrow> broker_inv t"
proof (induction rule: broker_step.induct)
  case (subscribe s sub t)
  then show ?case by (blast intro: inv_subscribe)
next
  case (publish "is" s e t)
  then show ?case by (blast intro: inv_publish)
next
  case (receive s a ch x ch')
  then show ?case by (blast intro: inv_receive)
next
  case (unsubscribe k s sub t)
  then show ?case by (auto simp: sub_close_eq inv_handles intro: inv_shut)
next
  case (close "is" s t)
  then show ?case by (blast intro: inv_close)
qed

interpretation brk: invariant_system broker_start broker_step broker_inv
  by unfold_locales (auto intro: broker_inv_start broker_inv_step)

section \<open>A run\<close>

text \<open>Two subscriptions, two events, one of them read by the first subscriber.\<close>

definition demo_sub :: "u64 \<Rightarrow> addr \<Rightarrow> subscription" where
  "demo_sub i a = \<lparr>sub_ch = a, sub_cancel = Some i\<rparr>"

definition demo_state :: "nat list \<Rightarrow> nat list \<Rightarrow> nat list \<Rightarrow> nat bsys" where
  "demo_state rest0 got0 pub0 =
     \<lparr>bw_broker = \<lparr>br_next = 1, br_subs = [1 \<mapsto> 0], br_closed = False\<rparr>,
      bw_heap = [0 \<mapsto> \<lparr>chan_buf = rest0, chan_cap = sub_buffer, chan_closed = False\<rparr>],
      bw_brk = 1, bs_pub = (\<lambda>_. [])(0 := pub0), bs_got = (\<lambda>_. [])(0 := got0),
      bs_handles = [demo_sub 1 0]\<rparr>"

lemma demo_subscribed: "reachable broker_start broker_step (demo_state [] [] [])"
proof -
  let ?s = "\<lparr>bw_broker = new_event_broker, bw_heap = Map.empty, bw_brk = 0,
      bs_pub = (\<lambda>_. []), bs_got = (\<lambda>_. []), bs_handles = []\<rparr> :: nat bsys"
  have r: "reachable broker_start broker_step ?s"
    by (rule reach_start) (simp add: broker_start_def)
  let ?t = "(demo_state [] [] [])\<lparr>bs_handles := []\<rparr>"
  have "br_subscribe ?s = Some (demo_sub 1 0, ?t)"
    by (simp add: br_subscribe_def alloc_chan_def new_event_broker_def demo_state_def demo_sub_def
        make_chan_def fun_upd_def)
  then have "broker_step ?s (?t\<lparr>bs_handles := bs_handles ?s @ [demo_sub 1 0]\<rparr>)"
    by (intro broker_step.subscribe) (simp_all add: new_event_broker_def)
  moreover have "?t\<lparr>bs_handles := bs_handles ?s @ [demo_sub 1 0]\<rparr> = demo_state [] [] []"
    by (simp add: demo_state_def)
  ultimately show ?thesis using r by (metis reach_step)
qed

lemma demo_enumerates: "enumerates [1] (br_subs (bw_broker (demo_state r g p)))"
  by (simp add: enumerates_def demo_state_def)

lemma demo_publish_eq:
  "length r < 128 \<Longrightarrow> br_publish [1] e (demo_state r g p) =
     Some ((demo_state (r @ [e]) g p))"
  by (simp add: br_publish_def publish_one_def demo_state_def chan_send_def sub_buffer_def)

lemma demo_published:
  assumes "length r < 128" and "reachable broker_start broker_step (demo_state r g p)"
  shows "reachable broker_start broker_step (demo_state (r @ [e]) g (p @ [e]))"
proof -
  have "broker_step (demo_state r g p)
      ((demo_state (r @ [e]) g p)\<lparr>bs_pub := note_publish e (demo_state r g p)\<rparr>)"
    by (rule broker_step.publish [OF demo_enumerates demo_publish_eq [OF assms(1)]])
  moreover have "(demo_state (r @ [e]) g p)\<lparr>bs_pub := note_publish e (demo_state r g p)\<rparr>
      = demo_state (r @ [e]) g (p @ [e])"
    by (auto simp: demo_state_def note_publish_def fun_eq_iff)
  ultimately show ?thesis using assms(2) by (metis reach_step)
qed

lemma demo_received:
  assumes "reachable broker_start broker_step (demo_state (x # r) g p)"
  shows "reachable broker_start broker_step (demo_state r (g @ [x]) p)"
proof -
  let ?s = "demo_state (x # r) g p" and ?ch = "\<lparr>chan_buf = r, chan_cap = sub_buffer, chan_closed = False\<rparr>"
  have "broker_step ?s (?s\<lparr>bw_heap := (bw_heap ?s)(0 \<mapsto> ?ch), bs_got := (bs_got ?s)(0 := bs_got ?s 0 @ [x])\<rparr>)"
    by (rule broker_step.receive [where ch = "?ch\<lparr>chan_buf := x # r\<rparr>"])
       (simp_all add: demo_state_def chan_recv_def)
  moreover have "?s\<lparr>bw_heap := (bw_heap ?s)(0 \<mapsto> ?ch), bs_got := (bs_got ?s)(0 := bs_got ?s 0 @ [x])\<rparr>
      = demo_state r (g @ [x]) p"
    by (auto simp: demo_state_def fun_eq_iff)
  ultimately show ?thesis using assms by (metis reach_step)
qed

lemma demo_run: "reachable broker_start broker_step (demo_state [8] [7] [7, 8])"
proof -
  have "reachable broker_start broker_step (demo_state [7, 8] [] [7, 8])"
    using demo_published [of "[7]" "[]" "[7]" 8] demo_published [of "[]" "[]" "[]" 7] demo_subscribed
    by simp
  then show ?thesis using demo_received [of 7 "[8]" "[]" "[7, 8]"] by simp
qed

section \<open>Properties\<close>

text \<open>
  C39. Delivery.  In every reachable state of the broker and its subscribers, what a subscriber
  has received followed by what waits in its channel is an initial part of everything published
  since it subscribed; as long as its channel is open it is all of it.  So a subscriber sees the
  events in publication order with no gap, and loses events only by being closed.
\<close>

theorem broker_delivery:
  assumes "reachable broker_start broker_step s" and "bw_heap s a = Some ch"
  shows "prefix (bs_got s a @ chan_buf ch) (bs_pub s a) \<and>
     (\<not> chan_closed ch \<longrightarrow> bs_got s a @ chan_buf ch = bs_pub s a)"
  using broker_invD(6) [OF brk.reachable_inv [OF assms(1)] assms(2)] by (auto simp: chan_ok_def)

theorem broker_delivery_witness:
  "let s = demo_state [8] [7] [7, 8]; ch = \<lparr>chan_buf = [8], chan_cap = 128, chan_closed = False\<rparr> in
     bw_heap s 0 = Some ch \<and> bs_got s 0 @ chan_buf ch = [7, 8]"
proof -
  let ?s = "demo_state [8] [7] [7, 8]"
  let ?ch = "\<lparr>chan_buf = [8], chan_cap = 128, chan_closed = False\<rparr> :: nat gochan"
  have h: "bw_heap ?s 0 = Some ?ch" by (simp add: demo_state_def sub_buffer_def)
  from broker_delivery [OF demo_run h] have "bs_got ?s 0 @ chan_buf ?ch = bs_pub ?s 0" by simp
  with h show ?thesis by (simp add: demo_state_def Let_def)
qed

text \<open>
  C40. No panic.  In every reachable state every broker operation succeeds, for any order in
  which the subscription map is ranged over: no send on a closed channel, no second close of a
  channel, whatever interleaving of subscribe, publish, receive, unsubscribe and close came before.
\<close>

theorem broker_no_panic:
  assumes "reachable broker_start broker_step s" and "enumerates is (br_subs (bw_broker s))"
  shows "br_publish is e s \<noteq> None \<and> br_close is s \<noteq> None \<and>
     br_subscribe s \<noteq> None \<and> sub_close sub s \<noteq> None"
proof -
  note inv = brk.reachable_inv [OF assms(1)]
  from assms(2) have "distinct is" by (simp add: enumerates_def)
  then have "br_publish is e s \<noteq> None"
    using publish_loop_eq [OF broker_invD(1) [OF inv]] by (simp add: br_publish_def)
  moreover have "br_close is s \<noteq> None"
    using br_close_eq [OF inv assms(2)] by (cases "br_closed (bw_broker s)") (auto simp: br_close_def)
  moreover have "br_subscribe s \<noteq> None"
    by (simp add: br_subscribe_def alloc_chan_def close_addr_def chan_simps Let_def)
  moreover have "sub_close sub s \<noteq> None"
    using sub_close_eq [OF inv] by (cases sub) (auto simp: sub_close_def [of None])
  ultimately show ?thesis by blast
qed

theorem broker_no_panic_witness:
  "br_publish [1] 9 (demo_state [8] [7] [7, 8]) \<noteq> None \<and> br_close [1] (demo_state [8] [7] [7, 8]) \<noteq> None"
  using broker_no_panic [OF demo_run demo_enumerates] by blast

text \<open>
  Effect of a publish.  Publishing on an open broker gives every subscriber whose channel has
  room exactly that event at the end of its queue and keeps it registered; a subscriber whose
  128 slots are full gets its channel closed and is removed, its queued events kept; no other
  channel changes.
\<close>

theorem broker_publish_effect:
  assumes "reachable broker_start broker_step s" and "\<not> br_closed (bw_broker s)"
    and "enumerates is (br_subs (bw_broker s))" and "br_subs (bw_broker s) i = Some a"
    and "bw_heap s a = Some ch"
  shows "\<exists>t. br_publish is e s = Some t \<and>
     (if length (chan_buf ch) < 128
      then bw_heap t a = Some (ch\<lparr>chan_buf := chan_buf ch @ [e]\<rparr>) \<and> br_subs (bw_broker t) i = Some a
      else bw_heap t a = Some (ch\<lparr>chan_closed := True\<rparr>) \<and> br_subs (bw_broker t) i = None) \<and>
     (\<forall>b. (\<nexists>j. br_subs (bw_broker s) j = Some b) \<longrightarrow> bw_heap t b = bw_heap s b)"
proof -
  note inv = brk.reachable_inv [OF assms(1)]
  from assms(3) have en: "distinct is" "set is = dom (br_subs (bw_broker s))" by (auto simp: enumerates_def)
  from broker_invD(6) [OF inv assms(5)] have "chan_cap ch = 128" by (simp add: chan_ok_def sub_buffer_def)
  then show ?thesis
    using publish_loop_eq [OF broker_invD(1) [OF inv] en(1), of e] assms en(2)
    by (auto simp: br_publish_def pass_heap pass_subs served_dom offer_def has_room_def)
qed

theorem broker_publish_effect_witness:
  "\<exists>t. br_publish [1] 9 (demo_state [8] [7] [7, 8]) = Some t \<and>
     bw_heap t 0 = Some \<lparr>chan_buf = [8, 9], chan_cap = 128, chan_closed = False\<rparr>"
  using broker_publish_effect [OF demo_run _ demo_enumerates, of 1 0
      "\<lparr>chan_buf = [8], chan_cap = 128, chan_closed = False\<rparr>" 9]
  by (auto simp: demo_state_def sub_buffer_def)

text \<open>
  The order in which Go ranges over the subscription map does not matter: any two
  enumerations of the ids give the same state after a publish.
\<close>

theorem broker_publish_order:
  assumes "reachable broker_start broker_step s"
    and "enumerates is (br_subs (bw_broker s))" and "enumerates js (br_subs (bw_broker s))"
  shows "br_publish is e s = br_publish js e s"
  using publish_loop_eq [OF broker_invD(1) [OF brk.reachable_inv [OF assms(1)]]] assms(2,3)
  by (auto simp: enumerates_def br_publish_def)

theorem broker_publish_order_witness:
  "br_publish [1] 9 (demo_state [8] [7] [7, 8]) = br_publish (remdups [1, 1]) 9 (demo_state [8] [7] [7, 8])"
  by (rule broker_publish_order [OF demo_run demo_enumerates]) (simp add: demo_enumerates)

text \<open>
  Close is final.  After the broker is closed no id is registered, every channel it ever
  handed out is closed with its queued events still readable, a later publish changes nothing,
  and a later subscription gets a channel that is already closed.
\<close>

theorem broker_close_final:
  assumes "reachable broker_start broker_step s" and "enumerates is (br_subs (bw_broker s))"
    and "br_close is s = Some t"
  shows "br_closed (bw_broker t) \<and> br_subs (bw_broker t) = Map.empty \<and>
     (\<forall>a ch. bw_heap s a = Some ch \<longrightarrow> bw_heap t a = Some (ch\<lparr>chan_closed := True\<rparr>)) \<and>
     (\<forall>js e. br_publish js e t = Some t) \<and>
     (\<exists>sub u ch. br_subscribe t = Some (sub, u) \<and> sub_cancel sub = None \<and>
        bw_heap u (sub_ch sub) = Some ch \<and> chan_recv ch = RecvClosed)"
proof -
  note inv = brk.reachable_inv [OF assms(1)]
  have inv': "broker_inv t" by (rule inv_close [OF inv assms(2,3)])
  have closed: "br_closed (bw_broker t)"
    using br_close_eq [OF inv assms(2)] assms(3)
    by (cases "br_closed (bw_broker s)") (auto simp: br_close_def)
  then have none: "br_subs (bw_broker t) = Map.empty" by (rule broker_invD(2) [OF inv'])
  have "bw_heap t a = Some (ch\<lparr>chan_closed := True\<rparr>)" if h: "bw_heap s a = Some ch" for a ch
  proof -
    have "bw_heap t a = Some ch \<or> bw_heap t a = Some (shut ch)"
      using br_close_eq [OF inv assms(2)] assms(3) h
      by (cases "br_closed (bw_broker s)") (auto simp: br_close_def pass_heap split: if_splits)
    then show ?thesis
      using broker_invD(6) [OF inv', of a] none by (auto simp: chan_ok_def shut_def)
  qed
  moreover have "\<exists>sub u ch. br_subscribe t = Some (sub, u) \<and> sub_cancel sub = None \<and>
        bw_heap u (sub_ch sub) = Some ch \<and> chan_recv ch = RecvClosed"
    using closed by (simp add: br_subscribe_def alloc_chan_def close_addr_def chan_simps chan_recv_def)
  ultimately show ?thesis using closed none by (auto simp: br_publish_def)
qed

theorem broker_close_final_witness:
  "\<exists>t. br_close [1] (demo_state [8] [7] [7, 8]) = Some t \<and>
     bw_heap t 0 = Some \<lparr>chan_buf = [8], chan_cap = 128, chan_closed = True\<rparr>"
proof -
  let ?s = "demo_state [8] [7] [7, 8]"
  obtain t where t: "br_close [1] ?s = Some t"
    using br_close_eq [OF brk.reachable_inv [OF demo_run] demo_enumerates] by (auto simp: demo_state_def)
  from broker_close_final [OF demo_run demo_enumerates t] t show ?thesis
    by (auto simp: demo_state_def sub_buffer_def)
qed

end
