(* ===== verification/GoText.thy ===== *)
theory GoText imports Prelude begin

text \<open>
  Go strings are byte sequences, and so is \<^typ>\<open>string\<close> here: one character is one byte.  The
  theory models the operations of the packages \<^verbatim>\<open>strings\<close>, \<^verbatim>\<open>bytes\<close>, \<^verbatim>\<open>strconv\<close> and
  \<^verbatim>\<open>unicode/utf8\<close> that the client calls: prefix, suffix and substring tests, trimming of
  Unicode white space, UTF-8 validation with replacement of invalid bytes, and decimal numbers.
\<close>

section \<open>Prefixes, suffixes, substrings\<close>

definition code :: "char \<Rightarrow> nat" where
  "code c = of_char c"

lemma code_less [simp]: "code c < 256"
  unfolding code_def by (rule nat_of_char_less_256)

lemma char_of_code [simp]: "char_of (code c) = c"
  by (simp add: code_def)

lemma code_inject: "code c = code d \<longleftrightarrow> c = d"
  by (simp add: code_def)

definition has_prefix :: "string \<Rightarrow> string \<Rightarrow> bool" where
  "has_prefix p s \<longleftrightarrow> take (length p) s = p"

definition has_suffix :: "string \<Rightarrow> string \<Rightarrow> bool" where
  "has_suffix p s \<longleftrightarrow> has_prefix (rev p) (rev s)"

definition trim_prefix :: "string \<Rightarrow> string \<Rightarrow> string" where
  "trim_prefix p s = (if has_prefix p s then drop (length p) s else s)"

definition trim_suffix :: "string \<Rightarrow> string \<Rightarrow> string" where
  "trim_suffix p s = rev (trim_prefix (rev p) (rev s))"

fun contains :: "string \<Rightarrow> string \<Rightarrow> bool" where
  "contains p [] \<longleftrightarrow> p = []"
| "contains p (c # s) \<longleftrightarrow> has_prefix p (c # s) \<or> contains p s"

lemma has_prefix_iff: "has_prefix p s \<longleftrightarrow> (\<exists>t. s = p @ t)"
  unfolding has_prefix_def by (metis append_eq_conv_conj append_take_drop_id)

lemma has_prefix_append [simp]: "has_prefix p (p @ t)"
  by (simp add: has_prefix_def)

lemma trim_prefix_append [simp]: "trim_prefix p (p @ t) = t"
  by (simp add: trim_prefix_def)

lemma has_suffix_iff: "has_suffix p s \<longleftrightarrow> (\<exists>t. s = t @ p)"
  unfolding has_suffix_def has_prefix_iff by (metis rev_append rev_rev_ident)

lemma trim_suffix_append [simp]: "trim_suffix p (t @ p) = t"
  by (simp add: trim_suffix_def)

lemma contains_iff: "contains p s \<longleftrightarrow> (\<exists>a b. s = a @ p @ b)"
proof (induction s)
  case (Cons c s)
  show ?case
  proof
    assume "contains p (c # s)"
    then show "\<exists>a b. c # s = a @ p @ b"
      using Cons.IH by (auto simp: has_prefix_iff intro: exI [of _ "[]"]) (metis append_Cons)
  next
    assume "\<exists>a b. c # s = a @ p @ b"
    then obtain a b where "c # s = a @ p @ b" by blast
    then show "contains p (c # s)"
    proof (cases a)
      case Nil
      with \<open>c # s = a @ p @ b\<close> show ?thesis by (metis append_Nil contains.simps(2) has_prefix_append)
    next
      case (Cons d a')
      with \<open>c # s = a @ p @ b\<close> Cons.IH show ?thesis by auto
    qed
  qed
qed simp

section \<open>White space\<close>

text \<open>\<^verbatim>\<open>unicode.IsSpace\<close>, by the length of the encoding of the character.\<close>

definition space1 :: "char \<Rightarrow> bool" where
  "space1 c \<longleftrightarrow> code c = 32 \<or> (9 \<le> code c \<and> code c \<le> 13)"

definition space2 :: "char \<Rightarrow> char \<Rightarrow> bool" where
  "space2 c d \<longleftrightarrow> code c = 0xC2 \<and> (code d = 0x85 \<or> code d = 0xA0)"

definition space3 :: "char \<Rightarrow> char \<Rightarrow> char \<Rightarrow> bool" where
  "space3 c d e \<longleftrightarrow>
     (code c = 0xE1 \<and> code d = 0x9A \<and> code e = 0x80) \<or>
     (code c = 0xE2 \<and> code d = 0x80 \<and>
        ((0x80 \<le> code e \<and> code e \<le> 0x8A) \<or> code e = 0xA8 \<or> code e = 0xA9 \<or> code e = 0xAF)) \<or>
     (code c = 0xE2 \<and> code d = 0x81 \<and> code e = 0x9F) \<or>
     (code c = 0xE3 \<and> code d = 0x80 \<and> code e = 0x80)"

fun trim_left :: "string \<Rightarrow> string" where
  "trim_left [] = []"
| "trim_left [c] = (if space1 c then [] else [c])"
| "trim_left [c, d] =
     (if space1 c then trim_left [d] else if space2 c d then [] else [c, d])"
| "trim_left (c # d # e # s) =
     (if space1 c then trim_left (d # e # s)
      else if space2 c d then trim_left (e # s)
      else if space3 c d e then trim_left s
      else c # d # e # s)"

text \<open>Trimming on the right reads the last encoded character, so it scans the reversed bytes.\<close>

fun trim_last :: "string \<Rightarrow> string" where
  "trim_last [] = []"
| "trim_last [c] = (if space1 c then [] else [c])"
| "trim_last [d, c] =
     (if space1 d then trim_last [c] else if space2 c d then [] else [d, c])"
| "trim_last (e # d # c # s) =
     (if space1 e then trim_last (d # c # s)
      else if space2 d e then trim_last (c # s)
      else if space3 c d e then trim_last s
      else e # d # c # s)"

definition trim_right :: "string \<Rightarrow> string" where
  "trim_right s = rev (trim_last (rev s))"

definition trim_space :: "string \<Rightarrow> string" where
  "trim_space s = trim_right (trim_left s)"

lemma trim_left_suffix: "suffix (trim_left s) s"
  by (induction s rule: trim_left.induct) (auto simp: suffix_ConsI)

lemma trim_last_suffix: "suffix (trim_last s) s"
  by (induction s rule: trim_last.induct) (auto simp: suffix_ConsI)

lemma trim_right_prefix: "prefix (trim_right s) s"
  using trim_last_suffix [of "rev s"] by (simp add: trim_right_def suffix_to_prefix)

lemma trim_left_idem: "trim_left (trim_left s) = trim_left s"
  by (induction s rule: trim_left.induct) auto

lemma trim_last_idem: "trim_last (trim_last s) = trim_last s"
  by (induction s rule: trim_last.induct) auto

lemma trim_left_take: "trim_left s = s \<Longrightarrow> trim_left (take n s) = take n s"
proof (cases s rule: trim_left.cases)
  case (4 c d e t)
  assume fixed: "trim_left s = s"
  have "\<not> space1 c \<and> \<not> space2 c d \<and> \<not> space3 c d e"
  proof -
    have "length (trim_left (d # e # t)) \<le> Suc (Suc (length t))"
      "length (trim_left (e # t)) \<le> Suc (length t)" "length (trim_left t) \<le> length t"
      using trim_left_suffix [THEN suffix_length_le] by (metis length_Cons)+
    with fixed 4 show ?thesis by (auto split: if_splits)
  qed
  then show ?thesis by (cases n; cases "n - 1"; cases "n - 2") (auto simp: 4)
qed (auto simp: take_Cons split: nat.splits if_splits)

lemma trim_space_idem: "trim_space (trim_space s) = trim_space s"
proof -
  obtain n where n: "trim_right (trim_left s) = take n (trim_left s)"
    using trim_right_prefix [of "trim_left s"] by (metis append_eq_conv_conj prefix_def)
  have "trim_left (trim_right (trim_left s)) = trim_right (trim_left s)"
    unfolding n by (rule trim_left_take) (rule trim_left_idem)
  then show ?thesis by (simp add: trim_space_def) (simp add: trim_right_def trim_last_idem)
qed

lemma trim_space_length: "length (trim_space s) \<le> length s"
  using trim_right_prefix [of "trim_left s"] trim_left_suffix [of s]
  by (metis trim_space_def prefix_length_le suffix_length_le order_trans)

section \<open>UTF-8\<close>

text \<open>
  \<open>utf8_more s\<close> is the number of continuation bytes of the character at the head of \<open>s\<close>
  when it is well formed (\<^verbatim>\<open>utf8.DecodeRune\<close>): no overlong form, no surrogate, none above U+10FFFF.
\<close>

definition conts :: "nat \<Rightarrow> nat \<Rightarrow> nat \<Rightarrow> string \<Rightarrow> bool" where
  "conts lo hi k r \<longleftrightarrow>
     length (take k r) = k \<and> list_all (\<lambda>d. 128 \<le> code d \<and> code d \<le> 191) (take k r) \<and>
     list_all (\<lambda>d. lo \<le> code d \<and> code d \<le> hi) (take 1 (take k r))"

definition lead_bytes :: "nat \<Rightarrow> (nat \<times> nat \<times> nat) option" where
  "lead_bytes n =
     (if n < 128 then Some (0, 128, 191)
      else if 194 \<le> n \<and> n \<le> 223 then Some (1, 128, 191)
      else if n = 224 then Some (2, 160, 191)
      else if n = 237 then Some (2, 128, 159)
      else if 225 \<le> n \<and> n \<le> 239 then Some (2, 128, 191)
      else if n = 240 then Some (3, 144, 191)
      else if 241 \<le> n \<and> n \<le> 243 then Some (3, 128, 191)
      else if n = 244 then Some (3, 128, 143)
      else None)"

definition utf8_more :: "char \<Rightarrow> string \<Rightarrow> nat option" where
  "utf8_more c r =
     (case lead_bytes (code c) of
        None \<Rightarrow> None
      | Some (k, lo, hi) \<Rightarrow> if conts lo hi k r then Some k else None)"

definition replacement_char :: string where
  "replacement_char = [CHR 0xEF, CHR 0xBF, CHR 0xBD]"

fun coerce_utf8 :: "nat \<Rightarrow> string \<Rightarrow> string" where
  "coerce_utf8 k [] = []"
| "coerce_utf8 (Suc k) (c # r) = c # coerce_utf8 k r"
| "coerce_utf8 0 (c # r) =
     (case utf8_more c r of
        Some k \<Rightarrow> c # coerce_utf8 k r
      | None \<Rightarrow> replacement_char @ coerce_utf8 0 r)"

definition valid_utf8 :: "string \<Rightarrow> bool" where
  "valid_utf8 s \<longleftrightarrow> coerce_utf8 0 s = s"

lemma conts_take: "take k r = take k r' \<Longrightarrow> conts lo hi k r = conts lo hi k r'"
  by (simp add: conts_def)

lemma utf8_more_take:
  "utf8_more c r = Some k \<Longrightarrow> take k r' = take k r \<Longrightarrow> utf8_more c r' = Some k"
  using conts_take [of k r' r] by (auto simp: utf8_more_def split: option.splits if_splits)

lemma utf8_more_len: "utf8_more c r = Some k \<Longrightarrow> k \<le> length r"
  by (auto simp: utf8_more_def conts_def split: option.splits if_splits)

lemma utf8_more_ascii: "code c < 128 \<Longrightarrow> utf8_more c r = Some 0"
  by (simp add: utf8_more_def lead_bytes_def conts_def)

lemma coerce_ascii: "\<forall>c\<in>set s. code c < 128 \<Longrightarrow> coerce_utf8 0 s = s"
  by (induction s) (simp_all add: utf8_more_ascii)

lemma valid_utf8_Nil [simp]: "valid_utf8 []"
  by (simp add: valid_utf8_def)

lemma valid_utf8_ascii: "code c < 128 \<Longrightarrow> valid_utf8 (c # s) \<longleftrightarrow> valid_utf8 s"
  by (simp add: valid_utf8_def utf8_more_ascii)

text \<open>\<^verbatim>\<open>utf8.EncodeRune\<close> for a scalar value.\<close>

definition utf8_encode :: "nat \<Rightarrow> string" where
  "utf8_encode n =
     (if n < 0x80 then [char_of n]
      else if n < 0x800 then [char_of (0xC0 + n div 64), char_of (0x80 + n mod 64)]
      else if n < 0x10000 then
        [char_of (0xE0 + n div 4096), char_of (0x80 + n div 64 mod 64), char_of (0x80 + n mod 64)]
      else
        [char_of (0xF0 + n div 262144), char_of (0x80 + n div 4096 mod 64),
         char_of (0x80 + n div 64 mod 64), char_of (0x80 + n mod 64)])"

section \<open>Decimal numbers\<close>

definition is_digit :: "char \<Rightarrow> bool" where
  "is_digit c \<longleftrightarrow> 48 \<le> code c \<and> code c \<le> 57"

definition digit_char :: "nat \<Rightarrow> char" where
  "digit_char d = char_of (48 + d)"

fun show_nat :: "nat \<Rightarrow> string" where
  "show_nat n = (if n < 10 then [digit_char n] else show_nat (n div 10) @ [digit_char (n mod 10)])"

declare show_nat.simps [simp del]

definition show_int :: "int \<Rightarrow> string" where
  "show_int i = (if i < 0 then CHR ''-'' # show_nat (nat (- i)) else show_nat (nat i))"

definition digits_val :: "string \<Rightarrow> nat" where
  "digits_val ds = foldl (\<lambda>n d. 10 * n + (code d - 48)) 0 ds"

text \<open>\<^verbatim>\<open>strconv.ParseUint(s, 10, 64)\<close> and \<^verbatim>\<open>strconv.ParseInt(s, 10, 64)\<close>.\<close>

definition parse_uint64 :: "string \<Rightarrow> u64 option" where
  "parse_uint64 s =
     (if s \<noteq> [] \<and> list_all is_digit s \<and> digits_val s < 2 ^ 64
      then Some (word_of_nat (digits_val s)) else None)"

definition parse_int64 :: "string \<Rightarrow> int option" where
  "parse_int64 s =
     (case s of
        [] \<Rightarrow> None
      | c # r \<Rightarrow>
          let neg = (c = CHR ''-''); ds = (if neg \<or> c = CHR ''+'' then r else s)
          in if ds \<noteq> [] \<and> list_all is_digit ds then
               (if neg then (if digits_val ds \<le> 2 ^ 63 then Some (- int (digits_val ds)) else None)
                else (if digits_val ds < 2 ^ 63 then Some (int (digits_val ds)) else None))
             else None)"

lemma is_digit_digit_char [simp]: "d < 10 \<Longrightarrow> is_digit (digit_char d)"
  by (simp add: is_digit_def digit_char_def code_def)

lemma code_digit_char [simp]: "d < 10 \<Longrightarrow> code (digit_char d) = 48 + d"
  by (simp add: digit_char_def code_def)

lemma show_nat_nonempty [simp]: "show_nat n \<noteq> []"
  by (subst show_nat.simps) simp

lemma show_nat_digits: "list_all is_digit (show_nat n)"
proof (induction n rule: show_nat.induct)
  case (1 n)
  then show ?case by (subst show_nat.simps) simp
qed

lemma digits_val_show_nat: "digits_val (show_nat n) = n"
proof (induction n rule: show_nat.induct)
  case (1 n)
  then show ?case by (subst show_nat.simps) (simp add: digits_val_def)
qed

lemma parse_uint64_show: "parse_uint64 (show_nat (unat w)) = Some w"
proof -
  have "unat w < 2 ^ LENGTH(64)" by (rule unsigned_less)
  then show ?thesis by (simp add: parse_uint64_def show_nat_digits digits_val_show_nat)
qed

lemma show_nat_head: "\<exists>c r. show_nat n = c # r \<and> is_digit c"
  using show_nat_nonempty [of n] show_nat_digits [of n] by (cases "show_nat n") auto

lemma parse_int64_show:
  assumes "- (2 ^ 63) \<le> i" and "i < 2 ^ 63"
  shows "parse_int64 (show_int i) = Some i"
proof (cases "i < 0")
  case True
  with assms show ?thesis
    by (simp add: parse_int64_def show_int_def show_nat_digits digits_val_show_nat)
next
  case False
  obtain c r where cr: "show_nat (nat i) = c # r" "is_digit c" using show_nat_head by blast
  then have "c \<noteq> CHR ''-''" "c \<noteq> CHR ''+''" by (auto simp: is_digit_def code_def)
  with False assms cr show_nat_digits [of "nat i"] digits_val_show_nat [of "nat i"] show ?thesis
    by (auto simp: parse_int64_def show_int_def)
qed

lemma trim_left_ascii: "code c < 128 \<Longrightarrow> \<not> space1 c \<Longrightarrow> trim_left (c # s) = c # s"
  by (cases s rule: trim_left.cases; cases s) (auto simp: space2_def space3_def split: list.splits)

lemma trim_last_ascii: "code c < 128 \<Longrightarrow> \<not> space1 c \<Longrightarrow> trim_last (c # s) = c # s"
  by (cases s rule: trim_last.cases; cases s) (auto simp: space2_def space3_def split: list.splits)

lemma trim_space_ends:
  "code c < 128 \<Longrightarrow> \<not> space1 c \<Longrightarrow> code d < 128 \<Longrightarrow> \<not> space1 d \<Longrightarrow>
     trim_space (c # s @ [d]) = c # s @ [d]"
  by (simp add: trim_space_def trim_right_def trim_left_ascii trim_last_ascii)

end
