(* ===== verification/Json.thy ===== *)
theory Json imports GoText "HOL-Library.Char_ord" "HOL-Library.List_Lexorder" begin

text \<open>
  JSON documents as \<^verbatim>\<open>encoding/json\<close> sees them.  A number keeps the text of its literal, as
  \<^verbatim>\<open>json.Number\<close> and \<^verbatim>\<open>json.RawMessage\<close> do; an object keeps its members in the order of the
  text, duplicates included.  A \<^verbatim>\<open>json.RawMessage\<close> is represented by the document it holds
  (\<^verbatim>\<open>None\<close> for an empty one), so only insignificant white space and the spelling of string
  escapes are forgotten.
\<close>

datatype json =
    JNull
  | JBool bool
  | JNum string
  | JStr string
  | JArr "json list"
  | JObj "(string \<times> json) list"

type_synonym raw = "json option"

section \<open>Looking members up\<close>

text \<open>
  Decoding into a Go map keeps the last of several members with one key; decoding into a struct
  compares the keys with the field names exactly first and case-insensitively second.  The folding
  also maps the Kelvin sign and the long s to \<^verbatim>\<open>K\<close> and \<^verbatim>\<open>S\<close>.
\<close>

definition map_get :: "string \<Rightarrow> (string \<times> json) list \<Rightarrow> json option" where
  "map_get k ms = map_of (rev ms) k"

fun fold_name :: "string \<Rightarrow> string" where
  "fold_name [] = []"
| "fold_name (c # r) =
     (if code c = 0xE2 \<and> map code (take 2 r) = [0x84, 0xAA] then CHR ''K'' # fold_name (drop 2 r)
      else if code c = 0xC5 \<and> map code (take 1 r) = [0xBF] then CHR ''S'' # fold_name (drop 1 r)
      else if 97 \<le> code c \<and> code c \<le> 122 then char_of (code c - 32) # fold_name r
      else c # fold_name r)"

fun index_where :: "('a \<Rightarrow> bool) \<Rightarrow> 'a list \<Rightarrow> nat option" where
  "index_where P [] = None"
| "index_where P (x # xs) = (if P x then Some 0 else map_option Suc (index_where P xs))"

definition match_name :: "string list \<Rightarrow> string \<Rightarrow> nat option" where
  "match_name names k =
     (case index_where (\<lambda>n. n = k) names of
        Some i \<Rightarrow> Some i
      | None \<Rightarrow> index_where (\<lambda>n. fold_name n = fold_name k) names)"

definition names_ok :: "string list \<Rightarrow> bool" where
  "names_ok names \<longleftrightarrow> distinct (map fold_name names)"

lemma index_where_Some:
  "index_where P xs = Some i \<Longrightarrow> i < length xs \<and> P (xs ! i)"
  by (induction xs arbitrary: i) (auto split: if_splits)

lemma index_where_None: "index_where P xs = None \<longleftrightarrow> (\<forall>x\<in>set xs. \<not> P x)"
  by (induction xs) auto

lemma match_name_less: "match_name names k = Some i \<Longrightarrow> i < length names"
  by (auto simp: match_name_def split: option.splits dest: index_where_Some)

lemma match_name_nth:
  assumes "distinct names" and "i < length names"
  shows "match_name names (names ! i) = Some i"
proof -
  have "index_where (\<lambda>n. n = names ! i) names \<noteq> None"
    using assms(2) by (auto simp: index_where_None)
  then obtain j where j: "index_where (\<lambda>n. n = names ! i) names = Some j" by auto
  from index_where_Some [OF j] assms have "j = i" by (auto simp: distinct_conv_nth)
  with j show ?thesis by (simp add: match_name_def)
qed

lemma names_ok_distinct: "names_ok names \<Longrightarrow> distinct names"
  by (simp add: names_ok_def distinct_map)

text \<open>When no two names are equal up to case, matching is matching up to case.\<close>

lemma match_name_fold:
  assumes "names_ok names"
  shows "match_name names k = index_where (\<lambda>n. fold_name n = fold_name k) names"
proof (cases "index_where (\<lambda>n. n = k) names")
  case (Some i)
  from index_where_Some [OF Some] have i: "i < length names" "names ! i = k" by auto
  then have "index_where (\<lambda>n. fold_name n = fold_name k) names \<noteq> None"
    by (auto simp: index_where_None)
  then obtain j where j: "index_where (\<lambda>n. fold_name n = fold_name k) names = Some j" by auto
  from index_where_Some [OF j] i assms have "j = i"
    by (auto simp: names_ok_def distinct_conv_nth)
  with Some j show ?thesis by (simp add: match_name_def)
qed (simp add: match_name_def)

section \<open>Ordered association lists\<close>

text \<open>A Go map with string keys, represented by its entries in key order.\<close>

fun put :: "'k :: linorder \<Rightarrow> 'v \<Rightarrow> ('k \<times> 'v) list \<Rightarrow> ('k \<times> 'v) list" where
  "put k v [] = [(k, v)]"
| "put k v ((k', v') # kvs) =
     (if k < k' then (k, v) # (k', v') # kvs
      else if k = k' then (k, v) # kvs
      else (k', v') # put k v kvs)"

definition keys_sorted :: "('k :: linorder \<times> 'v) list \<Rightarrow> bool" where
  "keys_sorted kvs \<longleftrightarrow> sorted_wrt (<) (map fst kvs)"

lemma put_keys: "fst ` set (put k v kvs) = insert k (fst ` set kvs)"
  by (induction k v kvs rule: put.induct) auto

lemma keys_sorted_Cons:
  "keys_sorted ((k, v) # kvs) \<longleftrightarrow> (\<forall>x\<in>fst ` set kvs. k < x) \<and> keys_sorted kvs"
  by (simp add: keys_sorted_def)

lemma put_sorted [simp]: "keys_sorted kvs \<Longrightarrow> keys_sorted (put k v kvs)"
proof (induction k v kvs rule: put.induct)
  case (1 k v)
  then show ?case by (simp add: keys_sorted_def)
next
  case (2 k v k' v' kvs)
  then show ?case
    by (auto simp: keys_sorted_Cons put_keys simp del: image_iff intro: order.strict_trans)
qed

lemma put_map_of: "map_of (put k v kvs) = (map_of kvs)(k \<mapsto> v)"
  by (induction k v kvs rule: put.induct) auto

lemma put_append:
  "keys_sorted (kvs @ [(k, v)]) \<Longrightarrow> put k v kvs = kvs @ [(k, v)]"
  by (induction kvs) (auto simp: keys_sorted_Cons)

end
