(* ===== verification/GoStruct.thy ===== *)
theory GoStruct imports Json begin

text \<open>
  \<^verbatim>\<open>json.Marshal\<close> and \<^verbatim>\<open>json.Unmarshal\<close> driven by a type description, as \<^verbatim>\<open>encoding/json\<close> drives
  them by reflection.  The description of a struct lists its fields in order, each with the name
  of its tag, its \<^verbatim>\<open>omitempty\<close> flag and its type; a type with its own \<^verbatim>\<open>MarshalJSON\<close> and
  \<^verbatim>\<open>UnmarshalJSON\<close> is named, and the methods come from an environment; the latter is given the
  value it overwrites, \<^verbatim>\<open>VNil\<close> for a fresh one.  The wire types of the
  protocol are such descriptions, and the round trip is proved once for all of them.
\<close>

datatype gotype =
    TString | TBool | TInt nat | TUint | TFloat | TRaw | TAny
  | TPtr gotype
  | TSlice gotype
  | TMap gotype
  | TStruct "(string \<times> bool \<times> gotype) list"
  | TNamed string

type_synonym gofield = "string \<times> bool \<times> gotype"

datatype goval =
    VNil
  | VStr string
  | VBool bool
  | VInt int
  | VFloat string
  | VRaw json
  | VPtr goval
  | VSlice "goval list"
  | VMap "(string \<times> goval) list"
  | VStruct "goval list"

record codec =
  unmarshal :: "goval \<Rightarrow> json \<Rightarrow> goval option"
  marshal :: "goval \<Rightarrow> json"

type_synonym codecs = "string \<Rightarrow> codec"

fun zero :: "gotype \<Rightarrow> goval" where
  "zero TString = VStr []"
| "zero TBool = VBool False"
| "zero (TInt w) = VInt 0"
| "zero TUint = VInt 0"
| "zero TFloat = VFloat ''0''"
| "zero (TStruct fs) = VStruct (map (\<lambda>(n, om, t). zero t) fs)"
| "zero _ = VNil"

text \<open>What \<^verbatim>\<open>omitempty\<close> leaves out; a struct is never empty.\<close>

fun is_empty :: "goval \<Rightarrow> bool" where
  "is_empty VNil = True"
| "is_empty (VStr s) = (s = [])"
| "is_empty (VBool b) = (\<not> b)"
| "is_empty (VInt i) = (i = 0)"
| "is_empty (VFloat s) = (s = ''0'')"
| "is_empty (VSlice vs) = (vs = [])"
| "is_empty (VMap kvs) = (kvs = [])"
| "is_empty _ = False"

definition field_name :: "gofield \<Rightarrow> string" where
  "field_name f = fst f"

definition omit_empty :: "gofield \<Rightarrow> bool" where
  "omit_empty f = fst (snd f)"

definition field_type :: "gofield \<Rightarrow> gotype" where
  "field_type f = snd (snd f)"

lemma field_sel [simp]:
  "field_name (n, om, t) = n" "omit_empty (n, om, t) = om" "field_type (n, om, t) = t"
  by (simp_all add: field_name_def omit_empty_def field_type_def)

section \<open>Marshal\<close>

fun goenc :: "codecs \<Rightarrow> gotype \<Rightarrow> goval \<Rightarrow> json"
and enc_fields :: "codecs \<Rightarrow> gofield list \<Rightarrow> goval list \<Rightarrow> (string \<times> json) list"
and enc_elems :: "codecs \<Rightarrow> gotype \<Rightarrow> goval list \<Rightarrow> json list"
and enc_entries :: "codecs \<Rightarrow> gotype \<Rightarrow> (string \<times> goval) list \<Rightarrow> (string \<times> json) list" where
  "goenc env (TNamed n) v = marshal (env n) v"
| "goenc env (TPtr t) v = (case v of VPtr v' \<Rightarrow> goenc env t v' | _ \<Rightarrow> JNull)"
| "goenc env TString v = (case v of VStr s \<Rightarrow> JStr (coerce_utf8 0 s) | _ \<Rightarrow> JNull)"
| "goenc env TBool v = (case v of VBool b \<Rightarrow> JBool b | _ \<Rightarrow> JNull)"
| "goenc env (TInt w) v = (case v of VInt i \<Rightarrow> JNum (show_int i) | _ \<Rightarrow> JNull)"
| "goenc env TUint v = (case v of VInt i \<Rightarrow> JNum (show_int i) | _ \<Rightarrow> JNull)"
| "goenc env TFloat v = (case v of VFloat s \<Rightarrow> JNum s | _ \<Rightarrow> JNull)"
| "goenc env TRaw v = (case v of VRaw j \<Rightarrow> j | _ \<Rightarrow> JNull)"
| "goenc env TAny v = (case v of VRaw j \<Rightarrow> j | _ \<Rightarrow> JNull)"
| "goenc env (TSlice t) v = (case v of VSlice vs \<Rightarrow> JArr (enc_elems env t vs) | _ \<Rightarrow> JNull)"
| "goenc env (TMap t) v = (case v of VMap kvs \<Rightarrow> JObj (enc_entries env t kvs) | _ \<Rightarrow> JNull)"
| "goenc env (TStruct fs) v = (case v of VStruct vs \<Rightarrow> JObj (enc_fields env fs vs) | _ \<Rightarrow> JNull)"
| "enc_fields env (f # fs) (v # vs) =
     (if omit_empty f \<and> is_empty v then enc_fields env fs vs
      else (field_name f, goenc env (field_type f) v) # enc_fields env fs vs)"
| "enc_fields env [] vs = []"
| "enc_fields env (f # fs) [] = []"
| "enc_elems env t [] = []"
| "enc_elems env t (v # vs) = goenc env t v # enc_elems env t vs"
| "enc_entries env t [] = []"
| "enc_entries env t ((k, v) # kvs) = (coerce_utf8 0 k, goenc env t v) # enc_entries env t kvs"

section \<open>Unmarshal\<close>

text \<open>
  The second argument is the value the decoder writes into.  A null leaves a value without a nil
  as it is; a member no field matches is ignored; a mismatch of types is an error.  A raw message
  keeps the document, null included.
\<close>

definition int_fits :: "nat \<Rightarrow> int \<Rightarrow> bool" where
  "int_fits w i \<longleftrightarrow> - (2 ^ (w - 1)) \<le> i \<and> i < 2 ^ (w - 1)"

definition dec_int :: "nat \<Rightarrow> string \<Rightarrow> goval option" where
  "dec_int w s =
     (case parse_int64 s of
        None \<Rightarrow> None
      | Some i \<Rightarrow> if int_fits w i then Some (VInt i) else None)"

function godec :: "codecs \<Rightarrow> gotype \<Rightarrow> goval \<Rightarrow> json \<Rightarrow> goval option"
and dec_fields :: "codecs \<Rightarrow> gofield list \<Rightarrow> goval list \<Rightarrow> (string \<times> json) list \<Rightarrow> goval list option"
and dec_elems :: "codecs \<Rightarrow> gotype \<Rightarrow> json list \<Rightarrow> goval list option"
and dec_entries :: "codecs \<Rightarrow> gotype \<Rightarrow> (string \<times> goval) list \<Rightarrow> (string \<times> json) list \<Rightarrow>
    (string \<times> goval) list option" where
  "godec env (TNamed n) cur j = unmarshal (env n) cur j"
| "godec env TRaw cur j = Some (VRaw j)"
| "godec env TAny cur j = Some (if j = JNull then VNil else VRaw j)"
| "godec env (TPtr t) cur j =
     (if j = JNull then Some VNil
      else map_option VPtr (godec env t (case cur of VPtr v \<Rightarrow> v | _ \<Rightarrow> zero t) j))"
| "godec env TString cur j =
     (case j of JStr s \<Rightarrow> Some (VStr s) | JNull \<Rightarrow> Some cur | _ \<Rightarrow> None)"
| "godec env TBool cur j =
     (case j of JBool b \<Rightarrow> Some (VBool b) | JNull \<Rightarrow> Some cur | _ \<Rightarrow> None)"
| "godec env (TInt w) cur j =
     (case j of JNum s \<Rightarrow> dec_int w s | JNull \<Rightarrow> Some cur | _ \<Rightarrow> None)"
| "godec env TUint cur j =
     (case j of JNum s \<Rightarrow> map_option (\<lambda>u. VInt (uint u)) (parse_uint64 s)
      | JNull \<Rightarrow> Some cur | _ \<Rightarrow> None)"
| "godec env TFloat cur j =
     (case j of JNum s \<Rightarrow> Some (VFloat s) | JNull \<Rightarrow> Some cur | _ \<Rightarrow> None)"
| "godec env (TSlice t) cur j =
     (case j of JArr js \<Rightarrow> map_option VSlice (dec_elems env t js)
      | JNull \<Rightarrow> Some VNil | _ \<Rightarrow> None)"
| "godec env (TMap t) cur j =
     (case j of
        JObj ms \<Rightarrow> map_option VMap (dec_entries env t (case cur of VMap kvs \<Rightarrow> kvs | _ \<Rightarrow> []) ms)
      | JNull \<Rightarrow> Some VNil | _ \<Rightarrow> None)"
| "godec env (TStruct fs) cur j =
     (case j of
        JObj ms \<Rightarrow> map_option VStruct
          (dec_fields env fs (case cur of VStruct vs \<Rightarrow> vs | _ \<Rightarrow> map (\<lambda>f. zero (field_type f)) fs) ms)
      | JNull \<Rightarrow> Some cur | _ \<Rightarrow> None)"
| "dec_fields env fs vs [] = Some vs"
| "dec_fields env fs vs ((k, j) # ms) =
     (case match_name (map field_name fs) k of
        None \<Rightarrow> dec_fields env fs vs ms
      | Some i \<Rightarrow>
          (case godec env (field_type (fs ! i)) (vs ! i) j of
             None \<Rightarrow> None
           | Some v \<Rightarrow> dec_fields env fs (vs[i := v]) ms))"
| "dec_elems env t [] = Some []"
| "dec_elems env t (j # js) =
     (case godec env t (zero t) j of
        None \<Rightarrow> None
      | Some v \<Rightarrow> map_option ((#) v) (dec_elems env t js))"
| "dec_entries env t kvs [] = Some kvs"
| "dec_entries env t kvs ((k, j) # ms) =
     (case godec env t (zero t) j of
        None \<Rightarrow> None
      | Some v \<Rightarrow> dec_entries env t (put k v kvs) ms)"
  by pat_completeness auto

termination
  by (relation "measures
      [\<lambda>x. case x of Inl (Inl (env, t, cur, j)) \<Rightarrow> size j
                   | Inl (Inr (env, fs, vs, ms)) \<Rightarrow> size_list (size_prod (\<lambda>_. 0) size) ms
                   | Inr (Inl (env, t, js)) \<Rightarrow> size_list size js
                   | Inr (Inr (env, t, kvs, ms)) \<Rightarrow> size_list (size_prod (\<lambda>_. 0) size) ms,
       \<lambda>x. case x of Inl (Inl (env, t, cur, j)) \<Rightarrow> size t | _ \<Rightarrow> 0]") auto

definition json_unmarshal :: "codecs \<Rightarrow> gotype \<Rightarrow> json \<Rightarrow> goval option" where
  "json_unmarshal env t j = godec env t (zero t) j"

section \<open>Round trip\<close>

text \<open>A description is well formed when no struct of it has two fields that a key could both mean.\<close>

fun type_ok :: "gotype \<Rightarrow> bool" where
  "type_ok (TPtr t) = type_ok t"
| "type_ok (TSlice t) = type_ok t"
| "type_ok (TMap t) = type_ok t"
| "type_ok (TStruct fs) \<longleftrightarrow>
     names_ok (map (\<lambda>(n, om, t). n) fs) \<and> list_all (\<lambda>(n, om, t). type_ok t) fs"
| "type_ok _ = True"

lemma type_ok_struct:
  "type_ok (TStruct fs) \<longleftrightarrow> names_ok (map field_name fs) \<and> list_all (\<lambda>f. type_ok (field_type f)) fs"
  by (simp add: field_name_def [abs_def] field_type_def case_prod_unfold)

text \<open>
  The values of a type that a decoder can produce: strings are UTF-8, integers fit, maps are in
  key order, an omitted field holds its zero value, and a pointer does not point to something that
  is written as null.
\<close>

fun wt :: "codecs \<Rightarrow> gotype \<Rightarrow> goval \<Rightarrow> bool"
and wt_fields :: "codecs \<Rightarrow> gofield list \<Rightarrow> goval list \<Rightarrow> bool"
and wt_elems :: "codecs \<Rightarrow> gotype \<Rightarrow> goval list \<Rightarrow> bool"
and wt_entries :: "codecs \<Rightarrow> gotype \<Rightarrow> (string \<times> goval) list \<Rightarrow> bool" where
  "wt env (TNamed n) v = (unmarshal (env n) VNil (marshal (env n) v) = Some v)"
| "wt env (TPtr t) v =
     (case v of VNil \<Rightarrow> True | VPtr v' \<Rightarrow> wt env t v' \<and> goenc env t v' \<noteq> JNull | _ \<Rightarrow> False)"
| "wt env TString v = (case v of VStr s \<Rightarrow> valid_utf8 s | _ \<Rightarrow> False)"
| "wt env TBool v = (case v of VBool b \<Rightarrow> True | _ \<Rightarrow> False)"
| "wt env (TInt w) v = (case v of VInt i \<Rightarrow> 0 < w \<and> w \<le> 64 \<and> int_fits w i | _ \<Rightarrow> False)"
| "wt env TUint v = (case v of VInt i \<Rightarrow> 0 \<le> i \<and> i < 2 ^ 64 | _ \<Rightarrow> False)"
| "wt env TFloat v = (case v of VFloat s \<Rightarrow> True | _ \<Rightarrow> False)"
| "wt env TRaw v = (case v of VRaw j \<Rightarrow> True | _ \<Rightarrow> False)"
| "wt env TAny v = (case v of VNil \<Rightarrow> True | VRaw j \<Rightarrow> j \<noteq> JNull | _ \<Rightarrow> False)"
| "wt env (TSlice t) v = (case v of VNil \<Rightarrow> True | VSlice vs \<Rightarrow> wt_elems env t vs | _ \<Rightarrow> False)"
| "wt env (TMap t) v =
     (case v of VNil \<Rightarrow> True | VMap kvs \<Rightarrow> keys_sorted kvs \<and> wt_entries env t kvs | _ \<Rightarrow> False)"
| "wt env (TStruct fs) v =
     (case v of VStruct vs \<Rightarrow> wt_fields env fs vs | _ \<Rightarrow> False)"
| "wt_fields env [] vs = (vs = [])"
| "wt_fields env (f # fs) vs =
     (case vs of [] \<Rightarrow> False
      | v # vs' \<Rightarrow>
          (if omit_empty f \<and> is_empty v then v = zero (field_type f) else wt env (field_type f) v) \<and>
          wt_fields env fs vs')"
| "wt_elems env t [] = True"
| "wt_elems env t (v # vs) = (wt env t v \<and> wt_elems env t vs)"
| "wt_entries env t [] = True"
| "wt_entries env t ((k, v) # kvs) = (valid_utf8 k \<and> wt env t v \<and> wt_entries env t kvs)"

lemma dec_int_show: "0 < w \<Longrightarrow> w \<le> 64 \<Longrightarrow> int_fits w i \<Longrightarrow> dec_int w (show_int i) = Some (VInt i)"
proof -
  assume w: "0 < w" "w \<le> 64" and i: "int_fits w i"
  have "(2::int) ^ (w - 1) \<le> 2 ^ 63" using w by (intro power_increasing) auto
  with i have "- (2 ^ 63) \<le> i" "i < 2 ^ 63" by (auto simp: int_fits_def)
  from parse_int64_show [OF this] i show ?thesis by (simp add: dec_int_def)
qed

lemma parse_uint64_show_int:
  assumes "0 \<le> i" and "i < 2 ^ 64"
  shows "map_option (\<lambda>u. VInt (uint u)) (parse_uint64 (show_int i)) = Some (VInt i)"
proof -
  let ?w = "word_of_int i :: u64"
  have u: "uint ?w = i" using assms by (simp add: uint_word_of_int)
  then have "unat ?w = nat i" by (metis unat_eq_nat_uint)
  then have "show_int i = show_nat (unat ?w)" using assms(1) by (simp add: show_int_def)
  then show ?thesis using parse_uint64_show [of ?w] u by simp
qed

lemma zero_struct: "zero (TStruct fs) = VStruct (map (\<lambda>f. zero (field_type f)) fs)"
  by (auto simp: field_type_def)

lemma dec_fields_head:
  assumes "distinct (map field_name (pre @ f # fs))" and "length vpre = length pre"
    and "godec env (field_type f) v0 j = Some v"
  shows "dec_fields env (pre @ f # fs) (vpre @ v0 # vs) ((field_name f, j) # ms)
      = dec_fields env (pre @ f # fs) (vpre @ v # vs) ms"
proof -
  have "match_name (map field_name (pre @ f # fs)) (field_name f) = Some (length pre)"
    using match_name_nth [OF assms(1), of "length pre"] by (simp add: nth_append)
  with assms(2,3) show ?thesis
    by (simp add: nth_append list_update_append)
qed

lemma put_done:
  "keys_sorted (done @ (k, v) # kvs) \<Longrightarrow> put k v done = done @ [(k, v)]"
  by (rule put_append) (simp add: keys_sorted_def sorted_wrt_append)

lemma dec_enc:
  shows "type_ok t \<Longrightarrow> wt env t v \<Longrightarrow> godec env t (zero t) (goenc env t v) = Some v"
    and "list_all (\<lambda>f. type_ok (field_type f)) fs \<Longrightarrow> wt_fields env fs vs \<Longrightarrow> distinct (map field_name (pre @ fs)) \<Longrightarrow> length vpre = length pre \<Longrightarrow>
      dec_fields env (pre @ fs) (vpre @ map (\<lambda>f. zero (field_type f)) fs) (enc_fields env fs vs) = Some (vpre @ vs)"
    and "type_ok t \<Longrightarrow> wt_elems env t vs \<Longrightarrow> dec_elems env t (enc_elems env t vs) = Some vs"
    and "type_ok t \<Longrightarrow> wt_entries env t kvs \<Longrightarrow> keys_sorted (done @ kvs) \<Longrightarrow>
      dec_entries env t done (enc_entries env t kvs) = Some (done @ kvs)"
proof (induction env t v and env fs vs and env t vs and env t kvs
    arbitrary: and pre vpre and and "done" rule: wt_wt_fields_wt_elems_wt_entries.induct)
  case (2 env t v)
  then show ?case by (cases v) auto
next
  case (3 env v)
  then show ?case by (cases v) (auto simp: valid_utf8_def)
next
  case (5 env w v)
  then show ?case by (cases v) (auto simp: dec_int_show)
next
  case (6 env v)
  then show ?case by (cases v) (auto simp: parse_uint64_show_int)
next
  case (12 env fs v)
  show ?case
  proof (cases v)
    case (VStruct vs)
    from 12(2) have ok: "names_ok (map field_name fs)" "list_all (\<lambda>f. type_ok (field_type f)) fs"
      by (simp_all only: type_ok_struct)
    from 12(3) VStruct have "wt_fields env fs vs" by simp
    with 12(1) [OF VStruct ok(2), of "[]" "[]"] ok VStruct show ?thesis
      by (simp add: zero_struct names_ok_distinct del: zero.simps)
  qed (use 12 in auto)
next
  case (14 env f fs vs)
  then obtain v vs' where vs: "vs = v # vs'" by (cases vs) auto
  let ?omit = "omit_empty f \<and> is_empty v"
  from 14 vs have w: "wt_fields env fs vs'" by simp
  have IH: "dec_fields env (pre @ f # fs) (vpre @ v # map (\<lambda>f. zero (field_type f)) fs) (enc_fields env fs vs')
      = Some (vpre @ v # vs')"
    using 14(2) [OF vs _ w, of "pre @ [f]" "vpre @ [v]"] 14(3,5,6) by simp
  show ?case
  proof (cases ?omit)
    case True
    with 14(4) vs have "v = zero (field_type f)" by simp
    with True IH vs show ?thesis by simp
  next
    case False
    with 14(4) vs have "wt env (field_type f) v" by auto
    moreover from 14(3) have "type_ok (field_type f)" by simp
    ultimately have "godec env (field_type f) (zero (field_type f)) (goenc env (field_type f) v) = Some v"
      using 14(1) [OF vs] False by blast
    note head = dec_fields_head [OF 14(5,6) this]
    have "enc_fields env (f # fs) vs = (field_name f, goenc env (field_type f) v) # enc_fields env fs vs'"
      using False vs by auto
    then show ?thesis using IH vs by (simp only: head list.map)
  qed
next
  case (18 env t k v kvs)
  from 18(5) have "keys_sorted ((done @ [(k, v)]) @ kvs)" by simp
  with 18 put_done [OF 18(5)] show ?case by (simp add: valid_utf8_def)
qed (auto split: goval.splits)

lemma unmarshal_marshal: "type_ok t \<Longrightarrow> wt env t v \<Longrightarrow> json_unmarshal env t (goenc env t v) = Some v"
  unfolding json_unmarshal_def by (rule dec_enc(1))

section \<open>Members no field matches\<close>

definition known_key :: "string list \<Rightarrow> string \<Rightarrow> bool" where
  "known_key names k \<longleftrightarrow> match_name names k \<noteq> None"

lemma dec_fields_known:
  "dec_fields env fs vs ms = dec_fields env fs vs (filter (\<lambda>m. known_key (map field_name fs) (fst m)) ms)"
proof (induction ms arbitrary: vs)
  case (Cons m ms)
  obtain k j where "m = (k, j)" by (cases m)
  with Cons show ?case by (auto simp: known_key_def split: option.splits)
qed simp

lemma unmarshal_known:
  "json_unmarshal env (TStruct fs) (JObj ms) =
   json_unmarshal env (TStruct fs) (JObj (filter (\<lambda>m. known_key (map field_name fs) (fst m)) ms))"
  using dec_fields_known [of env fs _ ms] by (simp add: json_unmarshal_def)

lemma unmarshal_known_cong:
  assumes "filter (\<lambda>m. known_key (map field_name fs) (fst m)) ms
         = filter (\<lambda>m. known_key (map field_name fs) (fst m)) ms'"
  shows "json_unmarshal env (TStruct fs) (JObj ms) = json_unmarshal env (TStruct fs) (JObj ms')"
  by (subst (1 2) unmarshal_known) (simp add: assms)

end
