(* ===== verification/JsonText.thy ===== *)
theory JsonText imports Json begin

text \<open>
  JSON text: the compact form \<^verbatim>\<open>json.Marshal\<close> and \<^verbatim>\<open>json.Encoder\<close> write, the parser behind
  \<^verbatim>\<open>json.Unmarshal\<close> and \<^verbatim>\<open>json.Decoder\<close>, and the round trip between them.
\<close>

section \<open>Writing\<close>

definition hex_digit :: "nat \<Rightarrow> char" where
  "hex_digit d = (if d < 10 then char_of (48 + d) else char_of (87 + d))"

definition u_escape :: "nat \<Rightarrow> string" where
  "u_escape n = CHR 0x5C # CHR ''u'' #
     map hex_digit [n div 4096 mod 16, n div 256 mod 16, n div 16 mod 16, n mod 16]"

text \<open>The flag is \<^verbatim>\<open>SetEscapeHTML\<close>; line and paragraph separators are always escaped.\<close>

definition esc_char :: "bool \<Rightarrow> char \<Rightarrow> string" where
  "esc_char h c =
     (if code c = 0x22 \<or> code c = 0x5C then [CHR 0x5C, c]
      else if code c = 8 then [CHR 0x5C, CHR ''b'']
      else if code c = 12 then [CHR 0x5C, CHR ''f'']
      else if code c = 10 then [CHR 0x5C, CHR ''n'']
      else if code c = 13 then [CHR 0x5C, CHR ''r'']
      else if code c = 9 then [CHR 0x5C, CHR ''t'']
      else if code c < 32 \<or> (h \<and> code c \<in> {0x3C, 0x3E, 0x26}) then u_escape (code c)
      else [c])"

fun enc_str :: "bool \<Rightarrow> string \<Rightarrow> string" where
  "enc_str h [] = []"
| "enc_str h (c # r) =
     (if code c = 0xE2 \<and> map code (take 2 r) = [0x80, 0xA8] then u_escape 0x2028 @ enc_str h (drop 2 r)
      else if code c = 0xE2 \<and> map code (take 2 r) = [0x80, 0xA9] then u_escape 0x2029 @ enc_str h (drop 2 r)
      else esc_char h c @ enc_str h r)"

definition quote :: "bool \<Rightarrow> string \<Rightarrow> string" where
  "quote h s = CHR 0x22 # enc_str h s @ [CHR 0x22]"

fun print_json :: "bool \<Rightarrow> json \<Rightarrow> string"
and print_elems :: "bool \<Rightarrow> json list \<Rightarrow> string"
and print_members :: "bool \<Rightarrow> (string \<times> json) list \<Rightarrow> string" where
  "print_json h JNull = ''null''"
| "print_json h (JBool b) = (if b then ''true'' else ''false'')"
| "print_json h (JNum s) = s"
| "print_json h (JStr s) = quote h s"
| "print_json h (JArr js) = CHR ''['' # print_elems h js @ '']''"
| "print_json h (JObj ms) = CHR ''{'' # print_members h ms @ ''}''"
| "print_elems h [] = []"
| "print_elems h [j] = print_json h j"
| "print_elems h (j # j' # js) = print_json h j @ CHR '','' # print_elems h (j' # js)"
| "print_members h [] = []"
| "print_members h [(k, j)] = quote h k @ CHR '':'' # print_json h j"
| "print_members h ((k, j) # m # ms) =
     quote h k @ CHR '':'' # print_json h j @ CHR '','' # print_members h (m # ms)"

section \<open>Reading strings\<close>

definition hex_val :: "char \<Rightarrow> nat option" where
  "hex_val c =
     (if is_digit c then Some (code c - 48)
      else if 97 \<le> code c \<and> code c \<le> 102 then Some (code c - 87)
      else if 65 \<le> code c \<and> code c \<le> 70 then Some (code c - 55)
      else None)"

fun hex4 :: "string \<Rightarrow> nat option" where
  "hex4 (a # b # c # d # r) =
     (case (hex_val a, hex_val b, hex_val c, hex_val d) of
        (Some x, Some y, Some z, Some w) \<Rightarrow> Some (4096 * x + 256 * y + 16 * z + w)
      | _ \<Rightarrow> None)"
| "hex4 _ = None"

definition is_surrogate :: "nat \<Rightarrow> bool" where
  "is_surrogate n \<longleftrightarrow> 0xD800 \<le> n \<and> n < 0xE000"

text \<open>
  What follows a high surrogate: the low one of a pair, if the next six characters spell it.  An
  unpaired surrogate becomes the replacement character.
\<close>

definition low_surrogate :: "string \<Rightarrow> nat option" where
  "low_surrogate r =
     (if take 2 r = [CHR 0x5C, CHR ''u''] then
        (case hex4 (drop 2 r) of
           Some l \<Rightarrow> if 0xDC00 \<le> l \<and> l < 0xE000 then Some l else None
         | None \<Rightarrow> None)
      else None)"

definition simple_escape :: "char \<Rightarrow> char option" where
  "simple_escape e =
     (if code e \<in> {0x22, 0x5C, 0x2F} then Some e
      else if e = CHR ''b'' then Some (CHR 0x08)
      else if e = CHR ''f'' then Some (CHR 0x0C)
      else if e = CHR ''n'' then Some (CHR 0x0A)
      else if e = CHR ''r'' then Some (CHR 0x0D)
      else if e = CHR ''t'' then Some (CHR 0x09)
      else None)"

function unescape :: "string \<Rightarrow> string option" where
  "unescape s =
     (case s of
        [] \<Rightarrow> Some []
      | c # r \<Rightarrow>
          if code c = 0x5C then
            (case r of
               [] \<Rightarrow> None
             | e # r' \<Rightarrow>
                 if e = CHR ''u'' then
                   (case hex4 r' of
                      None \<Rightarrow> None
                    | Some n \<Rightarrow>
                        if is_surrogate n then
                          (if n < 0xDC00 \<and> low_surrogate (drop 4 r') \<noteq> None then
                             map_option ((@) (utf8_encode (0x10000 + (n - 0xD800) * 1024
                                 + (the (low_surrogate (drop 4 r')) - 0xDC00))))
                               (unescape (drop 10 r'))
                           else map_option ((@) replacement_char) (unescape (drop 4 r')))
                        else map_option ((@) (utf8_encode n)) (unescape (drop 4 r')))
                 else
                   (case simple_escape e of
                      None \<Rightarrow> None
                    | Some x \<Rightarrow> map_option ((#) x) (unescape r')))
          else if code c < 32 \<or> code c = 0x22 then None
          else map_option ((#) c) (unescape r))"
  by pat_completeness auto
termination by (relation "measure length") auto

declare unescape.simps [simp del]

text \<open>The text up to the closing quote, and what follows it.\<close>

fun scan_str :: "string \<Rightarrow> (string \<times> string) option" where
  "scan_str [] = None"
| "scan_str (c # r) =
     (if code c = 0x22 then Some ([], r)
      else if code c = 0x5C then
        (case r of
           [] \<Rightarrow> None
         | e # r' \<Rightarrow> map_option (\<lambda>(s, t). (c # e # s, t)) (scan_str r'))
      else map_option (\<lambda>(s, t). (c # s, t)) (scan_str r))"

definition read_string :: "string \<Rightarrow> (string \<times> string) option" where
  "read_string r =
     (case scan_str r of
        None \<Rightarrow> None
      | Some (s, t) \<Rightarrow> map_option (\<lambda>u. (coerce_utf8 0 u, t)) (unescape s))"

section \<open>Reading values\<close>

definition is_ws :: "char \<Rightarrow> bool" where
  "is_ws c \<longleftrightarrow> code c \<in> {32, 9, 10, 13}"

definition skip_ws :: "string \<Rightarrow> string" where
  "skip_ws s = dropWhile is_ws s"

definition digits :: "string \<Rightarrow> string \<times> string" where
  "digits s = (takeWhile is_digit s, dropWhile is_digit s)"

definition digits1 :: "string \<Rightarrow> (string \<times> string) option" where
  "digits1 s = (if fst (digits s) = [] then None else Some (digits s))"

definition scan_int :: "string \<Rightarrow> (string \<times> string) option" where
  "scan_int s =
     (case s of
        [] \<Rightarrow> None
      | c # r \<Rightarrow> if c = CHR ''0'' then Some ([c], r) else digits1 s)"

definition scan_frac :: "string \<Rightarrow> (string \<times> string) option" where
  "scan_frac s =
     (case s of
        [] \<Rightarrow> Some ([], s)
      | c # r \<Rightarrow> if c = CHR ''.'' then map_option (\<lambda>(d, t). (c # d, t)) (digits1 r) else Some ([], s))"

definition scan_exp :: "string \<Rightarrow> (string \<times> string) option" where
  "scan_exp s =
     (case s of
        [] \<Rightarrow> Some ([], s)
      | c # r \<Rightarrow>
          if c = CHR ''e'' \<or> c = CHR ''E'' then
            (case r of
               [] \<Rightarrow> None
             | x # r' \<Rightarrow>
                 if x = CHR ''+'' \<or> x = CHR ''-''
                 then map_option (\<lambda>(d, t). (c # x # d, t)) (digits1 r')
                 else map_option (\<lambda>(d, t). (c # d, t)) (digits1 r))
          else Some ([], s))"

definition scan_unsigned :: "string \<Rightarrow> (string \<times> string) option" where
  "scan_unsigned s =
     (case scan_int s of
        None \<Rightarrow> None
      | Some (i, t) \<Rightarrow>
          (case scan_frac t of
             None \<Rightarrow> None
           | Some (f, u) \<Rightarrow> map_option (\<lambda>(e, v). (i @ f @ e, v)) (scan_exp u)))"

definition scan_num :: "string \<Rightarrow> (string \<times> string) option" where
  "scan_num s =
     (case s of
        [] \<Rightarrow> None
      | c # r \<Rightarrow> if c = CHR ''-'' then map_option (\<lambda>(n, t). (c # n, t)) (scan_unsigned r)
                else scan_unsigned s)"

text \<open>
  The parser of one value.  The first argument bounds the recursion and is never reached when it
  exceeds twice the length of the text; the second is the nesting that is still allowed (10000 in Go).
\<close>

definition parse_scalar :: "string \<Rightarrow> (json \<times> string) option" where
  "parse_scalar s =
     (if take 1 s = [CHR 0x22] then map_option (\<lambda>(u, t). (JStr u, t)) (read_string (drop 1 s))
      else if has_prefix ''null'' s then Some (JNull, drop 4 s)
      else if has_prefix ''true'' s then Some (JBool True, drop 4 s)
      else if has_prefix ''false'' s then Some (JBool False, drop 5 s)
      else map_option (\<lambda>(l, t). (JNum l, t)) (scan_num s))"

definition max_depth :: nat where
  "max_depth = 10000"

fun parse_value :: "nat \<Rightarrow> nat \<Rightarrow> string \<Rightarrow> (json \<times> string) option"
and parse_elems :: "nat \<Rightarrow> nat \<Rightarrow> string \<Rightarrow> (json list \<times> string) option"
and parse_members :: "nat \<Rightarrow> nat \<Rightarrow> string \<Rightarrow> ((string \<times> json) list \<times> string) option" where
  "parse_value 0 d s = None"
| "parse_value (Suc n) d s =
     (case skip_ws s of
        [] \<Rightarrow> None
      | c # r \<Rightarrow>
          if c = CHR ''{'' then
            (if d = 0 then None
             else if take 1 (skip_ws r) = ''}'' then Some (JObj [], drop 1 (skip_ws r))
             else map_option (\<lambda>(ms, t). (JObj ms, t)) (parse_members n (d - 1) r))
          else if c = CHR ''['' then
            (if d = 0 then None
             else if take 1 (skip_ws r) = '']'' then Some (JArr [], drop 1 (skip_ws r))
             else map_option (\<lambda>(js, t). (JArr js, t)) (parse_elems n (d - 1) r))
          else parse_scalar (c # r))"
| "parse_elems 0 d s = None"
| "parse_elems (Suc n) d s =
     (case parse_value n d s of
        None \<Rightarrow> None
      | Some (j, t) \<Rightarrow>
          (case skip_ws t of
             [] \<Rightarrow> None
           | c # r \<Rightarrow>
               if c = CHR '']'' then Some ([j], r)
               else if c = CHR '','' then map_option (\<lambda>(js, u). (j # js, u)) (parse_elems n d r)
               else None))"
| "parse_members 0 d s = None"
| "parse_members (Suc n) d s =
     (case skip_ws s of
        [] \<Rightarrow> None
      | q # r \<Rightarrow>
          if code q \<noteq> 0x22 then None
          else
            (case read_string r of
               None \<Rightarrow> None
             | Some (k, t) \<Rightarrow>
                 if take 1 (skip_ws t) \<noteq> '':'' then None
                 else
                   (case parse_value n d (drop 1 (skip_ws t)) of
                      None \<Rightarrow> None
                    | Some (j, u) \<Rightarrow>
                        (case skip_ws u of
                           [] \<Rightarrow> None
                         | c # v \<Rightarrow>
                             if c = CHR ''}'' then Some ([(k, j)], v)
                             else if c = CHR '','' then
                               map_option (\<lambda>(ms, x). ((k, j) # ms, x)) (parse_members n d v)
                             else None))))"

text \<open>\<^verbatim>\<open>json.Unmarshal\<close> accepts exactly one value with white space around it.\<close>

definition json_parse :: "string \<Rightarrow> json option" where
  "json_parse s =
     (case parse_value (Suc (2 * length s)) max_depth s of
        None \<Rightarrow> None
      | Some (j, t) \<Rightarrow> if skip_ws t = [] then Some j else None)"

text \<open>\<^verbatim>\<open>json.Decoder.Decode\<close> reads one value and leaves the rest of the stream.\<close>

definition json_decode :: "string \<Rightarrow> (json \<times> string) option" where
  "json_decode s = parse_value (Suc (2 * length s)) max_depth s"

section \<open>What the parser consumes\<close>

lemma skip_ws_length: "length (skip_ws s) \<le> length s"
  by (simp add: skip_ws_def length_dropWhile_le)

lemma skip_ws_Cons: "skip_ws s = c # r \<Longrightarrow> length r < length s"
  using skip_ws_length [of s] by simp

lemma scan_str_length: "scan_str r = Some (s, t) \<Longrightarrow> length t < length r"
  by (induction r arbitrary: s t rule: scan_str.induct)
     (fastforce split: if_splits list.splits)+

lemma read_string_length: "read_string r = Some (s, t) \<Longrightarrow> length t < length r"
  by (auto simp: read_string_def split: option.splits dest: scan_str_length)

lemma digits1_length: "digits1 s = Some (d, t) \<Longrightarrow> length t < length s"
proof -
  assume "digits1 s = Some (d, t)"
  then have "t = dropWhile is_digit s" "takeWhile is_digit s \<noteq> []"
    by (auto simp: digits1_def digits_def split: if_splits)
  moreover have "length s = length (takeWhile is_digit s) + length (dropWhile is_digit s)"
    by (metis length_append takeWhile_dropWhile_id)
  ultimately show ?thesis by simp
qed

lemma scan_int_length: "scan_int s = Some (d, t) \<Longrightarrow> length t < length s"
  by (auto simp: scan_int_def split: list.splits if_splits dest: digits1_length)

lemma scan_frac_length: "scan_frac s = Some (d, t) \<Longrightarrow> length t \<le> length s"
  by (auto simp: scan_frac_def split: list.splits if_splits dest: digits1_length)

lemma scan_exp_length: "scan_exp s = Some (d, t) \<Longrightarrow> length t \<le> length s"
  by (auto simp: scan_exp_def split: list.splits if_splits dest: digits1_length)

lemma scan_unsigned_length: "scan_unsigned s = Some (d, t) \<Longrightarrow> length t < length s"
  by (auto simp: scan_unsigned_def split: option.splits
      dest!: scan_int_length scan_frac_length scan_exp_length)

lemma scan_num_length: "scan_num s = Some (d, t) \<Longrightarrow> length t < length s"
  by (auto simp: scan_num_def split: list.splits if_splits dest!: scan_unsigned_length)

lemma drop_skip_ws: "length (drop k (skip_ws s)) \<le> length s"
  using skip_ws_length [of s] by simp

lemma parse_scalar_length: "parse_scalar s = Some (j, t) \<Longrightarrow> length t < length s"
proof (cases s)
  case (Cons c r)
  assume "parse_scalar s = Some (j, t)"
  then show ?thesis using Cons read_string_length [of r] scan_num_length [of s]
    by (auto simp: parse_scalar_def split: if_splits)
qed (simp add: parse_scalar_def has_prefix_def scan_num_def)

lemma parse_length:
  "parse_value n d s = Some (j, t) \<Longrightarrow> length t < length s"
  "parse_elems n d s = Some (js, t) \<Longrightarrow> length t < length s"
  "parse_members n d s = Some (ms, t) \<Longrightarrow> length t < length s"
proof (induction n d s and n d s and n d s arbitrary: j t and js t and ms t
    rule: parse_value_parse_elems_parse_members.induct)
  case (2 n d s)
  from 2(3) obtain c r where sk: "skip_ws s = c # r" by (auto split: list.splits)
  have "length t \<le> length r"
  proof (cases "c = CHR ''{'' \<or> c = CHR ''[''")
    case True
    with 2 sk drop_skip_ws [of 1 r] show ?thesis
      by (auto split: if_splits simp: less_imp_le simp del: length_drop)
  next
    case False
    with 2(3) sk have "parse_scalar (c # r) = Some (j, t)" by simp
    then show ?thesis using parse_scalar_length by fastforce
  qed
  with skip_ws_Cons [OF sk] show ?case by simp
next
  case (4 n d s)
  from 4(3) obtain j t' where v: "parse_value n d s = Some (j, t')" by (auto split: option.splits)
  with 4(3) obtain c r where sk: "skip_ws t' = c # r" by (auto split: list.splits)
  have "length t \<le> length r"
    using 4(2) [OF v refl sk] 4(3) v sk by (auto split: if_splits simp: less_imp_le)
  with skip_ws_Cons [OF sk] 4(1) [OF v] show ?case by simp
next
  case (6 n d s)
  from 6(3) obtain q r where sk: "skip_ws s = q # r" by (auto split: list.splits)
  with 6(3) obtain k t1 where rs: "read_string r = Some (k, t1)" "code q = 0x22"
    by (auto split: option.splits if_splits)
  with 6(3) sk obtain j u where v: "parse_value n d (drop 1 (skip_ws t1)) = Some (j, u)" "take 1 (skip_ws t1) = '':''"
    by (auto split: option.splits if_splits)
  with 6(3) sk rs obtain c w where sk2: "skip_ws u = c # w" by (auto split: list.splits)
  have "length t \<le> length w"
    using 6(2) [OF sk _ rs(1) refl _ v(1) refl sk2] 6(3) v sk rs sk2 by (auto split: if_splits simp: less_imp_le)
  moreover have "length u < length (drop 1 (skip_ws t1))"
    using 6(1) [OF sk _ rs(1) refl _ v(1)] rs v by auto
  ultimately show ?case
    using skip_ws_Cons [OF sk] skip_ws_Cons [OF sk2] read_string_length [OF rs(1)] drop_skip_ws [of 1 t1]
    by linarith
qed simp_all

section \<open>Enough fuel\<close>

lemma parse_fuel:
  "2 * length s < n \<Longrightarrow> 2 * length s < m \<Longrightarrow> parse_value n d s = parse_value m d s"
  "2 * length s + 1 < n \<Longrightarrow> 2 * length s + 1 < m \<Longrightarrow> parse_elems n d s = parse_elems m d s"
  "2 * length s + 1 < n \<Longrightarrow> 2 * length s + 1 < m \<Longrightarrow> parse_members n d s = parse_members m d s"
proof (induction n d s and n d s and n d s arbitrary: m and m and m
    rule: parse_value_parse_elems_parse_members.induct)
  case (2 n d s)
  from 2(4) obtain m' where m: "m = Suc m'" by (cases m) auto
  show ?case
  proof (cases "skip_ws s")
    case (Cons c r)
    then have "2 * length r + 1 < n" "2 * length r + 1 < m'"
      using 2(3,4) m skip_ws_Cons [OF Cons] by simp_all
    then have "d \<noteq> 0 \<Longrightarrow> c = CHR ''{'' \<Longrightarrow> take 1 (skip_ws r) \<noteq> ''}'' \<Longrightarrow>
          parse_members n (d - 1) r = parse_members m' (d - 1) r"
      and "d \<noteq> 0 \<Longrightarrow> c = CHR ''['' \<Longrightarrow> take 1 (skip_ws r) \<noteq> '']'' \<Longrightarrow>
          parse_elems n (d - 1) r = parse_elems m' (d - 1) r"
      using 2(1) [OF Cons, of m'] 2(2) [OF Cons, of m'] by auto
    note IH = this
    consider "c = CHR ''{''" | "c = CHR ''[''" | "c \<noteq> CHR ''{''" "c \<noteq> CHR ''[''" by blast
    then show ?thesis
    proof cases
      case 1
      with IH(1) show ?thesis unfolding m
        by (cases "d = 0"; cases "take 1 (skip_ws r) = ''}''") (simp_all add: Cons)
    next
      case 2
      with IH(2) show ?thesis unfolding m
        by (cases "d = 0"; cases "take 1 (skip_ws r) = '']''") (simp_all add: Cons)
    next
      case 3
      then show ?thesis unfolding m by (simp only: parse_value.simps Cons list.case if_False)
    qed
  qed (simp add: m)
next
  case (4 n d s)
  from 4(4) obtain m' where m: "m = Suc m'" by (cases m) auto
  from 4(1) [of m'] 4(3,4) m have v: "parse_value n d s = parse_value m' d s" by simp
  show ?case
  proof (cases "parse_value m' d s")
    case (Some a)
    obtain j t where a: "a = (j, t)" by (cases a)
    show ?thesis
    proof (cases "skip_ws t")
      case (Cons c r)
      from parse_length(1) [OF Some [unfolded a]] skip_ws_Cons [OF Cons] 4(3,4) m
      have "2 * length r + 1 < n" "2 * length r + 1 < m'" by simp_all
      with 4(2) [where m = m', OF _ refl Cons] Some a v
      have "c = CHR '','' \<Longrightarrow> parse_elems n d r = parse_elems m' d r" by simp
      with Some a Cons v show ?thesis unfolding m by simp
    qed (simp add: m v Some a)
  qed (simp add: m v)
next
  case (6 n d s)
  from 6(4) obtain m' where m: "m = Suc m'" by (cases m) auto
  show ?case
  proof (cases "skip_ws s")
    case sk: (Cons q r)
    show ?thesis
    proof (cases "code q = 0x22")
      case q: True
      show ?thesis
      proof (cases "read_string r")
        case rs: (Some a)
        obtain k t where a: "a = (k, t)" by (cases a)
        let ?v = "drop 1 (skip_ws t)"
        have len: "length ?v + 1 < length s"
          using skip_ws_Cons [OF sk] read_string_length [OF rs [unfolded a]] drop_skip_ws [of 1 t] by linarith
        show ?thesis
        proof (cases "take 1 (skip_ws t) = '':''")
          case colon: True
          from 6(1) [where m = m', OF sk _ _ refl, of k t] rs a q colon len 6(3,4) m
          have v: "parse_value n d ?v = parse_value m' d ?v" by simp
          show ?thesis
          proof (cases "parse_value m' d ?v")
            case pv: (Some b)
            obtain j u where b: "b = (j, u)" by (cases b)
            show ?thesis
            proof (cases "skip_ws u")
              case sk2: (Cons c w)
              from parse_length(1) [OF pv [unfolded b]] skip_ws_Cons [OF sk2] len 6(3,4) m
              have "2 * length w + 1 < n" "2 * length w + 1 < m'" by simp_all
              with 6(2) [where m = m', OF sk _ _ refl _ _ refl sk2, of k t] rs a q colon pv b v
              have "c = CHR '','' \<Longrightarrow> parse_members n d w = parse_members m' d w" by simp
              then show ?thesis unfolding m using sk q rs a colon v pv b sk2 by simp
            qed (simp add: m sk q rs a colon v [simplified] pv [simplified] b)
          qed (use sk q rs a colon v in \<open>simp add: m\<close>)
        qed (simp add: m sk q rs a)
      qed (simp add: m sk q)
    qed (simp add: m sk)
  qed (simp add: m)
qed simp_all

text \<open>JSON text for the examples, with back quotes for the double quotes.\<close>

definition jtext :: "string \<Rightarrow> string" where
  "jtext s = map (\<lambda>c. if c = CHR 0x60 then CHR 0x22 else c) s"

end
