(* ===== verification/GoErrors.thy ===== *)
theory GoErrors imports GoStruct JsonText begin

text \<open>
  Errors as values, and how the client classifies them: \<^verbatim>\<open>errors.Is\<close> and \<^verbatim>\<open>errors.As\<close> along the
  chain of wrapped errors, the \<^verbatim>\<open>codexErrorInfo\<close> payload of an RPC error, and the two retry
  predicates (\<^verbatim>\<open>internal/transport/retry.go\<close>, \<^verbatim>\<open>types.go\<close>, \<^verbatim>\<open>wait.go\<close>).
\<close>

record rpc_error =
  rpc_code :: int
  rpc_message :: string
  rpc_data :: raw

text \<open>
  The sentinels of the packages, the two context errors, an RPC error, an error known by its text
  only, and an error that wraps another between two pieces of text (\<^verbatim>\<open>fmt.Errorf\<close> with \<^verbatim>\<open>%w\<close>).
\<close>

datatype go_error =
    ErrClosed | ErrDisconnected | ErrReconnectUnsupported | ErrAlreadyReplied | ErrProtocol
  | ErrUnsupportedServerRequest | ErrTurnNotFound
  | ErrCanceled | ErrDeadlineExceeded
  | ErrRPC rpc_error
  | ErrText string
  | ErrWrap string go_error string

definition rpc_error_text :: "rpc_error \<Rightarrow> string" where
  "rpc_error_text e =
     ''rpc error '' @ show_int (rpc_code e) @ '': '' @ rpc_message e @
     (case rpc_data e of None \<Rightarrow> [] | Some j \<Rightarrow> '': '' @ print_json False j)"

fun error_text :: "go_error \<Rightarrow> string" where
  "error_text ErrClosed = ''transport closed''"
| "error_text ErrDisconnected = ''transport disconnected''"
| "error_text ErrReconnectUnsupported = ''transport reconnect unsupported''"
| "error_text ErrAlreadyReplied = ''request already replied''"
| "error_text ErrProtocol = ''invalid JSON-RPC message''"
| "error_text ErrUnsupportedServerRequest = ''protocol: unsupported server request''"
| "error_text ErrTurnNotFound = ''turn not found''"
| "error_text ErrCanceled = ''context canceled''"
| "error_text ErrDeadlineExceeded = ''context deadline exceeded''"
| "error_text (ErrRPC e) = rpc_error_text e"
| "error_text (ErrText s) = s"
| "error_text (ErrWrap pre e post) = pre @ error_text e @ post"

fun error_is :: "go_error \<Rightarrow> go_error \<Rightarrow> bool" where
  "error_is (ErrWrap pre e post) t = (ErrWrap pre e post = t \<or> error_is e t)"
| "error_is e t = (e = t)"

fun as_rpc :: "go_error \<Rightarrow> rpc_error option" where
  "as_rpc (ErrRPC r) = Some r"
| "as_rpc (ErrWrap pre e post) = as_rpc e"
| "as_rpc _ = None"

section \<open>The structured payload\<close>

text \<open>The types involved have no methods of their own.\<close>

definition no_codecs :: codecs where
  "no_codecs n = \<lparr>unmarshal = (\<lambda>cur j. None), marshal = (\<lambda>v. JNull)\<rparr>"

definition codex_info_type :: gotype where
  "codex_info_type = TStruct [(''type'', False, TString), (''httpStatusCode'', False, TInt 64)]"

definition codex_envelope_type :: gotype where
  "codex_envelope_type = TStruct [(''codexErrorInfo'', False, codex_info_type)]"

definition codex_error_info :: "go_error \<Rightarrow> (string \<times> int) option" where
  "codex_error_info err =
     (case as_rpc err of
        None \<Rightarrow> None
      | Some r \<Rightarrow>
          (case rpc_data r of
             None \<Rightarrow> None
           | Some d \<Rightarrow>
               (case json_unmarshal no_codecs codex_envelope_type d of
                  Some (VStruct [VStruct [VStr t, VInt s]]) \<Rightarrow> Some (t, s)
                | _ \<Rightarrow> None)))"

definition is_rate_limited :: "go_error \<Rightarrow> bool" where
  "is_rate_limited err = (case codex_error_info err of Some (t, s) \<Rightarrow> s = 429 | None \<Rightarrow> False)"

definition is_http_connection_failed :: "go_error \<Rightarrow> bool" where
  "is_http_connection_failed err =
     (case codex_error_info err of Some (t, s) \<Rightarrow> t = ''HttpConnectionFailed'' | None \<Rightarrow> False)"

definition is_retryable :: "go_error option \<Rightarrow> bool" where
  "is_retryable err =
     (case err of
        None \<Rightarrow> False
      | Some e \<Rightarrow>
          if error_is e ErrClosed then False
          else if is_rate_limited e \<or> is_http_connection_failed e then True
          else (case as_rpc e of Some r \<Rightarrow> rpc_code r = -32603 | None \<Rightarrow> False))"

text \<open>The public classification of \<^verbatim>\<open>types.go\<close>, whose envelope has one more field.\<close>

record codex_error =
  ce_code :: int
  ce_message :: string
  ce_type :: string
  ce_status :: int
  ce_info :: string

definition codex_error_text :: "codex_error \<Rightarrow> string" where
  "codex_error_text e =
     (if ce_status e \<noteq> 0
      then ''codex error '' @ show_int (ce_code e) @ '' (HTTP '' @ show_int (ce_status e) @ ''): '' @ ce_message e
      else ''codex error '' @ show_int (ce_code e) @ '': '' @ ce_message e)"

definition codex_details_type :: gotype where
  "codex_details_type =
     TStruct [(''codexErrorInfo'', False, codex_info_type), (''additionalDetails'', False, TString)]"

definition as_codex_error :: "go_error \<Rightarrow> codex_error option" where
  "as_codex_error err =
     (case as_rpc err of
        None \<Rightarrow> None
      | Some r \<Rightarrow>
          let ce = \<lparr>ce_code = rpc_code r, ce_message = rpc_message r, ce_type = [], ce_status = 0, ce_info = []\<rparr> in
          (case rpc_data r of
             None \<Rightarrow> Some ce
           | Some d \<Rightarrow>
               (case json_unmarshal no_codecs codex_details_type d of
                  Some (VStruct [VStruct [VStr t, VInt s], VStr a]) \<Rightarrow>
                    Some (ce\<lparr>ce_type := t, ce_status := s, ce_info := a\<rparr>)
                | _ \<Rightarrow> Some ce)))"

definition has_status :: "int \<Rightarrow> go_error \<Rightarrow> bool" where
  "has_status n err = (case as_codex_error err of Some ce \<Rightarrow> ce_status ce = n | None \<Rightarrow> False)"

definition IsRateLimited :: "go_error \<Rightarrow> bool" where
  "IsRateLimited err = has_status 429 err"

definition IsUnauthorized :: "go_error \<Rightarrow> bool" where
  "IsUnauthorized err = has_status 401 err"

definition IsInternalServerError :: "go_error \<Rightarrow> bool" where
  "IsInternalServerError err = has_status 500 err"

definition IsHttpConnectionFailed :: "go_error \<Rightarrow> bool" where
  "IsHttpConnectionFailed err =
     (case as_codex_error err of Some ce \<Rightarrow> ce_type ce = ''HttpConnectionFailed'' | None \<Rightarrow> False)"

definition is_transient_error :: "go_error option \<Rightarrow> bool" where
  "is_transient_error err =
     (case err of
        None \<Rightarrow> False
      | Some e \<Rightarrow>
          if IsRateLimited e then True
          else if IsHttpConnectionFailed e then True
          else contains ''is empty'' (error_text e))"

section \<open>Facts\<close>

lemma error_is_refl [simp]: "error_is e e"
  by (cases e) simp_all

lemma error_is_wrap [simp]: "error_is e t \<Longrightarrow> error_is (ErrWrap pre e post) t"
  by simp

text \<open>A decoded struct has the shape of its description.\<close>

lemma dec_fields_length:
  "dec_fields env fs vs ms = Some vs' \<Longrightarrow> length vs' = length vs"
proof (induction ms arbitrary: vs)
  case (Cons m ms)
  obtain k j where "m = (k, j)" by (cases m)
  with Cons show ?case by (auto split: option.splits dest: Cons.IH)
qed simp

lemma dec_fields_two:
  assumes "dec_fields env [(n1, o1, t1), (n2, o2, t2)] [a, b] ms = Some vs"
  obtains a' b' where "vs = [a', b']"
proof -
  from dec_fields_length [OF assms] have "length vs = Suc (Suc 0)" by simp
  then show thesis using that by (auto simp: length_Suc_conv)
qed

end
