(* ===== verification/Retry.thy ===== *)
theory Retry imports Complex_Main GoErrors begin

text \<open>
  The retrying transport of \<^verbatim>\<open>internal/transport/retry.go\<close>.  The wrapped transport and the wait
  between two attempts act on a state of their own and are arguments; the wait returns the
  context's error when the context ends before the timer.  Floating-point numbers are real
  numbers here, so rounding is not modelled; durations are nanoseconds.
\<close>

section \<open>Configuration\<close>

record retry_config =
  rc_max_attempts :: int
  rc_base_delay :: int
  rc_max_delay :: int
  rc_multiplier :: real
  rc_jitter_frac :: real

definition default_retry_config :: retry_config where
  "default_retry_config =
     \<lparr>rc_max_attempts = 5, rc_base_delay = 200 * 1000000, rc_max_delay = 30 * 1000000000,
      rc_multiplier = 2, rc_jitter_frac = 1 / 4\<rparr>"

definition with_defaults :: "retry_config \<Rightarrow> retry_config" where
  "with_defaults c =
     (let d = default_retry_config in
      \<lparr>rc_max_attempts = (if rc_max_attempts c > 0 then rc_max_attempts c else rc_max_attempts d),
       rc_base_delay = (if rc_base_delay c > 0 then rc_base_delay c else rc_base_delay d),
       rc_max_delay = (if rc_max_delay c > 0 then rc_max_delay c else rc_max_delay d),
       rc_multiplier = (if rc_multiplier c > 0 then rc_multiplier c else rc_multiplier d),
       rc_jitter_frac = (if rc_jitter_frac c > 0 then rc_jitter_frac c else rc_jitter_frac d)\<rparr>)"

section \<open>Call\<close>

type_synonym 's call = "'s \<Rightarrow> go_error option \<times> 's"
type_synonym 's pause = "nat \<Rightarrow> 's \<Rightarrow> go_error option \<times> 's"

function retry_loop :: "nat \<Rightarrow> 's call \<Rightarrow> 's pause \<Rightarrow> nat \<Rightarrow> go_error option \<Rightarrow> 's call" where
  "retry_loop n inner pause attempt err s =
     (if attempt < n then
        (let (e, s1) = inner s in
         if e = None \<or> \<not> is_retryable e then (e, s1)
         else if attempt = n - 1 then (e, s1)
         else (case pause attempt s1 of
                 (Some c, s2) \<Rightarrow> (Some c, s2)
               | (None, s2) \<Rightarrow> retry_loop n inner pause (Suc attempt) e s2))
      else (err, s))"
  by pat_completeness auto
termination by (relation "measure (\<lambda>(n, inner, pause, attempt, err, s). n - attempt)") auto

declare retry_loop.simps [simp del]

definition retry_call :: "retry_config \<Rightarrow> 's call \<Rightarrow> 's pause \<Rightarrow> 's call" where
  "retry_call cfg inner pause s =
     retry_loop (nat (rc_max_attempts (with_defaults cfg))) inner pause 0 None s"

section \<open>Back-off\<close>

text \<open>
  The random number is in \<open>[0, 1)\<close>.  A duration holds 63 bits; what the conversion of a larger
  value gives is left to the platform and is an argument.
\<close>

definition to_duration :: "int \<Rightarrow> real \<Rightarrow> int" where
  "to_duration out_of_range x = (if x < 2 ^ 63 then \<lfloor>x\<rfloor> else out_of_range)"

definition backoff :: "retry_config \<Rightarrow> int \<Rightarrow> real \<Rightarrow> nat \<Rightarrow> int" where
  "backoff cfg out_of_range rand attempt =
     (let c = with_defaults cfg;
          d0 = real_of_int (rc_base_delay c) * rc_multiplier c ^ attempt;
          d1 = (if d0 > real_of_int (rc_max_delay c) then real_of_int (rc_max_delay c) else d0);
          jitter = rc_jitter_frac c * rand * 2 - rc_jitter_frac c;
          d2 = d1 * (1 + jitter);
          d3 = (if d2 < 0 then 0 else d2)
      in to_duration out_of_range d3)"

lemma with_defaults_pos:
  "0 < rc_max_attempts (with_defaults c)" "0 < rc_base_delay (with_defaults c)"
  "0 < rc_max_delay (with_defaults c)" "0 < rc_multiplier (with_defaults c)"
  "0 < rc_jitter_frac (with_defaults c)"
  by (simp_all add: with_defaults_def default_retry_config_def Let_def)

lemma with_defaults_idem: "with_defaults (with_defaults c) = with_defaults c"
  by (simp add: with_defaults_def default_retry_config_def Let_def)

section \<open>A scripted environment\<close>

text \<open>
  The outcomes of the successive calls and of the successive waits as two sequences; the state
  counts the calls and the waits.
\<close>

type_synonym counters = "nat \<times> nat"

definition scripted :: "(nat \<Rightarrow> go_error option) \<Rightarrow> counters call" where
  "scripted outs s = (outs (fst s), (Suc (fst s), snd s))"

definition scripted_pause :: "(nat \<Rightarrow> go_error option) \<Rightarrow> counters pause" where
  "scripted_pause cancels attempt s = (cancels attempt, (fst s, Suc (snd s)))"

definition final_outcome :: "nat \<Rightarrow> (nat \<Rightarrow> go_error option) \<Rightarrow> nat \<Rightarrow> bool" where
  "final_outcome n outs i \<longleftrightarrow> outs i = None \<or> \<not> is_retryable (outs i) \<or> Suc i = n"

text \<open>The loop stops at the first attempt whose outcome is final or whose wait is cancelled.\<close>

lemma retry_loop_scripted:
  assumes "a \<le> k" and "k < n"
    and "\<And>i. a \<le> i \<Longrightarrow> i < k \<Longrightarrow> \<not> final_outcome n outs i \<and> cancels i = None"
    and "final_outcome n outs k \<or> cancels k \<noteq> None"
  shows "retry_loop n (scripted outs) (scripted_pause cancels) a err (a, a) =
     (if final_outcome n outs k then (outs k, (Suc k, k)) else (cancels k, (Suc k, Suc k)))"
  using assms
proof (induction "k - a" arbitrary: a err)
  case 0
  then have "a = k" by simp
  with 0 show ?case
    by (subst retry_loop.simps) (auto simp: scripted_def scripted_pause_def final_outcome_def split: option.splits)
next
  case (Suc x)
  then have lt: "a < k" by simp
  with Suc.prems have go: "\<not> final_outcome n outs a" "cancels a = None" "a < n" by auto
  have "retry_loop n (scripted outs) (scripted_pause cancels) a err (a, a)
      = retry_loop n (scripted outs) (scripted_pause cancels) (Suc a) (outs a) (Suc a, Suc a)"
    by (subst retry_loop.simps) (use go in \<open>auto simp: scripted_def scripted_pause_def final_outcome_def\<close>)
  also have "\<dots> =
     (if final_outcome n outs k then (outs k, (Suc k, k)) else (cancels k, (Suc k, Suc k)))"
    using Suc lt by (intro Suc.hyps(1)) auto
  finally show ?case .
qed

lemma retry_first_stop:
  assumes "0 < n"
  obtains k where "k < n" "final_outcome n outs k \<or> cancels k \<noteq> None"
    "\<And>i. i < k \<Longrightarrow> \<not> final_outcome n outs i \<and> cancels i = None"
proof -
  let ?P = "\<lambda>i. final_outcome n outs i \<or> cancels i \<noteq> None"
  have last: "?P (n - 1)" using assms by (simp add: final_outcome_def)
  define k where "k = (LEAST i. ?P i)"
  have "k \<le> n - 1" unfolding k_def by (rule Least_le) (rule last)
  with assms have lt: "k < n" by simp
  have stop: "?P k" unfolding k_def using last by (rule LeastI)
  have "\<not> ?P i" if "i < k" for i using that unfolding k_def by (rule not_less_Least)
  then show thesis using lt stop by (intro that [of k]) blast+
qed

section \<open>Properties\<close>

text \<open>
  C34. What a retried call does, for any sequence of outcomes of the wrapped call and of the waits.
  With \<^verbatim>\<open>N\<close> attempts configured (5 by default) there is an attempt \<^verbatim>\<open>k < N\<close> such that every earlier
  one failed with a retryable error and its wait was not cancelled; the wrapped call is made exactly
  \<^verbatim>\<open>k + 1\<close> times, and the result is that of attempt \<^verbatim>\<open>k\<close> when it is a success, an error that must not be
  retried or the last attempt allowed, and the context's error when the wait after it was cancelled.
\<close>

theorem retry_call_outcome:
  "\<exists>k. int k < rc_max_attempts (with_defaults cfg) \<and>
     (\<forall>i<k. is_retryable (outs i) \<and> cancels i = None) \<and>
     (retry_call cfg (scripted outs) (scripted_pause cancels) (0, 0) = (outs k, (Suc k, k)) \<and>
        (outs k = None \<or> \<not> is_retryable (outs k) \<or> int (Suc k) = rc_max_attempts (with_defaults cfg)) \<or>
      retry_call cfg (scripted outs) (scripted_pause cancels) (0, 0) = (cancels k, (Suc k, Suc k)) \<and>
        is_retryable (outs k) \<and> cancels k \<noteq> None \<and> int (Suc k) < rc_max_attempts (with_defaults cfg))"
proof -
  obtain n where N: "rc_max_attempts (with_defaults cfg) = int n" "0 < n"
    using with_defaults_pos(1) [of cfg] by (metis zero_less_imp_eq_int)
  obtain k where k: "k < n" "final_outcome n outs k \<or> cancels k \<noteq> None"
    "\<And>i. i < k \<Longrightarrow> \<not> final_outcome n outs i \<and> cancels i = None"
    using retry_first_stop [OF N(2), of outs cancels] by blast
  have "retry_call cfg (scripted outs) (scripted_pause cancels) (0, 0) =
     (if final_outcome n outs k then (outs k, (Suc k, k)) else (cancels k, (Suc k, Suc k)))"
    unfolding retry_call_def N nat_int using k by (intro retry_loop_scripted) auto
  moreover have "\<forall>i<k. is_retryable (outs i) \<and> cancels i = None"
    using k(3) by (auto simp: final_outcome_def)
  ultimately show ?thesis
    using k(1,2) unfolding N by (intro exI [of _ k]) (auto simp: final_outcome_def)
qed

definition internal_error :: go_error where
  "internal_error = ErrRPC \<lparr>rpc_code = -32603, rpc_message = ''internal'', rpc_data = None\<rparr>"

definition unset_config :: retry_config where
  "unset_config = \<lparr>rc_max_attempts = 0, rc_base_delay = 0, rc_max_delay = 0, rc_multiplier = 0, rc_jitter_frac = 0\<rparr>"

lemma internal_error_retryable: "is_retryable (Some internal_error)"
  by (simp add: internal_error_def is_retryable_def)

lemma unset_defaults: "with_defaults unset_config = default_retry_config"
  by (simp add: with_defaults_def unset_config_def Let_def)

theorem retry_call_outcome_witness:
  "retry_call unset_config (scripted (\<lambda>_. Some internal_error)) (scripted_pause (\<lambda>_. None)) (0, 0)
     = (Some internal_error, (5, 4))"
  using retry_call_outcome [of unset_config "\<lambda>_. Some internal_error" "\<lambda>_. None"]
  by (auto simp: internal_error_retryable unset_defaults default_retry_config_def)

text \<open>
  Bounds of the back-off before the next attempt: never negative, and at most the smaller of the
  exponential delay and the configured maximum, times one plus the jitter fraction.
\<close>

theorem backoff_bounds:
  assumes "0 \<le> rand" and "rand < 1"
    and "real_of_int (rc_max_delay (with_defaults cfg)) * (1 + rc_jitter_frac (with_defaults cfg)) < 2 ^ 63"
  shows "0 \<le> backoff cfg out rand attempt \<and>
     real_of_int (backoff cfg out rand attempt) \<le>
       min (real_of_int (rc_base_delay (with_defaults cfg)) * rc_multiplier (with_defaults cfg) ^ attempt)
           (real_of_int (rc_max_delay (with_defaults cfg))) * (1 + rc_jitter_frac (with_defaults cfg))"
proof -
  let ?c = "with_defaults cfg"
  let ?d0 = "real_of_int (rc_base_delay ?c) * rc_multiplier ?c ^ attempt"
  let ?m = "real_of_int (rc_max_delay ?c)" and ?f = "rc_jitter_frac ?c"
  let ?d1 = "min ?d0 ?m"
  have pos: "0 < ?f" "0 < ?m" "0 < ?d0" using with_defaults_pos [of cfg] by auto
  then have d1: "0 < ?d1" "?d1 \<le> ?m" by auto
  have j: "?f * rand * 2 - ?f \<le> ?f" using pos assms by (simp add: mult_left_le)
  let ?d2 = "?d1 * (1 + (?f * rand * 2 - ?f))"
  have up: "?d2 \<le> ?d1 * (1 + ?f)" using d1 j by (intro mult_left_mono) auto
  also have "\<dots> \<le> ?m * (1 + ?f)" using d1 pos by (intro mult_right_mono) auto
  finally have "?d2 < 2 ^ 63" using assms(3) by simp
  moreover have "(if ?d0 > ?m then ?m else ?d0) = ?d1" by auto
  then have "backoff cfg out rand attempt = to_duration out (if ?d2 < 0 then 0 else ?d2)"
    unfolding backoff_def Let_def by (simp only:)
  ultimately have eq: "backoff cfg out rand attempt = \<lfloor>if ?d2 < 0 then 0 else ?d2\<rfloor>"
    by (simp add: to_duration_def)
  have "0 \<le> ?d1 * (1 + ?f)" using d1 pos by simp
  then have "real_of_int \<lfloor>if ?d2 < 0 then 0 else ?d2\<rfloor> \<le> ?d1 * (1 + ?f)"
    using up by (auto intro: order_trans [OF of_int_floor_le])
  moreover have "0 \<le> \<lfloor>if ?d2 < 0 then 0 else ?d2\<rfloor>" by simp
  ultimately show ?thesis by (simp only: eq)
qed

theorem backoff_bounds_witness:
  "0 \<le> backoff unset_config 0 (1/2) 3 \<and> backoff unset_config 0 (1/2) 3 \<le> 2000000000"
proof -
  have "0 \<le> backoff unset_config 0 (1/2) 3 \<and> real_of_int (backoff unset_config 0 (1/2) 3) \<le> 2000000000"
    using backoff_bounds [of "1/2" unset_config 0 3]
    by (simp add: unset_defaults default_retry_config_def)
  then show ?thesis by linarith
qed

text \<open>
  The configured maximum is not a bound of the delay: the jitter is applied after the cap, so with
  the default configuration the wait can come close to 37.5 seconds although \<^verbatim>\<open>MaxDelay\<close> is 30.
\<close>

theorem backoff_exceeds_max_delay:
  "backoff unset_config 0 (9/10) 8 = 36 * 1000000000 \<and>
   rc_max_delay (with_defaults unset_config) = 30 * 1000000000"
  by (simp add: backoff_def unset_defaults default_retry_config_def to_duration_def Let_def)

lemma details_envelope:
  assumes "dec_fields env [(''codexErrorInfo'', False, t), (''additionalDetails'', False, TString)] [a, b] ms
     = Some [a', b']"
  shows "dec_fields env [(''codexErrorInfo'', False, t)] [a] ms = Some [a']"
  using assms
proof (induction ms arbitrary: a b)
  case (Cons m ms)
  obtain k j where m: "m = (k, j)" by (cases m)
  have "fold_name ''codexErrorInfo'' \<noteq> fold_name ''additionalDetails''" by code_simp
  then have ok: "names_ok [''codexErrorInfo'', ''additionalDetails'']" "names_ok [''codexErrorInfo'']"
    by (simp_all add: names_ok_def del: fold_name.simps)
  have names: "fold_name ''codexErrorInfo'' = ''CODEXERRORINFO''"
    "fold_name ''additionalDetails'' = ''ADDITIONALDETAILS''" by code_simp+
  from Cons show ?case
    by (auto simp: m names match_name_fold [OF ok(1)] match_name_fold [OF ok(2)]
      simp del: fold_name.simps split: option.splits if_splits)
qed simp

lemma details_decode:
  assumes "json_unmarshal no_codecs codex_details_type d = Some (VStruct [VStruct [VStr t, VInt s], VStr a])"
  shows "json_unmarshal no_codecs codex_envelope_type d = Some (VStruct [VStruct [VStr t, VInt s]])"
  using assms
  by (cases d) (auto simp: json_unmarshal_def codex_details_type_def codex_envelope_type_def
      codex_info_type_def intro: details_envelope)

text \<open>
  The two classifications agree where they must: whatever the public predicates call a rate limit or
  a lost connection, the transport retries, unless the transport itself is closed, and a wait for a
  turn treats it as transient.
\<close>

theorem rate_limited_is_retried:
  assumes "IsRateLimited e \<or> IsHttpConnectionFailed e" and "\<not> error_is e ErrClosed"
  shows "is_retryable (Some e) \<and> is_transient_error (Some e)"
proof -
  from assms(1) obtain ce where ce: "as_codex_error e = Some ce"
    "ce_status ce = 429 \<or> ce_type ce = ''HttpConnectionFailed''"
    by (auto simp: IsRateLimited_def IsHttpConnectionFailed_def has_status_def split: option.splits)
  then obtain r d t s a where r: "as_rpc e = Some r" "rpc_data r = Some d"
    "json_unmarshal no_codecs codex_details_type d = Some (VStruct [VStruct [VStr t, VInt s], VStr a])"
    "ce_status ce = s" "ce_type ce = t"
    by (auto simp: as_codex_error_def Let_def split: option.splits goval.splits list.splits)
  with details_decode [OF r(3)] have "codex_error_info e = Some (t, s)"
    by (simp add: codex_error_info_def)
  then have "is_rate_limited e \<or> is_http_connection_failed e"
    using ce(2) r by (auto simp: is_rate_limited_def is_http_connection_failed_def)
  then show ?thesis
    using assms by (auto simp: is_retryable_def is_transient_error_def)
qed

definition too_many_requests :: "(string \<times> json) list \<Rightarrow> go_error" where
  "too_many_requests details =
     ErrRPC \<lparr>rpc_code = -32000, rpc_message = ''slow down'',
       rpc_data = Some (JObj ((''codexErrorInfo'', JObj [(''httpStatusCode'', JNum ''429'')]) # details))\<rparr>"

lemma decode_429:
  "json_unmarshal no_codecs codex_details_type (JObj [(''codexErrorInfo'', JObj [(''httpStatusCode'', JNum ''429'')])])
     = Some (VStruct [VStruct [VStr [], VInt 429], VStr []])"
  "json_unmarshal no_codecs codex_details_type
     (JObj [(''codexErrorInfo'', JObj [(''httpStatusCode'', JNum ''429'')]), (''additionalDetails'', JObj [])]) = None"
  "json_unmarshal no_codecs codex_envelope_type
     (JObj [(''codexErrorInfo'', JObj [(''httpStatusCode'', JNum ''429'')]), (''additionalDetails'', JObj [])])
     = Some (VStruct [VStruct [VStr [], VInt 429]])"
proof -
  have "parse_int64 ''429'' = Some 429"
    by (simp add: parse_int64_def digits_val_def is_digit_def code_def)
  then have n: "dec_int 64 ''429'' = Some (VInt 429)" by (simp add: dec_int_def int_fits_def)
  have names: "match_name [''codexErrorInfo'', ''additionalDetails''] ''codexErrorInfo'' = Some 0"
    "match_name [''codexErrorInfo'', ''additionalDetails''] ''additionalDetails'' = Some 1"
    "match_name [''codexErrorInfo''] ''codexErrorInfo'' = Some 0"
    "match_name [''codexErrorInfo''] ''additionalDetails'' = None"
    "match_name [''type'', ''httpStatusCode''] ''httpStatusCode'' = Some 1"
    by code_simp+
  show "json_unmarshal no_codecs codex_details_type (JObj [(''codexErrorInfo'', JObj [(''httpStatusCode'', JNum ''429'')])])
     = Some (VStruct [VStruct [VStr [], VInt 429], VStr []])"
    "json_unmarshal no_codecs codex_details_type
     (JObj [(''codexErrorInfo'', JObj [(''httpStatusCode'', JNum ''429'')]), (''additionalDetails'', JObj [])]) = None"
    "json_unmarshal no_codecs codex_envelope_type
     (JObj [(''codexErrorInfo'', JObj [(''httpStatusCode'', JNum ''429'')]), (''additionalDetails'', JObj [])])
     = Some (VStruct [VStruct [VStr [], VInt 429]])"
    by (simp_all add: json_unmarshal_def codex_details_type_def codex_envelope_type_def codex_info_type_def names n)
qed

theorem rate_limited_is_retried_witness:
  "is_retryable (Some (ErrWrap ''turn: '' (too_many_requests []) []))"
proof -
  let ?e = "ErrWrap ''turn: '' (too_many_requests []) []"
  have "IsRateLimited ?e"
    by (simp add: IsRateLimited_def has_status_def as_codex_error_def too_many_requests_def decode_429 Let_def)
  moreover have "\<not> error_is ?e ErrClosed" by (simp add: too_many_requests_def)
  ultimately show ?thesis using rate_limited_is_retried [of ?e] by blast
qed

text \<open>
  The converse fails: an \<^verbatim>\<open>additionalDetails\<close> that is not a string makes the public predicate miss a
  rate limit that the transport sees, because its envelope decodes one more field.
\<close>

theorem rate_limit_missed:
  "is_retryable (Some (too_many_requests [(''additionalDetails'', JObj [])])) \<and>
   \<not> IsRateLimited (too_many_requests [(''additionalDetails'', JObj [])])"
  by (simp add: IsRateLimited_def has_status_def as_codex_error_def too_many_requests_def
      decode_429 is_retryable_def is_rate_limited_def codex_error_info_def Let_def)

end
