(* ===== verification/JsonRoundTrip.thy ===== *)
theory JsonRoundTrip imports JsonText begin

text \<open>
  Parsing what the printer wrote gives the document back, with any continuation of the stream
  left untouched.  This is what newline-delimited JSON relies on: one encoder and one decoder on
  the two ends of a pipe agree message by message.
\<close>

section \<open>Strings\<close>

lemma hex_val_digit: "d < 16 \<Longrightarrow> hex_val (hex_digit d) = Some d"
  by (auto simp: hex_val_def hex_digit_def is_digit_def code_def)

lemma hex4_digits:
  assumes "n < 65536"
  shows "hex4 (map hex_digit [n div 4096 mod 16, n div 256 mod 16, n div 16 mod 16, n mod 16] @ r) = Some n"
proof -
  let ?b = "n div 16" and ?c = "n div 16 div 16" and ?d = "n div 16 div 16 div 16"
  have div: "n div 256 = ?c" "n div 4096 = ?d"
    by (simp_all add: div_mult2_eq [symmetric])
  have "?d mod 16 = ?d" using assms by (simp add: div_mult2_eq [symmetric])
  then have "4096 * (?d mod 16) + 256 * (?c mod 16) + 16 * (?b mod 16) + n mod 16
      = 16 * (16 * (16 * ?d + ?c mod 16) + ?b mod 16) + n mod 16"
    by (simp only: distrib_left mult.assoc [symmetric])
  also have "\<dots> = n" by (simp only: mult_div_mod_eq)
  finally have "4096 * (n div 4096 mod 16) + 256 * (n div 256 mod 16) + 16 * (n div 16 mod 16) + n mod 16 = n"
    by (simp only: div)
  then show ?thesis by (simp add: hex_val_digit del: mod_less div_less)
qed

lemma unescape_u_escape:
  assumes "n < 65536" and "\<not> is_surrogate n"
  shows "unescape (u_escape n @ r) = map_option ((@) (utf8_encode n)) (unescape r)"
  using hex4_digits [OF assms(1), of r] assms(2)
  by (subst unescape.simps) (simp add: u_escape_def code_def)

lemma unescape_simple:
  "simple_escape e = Some x \<Longrightarrow> e \<noteq> CHR ''u'' \<Longrightarrow>
     unescape (CHR 0x5C # e # r) = map_option ((#) x) (unescape r)"
  by (subst unescape.simps) (simp add: code_def)

lemma unescape_plain:
  "code c \<noteq> 0x5C \<Longrightarrow> code c \<noteq> 0x22 \<Longrightarrow> \<not> code c < 32 \<Longrightarrow>
     unescape (c # r) = map_option ((#) c) (unescape r)"
  by (subst unescape.simps) simp

lemma map_option_Cons: "map_option ((@) [c]) x = map_option ((#) c) x"
  by (cases x) simp_all

lemma utf8_encode_ascii: "code c < 128 \<Longrightarrow> utf8_encode (code c) = [c]"
  by (simp add: utf8_encode_def)

lemma code_eq: "code d = n \<Longrightarrow> code c = n \<Longrightarrow> c = d"
  using code_inject [of c d] by simp

lemma unescape_esc_char: "unescape (esc_char h c @ r) = map_option ((#) c) (unescape r)"
proof -
  have "code c \<in> {0x22, 0x5C} \<or> code c \<in> {8, 12, 10, 13, 9} \<or>
      esc_char h c = u_escape (code c) \<and> code c < 128 \<or>
      esc_char h c = [c] \<and> code c \<noteq> 0x22 \<and> code c \<noteq> 0x5C \<and> \<not> code c < 32"
    by (auto simp: esc_char_def)
  then consider "code c = 0x22 \<or> code c = 0x5C" | "code c = 8" | "code c = 12" | "code c = 10"
    | "code c = 13" | "code c = 9" | "esc_char h c = u_escape (code c)" "code c < 128"
    | "esc_char h c = [c]" "code c \<noteq> 0x22" "code c \<noteq> 0x5C" "\<not> code c < 32"
    by blast
  then show ?thesis
  proof cases
    case 1
    then have "c \<noteq> CHR ''u''" by (auto simp: code_def)
    with 1 show ?thesis by (auto simp: esc_char_def unescape_simple simple_escape_def)
  next
    case 7
    then have "\<not> is_surrogate (code c)" "code c < 65536" by (simp_all add: is_surrogate_def)
    with 7 show ?thesis by (simp add: unescape_u_escape utf8_encode_ascii map_option_Cons)
  next
    case 8
    then show ?thesis by (simp add: unescape_plain)
  qed (use code_eq [of "CHR 0x08" 8 c] code_eq [of "CHR 0x0C" 12 c] code_eq [of "CHR 0x0A" 10 c]
         code_eq [of "CHR 0x0D" 13 c] code_eq [of "CHR 0x09" 9 c] in
       \<open>simp add: code_def esc_char_def unescape_simple simple_escape_def\<close>)+
qed

lemma utf8_encode_separator:
  "map code (utf8_encode 0x2028) = [0xE2, 0x80, 0xA8]" "map code (utf8_encode 0x2029) = [0xE2, 0x80, 0xA9]"
  by (simp_all add: utf8_encode_def code_def)

lemma map_code_inject: "map code s = map code t \<longleftrightarrow> s = t"
  using inj_map_eq_map [of code] by (simp add: inj_def code_inject)

text \<open>The encoder escapes one of the two separators, or one character.\<close>

lemma enc_str_cases:
  obtains (separator) n r' where "c # r = utf8_encode n @ r'" "length r' \<le> length r"
      "enc_str h (c # r) = u_escape n @ enc_str h r'" "n < 65536" "\<not> is_surrogate n"
    | (single) "enc_str h (c # r) = esc_char h c @ enc_str h r"
proof -
  have sep: "c # r = utf8_encode n @ drop 2 r"
    if "code c = 0xE2" "map code (take 2 r) = [0x80, k]" "map code (utf8_encode n) = [0xE2, 0x80, k]" for n k
  proof -
    from that have "map code (c # take 2 r) = map code (utf8_encode n)" by simp
    then have "c # take 2 r = utf8_encode n" by (simp only: map_code_inject)
    then show ?thesis by (metis append_Cons append_take_drop_id)
  qed
  show thesis
  proof (cases "code c = 0xE2 \<and> map code (take 2 r) = [0x80, 0xA8]")
    case True
    then show thesis
      by (intro separator [OF sep [OF _ _ utf8_encode_separator(1)]]) (simp_all add: is_surrogate_def)
  next
    case f1: False
    show thesis
    proof (cases "code c = 0xE2 \<and> map code (take 2 r) = [0x80, 0xA9]")
      case True
      with f1 show thesis
        by (intro separator [OF sep [OF _ _ utf8_encode_separator(2)]]) (simp_all add: is_surrogate_def)
    next
      case False
      then show thesis by (intro single) (simp only: enc_str.simps f1 False if_False)
    qed
  qed
qed

lemma unescape_enc_str: "unescape (enc_str h s) = Some s"
proof (induction s rule: length_induct)
  case (1 s)
  show ?case
  proof (cases s)
    case Nil
    then show ?thesis by (subst unescape.simps) simp
  next
    case (Cons c r)
    show ?thesis
    proof (cases c r h rule: enc_str_cases)
      case (separator n r')
      then have "length r' < length s" using Cons by (metis impossible_Cons le_less_trans length_Cons not_less)
      with 1 have "unescape (enc_str h r') = Some r'" by blast
      with separator Cons show ?thesis by (simp add: unescape_u_escape)
    next
      case single
      with 1 Cons have "unescape (enc_str h r) = Some r" by simp
      with single Cons show ?thesis by (simp only: unescape_esc_char option.map)
    qed
  qed
qed

lemma hex_digit_plain: "d < 16 \<Longrightarrow> code (hex_digit d) \<noteq> 0x22 \<and> code (hex_digit d) \<noteq> 0x5C"
  by (auto simp: hex_digit_def code_def)

lemma scan_plain: "code c \<noteq> 0x22 \<Longrightarrow> code c \<noteq> 0x5C \<Longrightarrow>
    scan_str (c # r) = map_option (\<lambda>(s, t). (c # s, t)) (scan_str r)"
  by simp

lemma scan_escaped: "scan_str (CHR 0x5C # e # r) = map_option (\<lambda>(s, t). (CHR 0x5C # e # s, t)) (scan_str r)"
  by (simp add: code_def)

lemma scan_u_escape:
  "scan_str (u_escape n @ r) = map_option (\<lambda>(s, t). (u_escape n @ s, t)) (scan_str r)"
  by (cases "scan_str r")
     (simp_all add: u_escape_def scan_escaped scan_plain hex_digit_plain case_prod_beta del: scan_str.simps)

lemma scan_esc_char:
  "scan_str (esc_char h c @ r) = map_option (\<lambda>(s, t). (esc_char h c @ s, t)) (scan_str r)"
  by (cases "scan_str r")
     (auto simp: esc_char_def scan_u_escape scan_escaped scan_plain simp del: scan_str.simps)

lemma scan_enc_str: "scan_str (enc_str h s @ CHR 0x22 # rest) = Some (enc_str h s, rest)"
proof (induction s rule: length_induct)
  case (1 s)
  show ?case
  proof (cases s)
    case Nil
    then show ?thesis by (simp add: code_def)
  next
    case (Cons c r)
    show ?thesis
    proof (cases c r h rule: enc_str_cases)
      case (separator n r')
      then have "length r' < length s" using Cons by (metis impossible_Cons le_less_trans length_Cons not_less)
      with 1 have "scan_str (enc_str h r' @ CHR 0x22 # rest) = Some (enc_str h r', rest)" by blast
      with separator Cons show ?thesis by (simp only: scan_u_escape append.assoc option.map prod.case)
    next
      case single
      with 1 Cons have "scan_str (enc_str h r @ CHR 0x22 # rest) = Some (enc_str h r, rest)" by simp
      with single Cons show ?thesis by (simp only: scan_esc_char append.assoc option.map prod.case)
    qed
  qed
qed

lemma read_string_quote:
  "valid_utf8 s \<Longrightarrow> read_string (enc_str h s @ CHR 0x22 # rest) = Some (s, rest)"
  by (simp add: read_string_def scan_enc_str unescape_enc_str valid_utf8_def)

section \<open>Numbers\<close>

text \<open>A stream continues after a number with a character that cannot be part of it.\<close>

definition ends_number :: "string \<Rightarrow> bool" where
  "ends_number rest \<longleftrightarrow>
     (case rest of [] \<Rightarrow> True
      | c # r \<Rightarrow> \<not> is_digit c \<and> c \<noteq> CHR ''.'' \<and> c \<noteq> CHR ''e'' \<and> c \<noteq> CHR ''E'')"

lemma digits1_append:
  assumes "digits1 s = Some (d, t)" and "ends_number rest"
  shows "digits1 (s @ rest) = Some (d, t @ rest)"
proof (cases "\<forall>c\<in>set s. is_digit c")
  case True
  then have s: "takeWhile is_digit s = s" "dropWhile is_digit s = []" by (simp_all add: takeWhile_eq_all_conv)
  with assms(1) have "s \<noteq> []" "d = s" "t = []" by (auto simp: digits1_def digits_def split: if_splits)
  moreover have "takeWhile is_digit rest = []" "dropWhile is_digit rest = rest"
    using assms(2) by (auto simp: ends_number_def split: list.splits)
  ultimately show ?thesis
    using True by (simp add: digits1_def digits_def takeWhile_append2 dropWhile_append2)
next
  case False
  then show ?thesis
    using assms(1) by (auto simp: digits1_def digits_def takeWhile_append1 dropWhile_append1 split: if_splits)
qed

lemma digits1_append_Cons:
  "digits1 (c # r) = Some (d, t) \<Longrightarrow> ends_number rest \<Longrightarrow> digits1 (c # r @ rest) = Some (d, t @ rest)"
  using digits1_append [of "c # r"] by simp

lemma scan_int_append:
  "scan_int s = Some (d, t) \<Longrightarrow> ends_number rest \<Longrightarrow> scan_int (s @ rest) = Some (d, t @ rest)"
  by (cases s) (auto simp: scan_int_def digits1_append_Cons split: if_splits)

lemma scan_frac_append:
  assumes "scan_frac s = Some (d, t)" and "ends_number rest"
  shows "scan_frac (s @ rest) = Some (d, t @ rest)"
proof (cases s)
  case Nil
  with assms show ?thesis by (auto simp: scan_frac_def ends_number_def split: list.splits)
next
  case (Cons c r)
  show ?thesis
  proof (cases "c = CHR ''.''")
    case True
    with assms(1) Cons obtain d' where "digits1 r = Some (d', t)" "d = c # d'" by (auto simp: scan_frac_def)
    with digits1_append [OF this(1) assms(2)] True Cons show ?thesis by (simp add: scan_frac_def)
  qed (use assms(1) Cons in \<open>auto simp: scan_frac_def\<close>)
qed

lemma scan_exp_append:
  assumes "scan_exp s = Some (d, t)" and "ends_number rest"
  shows "scan_exp (s @ rest) = Some (d, t @ rest)"
proof (cases s)
  case Nil
  with assms show ?thesis by (auto simp: scan_exp_def ends_number_def split: list.splits)
next
  case (Cons c r)
  show ?thesis
  proof (cases "c = CHR ''e'' \<or> c = CHR ''E''")
    case True
    with assms(1) Cons obtain x r' where r: "r = x # r'" by (auto simp: scan_exp_def split: list.splits)
    let ?u = "if x = CHR ''+'' \<or> x = CHR ''-'' then r' else r"
    from assms(1) Cons True r obtain d' where "digits1 ?u = Some (d', t)"
      by (auto simp: scan_exp_def split: if_splits)
    from digits1_append [OF this assms(2)] this assms(1) Cons True r show ?thesis
      by (auto simp: scan_exp_def split: if_splits)
  qed (use assms(1) Cons in \<open>auto simp: scan_exp_def\<close>)
qed

lemma scan_unsigned_append:
  assumes "scan_unsigned s = Some (d, t)" and "ends_number rest"
  shows "scan_unsigned (s @ rest) = Some (d, t @ rest)"
proof -
  from assms(1) obtain i t1 f t2 e where "scan_int s = Some (i, t1)" "scan_frac t1 = Some (f, t2)"
    "scan_exp t2 = Some (e, t)" "d = i @ f @ e"
    by (auto simp: scan_unsigned_def split: option.splits)
  with scan_int_append [OF _ assms(2)] scan_frac_append [OF _ assms(2)] scan_exp_append [OF _ assms(2)]
  show ?thesis by (simp add: scan_unsigned_def)
qed

lemma scan_num_append:
  assumes "scan_num s = Some (d, t)" and "ends_number rest"
  shows "scan_num (s @ rest) = Some (d, t @ rest)"
proof (cases s)
  case (Cons c r)
  show ?thesis
  proof (cases "c = CHR ''-''")
    case True
    with assms(1) Cons obtain d' where "scan_unsigned r = Some (d', t)" "d = c # d'" by (auto simp: scan_num_def)
    with scan_unsigned_append [OF this(1) assms(2)] True Cons show ?thesis by (simp add: scan_num_def)
  next
    case False
    with assms Cons show ?thesis using scan_unsigned_append [of s d t rest] by (simp add: scan_num_def)
  qed
qed (use assms in \<open>simp add: scan_num_def\<close>)

definition num_ok :: "string \<Rightarrow> bool" where
  "num_ok l \<longleftrightarrow> scan_num l = Some (l, [])"

lemma num_ok_head:
  assumes "num_ok l"
  obtains c r where "l = c # r" "c = CHR ''-'' \<or> is_digit c"
proof -
  from assms obtain c r where l: "l = c # r" by (cases l) (auto simp: num_ok_def scan_num_def)
  have "c \<noteq> CHR ''-'' \<Longrightarrow> scan_int l \<noteq> None"
    using assms l by (auto simp: num_ok_def scan_num_def scan_unsigned_def split: option.splits)
  then have "c = CHR ''-'' \<or> is_digit c"
    using l by (auto simp: scan_int_def digits1_def digits_def is_digit_def code_def split: if_splits)
  with l show thesis by (rule that)
qed

lemma num_ok_show_nat: "num_ok (show_nat n)"
proof (cases "n < 10")
  case True
  then have s: "show_nat n = [digit_char n]" by (simp add: show_nat.simps)
  from True have "is_digit (digit_char n)" by simp
  then have "scan_int [digit_char n] = Some ([digit_char n], [])" "digit_char n \<noteq> CHR ''-''"
    by (auto simp: scan_int_def digits1_def digits_def is_digit_def code_def)
  then show ?thesis
    by (simp add: s num_ok_def scan_num_def scan_unsigned_def scan_frac_def scan_exp_def)
next
  case False
  have lead: "\<exists>c r. show_nat n = c # r \<and> is_digit c \<and> c \<noteq> CHR ''0''" if "0 < n" for n
    using that
  proof (induction n rule: show_nat.induct)
    case (1 n)
    show ?case
    proof (cases "n < 10")
      case True
      with 1(2) have "code (digit_char n) \<noteq> code (CHR ''0'')" by (simp add: code_def [of "CHR ''0''"])
      then have "digit_char n \<noteq> CHR ''0''" by auto
      with True show ?thesis by (simp add: show_nat.simps [of n])
    next
      case False
      then have "0 < n div 10" by (simp add: div_greater_zero_iff)
      with 1(1) False obtain c r where "show_nat (n div 10) = c # r" "is_digit c" "c \<noteq> CHR ''0''" by auto
      with False show ?thesis by (simp add: show_nat.simps [of n])
    qed
  qed
  from False lead [of n] obtain c r where cr: "show_nat n = c # r" "is_digit c" "c \<noteq> CHR ''0''" by auto
  then have "c \<noteq> CHR ''-''" by (auto simp: is_digit_def code_def)
  moreover have "digits1 (show_nat n) = Some (show_nat n, [])"
    using show_nat_digits [of n] by (simp add: digits1_def digits_def list_all_iff takeWhile_eq_all_conv dropWhile_eq_Nil_conv
      flip: takeWhile_eq_all_conv)
  ultimately show ?thesis
    using cr by (simp add: num_ok_def scan_num_def scan_unsigned_def scan_int_def scan_frac_def scan_exp_def)
qed

section \<open>Documents\<close>

text \<open>Documents the encoder can produce: nesting within the bound, UTF-8 strings, valid literals.\<close>

fun json_ok :: "nat \<Rightarrow> json \<Rightarrow> bool"
and elems_ok :: "nat \<Rightarrow> json list \<Rightarrow> bool"
and members_ok :: "nat \<Rightarrow> (string \<times> json) list \<Rightarrow> bool" where
  "json_ok d JNull = True"
| "json_ok d (JBool b) = True"
| "json_ok d (JNum l) = num_ok l"
| "json_ok d (JStr s) = valid_utf8 s"
| "json_ok d (JArr js) = (0 < d \<and> elems_ok (d - 1) js)"
| "json_ok d (JObj ms) = (0 < d \<and> members_ok (d - 1) ms)"
| "elems_ok d [] = True"
| "elems_ok d (j # js) = (json_ok d j \<and> elems_ok d js)"
| "members_ok d [] = True"
| "members_ok d ((k, j) # ms) = (valid_utf8 k \<and> json_ok d j \<and> members_ok d ms)"

lemma scalar_quote: "valid_utf8 s \<Longrightarrow> parse_scalar (quote h s @ rest) = Some (JStr s, rest)"
  by (simp add: parse_scalar_def quote_def read_string_quote)

lemma scalar_num:
  assumes "num_ok l" and "ends_number rest"
  shows "parse_scalar (l @ rest) = Some (JNum l, rest)"
proof -
  from num_ok_head [OF assms(1)] obtain c r where l: "l = c # r" "c = CHR ''-'' \<or> is_digit c" .
  then have "code c \<noteq> 0x22" "c \<noteq> CHR ''n''" "c \<noteq> CHR ''t''" "c \<noteq> CHR ''f''"
    by (auto simp: is_digit_def code_def)
  then have "c \<noteq> CHR 0x22" "c \<noteq> CHR ''n''" "c \<noteq> CHR ''t''" "c \<noteq> CHR ''f''"
    by (auto simp: code_def)
  then have "parse_scalar (l @ rest) = map_option (\<lambda>(l, t). (JNum l, t)) (scan_num (l @ rest))"
    unfolding l(1) by (simp add: parse_scalar_def has_prefix_def)
  with scan_num_append [OF assms(1) [unfolded num_ok_def] assms(2)] show ?thesis by simp
qed

lemma scalar_literal:
  "parse_scalar (''null'' @ rest) = Some (JNull, rest)"
  "parse_scalar (''true'' @ rest) = Some (JBool True, rest)"
  "parse_scalar (''false'' @ rest) = Some (JBool False, rest)"
  by (simp_all add: parse_scalar_def has_prefix_def)

definition starts_value :: "char \<Rightarrow> bool" where
  "starts_value c \<longleftrightarrow> \<not> is_ws c \<and> c \<noteq> CHR '']'' \<and> c \<noteq> CHR ''}''"

lemma print_head:
  assumes "json_ok d j"
  shows "\<exists>c r. print_json h j = c # r \<and> starts_value c \<and>
    (c = CHR ''{'') = (\<exists>ms. j = JObj ms) \<and> (c = CHR ''['') = (\<exists>js. j = JArr js)"
proof (cases j)
  case (JNum l)
  with assms have "num_ok l" by simp
  then obtain c r where l: "l = c # r" "c = CHR ''-'' \<or> is_digit c" by (rule num_ok_head)
  then have "starts_value c" "c \<noteq> CHR ''{''" "c \<noteq> CHR ''[''"
    by (auto simp: starts_value_def is_ws_def is_digit_def code_def)
  with l JNum show ?thesis by simp
qed (simp_all add: quote_def starts_value_def is_ws_def code_def)

lemma skip_ws_start: "starts_value c \<Longrightarrow> skip_ws (c # r) = c # r"
  by (simp add: skip_ws_def starts_value_def)

lemma parse_scalar_value:
  assumes "json_ok d j" and "\<nexists>ms. j = JObj ms" and "\<nexists>js. j = JArr js" and "ends_number rest"
    and "2 * length (print_json h j) < m"
  shows "parse_value m d (print_json h j @ rest) = Some (j, rest)"
proof -
  from assms(5) obtain n where m: "m = Suc n" by (cases m) auto
  obtain c r where p: "print_json h j = c # r" "starts_value c" "c \<noteq> CHR ''{''" "c \<noteq> CHR ''[''"
    using print_head [OF assms(1), of h] assms(2,3) by auto
  have "parse_scalar (print_json h j @ rest) = Some (j, rest)"
  proof (cases j)
    case (JBool b)
    then show ?thesis by (cases b) (simp_all only: print_json.simps scalar_literal if_True if_False)
  next
    case (JArr js)
    with assms(3) show ?thesis by simp
  next
    case (JObj ms)
    with assms(2) show ?thesis by simp
  qed (use assms in \<open>simp_all only: print_json.simps json_ok.simps scalar_literal scalar_quote scalar_num\<close>)
  with p show ?thesis by (simp add: m skip_ws_start)
qed

lemma ends_number_punct: "c = CHR '','' \<or> c = CHR '']'' \<or> c = CHR ''}'' \<Longrightarrow> ends_number (c # r)"
  by (auto simp: ends_number_def is_digit_def code_def)

lemma skip_ws_punct: "c = CHR '','' \<or> c = CHR '']'' \<or> c = CHR ''}'' \<or> c = CHR '':'' \<Longrightarrow> skip_ws (c # r) = c # r"
  by (auto simp: skip_ws_def is_ws_def code_def)

lemma elems_head:
  assumes "elems_ok d js" and "js \<noteq> []"
  shows "\<exists>c r. print_elems h js = c # r \<and> starts_value c"
proof -
  obtain j js' where js: "js = j # js'" using assms(2) by (cases js) auto
  with assms(1) have "json_ok d j" by simp
  from print_head [OF this, of h] js show ?thesis by (cases js') auto
qed

lemma print_members_Cons:
  "print_members h ((k, j) # ms) = CHR 0x22 # enc_str h k @ CHR 0x22 # CHR '':'' # print_json h j @
     (if ms = [] then [] else CHR '','' # print_members h ms)"
  by (cases ms) (simp_all add: quote_def)

lemma print_elems_Cons:
  "print_elems h (j # js) = print_json h j @ (if js = [] then [] else CHR '','' # print_elems h js)"
  by (cases js) simp_all

declare print_elems.simps [simp del] print_members.simps [simp del]

lemma parse_print:
  "json_ok d j \<Longrightarrow> ends_number rest \<Longrightarrow> 2 * length (print_json h j) < n \<Longrightarrow>
     parse_value n d (print_json h j @ rest) = Some (j, rest)"
  "elems_ok d js \<Longrightarrow> js \<noteq> [] \<Longrightarrow> 2 * length (print_elems h js) + 1 < n \<Longrightarrow>
     parse_elems n d (print_elems h js @ CHR '']'' # rest) = Some (js, rest)"
  "members_ok d ms \<Longrightarrow> ms \<noteq> [] \<Longrightarrow> 2 * length (print_members h ms) + 1 < n \<Longrightarrow>
     parse_members n d (print_members h ms @ CHR ''}'' # rest) = Some (ms, rest)"
proof (induction d j and d js and d ms arbitrary: n rest and n rest and n rest
    rule: json_ok_elems_ok_members_ok.induct)
  case (5 d js)
  then obtain m where n: "n = Suc m" by (cases n) auto
  show ?case
  proof (cases "js = []")
    case True
    with 5(2) show ?thesis by (simp add: n skip_ws_punct print_elems.simps skip_ws_def is_ws_def code_def)
  next
    case False
    from 5(2) have ok: "0 < d" "elems_ok (d - 1) js" by auto
    from elems_head [OF ok(2) False, of h] obtain c r where
      "print_elems h js = c # r" "starts_value c" by blast
    then have "take 1 (skip_ws (print_elems h js @ CHR '']'' # rest)) \<noteq> '']''"
      by (simp add: skip_ws_start) (auto simp: starts_value_def)
    with 5(1) [OF ok(2) False, of m rest] 5(4) ok(1) n show ?thesis
      by (simp add: skip_ws_def is_ws_def code_def)
  qed
next
  case (6 d ms)
  then obtain m where n: "n = Suc m" by (cases n) auto
  show ?case
  proof (cases "ms = []")
    case True
    with 6(2) show ?thesis by (simp add: n skip_ws_punct print_members.simps skip_ws_def is_ws_def code_def)
  next
    case False
    from 6(2) have ok: "0 < d" "members_ok (d - 1) ms" by auto
    from False obtain r where "print_members h ms = CHR 0x22 # r"
      by (cases ms) (auto simp: print_members_Cons)
    then have "take 1 (skip_ws (print_members h ms @ CHR ''}'' # rest)) \<noteq> ''}''"
      by (simp add: skip_ws_def is_ws_def code_def)
    with 6(1) [OF ok(2) False, of m rest] 6(4) ok(1) n show ?thesis
      by (simp add: skip_ws_def is_ws_def code_def)
  qed
next
  case (8 d j js)
  then obtain m where n: "n = Suc m" by (cases n) auto
  from 8(3) have ok: "json_ok d j" "elems_ok d js" by auto
  let ?t = "(if js = [] then [] else CHR '','' # print_elems h js) @ CHR '']'' # rest"
  have "ends_number ?t" by (simp add: ends_number_punct)
  with 8(1) [OF ok(1), of ?t m] 8(5) n have v: "parse_value m d (print_json h j @ ?t) = Some (j, ?t)"
    by (simp add: print_elems_Cons)
  have "js \<noteq> [] \<Longrightarrow> parse_elems m d (print_elems h js @ CHR '']'' # rest) = Some (js, rest)"
    using 8(2) [OF ok(2), of m rest] 8(5) n by (simp add: print_elems_Cons)
  with v show ?case by (simp add: n print_elems_Cons skip_ws_punct)
next
  case (10 d k j ms)
  then obtain m where n: "n = Suc m" by (cases n) auto
  from 10(3) have ok: "valid_utf8 k" "json_ok d j" "members_ok d ms" by auto
  let ?t = "(if ms = [] then [] else CHR '','' # print_members h ms) @ CHR ''}'' # rest"
  have "ends_number ?t" by (simp add: ends_number_punct)
  with 10(1) [OF ok(2), of ?t m] 10(5) n have v: "parse_value m d (print_json h j @ ?t) = Some (j, ?t)"
    by (simp add: print_members_Cons)
  have "ms \<noteq> [] \<Longrightarrow> parse_members m d (print_members h ms @ CHR ''}'' # rest) = Some (ms, rest)"
    using 10(2) [OF ok(3), of m rest] 10(5) n by (simp add: print_members_Cons)
  moreover have "skip_ws (CHR 0x22 # r) = CHR 0x22 # r" for r by (simp add: skip_ws_def is_ws_def code_def)
  moreover have "code (CHR 0x22) = 0x22" by (simp add: code_def)
  ultimately show ?case using v ok(1)
    by (simp add: n print_members_Cons skip_ws_punct read_string_quote)
qed ((rule parse_scalar_value; simp) | simp)+

text \<open>What the two ends of a stream rely on.\<close>

lemma json_decode_print:
  assumes "json_ok max_depth j" and "ends_number rest"
  shows "json_decode (print_json h j @ rest) = Some (j, rest)"
  unfolding json_decode_def by (rule parse_print(1) [OF assms]) simp

lemma json_parse_print:
  assumes "json_ok max_depth j"
  shows "json_parse (print_json h j) = Some j"
proof -
  have "ends_number []" by (simp add: ends_number_def)
  from parse_print(1) [OF assms this, of h "Suc (2 * length (print_json h j))"]
  show ?thesis by (simp add: json_parse_def skip_ws_def)
qed

end
