(* ===== verification/RpcTransport.thy ===== *)
theory RpcTransport imports GoChan GoErrors JsonRoundTrip begin

text \<open>
  The newline-delimited JSON-RPC transport of \<^verbatim>\<open>internal/transport/transport.go\<close> and its
  \<^verbatim>\<open>Reconnect\<close> of \<^verbatim>\<open>reconnect.go\<close>: the envelopes, the classification of an inbound message, the
  state of a transport, and one definition per critical section of its mutex and per select on a
  channel.  \<^verbatim>\<open>RpcSystem\<close> composes them into the concurrent system.
\<close>

section \<open>Envelopes\<close>

record request_envelope =
  rq_method :: string
  rq_id :: u64
  rq_params :: raw

definition build_call :: "string \<Rightarrow> raw \<Rightarrow> go_error + (string \<times> raw)" where
  "build_call method params =
     (if method = [] then Inl (ErrText ''method is required'') else Inr (method, params))"

definition with_id :: "string \<times> raw \<Rightarrow> u64 \<Rightarrow> request_envelope" where
  "with_id c i = \<lparr>rq_method = fst c, rq_id = i, rq_params = snd c\<rparr>"

definition opt_member :: "string \<Rightarrow> raw \<Rightarrow> (string \<times> json) list" where
  "opt_member k r = (case r of None \<Rightarrow> [] | Some j \<Rightarrow> [(k, j)])"

definition enc_request :: "request_envelope \<Rightarrow> json" where
  "enc_request e =
     JObj ([(''method'', JStr (coerce_utf8 0 (rq_method e))), (''jsonrpc'', JStr ''2.0''),
            (''id'', JNum (show_nat (unat (rq_id e))))] @ opt_member ''params'' (rq_params e))"

definition enc_notification :: "string \<Rightarrow> raw \<Rightarrow> json" where
  "enc_notification method params =
     JObj ([(''jsonrpc'', JStr ''2.0''), (''method'', JStr (coerce_utf8 0 method))] @ opt_member ''params'' params)"

definition rpc_error_type :: gotype where
  "rpc_error_type = TStruct [(''code'', False, TInt 64), (''message'', False, TString), (''data'', True, TRaw)]"

definition enc_rpc_error :: "rpc_error \<Rightarrow> json" where
  "enc_rpc_error e =
     JObj ([(''code'', JNum (show_int (rpc_code e))), (''message'', JStr (coerce_utf8 0 (rpc_message e)))]
       @ opt_member ''data'' (rpc_data e))"

text \<open>A reply has a \<^verbatim>\<open>result\<close> in every case, null beside an error.\<close>

definition enc_reply :: "json \<Rightarrow> json \<Rightarrow> rpc_error option \<Rightarrow> json" where
  "enc_reply i result err =
     JObj ([(''jsonrpc'', JStr ''2.0''), (''id'', i), (''result'', result)]
       @ opt_member ''error'' (map_option enc_rpc_error err))"

text \<open>\<^verbatim>\<open>json.Encoder.Encode\<close> without HTML escaping: the text and a newline.\<close>

definition write_json :: "json \<Rightarrow> string" where
  "write_json j = print_json False j @ [CHR 0x0A]"

section \<open>Inbound messages\<close>

record call_result =
  cr_raw :: raw
  cr_err :: "go_error option"
  cr_rpc :: "rpc_error option"

record notification =
  nt_method :: string
  nt_params :: raw

datatype frame =
    FRequest json string raw
  | FNotify notification
  | FResponse u64 call_result
  | FBad go_error

definition parse_id :: "json \<Rightarrow> u64 option" where
  "parse_id j = (case j of JNum l \<Rightarrow> parse_uint64 l | JStr s \<Rightarrow> parse_uint64 s | _ \<Rightarrow> None)"

definition dec_rpc_error :: "json \<Rightarrow> rpc_error option" where
  "dec_rpc_error j =
     (case json_unmarshal no_codecs rpc_error_type j of
        Some (VStruct [VInt c, VStr m, VRaw d]) \<Rightarrow> Some \<lparr>rpc_code = c, rpc_message = m, rpc_data = Some d\<rparr>
      | Some (VStruct [VInt c, VStr m, VNil]) \<Rightarrow> Some \<lparr>rpc_code = c, rpc_message = m, rpc_data = None\<rparr>
      | _ \<Rightarrow> None)"

definition unmarshal_error :: go_error where
  "unmarshal_error = ErrText ''json: cannot unmarshal''"

text \<open>
  The body of \<^verbatim>\<open>readLoop\<close> up to the delivery.  A message is an object (or null, which decodes to an
  empty one); it is a request or a notification when it has a method, and a response otherwise.
\<close>

definition response_frame :: "(string \<times> json) list \<Rightarrow> frame" where
  "response_frame ms =
     (case map_get ''id'' ms of
        None \<Rightarrow> FBad ErrProtocol
      | Some i \<Rightarrow>
          (case parse_id i of
             None \<Rightarrow> FBad ErrProtocol
           | Some n \<Rightarrow>
               let res = \<lparr>cr_raw = map_get ''result'' ms, cr_err = None, cr_rpc = None\<rparr> in
               (case map_get ''error'' ms of
                  None \<Rightarrow> FResponse n res
                | Some e \<Rightarrow>
                    (case dec_rpc_error e of
                       None \<Rightarrow> FBad unmarshal_error
                     | Some re \<Rightarrow> FResponse n (res\<lparr>cr_rpc := Some re\<rparr>)))))"

definition call_frame :: "string \<Rightarrow> (string \<times> json) list \<Rightarrow> frame" where
  "call_frame method ms =
     (case map_get ''id'' ms of
        Some i \<Rightarrow> FRequest i method (map_get ''params'' ms)
      | None \<Rightarrow> FNotify \<lparr>nt_method = method, nt_params = map_get ''params'' ms\<rparr>)"

definition read_frame :: "json \<Rightarrow> frame" where
  "read_frame j =
     (case j of
        JNull \<Rightarrow> response_frame []
      | JObj ms \<Rightarrow>
          (case map_get ''method'' ms of
             None \<Rightarrow> response_frame ms
           | Some (JStr m) \<Rightarrow> call_frame m ms
           | Some JNull \<Rightarrow> call_frame [] ms
           | Some _ \<Rightarrow> FBad unmarshal_error)
      | _ \<Rightarrow> FBad unmarshal_error)"

text \<open>What a call returns for the result it was sent.\<close>

datatype outcome = Failed go_error | Succeeded raw

definition call_outcome :: "call_result \<Rightarrow> outcome" where
  "call_outcome r =
     (case cr_err r of
        Some e \<Rightarrow> Failed e
      | None \<Rightarrow> (case cr_rpc r of Some e \<Rightarrow> Failed (ErrRPC e) | None \<Rightarrow> Succeeded (cr_raw r)))"

section \<open>State\<close>

text \<open>
  Streams and contexts are numbered.  The reply channels live in a heap; a reply channel holds one
  value.  The transport's own record comes first, the world it acts on after it.
\<close>

record request =
  req_session :: u64
  req_id :: json
  req_method :: string
  req_params :: raw
  req_replied :: bool

record jrpc =
  jt_conn :: "nat option"
  jt_opener :: bool
  jt_closed :: bool
  jt_session :: u64
  jt_next :: u64
  jt_pending :: "u64 \<rightharpoonup> addr"
  jt_requests :: "request gochan"
  jt_notes :: "notification gochan"
  jt_done :: bool
  jt_ctx :: nat
  jt_cancel :: "nat option"
  jt_heap :: "addr \<rightharpoonup> call_result gochan"
  jt_brk :: addr
  jt_ctxs :: nat
  jt_cancelled :: "nat set"

definition with_cancel :: "('z) jrpc_scheme \<Rightarrow> nat \<times> ('z) jrpc_scheme" where
  "with_cancel t = (jt_ctxs t, t\<lparr>jt_ctxs := Suc (jt_ctxs t)\<rparr>)"

definition run_cancel :: "nat option \<Rightarrow> ('z) jrpc_scheme \<Rightarrow> ('z) jrpc_scheme" where
  "run_cancel c t = (case c of None \<Rightarrow> t | Some n \<Rightarrow> t\<lparr>jt_cancelled := insert n (jt_cancelled t)\<rparr>)"

section \<open>Critical sections\<close>

text \<open>\<^verbatim>\<open>startSessionLocked\<close>; the session started, if any, is returned with its stream for the reader.\<close>

definition start_session :: "('z) jrpc_scheme \<Rightarrow> (u64 \<times> nat) option \<times> ('z) jrpc_scheme" where
  "start_session t =
     (case jt_conn t of
        None \<Rightarrow> (None, t)
      | Some c \<Rightarrow>
          if jt_closed t then (None, t)
          else
            let sid = jt_session t + 1; (ctx, t1) = with_cancel t; old = jt_cancel t;
                t2 = t1\<lparr>jt_session := sid, jt_ctx := ctx, jt_cancel := Some ctx\<rparr>
            in (Some (sid, c), run_cancel old t2))"

definition new_transport :: "nat \<Rightarrow> bool \<Rightarrow> jrpc" where
  "new_transport conn opener =
     snd (start_session
       \<lparr>jt_conn = Some conn, jt_opener = opener, jt_closed = False, jt_session = 0, jt_next = 0,
        jt_pending = Map.empty, jt_requests = make_chan 32, jt_notes = make_chan 32, jt_done = False,
        jt_ctx = 0, jt_cancel = Some 0, jt_heap = Map.empty, jt_brk = 0, jt_ctxs = 1, jt_cancelled = {}\<rparr>)"

text \<open>The locked part of \<^verbatim>\<open>Call\<close>: the id, the reply channel and the stream to write to.\<close>

definition call_register :: "('z) jrpc_scheme \<Rightarrow> (go_error + (u64 \<times> addr \<times> nat)) \<times> ('z) jrpc_scheme" where
  "call_register t =
     (if jt_closed t then (Inl ErrClosed, t)
      else (case jt_conn t of
              None \<Rightarrow> (Inl ErrDisconnected, t)
            | Some c \<Rightarrow>
                let i = jt_next t + 1; a = jt_brk t in
                (Inr (i, a, c),
                 t\<lparr>jt_next := i, jt_heap := (jt_heap t)(a \<mapsto> make_chan 1), jt_brk := Suc a,
                   jt_pending := (jt_pending t)(i \<mapsto> a)\<rparr>)))"

definition notify_conn :: "('z) jrpc_scheme \<Rightarrow> go_error + nat" where
  "notify_conn t =
     (if jt_closed t then Inl ErrClosed
      else (case jt_conn t of None \<Rightarrow> Inl ErrDisconnected | Some c \<Rightarrow> Inr c))"

definition remove_pending :: "u64 \<Rightarrow> ('z) jrpc_scheme \<Rightarrow> ('z) jrpc_scheme" where
  "remove_pending i t = t\<lparr>jt_pending := (jt_pending t)(i := None)\<rparr>"

definition flush_pending :: "('z) jrpc_scheme \<Rightarrow> (u64 \<rightharpoonup> addr) \<times> ('z) jrpc_scheme" where
  "flush_pending t = (jt_pending t, t\<lparr>jt_pending := Map.empty\<rparr>)"

definition is_current_session :: "u64 \<Rightarrow> ('z) jrpc_scheme \<Rightarrow> bool" where
  "is_current_session sid t \<longleftrightarrow> \<not> jt_closed t \<and> jt_session t = sid"

text \<open>The locked part of \<^verbatim>\<open>deliverResponse\<close>: stop, ignore the response, or send it to a channel.\<close>

datatype taken = TakeStop | TakeUnknown | TakeSend addr

definition take_pending :: "u64 \<Rightarrow> u64 \<Rightarrow> ('z) jrpc_scheme \<Rightarrow> taken \<times> ('z) jrpc_scheme" where
  "take_pending sid i t =
     (if jt_closed t \<or> jt_session t \<noteq> sid then (TakeStop, t)
      else (case jt_pending t i of
              None \<Rightarrow> (TakeUnknown, t)
            | Some a \<Rightarrow> (TakeSend a, remove_pending i t)))"

text \<open>
  The select that follows it.  With room in the channel either arm may run once the transport is
  done; without room only the other one, and \<^term>\<open>None\<close> is a reader that blocks.
\<close>

definition put_result :: "bool \<Rightarrow> addr \<Rightarrow> call_result \<Rightarrow> ('z) jrpc_scheme \<Rightarrow> (bool \<times> ('z) jrpc_scheme) option" where
  "put_result prefer_done a r t =
     (if prefer_done \<and> jt_done t then Some (False, t)
      else (case jt_heap t a of
              None \<Rightarrow> None
            | Some ch \<Rightarrow>
                (case chan_send ch r of
                   SendOk ch' \<Rightarrow> Some (True, t\<lparr>jt_heap := (jt_heap t)(a \<mapsto> ch')\<rparr>)
                 | _ \<Rightarrow> None)))"

text \<open>The select with a default that hands a flushed call its error.\<close>

definition offer_result :: "addr \<Rightarrow> call_result \<Rightarrow> ('z) jrpc_scheme \<Rightarrow> ('z) jrpc_scheme" where
  "offer_result a r t =
     (case jt_heap t a of
        None \<Rightarrow> t
      | Some ch \<Rightarrow>
          (case chan_send ch r of
             SendOk ch' \<Rightarrow> t\<lparr>jt_heap := (jt_heap t)(a \<mapsto> ch')\<rparr>
           | _ \<Rightarrow> t))"

definition flush_result :: "go_error \<Rightarrow> call_result" where
  "flush_result e = \<lparr>cr_raw = None, cr_err = Some e, cr_rpc = None\<rparr>"

text \<open>The locked part of \<^verbatim>\<open>Close\<close> and the cancel after it: the calls to fail.\<close>

definition close_lock :: "('z) jrpc_scheme \<Rightarrow> (u64 \<rightharpoonup> addr) option \<times> ('z) jrpc_scheme" where
  "close_lock t =
     (if jt_closed t then (None, t)
      else
        let cancel = jt_cancel t;
            (pending, t1) = flush_pending (t\<lparr>jt_closed := True, jt_conn := None\<rparr>)
        in (Some pending, run_cancel cancel t1))"

definition close_done :: "('z) jrpc_scheme \<Rightarrow> ('z) jrpc_scheme" where
  "close_done t = t\<lparr>jt_done := True\<rparr>"

definition session_end :: "u64 \<Rightarrow> ('z) jrpc_scheme \<Rightarrow> (u64 \<rightharpoonup> addr) option \<times> ('z) jrpc_scheme" where
  "session_end sid t =
     (if jt_closed t \<or> jt_session t \<noteq> sid then (None, t)
      else
        let cancel = jt_cancel t;
            (pending, t1) = flush_pending (t\<lparr>jt_conn := None\<rparr>)
        in (Some pending, run_cancel cancel (t1\<lparr>jt_cancel := None\<rparr>)))"

definition reconnect_check :: "('z) jrpc_scheme \<Rightarrow> go_error option" where
  "reconnect_check t =
     (if jt_closed t then Some ErrClosed
      else if \<not> jt_opener t then Some ErrReconnectUnsupported else None)"

text \<open>The second locked part of \<^verbatim>\<open>Reconnect\<close>, with the stream the opener returned.\<close>

definition reconnect_install :: "nat \<Rightarrow> ('z) jrpc_scheme \<Rightarrow> (go_error + (u64 \<rightharpoonup> addr)) \<times> ('z) jrpc_scheme" where
  "reconnect_install conn t =
     (if jt_closed t then (Inl ErrClosed, t)
      else
        let (pending, t1) = flush_pending (t\<lparr>jt_conn := Some conn, jt_next := 0\<rparr>);
            old = jt_cancel t1; sid = jt_session t1 + 1; (ctx, t2) = with_cancel t1;
            t3 = t2\<lparr>jt_session := sid, jt_ctx := ctx, jt_cancel := Some ctx\<rparr>
        in (Inr pending, run_cancel old t3))"

section \<open>Requests from the server\<close>

definition deliver_request :: "bool \<Rightarrow> request \<Rightarrow> ('z) jrpc_scheme \<Rightarrow> (bool \<times> ('z) jrpc_scheme) option" where
  "deliver_request prefer_done r t =
     (if \<not> is_current_session (req_session r) t then Some (False, t)
      else if prefer_done \<and> jt_done t then Some (False, t)
      else (case chan_send (jt_requests t) r of
              SendOk ch \<Rightarrow> Some (True, t\<lparr>jt_requests := ch\<rparr>)
            | _ \<Rightarrow> None))"

definition deliver_notification :: "bool \<Rightarrow> u64 \<Rightarrow> notification \<Rightarrow> ('z) jrpc_scheme \<Rightarrow> (bool \<times> ('z) jrpc_scheme) option" where
  "deliver_notification prefer_done sid n t =
     (if \<not> is_current_session sid t then Some (False, t)
      else if prefer_done \<and> jt_done t then Some (False, t)
      else (case chan_send (jt_notes t) n of
              SendOk ch \<Rightarrow> Some (True, t\<lparr>jt_notes := ch\<rparr>)
            | _ \<Rightarrow> None))"

text \<open>\<^verbatim>\<open>send\<close>: the stream a reply of a session may be written to; the context's error comes first.\<close>

definition send_conn :: "go_error option \<Rightarrow> u64 \<Rightarrow> ('z) jrpc_scheme \<Rightarrow> go_error + nat" where
  "send_conn ctx_err sid t =
     (case ctx_err of
        Some e \<Rightarrow> Inl e
      | None \<Rightarrow>
          if jt_closed t \<or> jt_session t \<noteq> sid
          then Inl (if jt_closed t then ErrClosed else ErrDisconnected)
          else (case jt_conn t of None \<Rightarrow> Inl ErrDisconnected | Some c \<Rightarrow> Inr c))"

text \<open>
  \<^verbatim>\<open>Reply\<close> and \<^verbatim>\<open>ReplyError\<close> on a request of this transport: the request is marked first, and what
  is written where, or the error, comes back.
\<close>

definition reply :: "go_error option \<Rightarrow> json \<Rightarrow> request \<Rightarrow> ('z) jrpc_scheme \<Rightarrow>
    (go_error + (nat \<times> json)) \<times> request" where
  "reply ctx_err result r t =
     (if req_replied r then (Inl ErrAlreadyReplied, r)
      else
        (case send_conn ctx_err (req_session r) t of
           Inl e \<Rightarrow> (Inl e, r\<lparr>req_replied := True\<rparr>)
         | Inr c \<Rightarrow> (Inr (c, enc_reply (req_id r) result None), r\<lparr>req_replied := True\<rparr>)))"

definition reply_error :: "go_error option \<Rightarrow> int \<Rightarrow> string \<Rightarrow> raw \<Rightarrow> request \<Rightarrow> ('z) jrpc_scheme \<Rightarrow>
    (go_error + (nat \<times> json)) \<times> request" where
  "reply_error ctx_err c m d r t =
     (if req_replied r then (Inl ErrAlreadyReplied, r)
      else
        (case send_conn ctx_err (req_session r) t of
           Inl e \<Rightarrow> (Inl e, r\<lparr>req_replied := True\<rparr>)
         | Inr conn \<Rightarrow>
             (Inr (conn, enc_reply (req_id r) JNull (Some \<lparr>rpc_code = c, rpc_message = m, rpc_data = d\<rparr>)),
              r\<lparr>req_replied := True\<rparr>)))"

lemmas rpc_unfold = start_session_def call_register_def remove_pending_def flush_pending_def
  take_pending_def put_result_def offer_result_def close_lock_def close_done_def session_end_def
  reconnect_install_def with_cancel_def run_cancel_def is_current_session_def

end
