(* ===== verification/RpcSystem.thy ===== *)
theory RpcSystem imports RpcTransport begin

text \<open>
  The JSON-RPC transport as a concurrent system: any number of calls, the readers of the sessions,
  \<^verbatim>\<open>Close\<close>, the end of a session and \<^verbatim>\<open>Reconnect\<close>, interleaved at the granularity of the critical
  sections and selects of \<^verbatim>\<open>RpcTransport\<close>.  A call is a thread with a program counter; a value on
  its way to a reply channel (between the unlock and the send) is a flight.  History variables: the
  session a call was registered in, and the responses readers took for a call.
\<close>

datatype call_pc = Writing | Waiting | Removing go_error | Returned call_result | Aborted go_error

record call_thread =
  ct_id :: u64
  ct_ch :: addr
  ct_conn :: nat
  ct_session :: u64
  ct_pc :: call_pc

datatype flight = Put addr call_result | Offer addr call_result

record jsys = jrpc +
  js_calls :: "call_thread list"
  js_flights :: "flight list"
  js_log :: "(u64 \<times> u64 \<times> call_result) set"

definition set_pc :: "nat \<Rightarrow> call_pc \<Rightarrow> jsys \<Rightarrow> jsys" where
  "set_pc k pc s = s\<lparr>js_calls := (js_calls s)[k := (js_calls s ! k)\<lparr>ct_pc := pc\<rparr>]\<rparr>"

definition at_pc :: "jsys \<Rightarrow> nat \<Rightarrow> call_pc \<Rightarrow> bool" where
  "at_pc s k pc \<longleftrightarrow> k < length (js_calls s) \<and> ct_pc (js_calls s ! k) = pc"

text \<open>Ranging over the flushed map hands out one offer per pending call, in any order.\<close>

definition offers_of :: "(u64 \<rightharpoonup> addr) \<Rightarrow> go_error \<Rightarrow> flight list \<Rightarrow> bool" where
  "offers_of pending e fs \<longleftrightarrow>
     (\<exists>is. distinct is \<and> set is = dom pending \<and> fs = map (\<lambda>i. Offer (the (pending i)) (flush_result e)) is)"

definition rpc_start :: "bool \<Rightarrow> jsys \<Rightarrow> bool" where
  "rpc_start opener s \<longleftrightarrow>
     (\<exists>conn. s = jrpc.extend (new_transport conn opener)
        \<lparr>js_calls = [], js_flights = [], js_log = {}\<rparr>)"

inductive rpc_step :: "jsys \<Rightarrow> jsys \<Rightarrow> bool" where
  call_registered: "jt_next s \<noteq> - 1 \<Longrightarrow> call_register s = (Inr (i, a, c), t) \<Longrightarrow>
     rpc_step s (t\<lparr>js_calls := js_calls s @
       [\<lparr>ct_id = i, ct_ch = a, ct_conn = c, ct_session = jt_session s, ct_pc = Writing\<rparr>]\<rparr>)"
| written: "at_pc s k Writing \<Longrightarrow> rpc_step s (set_pc k Waiting s)"
| write_failed: "at_pc s k Writing \<Longrightarrow> rpc_step s (set_pc k (Removing e) s)"
| ctx_done: "at_pc s k Waiting \<Longrightarrow> e \<in> {ErrCanceled, ErrDeadlineExceeded} \<Longrightarrow>
     rpc_step s (set_pc k (Removing e) s)"
| saw_done: "at_pc s k Waiting \<Longrightarrow> jt_done s \<Longrightarrow> rpc_step s (set_pc k (Removing ErrClosed) s)"
| received: "at_pc s k Waiting \<Longrightarrow> a = ct_ch (js_calls s ! k) \<Longrightarrow> jt_heap s a = Some ch \<Longrightarrow>
     chan_recv ch = RecvVal r ch' \<Longrightarrow>
     rpc_step s ((set_pc k (Returned r) s)\<lparr>jt_heap := (jt_heap s)(a \<mapsto> ch')\<rparr>)"
| removed: "at_pc s k (Removing e) \<Longrightarrow>
     rpc_step s (set_pc k (Aborted e) (remove_pending (ct_id (js_calls s ! k)) s))"
| response: "take_pending sid i s = (TakeSend a, t) \<Longrightarrow>
     rpc_step s (t\<lparr>js_flights := Put a r # js_flights s, js_log := insert (sid, i, r) (js_log s)\<rparr>)"
| put: "js_flights s = fs @ Put a r # gs \<Longrightarrow> put_result d a r s = Some (b, t) \<Longrightarrow>
     rpc_step s (t\<lparr>js_flights := fs @ gs\<rparr>)"
| offer: "js_flights s = fs @ Offer a r # gs \<Longrightarrow>
     rpc_step s ((offer_result a r s)\<lparr>js_flights := fs @ gs\<rparr>)"
| ended: "session_end sid s = (Some pending, t) \<Longrightarrow> offers_of pending ErrDisconnected os \<Longrightarrow>
     rpc_step s (t\<lparr>js_flights := os @ js_flights s\<rparr>)"
| closing: "close_lock s = (Some pending, t) \<Longrightarrow> offers_of pending ErrClosed os \<Longrightarrow>
     rpc_step s (t\<lparr>js_flights := os @ js_flights s\<rparr>)"
| closed: "jt_closed s \<Longrightarrow> rpc_step s (close_done s)"
| reconnected: "reconnect_check s = None \<Longrightarrow> jt_session s \<noteq> - 1 \<Longrightarrow>
     reconnect_install conn s = (Inr pending, t) \<Longrightarrow> offers_of pending ErrDisconnected os \<Longrightarrow>
     rpc_step s (t\<lparr>js_flights := os @ js_flights s\<rparr>)"

section \<open>Where the one value of a call is\<close>

text \<open>
  The identity of a call never changes.  A call's reply channel is in the pending map, or a value
  for it is in flight, or in its buffer, or the call has returned it; the tokens of a channel count
  these places.
\<close>

definition call_key :: "call_thread \<Rightarrow> u64 \<times> addr \<times> u64" where
  "call_key c = (ct_id c, ct_ch c, ct_session c)"

definition keys :: "jsys \<Rightarrow> (u64 \<times> addr \<times> u64) list" where
  "keys s = map call_key (js_calls s)"

definition flight_addr :: "flight \<Rightarrow> addr" where
  "flight_addr f = (case f of Put a r \<Rightarrow> a | Offer a r \<Rightarrow> a)"

definition flight_value :: "flight \<Rightarrow> call_result" where
  "flight_value f = (case f of Put a r \<Rightarrow> r | Offer a r \<Rightarrow> r)"

definition in_flight :: "flight list \<Rightarrow> addr \<Rightarrow> nat" where
  "in_flight fs a = length (filter (\<lambda>f. flight_addr f = a) fs)"

definition buffered :: "(addr \<rightharpoonup> call_result gochan) \<Rightarrow> addr \<Rightarrow> call_result list" where
  "buffered h a = (case h a of None \<Rightarrow> [] | Some ch \<Rightarrow> chan_buf ch)"

definition returned :: "jsys \<Rightarrow> (addr \<times> call_result) set" where
  "returned s = {(a, r). \<exists>k < length (js_calls s).
     ct_ch (js_calls s ! k) = a \<and> ct_pc (js_calls s ! k) = Returned r}"

definition tokens :: "jsys \<Rightarrow> addr \<Rightarrow> nat" where
  "tokens s a = of_bool (a \<in> ran (jt_pending s)) + in_flight (js_flights s) a
     + length (buffered (jt_heap s) a) + of_bool (a \<in> fst ` returned s)"

text \<open>Where a value may come from: a flush, or a response to this very call.\<close>

definition genuine :: "jsys \<Rightarrow> addr \<Rightarrow> call_result \<Rightarrow> bool" where
  "genuine s a r \<longleftrightarrow>
     r = flush_result ErrClosed \<or> r = flush_result ErrDisconnected \<or>
     (\<exists>i sid. (i, a, sid) \<in> set (keys s) \<and> (sid, i, r) \<in> js_log s)"

definition calls_ok :: "jsys \<Rightarrow> bool" where
  "calls_ok s \<longleftrightarrow>
     distinct (map (\<lambda>(i, a, sid). a) (keys s)) \<and>
     distinct (map (\<lambda>(i, a, sid). (sid, i)) (keys s)) \<and>
     (\<forall>i a sid. (i, a, sid) \<in> set (keys s) \<longrightarrow>
        a < jt_brk s \<and> sid \<le> jt_session s \<and> (sid = jt_session s \<longrightarrow> i \<le> jt_next s))"

definition pending_ok :: "jsys \<Rightarrow> bool" where
  "pending_ok s \<longleftrightarrow>
     (\<forall>i a. jt_pending s i = Some a \<longrightarrow> (i, a, jt_session s) \<in> set (keys s)) \<and>
     (jt_closed s \<or> jt_conn s = None \<longrightarrow> jt_pending s = Map.empty)"

definition heap_ok :: "jsys \<Rightarrow> bool" where
  "heap_ok s \<longleftrightarrow>
     (\<forall>a. (jt_heap s a \<noteq> None) = (a < jt_brk s)) \<and>
     (\<forall>a ch. jt_heap s a = Some ch \<longrightarrow> chan_cap ch = 1 \<and> \<not> chan_closed ch)"

definition values_ok :: "jsys \<Rightarrow> bool" where
  "values_ok s \<longleftrightarrow>
     (\<forall>f \<in> set (js_flights s). flight_addr f < jt_brk s \<and> genuine s (flight_addr f) (flight_value f)) \<and>
     (\<forall>a. \<forall>r \<in> set (buffered (jt_heap s) a). genuine s a r) \<and>
     (\<forall>(a, r) \<in> returned s. genuine s a r)"

definition rpc_inv :: "jsys \<Rightarrow> bool" where
  "rpc_inv s \<longleftrightarrow> calls_ok s \<and> pending_ok s \<and> heap_ok s \<and> values_ok s \<and> (\<forall>a. tokens s a \<le> 1) \<and>
     (jt_done s \<longrightarrow> jt_closed s)"

lemma rpc_invD:
  assumes "rpc_inv s"
  shows "calls_ok s" "pending_ok s" "heap_ok s" "values_ok s" "tokens s a \<le> 1" "jt_done s \<Longrightarrow> jt_closed s"
  using assms by (auto simp: rpc_inv_def)

lemmas inv_parts = calls_ok_def pending_ok_def heap_ok_def values_ok_def

section \<open>Views of the steps\<close>

lemma flight_sel [simp]:
  "flight_addr (Put a r) = a" "flight_addr (Offer a r) = a"
  "flight_value (Put a r) = r" "flight_value (Offer a r) = r"
  by (simp_all add: flight_addr_def flight_value_def)

lemma in_flight_simps [simp]:
  "in_flight [] a = 0"
  "in_flight (f # fs) a = of_bool (flight_addr f = a) + in_flight fs a"
  "in_flight (fs @ gs) a = in_flight fs a + in_flight gs a"
  by (simp_all add: in_flight_def)

lemma set_pc_sel [simp]:
  "jt_pending (set_pc k pc s) = jt_pending s" "jt_heap (set_pc k pc s) = jt_heap s"
  "jt_brk (set_pc k pc s) = jt_brk s" "jt_session (set_pc k pc s) = jt_session s"
  "jt_next (set_pc k pc s) = jt_next s" "jt_closed (set_pc k pc s) = jt_closed s"
  "jt_conn (set_pc k pc s) = jt_conn s" "jt_done (set_pc k pc s) = jt_done s"
  "jt_opener (set_pc k pc s) = jt_opener s"
  "js_flights (set_pc k pc s) = js_flights s" "js_log (set_pc k pc s) = js_log s"
  by (simp_all add: set_pc_def)

lemma keys_set_pc [simp]: "k < length (js_calls s) \<Longrightarrow> keys (set_pc k pc s) = keys s"
  by (simp add: keys_def set_pc_def map_update call_key_def)
     (metis (no_types, lifting) call_key_def length_map list_update_id nth_map)

lemma keys_nth: "k < length (js_calls s) \<Longrightarrow> call_key (js_calls s ! k) \<in> set (keys s)"
  by (simp add: keys_def)

lemma ch_inj:
  assumes "calls_ok s" and "(i, a, sid) \<in> set (keys s)" and "(j, a, sid') \<in> set (keys s)"
  shows "i = j \<and> sid = sid'"
proof -
  from assms(1) have "inj_on (\<lambda>(i, a, sid). a) (set (keys s))" by (auto simp: calls_ok_def distinct_map)
  from inj_onD [OF this _ assms(2,3)] show ?thesis by simp
qed

text \<open>Only the program counters of the calls distinguish these two states.\<close>

definition same_views :: "jsys \<Rightarrow> jsys \<Rightarrow> bool" where
  "same_views s t \<longleftrightarrow>
     keys t = keys s \<and> returned t = returned s \<and> jt_session t = jt_session s \<and> jt_next t = jt_next s \<and>
     jt_brk t = jt_brk s \<and> jt_pending t = jt_pending s \<and> jt_heap t = jt_heap s \<and>
     js_flights t = js_flights s \<and> js_log t = js_log s \<and> jt_closed t = jt_closed s \<and>
     jt_conn t = jt_conn s"

lemma same_views_inv:
  "rpc_inv s \<Longrightarrow> same_views s t \<Longrightarrow> (jt_done t \<Longrightarrow> jt_closed s) \<Longrightarrow> rpc_inv t"
  by (simp add: rpc_inv_def same_views_def inv_parts tokens_def genuine_def)

lemma returned_set_pc:
  assumes "at_pc s k pc" and "\<And>r. pc \<noteq> Returned r"
  shows "returned (set_pc k pc' s) =
     (case pc' of Returned r \<Rightarrow> insert (ct_ch (js_calls s ! k), r) (returned s) | _ \<Rightarrow> returned s)"
proof -
  from assms have k: "k < length (js_calls s)" "\<And>r. ct_pc (js_calls s ! k) \<noteq> Returned r"
    by (auto simp: at_pc_def)
  have "(a, r) \<in> returned (set_pc k pc' s) \<longleftrightarrow>
      pc' = Returned r \<and> a = ct_ch (js_calls s ! k) \<or> (a, r) \<in> returned s" (is "?L \<longleftrightarrow> ?R") for a r
  proof
    assume ?L
    then obtain l where l: "l < length (js_calls s)" "ct_ch ((js_calls s)[k := (js_calls s ! k)\<lparr>ct_pc := pc'\<rparr>] ! l) = a"
      "ct_pc ((js_calls s)[k := (js_calls s ! k)\<lparr>ct_pc := pc'\<rparr>] ! l) = Returned r"
      by (auto simp: returned_def set_pc_def)
    then show ?R by (cases "l = k") (auto simp: returned_def)
  next
    assume ?R
    then show ?L
    proof
      assume "pc' = Returned r \<and> a = ct_ch (js_calls s ! k)"
      with k(1) show ?L by (auto simp: returned_def set_pc_def intro!: exI [of _ k])
    next
      assume "(a, r) \<in> returned s"
      then obtain l where l: "l < length (js_calls s)" "ct_ch (js_calls s ! l) = a"
        "ct_pc (js_calls s ! l) = Returned r" by (auto simp: returned_def)
      with k(2) have "l \<noteq> k" by auto
      with l show ?L by (auto simp: returned_def set_pc_def intro!: exI [of _ l])
    qed
  qed
  then show ?thesis by (auto split: call_pc.splits)
qed

lemma returned_quiet:
  "at_pc s k pc \<Longrightarrow> (\<And>r. pc \<noteq> Returned r) \<Longrightarrow> (\<And>r. pc' \<noteq> Returned r) \<Longrightarrow>
     returned (set_pc k pc' s) = returned s"
  by (simp add: returned_set_pc split: call_pc.splits)

lemma set_pc_same_views:
  "at_pc s k pc \<Longrightarrow> (\<And>r. pc \<noteq> Returned r) \<Longrightarrow> (\<And>r. pc' \<noteq> Returned r) \<Longrightarrow> same_views s (set_pc k pc' s)"
  by (simp add: same_views_def returned_quiet) (simp add: at_pc_def)

lemma inv_set_pc:
  "rpc_inv s \<Longrightarrow> at_pc s k pc \<Longrightarrow> (\<And>r. pc \<noteq> Returned r) \<Longrightarrow> (\<And>r. pc' \<noteq> Returned r) \<Longrightarrow>
     rpc_inv (set_pc k pc' s)"
  by (rule same_views_inv [OF _ set_pc_same_views]) (auto dest: rpc_invD(6))

section \<open>The invariant is preserved\<close>

lemma genuine_mono:
  "genuine s a r \<Longrightarrow> set (keys s) \<subseteq> set (keys t) \<Longrightarrow> js_log s \<subseteq> js_log t \<Longrightarrow> genuine t a r"
  by (auto simp: genuine_def)

lemma pending_inj: "calls_ok s \<Longrightarrow> pending_ok s \<Longrightarrow> map_inj (jt_pending s)"
  unfolding map_inj_def pending_ok_def using ch_inj by blast

lemma inv_register:
  assumes inv: "rpc_inv s" and n: "jt_next s \<noteq> - 1" and reg: "call_register s = (Inr (i, a, c), t)"
  shows "rpc_inv (t\<lparr>js_calls := js_calls s @
    [\<lparr>ct_id = i, ct_ch = a, ct_conn = c, ct_session = jt_session s, ct_pc = Writing\<rparr>]\<rparr>)" (is "rpc_inv ?t")
proof -
  from reg have i: "i = jt_next s + 1" "a = jt_brk s" "\<not> jt_closed s" "jt_conn s = Some c"
    and t: "t = s\<lparr>jt_next := i, jt_heap := (jt_heap s)(a \<mapsto> make_chan 1), jt_brk := Suc a,
              jt_pending := (jt_pending s)(i \<mapsto> a)\<rparr>"
    by (auto simp: call_register_def Let_def split: if_splits option.splits)
  note parts = rpc_invD [OF inv]
  have keys: "keys ?t = keys s @ [(i, a, jt_session s)]" by (simp add: keys_def call_key_def)
  have ret: "returned ?t = returned s"
    by (auto simp: returned_def nth_append less_Suc_eq split: if_splits)
  have fresh: "(j, b, sid) \<in> set (keys s) \<Longrightarrow> b < a \<and> (sid, j) \<noteq> (jt_session s, i)" for j b sid
    using parts(1) u64_inc_fresh [OF n] i by (auto simp: calls_ok_def)
  have "calls_ok ?t"
    unfolding calls_ok_def keys map_append distinct_append
  proof (intro conjI allI impI)
    show "distinct (map (\<lambda>(i, a, sid). a) (keys s))" "distinct (map (\<lambda>(i, a, sid). (sid, i)) (keys s))"
      using parts(1) by (simp_all add: calls_ok_def)
    fix j b sid
    assume "(j, b, sid) \<in> set (keys s @ [(i, a, jt_session s)])"
    then consider "(j, b, sid) \<in> set (keys s)" | "j = i" "b = a" "sid = jt_session s" by auto
    then show "b < jt_brk ?t" "sid \<le> jt_session ?t" "sid = jt_session ?t \<Longrightarrow> j \<le> jt_next ?t"
      using parts(1) u64_inc_mono [OF n] i by (cases; fastforce simp: calls_ok_def t)+
  qed (use fresh in fastforce)+
  moreover have "pending_ok ?t"
    using parts(2) i unfolding pending_ok_def keys by (auto simp: t)
  moreover have "heap_ok ?t" using parts(3) i by (auto simp: heap_ok_def t less_Suc_eq)
  moreover have sub: "set (keys s) \<subseteq> set (keys ?t)" "js_log s \<subseteq> js_log ?t"
    unfolding keys by (auto simp: t)
  have gen: "genuine s b r \<Longrightarrow> genuine ?t b r" for b r
    by (rule genuine_mono [OF _ sub])
  have buf: "buffered (jt_heap ?t) b = buffered (jt_heap s) b" for b
    using parts(3) i by (auto simp: buffered_def t heap_ok_def split: option.split)
  have "values_ok ?t"
    unfolding values_ok_def buf ret
    using parts(4) gen i by (fastforce simp: values_ok_def t less_Suc_eq)
  moreover have "tokens ?t b \<le> 1" for b
  proof -
    have free: "i \<notin> dom (jt_pending s)" using parts(2) fresh unfolding pending_ok_def by blast
    then have ran: "ran (jt_pending ?t) = insert a (ran (jt_pending s))" by (simp add: t ran_map_upd domIff)
    have "b = a \<Longrightarrow> in_flight (js_flights s) b = 0 \<and> buffered (jt_heap s) b = [] \<and> b \<notin> fst ` returned s"
    proof (intro conjI)
      assume b: "b = a"
      show "in_flight (js_flights s) b = 0"
        using parts(4) b i by (auto simp: values_ok_def in_flight_def filter_empty_conv)
      show "buffered (jt_heap s) b = []" using parts(3) b i by (auto simp: heap_ok_def buffered_def split: option.split)
      show "b \<notin> fst ` returned s"
      proof
        assume "b \<in> fst ` returned s"
        then obtain k where "k < length (js_calls s)" "ct_ch (js_calls s ! k) = b" by (auto simp: returned_def)
        with keys_nth [of k s] fresh b show False by (auto simp: call_key_def)
      qed
    qed
    note fresh_a = this
    have eq: "tokens ?t b = of_bool (b = a \<or> b \<in> ran (jt_pending s)) + in_flight (js_flights s) b
        + length (buffered (jt_heap s) b) + of_bool (b \<in> fst ` returned s)"
      unfolding tokens_def buf ret ran by (simp add: t)
    show ?thesis
    proof (cases "b = a")
      case True
      with fresh_a show ?thesis unfolding eq by simp
    next
      case False
      then have "tokens ?t b = tokens s b" unfolding eq by (simp add: tokens_def)
      with parts(5) [of b] show ?thesis by simp
    qed
  qed
  ultimately show ?thesis using parts(6) by (simp add: rpc_inv_def t)
qed

lemma offers_count:
  assumes "offers_of pending e os" and "map_inj pending"
  shows "in_flight os a = of_bool (a \<in> ran pending)"
proof -
  from assms(1) obtain "is" where fs: "distinct is" "set is = dom pending"
    "os = map (\<lambda>i. Offer (the (pending i)) (flush_result e)) is"
    by (auto simp: offers_of_def)
  have "in_flight os a = card {i. pending i = Some a}"
  proof -
    have "in_flight os a = length (filter (\<lambda>i. the (pending i) = a) is)"
      by (simp add: fs in_flight_def filter_map comp_def)
    also have "\<dots> = card (set is \<inter> {i. the (pending i) = a})"
      by (simp add: distinct_length_filter fs(1) Int_commute)
    also have "set is \<inter> {i. the (pending i) = a} = {i. pending i = Some a}" by (auto simp: fs(2))
    finally show ?thesis .
  qed
  also have "\<dots> = of_bool (a \<in> ran pending)"
  proof (cases "a \<in> ran pending")
    case True
    then obtain i where "pending i = Some a" by (auto simp: ran_def)
    with assms(2) have "{i. pending i = Some a} = {i}" by (auto simp: map_inj_def)
    with True show ?thesis by simp
  next
    case False
    then have "{i. pending i = Some a} = {}" by (auto simp: ran_def)
    with False show ?thesis by simp
  qed
  finally show ?thesis .
qed

lemma offers_set:
  "offers_of pending e os \<Longrightarrow> f \<in> set os \<Longrightarrow> flight_value f = flush_result e \<and> flight_addr f \<in> ran pending"
  unfolding offers_of_def ran_def dom_def by auto blast

text \<open>The three flushes: everything pending moves into flight, the ids may start again.\<close>

lemma inv_flush:
  assumes inv: "rpc_inv s" and os: "offers_of (jt_pending s) e os" and e: "e = ErrClosed \<or> e = ErrDisconnected"
    and views: "keys t = keys s" "returned t = returned s" "jt_heap t = jt_heap s" "jt_brk t = jt_brk s"
      "js_log t = js_log s" "jt_pending t = Map.empty" "js_flights t = os @ js_flights s"
    and ids: "jt_session t = jt_session s \<and> jt_next t = jt_next s \<or> jt_session s < jt_session t"
    and dn: "jt_done t \<Longrightarrow> jt_closed t"
  shows "rpc_inv t"
proof -
  note parts = rpc_invD [OF inv]
  have brk: "a \<in> ran (jt_pending s) \<Longrightarrow> a < jt_brk s" for a
    using parts(1,2) by (fastforce simp: ran_def pending_ok_def calls_ok_def)
  have "calls_ok t"
    unfolding calls_ok_def views
  proof (intro conjI allI impI)
    show "distinct (map (\<lambda>(i, a, sid). a) (keys s))" "distinct (map (\<lambda>(i, a, sid). (sid, i)) (keys s))"
      using parts(1) by (simp_all add: calls_ok_def)
    fix i a sid
    assume "(i, a, sid) \<in> set (keys s)"
    with parts(1) have "a < jt_brk s" "sid \<le> jt_session s" "sid = jt_session s \<Longrightarrow> i \<le> jt_next s"
      by (auto simp: calls_ok_def)
    with ids show "a < jt_brk s" "sid \<le> jt_session t" "sid = jt_session t \<Longrightarrow> i \<le> jt_next t"
      by auto
  qed
  moreover have "pending_ok t" by (simp add: pending_ok_def views)
  moreover have "heap_ok t" using parts(3) by (simp add: heap_ok_def views)
  moreover have gen: "genuine s a r \<Longrightarrow> genuine t a r" for a r by (rule genuine_mono) (auto simp: views)
  have "genuine t a (flush_result e)" for a using e by (auto simp: genuine_def)
  then have "values_ok t"
    using parts(4) gen offers_set [OF os] brk unfolding values_ok_def views by fastforce
  moreover have "tokens t a \<le> 1" for a
    using parts(5) [of a] by (simp add: tokens_def views offers_count [OF os pending_inj [OF parts(1,2)]])
  ultimately show ?thesis using dn by (simp add: rpc_inv_def)
qed

lemma ran_del: "map_inj m \<Longrightarrow> m i = Some a \<Longrightarrow> b \<in> ran (m(i := None)) \<longleftrightarrow> b \<in> ran m \<and> b \<noteq> a"
  unfolding ran_def map_inj_def by (cases "b = a") (auto split: if_splits, metis option.inject)

lemma inv_received:
  assumes inv: "rpc_inv s" and k: "at_pc s k Waiting" and a: "a = ct_ch (js_calls s ! k)"
    and heap: "jt_heap s a = Some ch" and recv: "chan_recv ch = RecvVal r ch'"
  shows "rpc_inv ((set_pc k (Returned r) s)\<lparr>jt_heap := (jt_heap s)(a \<mapsto> ch')\<rparr>)" (is "rpc_inv ?t")
proof -
  note parts = rpc_invD [OF inv]
  from recv obtain xs where ch: "chan_buf ch = r # xs" "ch' = ch\<lparr>chan_buf := xs\<rparr>"
    by (auto simp: chan_recv_Val_iff)
  have keys: "keys ?t = keys s" using k by (simp add: at_pc_def keys_def set_pc_def)
      (metis keys_def keys_set_pc set_pc_def jsys.select_convs(1) jsys.surjective jsys.update_convs(1))
  have "returned ?t = returned (set_pc k (Returned r) s)" by (simp add: returned_def)
  then have ret: "returned ?t = insert (a, r) (returned s)"
    using returned_set_pc [OF k, of "Returned r"] a by simp
  have buf: "buffered (jt_heap s) a = r # xs" "buffered (jt_heap ?t) b = (if b = a then xs else buffered (jt_heap s) b)" for b
    using heap ch by (simp_all add: buffered_def)
  have gen: "genuine ?t b x = genuine s b x" for b x by (simp add: genuine_def keys)
  have "calls_ok ?t" using parts(1) by (simp add: calls_ok_def keys)
  moreover have "pending_ok ?t" using parts(2) by (simp add: pending_ok_def keys)
  moreover have "heap_ok ?t" using parts(3) heap ch by (auto simp: heap_ok_def)
  moreover have "genuine s a r" using parts(4) buf(1) by (auto simp: values_ok_def)
  then have "values_ok ?t"
    using parts(4) buf(1) unfolding values_ok_def ret buf(2) gen by (auto split: if_splits)
  moreover have "tokens ?t b \<le> 1" for b
    using parts(5) [of b] buf by (auto simp: tokens_def ret split: if_splits)
  ultimately show ?thesis using parts(6) by (simp add: rpc_inv_def)
qed

lemma inv_removed:
  assumes inv: "rpc_inv s" and k: "at_pc s k (Removing e)"
  shows "rpc_inv (set_pc k (Aborted e) (remove_pending i s))"
proof -
  let ?r = "remove_pending i s"
  note parts = rpc_invD [OF inv]
  have "keys ?r = keys s" "returned ?r = returned s" by (simp_all add: keys_def returned_def remove_pending_def)
  moreover have "ran (jt_pending ?r) \<subseteq> ran (jt_pending s)"
    by (auto simp: remove_pending_def ran_def)
  then have "of_bool (a \<in> ran (jt_pending ?r)) \<le> (of_bool (a \<in> ran (jt_pending s)) :: nat)" for a by auto
  ultimately have "tokens ?r a \<le> tokens s a" for a by (simp add: tokens_def) (simp add: remove_pending_def)
  then have "rpc_inv ?r"
    using parts \<open>keys ?r = keys s\<close> \<open>returned ?r = returned s\<close>
    unfolding rpc_inv_def inv_parts genuine_def
    by (auto simp: remove_pending_def intro: order_trans)
  moreover have "at_pc ?r k (Removing e)" using k by (simp add: at_pc_def remove_pending_def)
  ultimately show ?thesis by (rule inv_set_pc) simp_all
qed

lemma inv_response:
  assumes inv: "rpc_inv s" and take: "take_pending sid i s = (TakeSend a, t)"
  shows "rpc_inv (t\<lparr>js_flights := Put a r # js_flights s, js_log := insert (sid, i, r) (js_log s)\<rparr>)" (is "rpc_inv ?t")
proof -
  note parts = rpc_invD [OF inv]
  from take have p: "jt_pending s i = Some a" "jt_session s = sid" and t: "t = remove_pending i s"
    by (auto simp: take_pending_def split: if_splits option.splits)
  with parts(2) have key: "(i, a, sid) \<in> set (keys s)" by (auto simp: pending_ok_def)
  with parts(1) have brk: "a < jt_brk s" by (auto simp: calls_ok_def)
  have views: "keys ?t = keys s" "returned ?t = returned s" by (simp_all add: keys_def returned_def t remove_pending_def)
  have gen: "genuine s b x \<Longrightarrow> genuine ?t b x" for b x by (rule genuine_mono) (auto simp: views)
  have "genuine ?t a r" using key by (auto simp: genuine_def views)
  then have "values_ok ?t"
    using parts(4) gen brk unfolding values_ok_def views by (auto simp: t remove_pending_def)
  moreover have "calls_ok ?t" using parts(1) unfolding calls_ok_def views by (simp add: t remove_pending_def)
  moreover have "pending_ok ?t" using parts(2) unfolding pending_ok_def views by (auto simp: t remove_pending_def)
  moreover have "heap_ok ?t" using parts(3) by (simp add: heap_ok_def t remove_pending_def)
  moreover have "tokens ?t b = tokens s b" for b
  proof -
    have "a \<in> ran (jt_pending s)" using p(1) by (rule ranI)
    then have "of_bool (b \<in> ran (jt_pending ?t)) + in_flight (js_flights ?t) b
        = of_bool (b \<in> ran (jt_pending s)) + in_flight (js_flights s) b"
      using ran_del [OF pending_inj [OF parts(1,2)] p(1), of b]
      by (cases "a = b") (simp_all add: t remove_pending_def)
    moreover have "jt_heap ?t = jt_heap s" by (simp add: t remove_pending_def)
    ultimately show ?thesis unfolding tokens_def views by presburger
  qed
  ultimately show ?thesis using parts(5,6) by (simp add: rpc_inv_def) (simp add: t remove_pending_def)
qed

text \<open>A flight lands: its value is in the buffer, or dropped.\<close>

lemma inv_landed:
  assumes inv: "rpc_inv s" and fl: "js_flights s = fs @ f # gs" and a: "flight_addr f = a"
    and t: "t = s\<lparr>js_flights := fs @ gs\<rparr> \<or>
      (\<exists>ch ch'. jt_heap s a = Some ch \<and> chan_send ch (flight_value f) = SendOk ch' \<and>
         t = s\<lparr>jt_heap := (jt_heap s)(a \<mapsto> ch'), js_flights := fs @ gs\<rparr>)"
  shows "rpc_inv t"
proof -
  note parts = rpc_invD [OF inv]
  have views: "keys t = keys s" "returned t = returned s" using t by (auto simp: keys_def returned_def)
  have gen: "genuine t b x = genuine s b x" for b x using t by (auto simp: genuine_def views)
  have buf: "buffered (jt_heap t) b = buffered (jt_heap s) b \<or>
      b = a \<and> buffered (jt_heap t) b = buffered (jt_heap s) b @ [flight_value f]" for b
    using t by (auto simp: buffered_def chan_send_def split: if_splits)
  have mem: "f \<in> set (js_flights s)" "js_flights t = fs @ gs" using t fl by auto
  from mem(1) parts(4) a have "genuine s a (flight_value f)" by (auto simp: values_ok_def)
  then have bufgen: "\<forall>b. \<forall>x \<in> set (buffered (jt_heap t) b). genuine s b x"
  proof (intro allI ballI)
    fix b x
    assume "x \<in> set (buffered (jt_heap t) b)"
    with buf [of b] have "x \<in> set (buffered (jt_heap s) b) \<or> b = a \<and> x = flight_value f" by auto
    with parts(4) \<open>genuine s a (flight_value f)\<close> show "genuine s b x" by (auto simp: values_ok_def)
  qed
  have same: "jt_brk t = jt_brk s" "jt_session t = jt_session s" "jt_next t = jt_next s"
    "jt_pending t = jt_pending s" "jt_closed t = jt_closed s" "jt_conn t = jt_conn s" "jt_done t = jt_done s"
    using t by auto
  have "values_ok t"
    using parts(4) bufgen unfolding values_ok_def views gen mem(2) same(1) by (auto simp: fl)
  moreover have "calls_ok t" using parts(1) by (simp add: calls_ok_def views same)
  moreover have "pending_ok t" using parts(2) by (simp add: pending_ok_def views same)
  moreover have "heap_ok t" using parts(3) t by (auto simp: heap_ok_def chan_send_def split: if_splits)
  moreover have "tokens t b \<le> tokens s b" for b
    using buf [of b] a by (auto simp: tokens_def views same mem(2) fl)
  then have "tokens t b \<le> 1" for b using parts(5) [of b] by (meson order_trans)
  ultimately show ?thesis using parts(6) by (simp add: rpc_inv_def same)
qed

lemma put_result_cases:
  assumes "put_result d a r s = Some (b, t)"
  shows "t = s \<or> (\<exists>ch ch'. jt_heap s a = Some ch \<and> chan_send ch r = SendOk ch' \<and>
    t = s\<lparr>jt_heap := (jt_heap s)(a \<mapsto> ch')\<rparr>)"
  using assms by (auto simp: put_result_def split: if_splits option.splits send_res.splits)

lemma offer_result_cases:
  "offer_result a r s = s \<or> (\<exists>ch ch'. jt_heap s a = Some ch \<and> chan_send ch r = SendOk ch' \<and>
    offer_result a r s = s\<lparr>jt_heap := (jt_heap s)(a \<mapsto> ch')\<rparr>)"
  by (auto simp: offer_result_def split: option.splits send_res.splits)

lemma run_cancel_sel [simp]:
  "jt_pending (run_cancel c s) = jt_pending s" "jt_heap (run_cancel c s) = jt_heap s"
  "jt_brk (run_cancel c s) = jt_brk s" "jt_session (run_cancel c s) = jt_session s"
  "jt_next (run_cancel c s) = jt_next s" "jt_closed (run_cancel c s) = jt_closed s"
  "jt_conn (run_cancel c s) = jt_conn s" "jt_done (run_cancel c s) = jt_done s"
  "jt_opener (run_cancel c s) = jt_opener s"
  "js_calls (run_cancel c s') = js_calls s'" "js_flights (run_cancel c s') = js_flights s'"
  "js_log (run_cancel c s') = js_log s'"
  by (auto simp: run_cancel_def split: option.splits)

lemma keys_cong: "js_calls t = js_calls s \<Longrightarrow> keys t = keys s"
  by (simp add: keys_def)

lemma returned_cong: "js_calls t = js_calls s \<Longrightarrow> returned t = returned s"
  by (simp add: returned_def)

lemma sid_inc: "sid \<noteq> (- 1 :: u64) \<Longrightarrow> sid < sid + 1"
  by (rule u64_inc_less)

lemma inv_ended:
  assumes inv: "rpc_inv s" and e: "session_end sid s = (Some pending, t)"
    and os: "offers_of pending ErrDisconnected os"
  shows "rpc_inv (t\<lparr>js_flights := os @ js_flights s\<rparr>)"
proof -
  from e have p: "pending = jt_pending s" "\<not> jt_closed s"
    and t: "t = run_cancel (jt_cancel s) (s\<lparr>jt_conn := None, jt_pending := Map.empty, jt_cancel := None\<rparr>)"
    by (auto simp: session_end_def flush_pending_def Let_def split: if_splits)
  from os have "offers_of (jt_pending s) ErrDisconnected os" by (simp add: p)
  then show ?thesis
    by (rule inv_flush [OF inv]) (use p(2) rpc_invD(6) [OF inv] in \<open>auto simp: t intro!: keys_cong returned_cong\<close>)
qed

lemma inv_closing:
  assumes inv: "rpc_inv s" and c: "close_lock s = (Some pending, t)" and os: "offers_of pending ErrClosed os"
  shows "rpc_inv (t\<lparr>js_flights := os @ js_flights s\<rparr>)"
proof -
  from c have p: "pending = jt_pending s"
    and t: "t = run_cancel (jt_cancel s) (s\<lparr>jt_closed := True, jt_conn := None, jt_pending := Map.empty\<rparr>)"
    by (auto simp: close_lock_def flush_pending_def Let_def split: if_splits)
  from os have "offers_of (jt_pending s) ErrClosed os" by (simp add: p)
  then show ?thesis
    by (rule inv_flush [OF inv]) (auto simp: t intro!: keys_cong returned_cong)
qed

lemma inv_reconnected:
  assumes inv: "rpc_inv s" and sid: "jt_session s \<noteq> - 1"
    and r: "reconnect_install conn s = (Inr pending, t)" and os: "offers_of pending ErrDisconnected os"
  shows "rpc_inv (t\<lparr>js_flights := os @ js_flights s\<rparr>)"
proof -
  from r have p: "pending = jt_pending s" "\<not> jt_closed s"
    and t: "t = run_cancel (jt_cancel s) (s\<lparr>jt_conn := Some conn, jt_next := 0, jt_pending := Map.empty,
       jt_ctxs := Suc (jt_ctxs s), jt_session := jt_session s + 1, jt_ctx := jt_ctxs s, jt_cancel := Some (jt_ctxs s)\<rparr>)"
    by (auto simp: reconnect_install_def flush_pending_def with_cancel_def Let_def split: if_splits)
  from os have "offers_of (jt_pending s) ErrDisconnected os" by (simp add: p)
  then show ?thesis
    by (rule inv_flush [OF inv])
      (use p(2) rpc_invD(6) [OF inv] sid_inc [OF sid] in \<open>auto simp: t intro!: keys_cong returned_cong\<close>)
qed

lemma rpc_inv_step: "rpc_step s t \<Longrightarrow> rpc_inv s \<Longrightarrow> rpc_inv t"
proof (induction rule: rpc_step.induct)
  case (put s fs a r gs d b t)
  show ?case
  proof (rule inv_landed [OF put(3,1) flight_sel(1)])
    show "t\<lparr>js_flights := fs @ gs\<rparr> = s\<lparr>js_flights := fs @ gs\<rparr> \<or>
      (\<exists>ch ch'. jt_heap s a = Some ch \<and> chan_send ch (flight_value (Put a r)) = SendOk ch' \<and>
         t\<lparr>js_flights := fs @ gs\<rparr> = s\<lparr>jt_heap := (jt_heap s)(a \<mapsto> ch'), js_flights := fs @ gs\<rparr>)"
      using put_result_cases [OF put(2)] by auto
  qed
next
  case (offer s fs a r gs)
  show ?case
  proof (rule inv_landed [OF offer(2,1) flight_sel(2)])
    show "(offer_result a r s)\<lparr>js_flights := fs @ gs\<rparr> = s\<lparr>js_flights := fs @ gs\<rparr> \<or>
      (\<exists>ch ch'. jt_heap s a = Some ch \<and> chan_send ch (flight_value (Offer a r)) = SendOk ch' \<and>
         (offer_result a r s)\<lparr>js_flights := fs @ gs\<rparr> = s\<lparr>jt_heap := (jt_heap s)(a \<mapsto> ch'), js_flights := fs @ gs\<rparr>)"
      using offer_result_cases [of a r s] by auto
  qed
next
  case (closed s)
  have "same_views s (close_done s)"
    unfolding same_views_def close_done_def by (intro conjI keys_cong returned_cong) simp_all
  with closed show ?case by (blast intro: same_views_inv)
next
  case (call_registered s i a c t)
  then show ?case by (blast intro: inv_register)
next
  case (received s k a ch r ch')
  then show ?case by (blast intro: inv_received)
next
  case (response sid i s a t r)
  then show ?case by (blast intro: inv_response)
next
  case (ended sid s pending t os)
  then show ?case by (blast intro: inv_ended)
next
  case (closing s pending t os)
  then show ?case by (blast intro: inv_closing)
next
  case (reconnected s conn pending t os)
  then show ?case by (blast intro: inv_reconnected)
qed (auto intro: inv_set_pc inv_removed)

lemma rpc_inv_start: "rpc_start opener s \<Longrightarrow> rpc_inv s"
  by (auto simp: rpc_start_def rpc_inv_def inv_parts new_transport_def start_session_def with_cancel_def
      run_cancel_def jrpc.extend_def keys_def returned_def tokens_def buffered_def Let_def)

interpretation rpc: invariant_system "rpc_start opener" rpc_step rpc_inv
  by unfold_locales (auto intro: rpc_inv_start rpc_inv_step)

end
