(* ===== verification/RpcProps.thy ===== *)
theory RpcProps imports RpcSystem begin

text \<open>
  What the JSON-RPC transport guarantees to its callers: responses reach the call they answer,
  readers never block on a reply channel, no call is forgotten by a transport that cannot
  reconnect, closing is final, a request is answered once, and a message written is read back.
\<close>

section \<open>Tokens are conserved\<close>

lemma tokens_same: "same_views s t \<Longrightarrow> tokens t a = tokens s a"
  by (simp add: tokens_def same_views_def)

lemma tokens_landed:
  assumes "js_flights s = fs @ f # gs" and "flight_addr f = a" and "jt_heap s a = Some ch"
    and "chan_send ch (flight_value f) = SendOk ch'"
    and "t = s\<lparr>jt_heap := (jt_heap s)(a \<mapsto> ch'), js_flights := fs @ gs\<rparr>"
  shows "tokens t b = tokens s b"
proof -
  have "returned t = returned s" using assms(5) by (simp add: returned_def)
  then show ?thesis
    using assms by (auto simp: tokens_def buffered_def chan_send_def split: if_splits)
qed

lemma tokens_flushed:
  assumes "rpc_inv s" and "offers_of (jt_pending s) e os" and "returned t = returned s"
    and "jt_heap t = jt_heap s" "jt_pending t = Map.empty" "js_flights t = os @ js_flights s"
  shows "tokens t a = tokens s a"
  using assms by (simp add: tokens_def offers_count [OF assms(2) pending_inj [OF rpc_invD(1,2)]])

text \<open>A value in flight finds an empty channel.\<close>

lemma flight_room:
  assumes inv: "rpc_inv s" and f: "f \<in> set (js_flights s)"
  shows "\<exists>ch. jt_heap s (flight_addr f) = Some ch \<and> chan_buf ch = [] \<and>
     chan_send ch r = SendOk (ch\<lparr>chan_buf := [r]\<rparr>)"
proof -
  let ?a = "flight_addr f"
  note parts = rpc_invD [OF inv]
  from f parts(4) have "?a < jt_brk s" by (auto simp: values_ok_def)
  with parts(3) obtain ch where ch: "jt_heap s ?a = Some ch" "chan_cap ch = 1" "\<not> chan_closed ch"
    by (fastforce simp: heap_ok_def)
  from f have "0 < in_flight (js_flights s) ?a" by (auto simp: in_flight_def filter_empty_conv)
  moreover have "in_flight (js_flights s) ?a + length (chan_buf ch) \<le> 1"
    using parts(5) [of ?a] ch(1) unfolding tokens_def buffered_def by simp
  ultimately have "length (chan_buf ch) = 0" by linarith
  then have "chan_buf ch = []" by simp
  with ch show ?thesis by (simp add: chan_send_def)
qed

section \<open>A transport that cannot reconnect forgets no call\<close>

definition expecting :: "jsys \<Rightarrow> nat \<Rightarrow> bool" where
  "expecting s k \<longleftrightarrow> at_pc s k Writing \<or> at_pc s k Waiting"

definition tracked :: "jsys \<Rightarrow> bool" where
  "tracked s \<longleftrightarrow> \<not> jt_opener s \<and>
     (\<forall>i a sid. (i, a, sid) \<in> set (keys s) \<longrightarrow> sid = jt_session s) \<and>
     (jt_done s \<or> (\<forall>k. expecting s k \<longrightarrow> 1 \<le> tokens s (ct_ch (js_calls s ! k))))"

lemma trackedI:
  assumes "tracked s" and "jt_opener t = jt_opener s" and "keys t = keys s" and "jt_session t = jt_session s"
    and "jt_done s \<Longrightarrow> jt_done t"
    and "\<And>k. \<not> jt_done t \<Longrightarrow> expecting t k \<Longrightarrow> expecting s k \<and> tokens s (ct_ch (js_calls s ! k)) \<le> tokens t (ct_ch (js_calls s ! k))"
  shows "tracked t"
proof -
  have ch: "expecting t k \<Longrightarrow> ct_ch (js_calls t ! k) = ct_ch (js_calls s ! k)" for k
  proof -
    assume "expecting t k"
    then have k: "k < length (js_calls t)" by (auto simp: expecting_def at_pc_def)
    have "length (js_calls t) = length (js_calls s)" using assms(3) by (metis keys_def length_map)
    with k assms(3) have "call_key (js_calls t ! k) = call_key (js_calls s ! k)"
      by (metis keys_def nth_map)
    then show ?thesis by (simp add: call_key_def)
  qed
  show ?thesis
    unfolding tracked_def
  proof (intro conjI)
    show "\<not> jt_opener t" using assms(1,2) by (simp add: tracked_def)
    show "\<forall>i a sid. (i, a, sid) \<in> set (keys t) \<longrightarrow> sid = jt_session t"
      using assms(1,3,4) by (simp add: tracked_def)
    show "jt_done t \<or> (\<forall>k. expecting t k \<longrightarrow> 1 \<le> tokens t (ct_ch (js_calls t ! k)))"
    proof (cases "jt_done t")
      case False
      with assms(5) have "\<not> jt_done s" by blast
      with assms(1) have s: "\<And>k. expecting s k \<Longrightarrow> 1 \<le> tokens s (ct_ch (js_calls s ! k))"
        by (auto simp: tracked_def)
      have "1 \<le> tokens t (ct_ch (js_calls t ! k))" if k: "expecting t k" for k
        using assms(6) [OF False k] s [of k] ch [OF k] by simp
      then show ?thesis by blast
    qed simp
  qed
qed

lemma at_pc_set_pc:
  "k < length (js_calls s) \<Longrightarrow> at_pc (set_pc k pc s) l pc' \<longleftrightarrow> (if l = k then pc = pc' else at_pc s l pc')"
  by (auto simp: at_pc_def set_pc_def nth_list_update)

lemma tracked_set_pc:
  assumes "tracked s" and "at_pc s k pc" and "\<And>r. pc \<noteq> Returned r" and "\<And>r. pc' \<noteq> Returned r"
    and "pc \<in> {Writing, Waiting} \<or> pc' \<notin> {Writing, Waiting}"
  shows "tracked (set_pc k pc' s)"
proof (rule trackedI [OF assms(1)])
  have k: "k < length (js_calls s)" using assms(2) by (simp add: at_pc_def)
  then show "keys (set_pc k pc' s) = keys s" by simp
  fix l
  assume "expecting (set_pc k pc' s) l"
  with k assms(2,5) have "expecting s l" by (auto simp: expecting_def at_pc_set_pc split: if_splits)
  with tokens_same [OF set_pc_same_views [OF assms(2-4)]]
  show "expecting s l \<and> tokens s (ct_ch (js_calls s ! l)) \<le> tokens (set_pc k pc' s) (ct_ch (js_calls s ! l))"
    by simp
qed simp_all

lemma call_at_nth:
  assumes "calls_ok s" and "k < length (js_calls s)" and "l < length (js_calls s)"
    and "ct_ch (js_calls s ! k) = ct_ch (js_calls s ! l)"
  shows "k = l"
proof -
  from assms(1) have "distinct (map (\<lambda>(i, a, sid). a) (keys s))" by (simp add: calls_ok_def)
  then have "distinct (map ct_ch (js_calls s))"
    by (simp add: keys_def call_key_def comp_def)
  with assms(2-4) show ?thesis by (simp add: distinct_conv_nth) (metis nth_map)
qed

lemma same_call:
  assumes "calls_ok s" and "k < length (js_calls s)" and "l < length (js_calls s)"
    and "ct_session (js_calls s ! k) = ct_session (js_calls s ! l)" and "ct_id (js_calls s ! k) = ct_id (js_calls s ! l)"
  shows "k = l"
proof -
  from assms(1) have "distinct (map (\<lambda>(i, a, sid). (sid, i)) (keys s))" by (simp add: calls_ok_def)
  then have "distinct (map (\<lambda>c. (ct_session c, ct_id c)) (js_calls s))"
    by (simp add: keys_def call_key_def comp_def)
  with assms(2-5) show ?thesis by (auto simp: distinct_conv_nth)
qed

lemma tracked_register:
  assumes tr: "tracked s" and inv: "rpc_inv s" and n: "jt_next s \<noteq> - 1"
    and reg: "call_register s = (Inr (i, a, c), t)"
  shows "tracked (t\<lparr>js_calls := js_calls s @
    [\<lparr>ct_id = i, ct_ch = a, ct_conn = c, ct_session = jt_session s, ct_pc = Writing\<rparr>]\<rparr>)" (is "tracked ?t")
proof -
  from reg have t: "t = s\<lparr>jt_next := i, jt_heap := (jt_heap s)(a \<mapsto> make_chan 1), jt_brk := Suc a,
              jt_pending := (jt_pending s)(i \<mapsto> a)\<rparr>" and a: "a = jt_brk s"
    by (auto simp: call_register_def Let_def split: if_splits option.splits)
  have keys: "keys ?t = keys s @ [(i, a, jt_session s)]" by (simp add: keys_def call_key_def)
  have "1 \<le> tokens ?t (ct_ch (js_calls ?t ! k))" if ex: "expecting ?t k" and nd: "\<not> jt_done s" for k
  proof (cases "k = length (js_calls s)")
    case True
    then have "ct_ch (js_calls ?t ! k) = a" by (simp add: nth_append)
    moreover have "a \<in> ran (jt_pending ?t)" by (auto simp: t ran_def)
    ultimately show ?thesis by (simp add: tokens_def)
  next
    case False
    with ex have k: "k < length (js_calls s)" "expecting s k"
      by (auto simp: expecting_def at_pc_def nth_append)
    let ?b = "ct_ch (js_calls s ! k)"
    from k keys_nth [of k s] rpc_invD(1) [OF inv] have "?b < a"
      by (auto simp: calls_ok_def call_key_def a)
    then have "buffered (jt_heap ?t) ?b = buffered (jt_heap s) ?b" by (simp add: buffered_def t)
    moreover have "returned ?t = returned s"
      by (auto simp: returned_def nth_append less_Suc_eq split: if_splits)
    moreover have "?b \<in> ran (jt_pending s) \<Longrightarrow> ?b \<in> ran (jt_pending ?t)"
    proof -
      assume "?b \<in> ran (jt_pending s)"
      then obtain j where j: "jt_pending s j = Some ?b" by (auto simp: ran_def)
      with rpc_invD(2) [OF inv] have "(j, ?b, jt_session s) \<in> set (keys s)" by (simp add: pending_ok_def)
      with rpc_invD(1) [OF inv] have "j \<le> jt_next s" by (auto simp: calls_ok_def)
      moreover from reg have "i = jt_next s + 1" by (auto simp: call_register_def Let_def split: if_splits option.splits)
      ultimately have "j \<noteq> i" using u64_inc_fresh [OF n] by simp
      with j show ?thesis by (auto simp: t ran_def)
    qed
    ultimately have "tokens s ?b \<le> tokens ?t ?b" by (auto simp: tokens_def t)
    moreover have "1 \<le> tokens s ?b" using tr nd k by (auto simp: tracked_def)
    ultimately show ?thesis using k by (simp add: nth_append)
  qed
  moreover have "jt_done ?t = jt_done s" "jt_opener ?t = jt_opener s" "jt_session ?t = jt_session s" by (simp_all add: t)
  ultimately show ?thesis using tr unfolding tracked_def keys by auto
qed

lemma tracked_received:
  assumes tr: "tracked s" and inv: "rpc_inv s" and k: "at_pc s k Waiting" and a: "a = ct_ch (js_calls s ! k)"
    and heap: "jt_heap s a = Some ch" and recv: "chan_recv ch = RecvVal r ch'"
  shows "tracked ((set_pc k (Returned r) s)\<lparr>jt_heap := (jt_heap s)(a \<mapsto> ch')\<rparr>)" (is "tracked ?t")
proof (rule trackedI [OF tr])
  have len: "k < length (js_calls s)" using k by (simp add: at_pc_def)
  show "keys ?t = keys s" using keys_set_pc [OF len, of "Returned r"] by (simp add: keys_def)
  fix l
  assume "expecting ?t l"
  then have "expecting (set_pc k (Returned r) s) l" by (simp add: expecting_def at_pc_def)
  with len have l: "expecting s l" "l \<noteq> k" by (auto simp: expecting_def at_pc_set_pc split: if_splits)
  then have ne: "ct_ch (js_calls s ! l) \<noteq> a"
    using call_at_nth [OF rpc_invD(1) [OF inv] len, of l] a by (auto simp: expecting_def at_pc_def)
  have "returned ?t = returned (set_pc k (Returned r) s)" by (simp add: returned_def)
  then have "returned ?t = insert (a, r) (returned s)"
    using returned_set_pc [OF k, of "Returned r"] a by simp
  with l ne show "expecting s l \<and> tokens s (ct_ch (js_calls s ! l)) \<le> tokens ?t (ct_ch (js_calls s ! l))"
    by (simp add: tokens_def buffered_def)
qed simp_all

lemma tracked_removed:
  assumes tr: "tracked s" and inv: "rpc_inv s" and k: "at_pc s k (Removing e)"
  shows "tracked (set_pc k (Aborted e) (remove_pending (ct_id (js_calls s ! k)) s))"
proof -
  let ?i = "ct_id (js_calls s ! k)"
  let ?r = "remove_pending ?i s"
  have len: "k < length (js_calls s)" using k by (simp add: at_pc_def)
  have "tracked ?r"
  proof (rule trackedI [OF tr])
    show "keys ?r = keys s" by (simp add: keys_def remove_pending_def)
    fix l
    assume "expecting ?r l"
    then have l: "expecting s l" by (simp add: expecting_def at_pc_def remove_pending_def)
    then have ll: "l < length (js_calls s)" "l \<noteq> k" using k by (auto simp: expecting_def at_pc_def)
    let ?b = "ct_ch (js_calls s ! l)"
    have "?b \<in> ran (jt_pending s) \<Longrightarrow> ?b \<in> ran (jt_pending ?r)"
    proof -
      assume "?b \<in> ran (jt_pending s)"
      then obtain j where j: "jt_pending s j = Some ?b" by (auto simp: ran_def)
      with rpc_invD(2) [OF inv] have "(j, ?b, jt_session s) \<in> set (keys s)" by (simp add: pending_ok_def)
      with ch_inj [OF rpc_invD(1) [OF inv]] keys_nth [OF ll(1)] have "j = ct_id (js_calls s ! l)"
        by (auto simp: call_key_def)
      moreover have "ct_session (js_calls s ! l) = ct_session (js_calls s ! k)"
        using tr keys_nth [OF ll(1)] keys_nth [OF len] unfolding tracked_def call_key_def by metis
      ultimately have "j \<noteq> ?i" using same_call [OF rpc_invD(1) [OF inv] ll(1) len] ll(2) by auto
      with j show ?thesis by (auto simp: remove_pending_def ran_def)
    qed
    moreover have "returned ?r = returned s" by (simp add: returned_def remove_pending_def)
    ultimately show "expecting s l \<and> tokens s ?b \<le> tokens ?r ?b"
      using l by (auto simp: tokens_def remove_pending_def)
  qed (simp_all add: remove_pending_def)
  moreover have "at_pc ?r k (Removing e)" using k by (simp add: at_pc_def remove_pending_def)
  ultimately show ?thesis by (rule tracked_set_pc) simp_all
qed

lemma tracked_response:
  assumes tr: "tracked s" and inv: "rpc_inv s" and take: "take_pending sid i s = (TakeSend a, t)"
  shows "tracked (t\<lparr>js_flights := Put a r # js_flights s, js_log := insert (sid, i, r) (js_log s)\<rparr>)" (is "tracked ?t")
proof (rule trackedI [OF tr])
  from take have p: "jt_pending s i = Some a" and t: "t = remove_pending i s"
    by (auto simp: take_pending_def split: if_splits option.splits)
  show "keys ?t = keys s" by (rule keys_cong) (simp add: t remove_pending_def)
  fix l
  assume "expecting ?t l"
  then have "expecting s l" by (simp add: expecting_def at_pc_def t remove_pending_def)
  moreover have "returned ?t = returned s" by (rule returned_cong) (simp add: t remove_pending_def)
  moreover have "b \<in> ran (jt_pending ?t) \<longleftrightarrow> b \<in> ran (jt_pending s) \<and> b \<noteq> a" for b
    using ran_del [OF pending_inj [OF rpc_invD(1,2) [OF inv]] p] by (simp add: t remove_pending_def)
  ultimately show "expecting s l \<and> tokens s (ct_ch (js_calls s ! l)) \<le> tokens ?t (ct_ch (js_calls s ! l))"
    by (simp add: tokens_def) (simp add: t remove_pending_def)
qed (use take in \<open>auto simp: take_pending_def remove_pending_def split: if_splits option.splits\<close>)

lemma tracked_landed:
  assumes tr: "tracked s" and inv: "rpc_inv s" and fl: "js_flights s = fs @ f # gs"
    and t: "t = s\<lparr>jt_heap := (jt_heap s)(flight_addr f \<mapsto> ch'), js_flights := fs @ gs\<rparr>"
    and ch: "jt_heap s (flight_addr f) = Some ch" "chan_send ch (flight_value f) = SendOk ch'"
  shows "tracked t"
proof (rule trackedI [OF tr])
  show "keys t = keys s" by (rule keys_cong) (simp add: t)
  fix l
  assume "expecting t l"
  then have "expecting s l" by (simp add: expecting_def at_pc_def t)
  then show "expecting s l \<and> tokens s (ct_ch (js_calls s ! l)) \<le> tokens t (ct_ch (js_calls s ! l))"
    using tokens_landed [OF fl refl ch t] by simp
qed (simp_all add: t)

lemma tracked_flushed:
  assumes tr: "tracked s" and inv: "rpc_inv s" and os: "offers_of (jt_pending s) e os"
    and t: "js_calls t = js_calls s" "jt_heap t = jt_heap s" "jt_pending t = Map.empty"
      "js_flights t = os @ js_flights s" "jt_opener t = jt_opener s" "jt_session t = jt_session s" "jt_done t = jt_done s"
  shows "tracked t"
proof (rule trackedI [OF tr])
  show "keys t = keys s" by (rule keys_cong) (rule t)
  have ret: "returned t = returned s" by (rule returned_cong) (rule t)
  fix l
  assume "expecting t l"
  then have "expecting s l" by (simp add: expecting_def at_pc_def t)
  then show "expecting s l \<and> tokens s (ct_ch (js_calls s ! l)) \<le> tokens t (ct_ch (js_calls s ! l))"
    using tokens_flushed [OF inv os ret t(2-4)] by simp
qed (simp_all add: t)

lemma tracked_step: "rpc_step s t \<Longrightarrow> rpc_inv s \<Longrightarrow> tracked s \<Longrightarrow> tracked t"
proof (induction rule: rpc_step.induct)
  case (call_registered s i a c t)
  then show ?case by (blast intro: tracked_register)
next
  case (received s k a ch r ch')
  then show ?case by (blast intro: tracked_received)
next
  case (removed s k e)
  then show ?case by (blast intro: tracked_removed)
next
  case (response sid i s a t r)
  then show ?case by (blast intro: tracked_response)
next
  case (put s fs a r gs d b t)
  have "Put a r \<in> set (js_flights s)" using put(1) by simp
  from flight_room [OF put(3) this, of r] obtain ch where ch: "jt_heap s a = Some ch"
    "chan_send ch r = SendOk (ch\<lparr>chan_buf := [r]\<rparr>)" by auto
  show ?case
  proof (cases "d \<and> jt_done s")
    case True
    with put(2,4) show ?thesis
      by (auto simp: put_result_def tracked_def keys_def)
  next
    case False
    with put(2) ch have "t = s\<lparr>jt_heap := (jt_heap s)(a \<mapsto> ch\<lparr>chan_buf := [r]\<rparr>)\<rparr>"
      by (auto simp: put_result_def)
    then have "t\<lparr>js_flights := fs @ gs\<rparr> =
        s\<lparr>jt_heap := (jt_heap s)(flight_addr (Put a r) \<mapsto> ch\<lparr>chan_buf := [r]\<rparr>), js_flights := fs @ gs\<rparr>" by simp
    from tracked_landed [OF put(4,3,1) this] ch show ?thesis by simp
  qed
next
  case (offer s fs a r gs)
  have "Offer a r \<in> set (js_flights s)" using offer(1) by simp
  from flight_room [OF offer(2) this, of r] obtain ch where ch: "jt_heap s a = Some ch"
    "chan_send ch r = SendOk (ch\<lparr>chan_buf := [r]\<rparr>)" by auto
  then show ?case by (intro tracked_landed [OF offer(3,2,1)]) (simp_all add: offer_result_def)
next
  case (ended sid s pending t os)
  then have "pending = jt_pending s" "t = run_cancel (jt_cancel s) (s\<lparr>jt_conn := None, jt_pending := Map.empty, jt_cancel := None\<rparr>)"
    by (auto simp: session_end_def flush_pending_def Let_def split: if_splits)
  with ended show ?case by (intro tracked_flushed [OF ended(4,3)]) simp_all
next
  case (closing s pending t os)
  then have "pending = jt_pending s" "t = run_cancel (jt_cancel s) (s\<lparr>jt_closed := True, jt_conn := None, jt_pending := Map.empty\<rparr>)"
    by (auto simp: close_lock_def flush_pending_def Let_def split: if_splits)
  with closing show ?case by (intro tracked_flushed [OF closing(4,3)]) simp_all
next
  case (closed s)
  then show ?case by (auto simp: tracked_def close_done_def keys_def)
next
  case (reconnected s conn pending t os)
  then show ?case by (auto simp: reconnect_check_def tracked_def split: if_splits)
next
  case (write_failed s k e)
  then show ?case by (intro tracked_set_pc) auto
next
  case (ctx_done s k e)
  then show ?case by (intro tracked_set_pc) auto
next
  case (saw_done s k)
  then show ?case by (intro tracked_set_pc) auto
next
  case (written s k)
  then show ?case by (intro tracked_set_pc) auto
qed

lemma rpc_start_calls: "rpc_start opener s \<Longrightarrow> js_calls s = [] \<and> jt_opener s = opener"
  by (auto simp: rpc_start_def new_transport_def start_session_def with_cancel_def run_cancel_def
      jrpc.extend_def Let_def)

lemma tracked_start: "rpc_start False s \<Longrightarrow> tracked s"
  using rpc_start_calls [of False s] by (simp add: tracked_def keys_def expecting_def at_pc_def)

definition plain_inv :: "jsys \<Rightarrow> bool" where
  "plain_inv s \<longleftrightarrow> rpc_inv s \<and> tracked s"

interpretation plain: invariant_system "rpc_start False" rpc_step plain_inv
  by unfold_locales (auto simp: plain_inv_def intro: rpc_inv_start rpc_inv_step tracked_start tracked_step)

section \<open>Runs\<close>

text \<open>The steps as functions, for building concrete runs.\<close>

definition demo_start :: "bool \<Rightarrow> jsys" where
  "demo_start opener = jrpc.extend (new_transport 0 opener) \<lparr>js_calls = [], js_flights = [], js_log = {}\<rparr>"

definition do_call :: "jsys \<Rightarrow> jsys" where
  "do_call s =
     (case call_register s of
        (Inr (i, a, c), t) \<Rightarrow> t\<lparr>js_calls := js_calls s @
          [\<lparr>ct_id = i, ct_ch = a, ct_conn = c, ct_session = jt_session s, ct_pc = Writing\<rparr>]\<rparr>
      | _ \<Rightarrow> s)"

definition do_response :: "u64 \<Rightarrow> u64 \<Rightarrow> call_result \<Rightarrow> jsys \<Rightarrow> jsys" where
  "do_response sid i r s =
     (case take_pending sid i s of
        (TakeSend a, t) \<Rightarrow> t\<lparr>js_flights := Put a r # js_flights s, js_log := insert (sid, i, r) (js_log s)\<rparr>
      | _ \<Rightarrow> s)"

definition do_end :: "u64 \<Rightarrow> flight list \<Rightarrow> jsys \<Rightarrow> jsys" where
  "do_end sid os s = (snd (session_end sid s))\<lparr>js_flights := os @ js_flights s\<rparr>"

definition do_reconnect :: "nat \<Rightarrow> jsys \<Rightarrow> jsys" where
  "do_reconnect conn s = (snd (reconnect_install conn s))\<lparr>js_flights := js_flights s\<rparr>"

lemma step_do_call:
  "jt_next s \<noteq> - 1 \<Longrightarrow> \<not> jt_closed s \<Longrightarrow> jt_conn s = Some c \<Longrightarrow> rpc_step s (do_call s)"
  using rpc_step.call_registered [of s _ _ c]
  by (simp add: do_call_def call_register_def Let_def)

lemma step_do_response:
  "\<not> jt_closed s \<Longrightarrow> jt_session s = sid \<Longrightarrow> jt_pending s i = Some a \<Longrightarrow> rpc_step s (do_response sid i r s)"
  using rpc_step.response [of sid i s a] by (simp add: do_response_def take_pending_def)

lemma step_do_end:
  "\<not> jt_closed s \<Longrightarrow> jt_session s = sid \<Longrightarrow> offers_of (jt_pending s) ErrDisconnected os \<Longrightarrow>
     rpc_step s (do_end sid os s)"
  using rpc_step.ended [of sid s "jt_pending s" _ os]
  by (simp add: do_end_def session_end_def flush_pending_def Let_def)

lemma step_do_reconnect:
  "\<not> jt_closed s \<Longrightarrow> jt_opener s \<Longrightarrow> jt_session s \<noteq> - 1 \<Longrightarrow> jt_pending s = Map.empty \<Longrightarrow>
     rpc_step s (do_reconnect conn s)"
  using rpc_step.reconnected [of s conn "jt_pending s" _ "[]"]
  by (simp add: do_reconnect_def reconnect_check_def reconnect_install_def flush_pending_def
      with_cancel_def Let_def offers_of_def)

lemma offers_single: "offers_of [i \<mapsto> a] e [Offer a (flush_result e)]"
  unfolding offers_of_def by (intro exI [of _ "[i]"]) simp

lemmas run_defs = do_call_def do_response_def do_end_def do_reconnect_def demo_start_def set_pc_def at_pc_def
  rpc_unfold Let_def new_transport_def jrpc.extend_def reconnect_install_def

definition demo_waiting :: "bool \<Rightarrow> jsys" where
  "demo_waiting opener = set_pc 0 Waiting (do_call (demo_start opener))"

definition demo_result :: call_result where
  "demo_result = \<lparr>cr_raw = Some (JNum ''7''), cr_err = None, cr_rpc = None\<rparr>"

lemma demo_waiting_reachable: "reachable (rpc_start opener) rpc_step (demo_waiting opener)"
proof -
  have "reachable (rpc_start opener) rpc_step (demo_start opener)"
    by (rule reach_start) (auto simp: rpc_start_def demo_start_def)
  moreover have "rpc_step (demo_start opener) (do_call (demo_start opener))"
    by (rule step_do_call [of _ 0]) (simp_all add: run_defs)
  moreover have "rpc_step (do_call (demo_start opener)) (demo_waiting opener)"
    unfolding demo_waiting_def by (rule rpc_step.written) (simp add: run_defs)
  ultimately show ?thesis by (blast intro: reach_step)
qed

definition demo_answered :: "bool \<Rightarrow> jsys" where
  "demo_answered opener = do_response 1 1 demo_result (demo_waiting opener)"

lemma demo_answered_reachable: "reachable (rpc_start opener) rpc_step (demo_answered opener)"
proof -
  have "rpc_step (demo_waiting opener) (demo_answered opener)"
    unfolding demo_answered_def by (rule step_do_response [of _ _ _ 0]) (simp_all add: demo_waiting_def run_defs)
  with demo_waiting_reachable show ?thesis by (rule reach_step)
qed

definition demo_returned :: "bool \<Rightarrow> jsys" where
  "demo_returned opener =
     (let s = (demo_answered opener)\<lparr>jt_heap := [0 \<mapsto> \<lparr>chan_buf = [demo_result], chan_cap = 1, chan_closed = False\<rparr>],
                js_flights := []\<rparr>
      in (set_pc 0 (Returned demo_result) s)
           \<lparr>jt_heap := (jt_heap s)(0 \<mapsto> \<lparr>chan_buf = [], chan_cap = 1, chan_closed = False\<rparr>)\<rparr>)"

lemma demo_returned_reachable: "reachable (rpc_start opener) rpc_step (demo_returned opener)"
proof -
  let ?b = "(demo_answered opener)\<lparr>jt_heap := [0 \<mapsto> \<lparr>chan_buf = [demo_result], chan_cap = 1, chan_closed = False\<rparr>]\<rparr>"
  let ?s = "?b\<lparr>js_flights := []\<rparr>"
  have "js_flights (demo_answered opener) = [] @ Put 0 demo_result # []"
    by (simp add: demo_answered_def demo_waiting_def run_defs)
  moreover have "put_result False 0 demo_result (demo_answered opener) = Some (True, ?b)"
    by (simp add: demo_answered_def demo_waiting_def run_defs chan_send_def make_chan_def)
  ultimately have "rpc_step (demo_answered opener) (?b\<lparr>js_flights := [] @ []\<rparr>)" by (rule rpc_step.put)
  moreover have "rpc_step ?s (demo_returned opener)"
    unfolding demo_returned_def Let_def
    by (rule rpc_step.received [where ch = "\<lparr>chan_buf = [demo_result], chan_cap = 1, chan_closed = False\<rparr>"])
       (simp_all add: demo_answered_def demo_waiting_def run_defs chan_recv_def make_chan_def)
  ultimately show ?thesis using demo_answered_reachable [of opener] by (auto intro: reach_step)
qed

section \<open>Properties of the calls\<close>

text \<open>
  C1. Responses reach the call they answer.  In every reachable state of the transport, with or without
  reconnects, a call that returned did so with the error of a flush (the session ended, or the
  transport was closed) or with a response that the reader of the call's own session took for the
  call's own id; and no other call ever has the same session and id.
\<close>

theorem rpc_correlation:
  assumes "reachable (rpc_start opener) rpc_step s" and "k < length (js_calls s)"
    and "ct_pc (js_calls s ! k) = Returned r"
  shows "(r = flush_result ErrClosed \<or> r = flush_result ErrDisconnected \<or>
      (ct_session (js_calls s ! k), ct_id (js_calls s ! k), r) \<in> js_log s) \<and>
    (\<forall>l < length (js_calls s). ct_session (js_calls s ! l) = ct_session (js_calls s ! k) \<and>
       ct_id (js_calls s ! l) = ct_id (js_calls s ! k) \<longrightarrow> l = k)"
proof -
  note inv = rpc.reachable_inv [OF assms(1)]
  have "(ct_ch (js_calls s ! k), r) \<in> returned s" using assms(2,3) by (auto simp: returned_def)
  then have "genuine s (ct_ch (js_calls s ! k)) r"
    using rpc_invD(4) [OF inv] by (auto simp: values_ok_def)
  moreover have "(i, ct_ch (js_calls s ! k), sid) \<in> set (keys s) \<Longrightarrow>
      i = ct_id (js_calls s ! k) \<and> sid = ct_session (js_calls s ! k)" for i sid
    using ch_inj [OF rpc_invD(1) [OF inv]] keys_nth [OF assms(2)] by (auto simp: call_key_def)
  ultimately have "r = flush_result ErrClosed \<or> r = flush_result ErrDisconnected \<or>
      (ct_session (js_calls s ! k), ct_id (js_calls s ! k), r) \<in> js_log s"
    by (auto simp: genuine_def)
  moreover have "\<forall>l < length (js_calls s). ct_session (js_calls s ! l) = ct_session (js_calls s ! k) \<and>
       ct_id (js_calls s ! l) = ct_id (js_calls s ! k) \<longrightarrow> l = k"
    using same_call [OF rpc_invD(1) [OF inv] _ assms(2)] by blast
  ultimately show ?thesis by blast
qed

theorem rpc_correlation_witness:
  "ct_pc (js_calls (demo_returned True) ! 0) = Returned demo_result \<and>
   (1, 1, demo_result) \<in> js_log (demo_returned True)"
proof -
  let ?s = "demo_returned True"
  have c: "0 < length (js_calls ?s)" "ct_pc (js_calls ?s ! 0) = Returned demo_result"
    "ct_session (js_calls ?s ! 0) = 1" "ct_id (js_calls ?s ! 0) = 1"
    by (simp_all add: demo_returned_def demo_answered_def demo_waiting_def run_defs)
  with rpc_correlation [OF demo_returned_reachable c(1,2)] show ?thesis
    by (auto simp: demo_result_def flush_result_def)
qed

text \<open>
  C6. Readers never block on a reply channel and nothing is dropped.  In every reachable state a
  response on its way to a call finds its channel empty, so the reader's send goes through at once,
  and the error a flush offers is never lost to the default of the select.
\<close>

theorem rpc_reply_never_blocks:
  assumes "reachable (rpc_start opener) rpc_step s" and "f \<in> set (js_flights s)"
  shows "(\<exists>t. put_result False (flight_addr f) r s = Some (True, t) \<and> buffered (jt_heap t) (flight_addr f) = [r]) \<and>
     buffered (jt_heap (offer_result (flight_addr f) r s)) (flight_addr f) = [r]"
  using flight_room [OF rpc.reachable_inv [OF assms(1)] assms(2), of r]
  by (auto simp: put_result_def offer_result_def buffered_def)

theorem rpc_reply_never_blocks_witness:
  "\<exists>t. put_result False 0 demo_result (demo_answered False) = Some (True, t)"
proof -
  have "Put 0 demo_result \<in> set (js_flights (demo_answered False))"
    by (simp add: demo_answered_def demo_waiting_def run_defs)
  from rpc_reply_never_blocks [OF demo_answered_reachable this] show ?thesis by auto
qed

text \<open>
  C5. No call is forgotten.  On a transport without an opener, a call that waits is answerable until the
  transport is done: it is still pending, or its answer is on the way or in its channel.  When the
  connection is gone the answer is on the way or there, so no call hangs on a dead connection.
\<close>

theorem rpc_no_call_lost:
  assumes "reachable (rpc_start False) rpc_step s" and "at_pc s k Waiting" and "\<not> jt_done s"
  shows "let a = ct_ch (js_calls s ! k) in
     (jt_pending s (ct_id (js_calls s ! k)) = Some a \<or>
      (\<exists>f \<in> set (js_flights s). flight_addr f = a) \<or> buffered (jt_heap s) a \<noteq> []) \<and>
     (jt_conn s = None \<longrightarrow> (\<exists>f \<in> set (js_flights s). flight_addr f = a) \<or> buffered (jt_heap s) a \<noteq> [])"
proof -
  from plain.reachable_inv [OF assms(1)] have inv: "rpc_inv s" and tr: "tracked s" by (auto simp: plain_inv_def)
  let ?a = "ct_ch (js_calls s ! k)"
  from assms(2) have k: "k < length (js_calls s)" "ct_pc (js_calls s ! k) = Waiting" by (auto simp: at_pc_def)
  have "?a \<notin> fst ` returned s"
  proof
    assume "?a \<in> fst ` returned s"
    then obtain l r where "l < length (js_calls s)" "ct_ch (js_calls s ! l) = ?a"
      "ct_pc (js_calls s ! l) = Returned r" by (auto simp: returned_def)
    with call_at_nth [OF rpc_invD(1) [OF inv] k(1), of l] k(2) show False by auto
  qed
  moreover have "1 \<le> tokens s ?a" using tr assms(2,3) by (auto simp: tracked_def expecting_def)
  ultimately consider "?a \<in> ran (jt_pending s)" | "0 < in_flight (js_flights s) ?a" | "buffered (jt_heap s) ?a \<noteq> []"
    by (fastforce simp: tokens_def of_bool_def split: if_splits)
  then show ?thesis
  proof cases
    case 1
    then obtain i where i: "jt_pending s i = Some ?a" by (auto simp: ran_def)
    with rpc_invD(2) [OF inv] have "(i, ?a, jt_session s) \<in> set (keys s)" "jt_conn s \<noteq> None"
      by (auto simp: pending_ok_def)
    with ch_inj [OF rpc_invD(1) [OF inv]] keys_nth [OF k(1)] have "i = ct_id (js_calls s ! k)" "jt_conn s \<noteq> None"
      by (auto simp: call_key_def)
    with i show ?thesis by (auto simp: Let_def)
  next
    case 2
    then have "\<exists>f \<in> set (js_flights s). flight_addr f = ?a" by (auto simp: in_flight_def filter_empty_conv)
    then show ?thesis by (simp add: Let_def)
  next
    case 3
    then show ?thesis by (simp add: Let_def)
  qed
qed

theorem rpc_no_call_lost_witness:
  "jt_pending (demo_waiting False) 1 = Some 0"
proof -
  have "at_pc (demo_waiting False) 0 Waiting" "\<not> jt_done (demo_waiting False)"
    by (simp_all add: demo_waiting_def run_defs)
  from rpc_no_call_lost [OF demo_waiting_reachable this] show ?thesis
    by (simp add: demo_waiting_def run_defs buffered_def make_chan_def)
qed

section \<open>With reconnects a call can be forgotten\<close>

text \<open>
  A first call is registered, its session ends and its write fails; the transport reconnects, which
  starts the ids again; a second call gets the same id; now the first one removes its entry.
\<close>

definition stale_end :: jsys where
  "stale_end = set_pc 0 (Removing ErrDisconnected) (do_end 1 [Offer 0 (flush_result ErrDisconnected)] (do_call (demo_start True)))"

definition stale_second :: jsys where
  "stale_second = set_pc 1 Waiting (do_call (do_reconnect 1 stale_end))"

definition stale_lost :: jsys where
  "stale_lost = set_pc 0 (Aborted ErrDisconnected) (remove_pending 1 stale_second)"

lemma stale_reachable: "reachable (rpc_start True) rpc_step stale_lost"
proof -
  let ?c = "do_call (demo_start True)"
  let ?e = "do_end 1 [Offer 0 (flush_result ErrDisconnected)] ?c"
  have pend: "jt_pending ?c = [1 \<mapsto> 0]" by (simp add: run_defs)
  have s0: "reachable (rpc_start True) rpc_step (demo_start True)"
    by (rule reach_start) (auto simp: rpc_start_def demo_start_def)
  have s1: "rpc_step (demo_start True) ?c"
    by (rule step_do_call [of _ 0]) (simp_all add: run_defs)
  have s2: "rpc_step ?c ?e"
    by (rule step_do_end) (simp_all only: pend offers_single, simp_all add: run_defs)
  have s3: "rpc_step ?e stale_end"
    unfolding stale_end_def by (rule rpc_step.write_failed) (simp add: run_defs)
  have s4: "rpc_step stale_end (do_reconnect 1 stale_end)"
    by (rule step_do_reconnect) (simp_all add: stale_end_def run_defs)
  have s5: "rpc_step (do_reconnect 1 stale_end) (do_call (do_reconnect 1 stale_end))"
    by (rule step_do_call [of _ 1]) (simp_all add: stale_end_def run_defs)
  have s6: "rpc_step (do_call (do_reconnect 1 stale_end)) stale_second"
    unfolding stale_second_def by (rule rpc_step.written) (simp add: stale_end_def run_defs)
  have "at_pc stale_second 0 (Removing ErrDisconnected)" "ct_id (js_calls stale_second ! 0) = 1"
    by (simp_all add: stale_second_def stale_end_def run_defs)
  from rpc_step.removed [OF this(1)] this(2) have s7: "rpc_step stale_second stale_lost"
    by (simp add: stale_lost_def)
  show ?thesis
    by (rule reach_step [OF reach_step [OF reach_step [OF reach_step [OF reach_step [OF reach_step
        [OF reach_step [OF s0 s1] s2] s3] s4] s5] s6] s7])
qed

lemma stale_nothing_returned: "returned stale_lost = {}"
proof -
  have "length (js_calls stale_lost) = 2" "ct_pc (js_calls stale_lost ! 0) = Aborted ErrDisconnected"
    "ct_pc (js_calls stale_lost ! 1) = Waiting"
    by (simp_all add: stale_lost_def stale_second_def stale_end_def run_defs)
  moreover from this have "ct_pc (js_calls stale_lost ! k) \<noteq> Returned r" if "k < 2" for k r
    using less_2_cases [OF that] by auto
  ultimately show ?thesis by (auto simp: returned_def)
qed

text \<open>
  \<^verbatim>\<open>Reconnect\<close> reuses ids, and a call of an earlier session that gives up removes whatever is pending
  under its id.  There is a reachable state, with the transport open and connected, in which a call of
  the current session waits although nothing is pending, in flight or buffered for it, and its
  response will be ignored as unknown: the call hangs until its context ends or the session does.
\<close>

theorem rpc_stale_removal_loses_call:
  "\<exists>s k. reachable (rpc_start True) rpc_step s \<and> at_pc s k Waiting \<and> \<not> jt_closed s \<and>
     jt_conn s = Some (ct_conn (js_calls s ! k)) \<and> ct_session (js_calls s ! k) = jt_session s \<and>
     tokens s (ct_ch (js_calls s ! k)) = 0 \<and>
     take_pending (jt_session s) (ct_id (js_calls s ! k)) s = (TakeUnknown, s)"
proof (intro exI conjI)
  show "reachable (rpc_start True) rpc_step stale_lost" by (rule stale_reachable)
  show "tokens stale_lost (ct_ch (js_calls stale_lost ! 1)) = 0"
    unfolding tokens_def stale_nothing_returned
    by (simp add: stale_lost_def stale_second_def stale_end_def run_defs buffered_def make_chan_def)
qed (simp_all add: stale_lost_def stale_second_def stale_end_def run_defs)

section \<open>Closing\<close>

text \<open>
  Closing is final and idempotent.  After \<^verbatim>\<open>Close\<close> has run its critical section the transport has no
  stream and nothing pending and its session context is cancelled; a call, a notification, a reply
  of any session and a reconnect fail with \<^verbatim>\<open>ErrClosed\<close> and change nothing; responses and the end of a
  session are ignored, and a second close does nothing.
\<close>

theorem rpc_close_final:
  assumes "\<not> jt_closed t" and "close_lock t = (pending, u)"
  shows "pending = Some (jt_pending t) \<and> jt_closed u \<and> jt_conn u = None \<and> jt_pending u = Map.empty \<and>
     (\<forall>c. jt_cancel t = Some c \<longrightarrow> c \<in> jt_cancelled u) \<and>
     call_register u = (Inl ErrClosed, u) \<and> notify_conn u = Inl ErrClosed \<and>
     (\<forall>sid. send_conn None sid u = Inl ErrClosed) \<and> reconnect_check u = Some ErrClosed \<and>
     (\<forall>c. reconnect_install c u = (Inl ErrClosed, u)) \<and>
     (\<forall>sid i. take_pending sid i u = (TakeStop, u)) \<and> (\<forall>sid. session_end sid u = (None, u)) \<and>
     close_lock u = (None, u)"
proof -
  from assms have p: "pending = Some (jt_pending t)"
    and u: "u = run_cancel (jt_cancel t) (t\<lparr>jt_closed := True, jt_conn := None, jt_pending := Map.empty\<rparr>)"
    by (auto simp: close_lock_def flush_pending_def Let_def)
  have sel: "jt_closed u" "jt_conn u = None" "jt_pending u = Map.empty" by (simp_all add: u)
  have "\<forall>c. jt_cancel t = Some c \<longrightarrow> c \<in> jt_cancelled u" by (auto simp: u run_cancel_def)
  with p sel show ?thesis
    by (simp add: call_register_def notify_conn_def send_conn_def reconnect_check_def reconnect_install_def
        take_pending_def session_end_def close_lock_def)
qed

theorem rpc_close_final_witness:
  "call_register (snd (close_lock (new_transport 0 True))) = (Inl ErrClosed, snd (close_lock (new_transport 0 True)))"
proof -
  obtain p u where c: "close_lock (new_transport 0 True) = (p, u)" by (cases "close_lock (new_transport 0 True)")
  have "\<not> jt_closed (new_transport 0 True)" by (simp add: run_defs)
  from rpc_close_final [OF this c] c show ?thesis by simp
qed

section \<open>Replies\<close>

text \<open>
  A server request is answered at most once, and only on the connection it came from.  Whatever the
  first reply does, it marks the request, and every later reply fails with \<^verbatim>\<open>ErrAlreadyReplied\<close>
  without writing; a reply that is written goes to the current stream of the request's own session,
  and when the transport has moved on to another session nothing is written.
\<close>

theorem rpc_reply_once:
  fixes t :: "('z) jrpc_scheme"
  assumes "reply ctx_err result r t = (res, r')" and "\<not> req_replied r"
  shows "req_replied r' \<and> req_id r' = req_id r \<and>
     (\<forall>e v (u :: ('z) jrpc_scheme). reply e v r' u = (Inl ErrAlreadyReplied, r')) \<and>
     (\<forall>e c m d (u :: ('z) jrpc_scheme). reply_error e c m d r' u = (Inl ErrAlreadyReplied, r')) \<and>
     (\<forall>conn j. res = Inr (conn, j) \<longrightarrow>
        ctx_err = None \<and> jt_conn t = Some conn \<and> jt_session t = req_session r \<and> \<not> jt_closed t \<and>
        j = enc_reply (req_id r) result None) \<and>
     (jt_session t \<noteq> req_session r \<longrightarrow> (\<exists>e. res = Inl e))"
  using assms
  by (auto simp: reply_def reply_error_def send_conn_def split: option.splits sum.splits if_splits)

definition demo_request :: request where
  "demo_request = \<lparr>req_session = 1, req_id = JNum ''5'', req_method = ''m'', req_params = None, req_replied = False\<rparr>"

theorem rpc_reply_once_witness:
  "reply None JNull (snd (reply None JNull demo_request (new_transport 0 False))) (new_transport 0 False)
     = (Inl ErrAlreadyReplied, snd (reply None JNull demo_request (new_transport 0 False)))"
proof -
  obtain res r' where r: "reply None JNull demo_request (new_transport 0 False) = (res, r')"
    by (cases "reply None JNull demo_request (new_transport 0 False)")
  have "\<not> req_replied demo_request" by (simp add: demo_request_def)
  from rpc_reply_once [OF r this] r show ?thesis by simp
qed

section \<open>The wire\<close>

definition raw_ok :: "raw \<Rightarrow> bool" where
  "raw_ok r \<longleftrightarrow> (case r of None \<Rightarrow> True | Some j \<Rightarrow> json_ok (max_depth - 1) j)"

lemma ends_number_newline: "ends_number (CHR 0x0A # rest)"
  by (simp add: ends_number_def is_digit_def code_def)

lemma enc_request_ok:
  assumes "valid_utf8 method" and "raw_ok params"
  shows "json_ok max_depth (enc_request (with_id (method, params) i))"
proof -
  have c: "coerce_utf8 0 method = method" using assms(1) by (simp add: valid_utf8_def)
  have keys: "valid_utf8 ''method''" "valid_utf8 ''jsonrpc''" "valid_utf8 ''id''" "valid_utf8 ''params''" "valid_utf8 ''2.0''"
    by (simp_all add: valid_utf8_ascii code_def)
  have "0 < max_depth" by (simp add: max_depth_def)
  then show ?thesis
    using assms keys num_ok_show_nat
    by (auto simp: enc_request_def with_id_def opt_member_def raw_ok_def c split: option.splits)
qed

lemma read_request_frame:
  assumes "valid_utf8 method"
  shows "read_frame (enc_request (with_id (method, params) i)) = FRequest (JNum (show_nat (unat i))) method params"
proof -
  have "coerce_utf8 0 method = method" using assms by (simp add: valid_utf8_def)
  then show ?thesis
    by (cases params) (simp_all add: enc_request_def with_id_def opt_member_def read_frame_def map_get_def call_frame_def)
qed

text \<open>
  C8. A call written to a stream is read back by the decoder of the other end, and the stream continues
  after its line: with its id, its method and its parameters.
\<close>

theorem rpc_request_wire:
  assumes "valid_utf8 method" and "raw_ok params"
  shows "\<exists>j. json_decode (write_json (enc_request (with_id (method, params) i)) @ rest) = Some (j, CHR 0x0A # rest) \<and>
     read_frame j = FRequest (JNum (show_nat (unat i))) method params \<and>
     parse_id (JNum (show_nat (unat i))) = Some i"
proof -
  let ?j = "enc_request (with_id (method, params) i)"
  from json_decode_print [OF enc_request_ok [OF assms, of i] ends_number_newline, of False rest]
  have "json_decode (write_json ?j @ rest) = Some (?j, CHR 0x0A # rest)" by (simp add: write_json_def)
  with read_request_frame [OF assms(1), of params i] show ?thesis by (auto simp: parse_id_def parse_uint64_show)
qed

theorem rpc_request_wire_witness:
  "\<exists>j. json_decode (write_json (enc_request (with_id (''turn/start'', Some (JObj [])) 3)) @ ''{}'') = Some (j, CHR 0x0A # ''{}'')"
proof -
  have "valid_utf8 ''turn/start''" "raw_ok (Some (JObj []))"
    by (simp_all add: valid_utf8_ascii code_def raw_ok_def max_depth_def)
  from rpc_request_wire [OF this] show ?thesis by blast
qed

definition rpc_error_val :: "rpc_error \<Rightarrow> goval" where
  "rpc_error_val e = VStruct [VInt (rpc_code e), VStr (rpc_message e),
     (case rpc_data e of None \<Rightarrow> VNil | Some d \<Rightarrow> VRaw d)]"

lemma enc_rpc_error_eq: "enc_rpc_error e = goenc no_codecs rpc_error_type (rpc_error_val e)"
  by (simp add: enc_rpc_error_def rpc_error_type_def rpc_error_val_def opt_member_def split: option.split)

lemma rpc_error_type_ok: "type_ok rpc_error_type"
  by code_simp

lemma wt_rpc_error:
  "valid_utf8 (rpc_message e) \<Longrightarrow> - (2 ^ 63) \<le> rpc_code e \<Longrightarrow> rpc_code e < 2 ^ 63 \<Longrightarrow>
     wt no_codecs rpc_error_type (rpc_error_val e)"
  by (simp add: rpc_error_type_def rpc_error_val_def int_fits_def split: option.split)

lemma dec_enc_rpc_error:
  assumes "valid_utf8 (rpc_message e)" and "- (2 ^ 63) \<le> rpc_code e" and "rpc_code e < 2 ^ 63"
  shows "dec_rpc_error (enc_rpc_error e) = Some e"
proof -
  note t = rpc_error_type_ok
  from wt_rpc_error [OF assms] have "json_unmarshal no_codecs rpc_error_type (enc_rpc_error e) = Some (rpc_error_val e)"
    unfolding enc_rpc_error_eq by (rule unmarshal_marshal [OF t])
  then show ?thesis by (cases "rpc_data e") (simp_all add: dec_rpc_error_def rpc_error_val_def)
qed

text \<open>
  C10. A response written by a peer is read back as the outcome of the call with that id: the result, or
  the error with its code, message and data.
\<close>

theorem rpc_response_wire:
  assumes "case err of None \<Rightarrow> True | Some e \<Rightarrow>
      valid_utf8 (rpc_message e) \<and> - (2 ^ 63) \<le> rpc_code e \<and> rpc_code e < 2 ^ 63"
  shows "\<exists>r. read_frame (enc_reply (JNum (show_nat (unat i))) result err) = FResponse i r \<and>
     call_outcome r = (case err of None \<Rightarrow> Succeeded (Some result) | Some e \<Rightarrow> Failed (ErrRPC e))"
proof -
  let ?ms = "[(''jsonrpc'', JStr ''2.0''), (''id'', JNum (show_nat (unat i))), (''result'', result)]
       @ opt_member ''error'' (map_option enc_rpc_error err)"
  have i: "parse_id (JNum (show_nat (unat i))) = Some i" by (simp add: parse_id_def parse_uint64_show)
  have "map_get ''method'' ?ms = None" "map_get ''id'' ?ms = Some (JNum (show_nat (unat i)))"
    "map_get ''result'' ?ms = Some result" "map_get ''error'' ?ms = map_option enc_rpc_error err"
    by (cases err; simp add: map_get_def opt_member_def)+
  with assms i show ?thesis
    by (cases err) (simp_all add: read_frame_def enc_reply_def response_frame_def dec_enc_rpc_error
        call_outcome_def Let_def)
qed

theorem rpc_response_wire_witness:
  "\<exists>r. read_frame (enc_reply (JNum (show_nat (unat (2::u64)))) JNull (Some \<lparr>rpc_code = -32603, rpc_message = ''boom'', rpc_data = None\<rparr>))
       = FResponse 2 r \<and> call_outcome r = Failed (ErrRPC \<lparr>rpc_code = -32603, rpc_message = ''boom'', rpc_data = None\<rparr>)"
  using rpc_response_wire [of "Some \<lparr>rpc_code = -32603, rpc_message = ''boom'', rpc_data = None\<rparr>" 2 JNull]
  by (simp add: valid_utf8_ascii code_def)

text \<open>
  A response that carries \<^verbatim>\<open>"error": null\<close> beside its result, as JSON-RPC 1.0 peers write it, is
  taken for a failure with code 0 and an empty message: the member's presence decides, not its value.
\<close>

theorem rpc_null_error_fails:
  "\<exists>r. read_frame (JObj [(''id'', JNum ''1''), (''result'', result), (''error'', JNull)]) = FResponse 1 r \<and>
     call_outcome r = Failed (ErrRPC \<lparr>rpc_code = 0, rpc_message = [], rpc_data = None\<rparr>)"
proof -
  have "parse_uint64 ''1'' = Some 1" by (simp add: parse_uint64_def is_digit_def code_def digits_val_def)
  then show ?thesis
    by (simp add: read_frame_def response_frame_def map_get_def parse_id_def dec_rpc_error_def
        json_unmarshal_def rpc_error_type_def call_outcome_def Let_def)
qed

end
