(* ===== verification/WireTypes.thy ===== *)
theory WireTypes imports GoStruct JsonRoundTrip begin

text \<open>
  The struct types that cross the wire, each as its description: the fields in order with the
  name and the \<^verbatim>\<open>omitempty\<close> flag of the tag.  A string type of its own (an enum) is a string; the
  types with methods of their own (\<^verbatim>\<open>Item\<close>, \<^verbatim>\<open>Turn\<close>, \<^verbatim>\<open>Thread\<close>, \<^verbatim>\<open>time.Time\<close>) are named.
\<close>

section \<open>Schema types\<close>

definition TokenUsage_t :: gotype where
  "TokenUsage_t =
     TStruct [(''inputTokens'', True, TInt 64), (''outputTokens'', True, TInt 64),
       (''totalTokens'', True, TInt 64), (''reasoningTokens'', True, TInt 64)]"

definition TurnError_t :: gotype where
  "TurnError_t =
     TStruct [(''message'', True, TString), (''code'', True, TString), (''data'', True, TRaw)]"

definition GitInfo_t :: gotype where
  "GitInfo_t =
     TStruct [(''root'', True, TString), (''branch'', True, TString), (''commit'', True, TString),
       (''remote'', True, TString), (''dirty'', True, TBool), (''detached'', True, TBool)]"

definition SchemaItem_t :: gotype where
  "SchemaItem_t = TStruct [(''id'', True, TString), (''type'', False, TString)]"

definition SchemaTurn_t :: gotype where
  "SchemaTurn_t =
     TStruct [(''id'', True, TString), (''items'', True, TSlice SchemaItem_t),
       (''itemsView'', True, TString), (''status'', True, TString),
       (''error'', True, TPtr TurnError_t), (''startedAt'', True, TPtr (TNamed ''Time'')),
       (''completedAt'', True, TPtr (TNamed ''Time'')), (''durationMs'', True, TInt 64),
       (''usage'', True, TPtr TokenUsage_t)]"

definition SchemaThread_t :: gotype where
  "SchemaThread_t =
     TStruct [(''id'', True, TString), (''sessionId'', True, TString),
       (''forkedFromId'', True, TString), (''parentThreadId'', True, TString),
       (''preview'', True, TString), (''ephemeral'', True, TBool),
       (''modelProvider'', True, TString), (''createdAt'', True, TPtr (TNamed ''Time'')),
       (''updatedAt'', True, TPtr (TNamed ''Time'')), (''status'', True, TString),
       (''path'', True, TString), (''cwd'', True, TString), (''cliVersion'', True, TString),
       (''source'', True, TString), (''threadSource'', True, TString),
       (''agentNickname'', True, TString), (''agentRole'', True, TString),
       (''gitInfo'', True, TPtr GitInfo_t), (''name'', True, TString),
       (''turns'', True, TSlice SchemaTurn_t)]"

definition ClientInfo_t :: gotype where
  "ClientInfo_t = TStruct [(''name'', True, TString), (''version'', True, TString)]"

definition Capabilities_t :: gotype where
  "Capabilities_t =
     TStruct [(''experimentalApi'', True, TBool), (''optOutNotificationMethods'', True, TBool),
       (''mcpServerOpenaiFormElicitation'', True, TBool)]"

definition InitializeRequest_t :: gotype where
  "InitializeRequest_t =
     TStruct [(''clientInfo'', False, ClientInfo_t), (''capabilities'', True, Capabilities_t)]"

definition InitializeResult_t :: gotype where
  "InitializeResult_t =
     TStruct [(''userAgent'', True, TString), (''codexHome'', True, TString),
       (''platformFamily'', True, TString), (''platformOs'', True, TString)]"

definition ThreadResumeRequest_t :: gotype where
  "ThreadResumeRequest_t =
     TStruct [(''threadId'', False, TString), (''history'', True, TSlice TString),
       (''path'', True, TString), (''excludeTurns'', True, TSlice TString),
       (''initialTurnsPage'', True, TInt 64)]"

definition ThreadReadRequest_t :: gotype where
  "ThreadReadRequest_t = TStruct [(''threadId'', False, TString), (''includeTurns'', True, TBool)]"

definition TurnInterruptRequest_t :: gotype where
  "TurnInterruptRequest_t = TStruct [(''threadId'', False, TString), (''turnId'', False, TString)]"

definition ThreadForkRequest_t :: gotype where
  "ThreadForkRequest_t = TStruct [(''threadId'', False, TString), (''turnId'', True, TString)]"

definition ThreadForkResult_t :: gotype where
  "ThreadForkResult_t = TStruct [(''thread'', False, SchemaThread_t)]"

definition ThreadListRequest_t :: gotype where
  "ThreadListRequest_t = TStruct [(''limit'', True, TInt 64), (''cursor'', True, TString)]"

definition ThreadListResult_t :: gotype where
  "ThreadListResult_t =
     TStruct [(''threads'', False, TSlice SchemaThread_t), (''cursor'', True, TString)]"

definition ThreadArchiveRequest_t :: gotype where
  "ThreadArchiveRequest_t = TStruct [(''threadId'', False, TString)]"

definition ThreadUnarchiveRequest_t :: gotype where
  "ThreadUnarchiveRequest_t = TStruct [(''threadId'', False, TString)]"

definition ThreadSetNameRequest_t :: gotype where
  "ThreadSetNameRequest_t = TStruct [(''threadId'', False, TString), (''name'', False, TString)]"

definition ThreadRollbackRequest_t :: gotype where
  "ThreadRollbackRequest_t =
     TStruct [(''threadId'', False, TString), (''turnIds'', False, TSlice TString)]"

definition ReviewStartRequest_t :: gotype where
  "ReviewStartRequest_t = TStruct [(''threadId'', False, TString), (''turnId'', True, TString)]"

definition TurnDiffRequest_t :: gotype where
  "TurnDiffRequest_t = TStruct [(''threadId'', False, TString), (''turnId'', True, TString)]"

definition TurnDiffResult_t :: gotype where
  "TurnDiffResult_t = TStruct [(''diff'', True, TString)]"

definition SkillErrorInfo_t :: gotype where
  "SkillErrorInfo_t = TStruct [(''message'', False, TString), (''path'', False, TString)]"

definition SkillInterface_t :: gotype where
  "SkillInterface_t =
     TStruct [(''brandColor'', True, TString), (''defaultPrompt'', True, TString),
       (''displayName'', True, TString), (''iconLarge'', True, TString),
       (''iconSmall'', True, TString), (''shortDescription'', True, TString)]"

definition SkillToolDependency_t :: gotype where
  "SkillToolDependency_t =
     TStruct [(''type'', False, TString), (''value'', False, TString), (''command'', True, TString),
       (''description'', True, TString), (''transport'', True, TString), (''url'', True, TString)]"

definition SkillDependencies_t :: gotype where
  "SkillDependencies_t = TStruct [(''tools'', False, TSlice SkillToolDependency_t)]"

definition SkillMetadata_t :: gotype where
  "SkillMetadata_t =
     TStruct [(''name'', False, TString), (''description'', False, TString),
       (''enabled'', False, TBool), (''path'', False, TString), (''scope'', False, TString),
       (''shortDescription'', True, TString), (''interface'', True, TPtr SkillInterface_t),
       (''dependencies'', True, TPtr SkillDependencies_t)]"

definition SkillSummary_t :: gotype where
  "SkillSummary_t =
     TStruct [(''name'', False, TString), (''description'', False, TString),
       (''enabled'', False, TBool), (''path'', True, TString),
       (''shortDescription'', True, TString), (''interface'', True, TPtr SkillInterface_t)]"

definition SkillsListEntry_t :: gotype where
  "SkillsListEntry_t =
     TStruct [(''cwd'', False, TString), (''skills'', False, TSlice SkillMetadata_t),
       (''errors'', False, TSlice SkillErrorInfo_t)]"

definition SkillsListParams_t :: gotype where
  "SkillsListParams_t = TStruct [(''cwds'', True, TSlice TString), (''forceReload'', True, TBool)]"

definition SkillsListResponse_t :: gotype where
  "SkillsListResponse_t = TStruct [(''data'', False, TSlice SkillsListEntry_t)]"

definition SkillsConfigWriteParams_t :: gotype where
  "SkillsConfigWriteParams_t =
     TStruct [(''enabled'', False, TBool), (''name'', True, TString), (''path'', True, TString)]"

definition SkillsConfigWriteResponse_t :: gotype where
  "SkillsConfigWriteResponse_t = TStruct [(''effectiveEnabled'', False, TBool)]"

definition SkillsExtraRootsSetParams_t :: gotype where
  "SkillsExtraRootsSetParams_t = TStruct [(''extraRoots'', False, TSlice TString)]"

definition PluginSkillReadParams_t :: gotype where
  "PluginSkillReadParams_t =
     TStruct [(''remoteMarketplaceName'', False, TString), (''remotePluginId'', False, TString),
       (''skillName'', False, TString)]"

definition PluginSkillReadResponse_t :: gotype where
  "PluginSkillReadResponse_t = TStruct [(''contents'', True, TString)]"

definition ThreadGoal_t :: gotype where
  "ThreadGoal_t =
     TStruct [(''threadId'', False, TString), (''objective'', False, TString),
       (''status'', False, TString), (''createdAt'', False, TInt 64),
       (''updatedAt'', False, TInt 64), (''timeUsedSeconds'', False, TInt 64),
       (''tokensUsed'', False, TInt 64), (''tokenBudget'', True, TPtr (TInt 64))]"

definition ThreadGoalSetParams_t :: gotype where
  "ThreadGoalSetParams_t =
     TStruct [(''threadId'', False, TString), (''objective'', True, TString),
       (''status'', True, TPtr TString), (''tokenBudget'', True, TPtr (TInt 64))]"

definition ThreadGoalSetResponse_t :: gotype where
  "ThreadGoalSetResponse_t = TStruct [(''goal'', False, ThreadGoal_t)]"

definition ThreadGoalGetParams_t :: gotype where
  "ThreadGoalGetParams_t = TStruct [(''threadId'', False, TString)]"

definition ThreadGoalGetResponse_t :: gotype where
  "ThreadGoalGetResponse_t = TStruct [(''goal'', True, TPtr ThreadGoal_t)]"

definition ThreadGoalClearParams_t :: gotype where
  "ThreadGoalClearParams_t = TStruct [(''threadId'', False, TString)]"

definition ThreadGoalClearResponse_t :: gotype where
  "ThreadGoalClearResponse_t = TStruct [(''cleared'', False, TBool)]"

definition ThreadGoalUpdatedNotification_t :: gotype where
  "ThreadGoalUpdatedNotification_t =
     TStruct [(''threadId'', False, TString), (''turnId'', True, TString),
       (''goal'', False, ThreadGoal_t)]"

definition ThreadGoalClearedNotification_t :: gotype where
  "ThreadGoalClearedNotification_t = TStruct [(''threadId'', False, TString)]"

section \<open>Protocol helpers\<close>

definition ServerRequest_t :: gotype where
  "ServerRequest_t = TStruct [(''method'', False, TString), (''params'', True, TRaw)]"

definition ServerResponse_t :: gotype where
  "ServerResponse_t = TStruct [(''result'', True, TRaw)]"

section \<open>Notification payloads of the protocol package\<close>

definition TurnStartedEvent_t :: gotype where
  "TurnStartedEvent_t =
     TStruct [(''threadId'', True, TString), (''turnId'', True, TString),
       (''turn'', True, TPtr (TNamed ''Turn''))]"

definition TurnCompletedEvent_t :: gotype where
  "TurnCompletedEvent_t =
     TStruct [(''threadId'', True, TString), (''turnId'', True, TString),
       (''status'', True, TString), (''turn'', True, TPtr (TNamed ''Turn'')),
       (''usage'', True, TPtr TokenUsage_t)]"

definition ItemStartedEvent_t :: gotype where
  "ItemStartedEvent_t =
     TStruct [(''threadId'', True, TString), (''turnId'', True, TString),
       (''item'', True, TPtr (TNamed ''Item''))]"

definition ItemCompletedEvent_t :: gotype where
  "ItemCompletedEvent_t =
     TStruct [(''threadId'', True, TString), (''turnId'', True, TString),
       (''item'', True, TPtr (TNamed ''Item''))]"

definition ThreadTokenUsageUpdatedEvent_t :: gotype where
  "ThreadTokenUsageUpdatedEvent_t =
     TStruct [(''threadId'', True, TString), (''usage'', True, TPtr TokenUsage_t)]"

definition TurnDiffUpdatedEvent_t :: gotype where
  "TurnDiffUpdatedEvent_t =
     TStruct [(''threadId'', True, TString), (''turnId'', True, TString), (''diff'', True, TRaw)]"

definition TurnPlanUpdatedEvent_t :: gotype where
  "TurnPlanUpdatedEvent_t =
     TStruct [(''threadId'', True, TString), (''turnId'', True, TString), (''plan'', True, TRaw)]"

definition ErrorEvent_t :: gotype where
  "ErrorEvent_t =
     TStruct [(''threadId'', True, TString), (''turnId'', True, TString),
       (''message'', True, TString), (''code'', True, TString), (''data'', True, TRaw)]"

definition ThreadStartedEvent_t :: gotype where
  "ThreadStartedEvent_t =
     TStruct [(''threadId'', True, TString), (''thread'', True, TPtr (TNamed ''Thread''))]"

definition ThreadArchivedEvent_t :: gotype where
  "ThreadArchivedEvent_t = TStruct [(''threadId'', True, TString)]"

definition ThreadUnarchivedEvent_t :: gotype where
  "ThreadUnarchivedEvent_t = TStruct [(''threadId'', True, TString)]"

definition ThreadClosedEvent_t :: gotype where
  "ThreadClosedEvent_t = TStruct [(''threadId'', True, TString)]"

definition ThreadStatusChangedEvent_t :: gotype where
  "ThreadStatusChangedEvent_t =
     TStruct [(''threadId'', True, TString), (''status'', True, TString)]"

definition ThreadGoalUpdatedEvent_t :: gotype where
  "ThreadGoalUpdatedEvent_t =
     TStruct [(''threadId'', True, TString), (''goal'', True, TPtr ThreadGoal_t)]"

definition ThreadGoalClearedEvent_t :: gotype where
  "ThreadGoalClearedEvent_t = TStruct [(''threadId'', True, TString)]"

definition ItemUpdatedEvent_t :: gotype where
  "ItemUpdatedEvent_t =
     TStruct [(''threadId'', True, TString), (''turnId'', True, TString),
       (''item'', True, TPtr (TNamed ''Item''))]"

definition ServerRequestResolvedEvent_t :: gotype where
  "ServerRequestResolvedEvent_t =
     TStruct [(''threadId'', True, TString), (''requestId'', True, TString),
       (''result'', True, TRaw)]"

section \<open>Approval requests and responses\<close>

definition CommandExecutionApprovalRequest_t :: gotype where
  "CommandExecutionApprovalRequest_t =
     TStruct [(''itemId'', True, TString), (''threadId'', True, TString),
       (''turnId'', True, TString), (''environmentId'', True, TString),
       (''approvalId'', True, TString), (''reason'', True, TString), (''command'', True, TString),
       (''cwd'', True, TString), (''commandActions'', True, TSlice TString),
       (''networkApprovalContext'', True, TRaw)]"

definition CommandExecutionApprovalResponse_t :: gotype where
  "CommandExecutionApprovalResponse_t = TStruct [(''decision'', False, TString)]"

definition FileChangeApprovalRequest_t :: gotype where
  "FileChangeApprovalRequest_t =
     TStruct [(''itemId'', True, TString), (''threadId'', True, TString),
       (''turnId'', True, TString), (''reason'', True, TString), (''grantRoot'', True, TString),
       (''filePaths'', True, TSlice TString), (''diff'', True, TString)]"

definition FileChangeApprovalResponse_t :: gotype where
  "FileChangeApprovalResponse_t = TStruct [(''decision'', False, TString)]"

definition PermissionsApprovalRequest_t :: gotype where
  "PermissionsApprovalRequest_t =
     TStruct [(''itemId'', True, TString), (''threadId'', True, TString),
       (''turnId'', True, TString), (''reason'', True, TString),
       (''permissions'', True, TSlice TString), (''scope'', True, TString)]"

definition PermissionsApprovalResponse_t :: gotype where
  "PermissionsApprovalResponse_t =
     TStruct [(''permissions'', True, TSlice TString), (''scope'', True, TString)]"

definition UserInputOption_t :: gotype where
  "UserInputOption_t = TStruct [(''label'', True, TString), (''description'', True, TString)]"

definition UserInputQuestion_t :: gotype where
  "UserInputQuestion_t =
     TStruct [(''header'', True, TString), (''id'', True, TString), (''question'', True, TString),
       (''options'', True, TSlice UserInputOption_t)]"

definition UserInputRequest_t :: gotype where
  "UserInputRequest_t =
     TStruct [(''itemId'', True, TString), (''threadId'', True, TString),
       (''turnId'', True, TString), (''questions'', True, TSlice UserInputQuestion_t)]"

definition UserInputResponse_t :: gotype where
  "UserInputResponse_t = TStruct [(''answers'', True, TMap TString)]"

definition MCPServerElicitationRequest_t :: gotype where
  "MCPServerElicitationRequest_t =
     TStruct [(''itemId'', True, TString), (''threadId'', True, TString),
       (''turnId'', True, TString), (''kind'', True, TString), (''form'', True, TRaw),
       (''url'', True, TString)]"

definition MCPServerElicitationResponse_t :: gotype where
  "MCPServerElicitationResponse_t = TStruct [(''decision'', False, TString)]"

definition MCPToolCallApprovalRequest_t :: gotype where
  "MCPToolCallApprovalRequest_t =
     TStruct [(''toolName'', False, TString), (''serverName'', True, TString),
       (''input'', True, TRaw), (''threadId'', True, TString), (''turnId'', True, TString)]"

definition MCPToolCallApprovalResponse_t :: gotype where
  "MCPToolCallApprovalResponse_t = TStruct [(''decision'', False, TString)]"

definition AttestationGenerateResponse_t :: gotype where
  "AttestationGenerateResponse_t = TStruct [(''token'', False, TString)]"

definition CurrentTimeReadResponse_t :: gotype where
  "CurrentTimeReadResponse_t = TStruct [(''currentTimeAt'', False, TInt 64)]"

section \<open>Account and login\<close>

definition AccountInfo_t :: gotype where
  "AccountInfo_t =
     TStruct [(''type'', False, TString), (''email'', True, TString), (''planType'', True, TString)]"

definition AccountReadResult_t :: gotype where
  "AccountReadResult_t =
     TStruct [(''account'', True, TPtr AccountInfo_t), (''requiresOpenaiAuth'', False, TBool)]"

definition accountReadParams_t :: gotype where
  "accountReadParams_t = TStruct [(''refreshToken'', True, TBool)]"

definition loginAccountParams_t :: gotype where
  "loginAccountParams_t = TStruct [(''type'', False, TString), (''apiKey'', True, TString)]"

definition loginAccountResponse_t :: gotype where
  "loginAccountResponse_t =
     TStruct [(''type'', False, TString), (''loginId'', True, TString),
       (''authUrl'', True, TString), (''verificationUrl'', True, TString),
       (''userCode'', True, TString)]"

definition cancelLoginParams_t :: gotype where
  "cancelLoginParams_t = TStruct [(''loginId'', False, TString)]"

definition cancelLoginResponse_t :: gotype where
  "cancelLoginResponse_t = TStruct [(''status'', False, TString)]"

definition LoginCompleted_t :: gotype where
  "LoginCompleted_t =
     TStruct [(''success'', False, TBool), (''loginId'', True, TString), (''error'', True, TString)]"

section \<open>Interactive commands\<close>

definition CommandExecTerminalSize_t :: gotype where
  "CommandExecTerminalSize_t = TStruct [(''cols'', False, TInt 64), (''rows'', False, TInt 64)]"

definition CommandExecRequest_t :: gotype where
  "CommandExecRequest_t =
     TStruct [(''command'', False, TSlice TString), (''cwd'', True, TString),
       (''env'', True, TMap TString), (''tty'', True, TBool),
       (''size'', True, TPtr CommandExecTerminalSize_t), (''streamStdin'', True, TBool),
       (''streamStdoutStderr'', True, TBool), (''timeoutMs'', True, TInt 64),
       (''disableTimeout'', True, TBool), (''outputBytesCap'', True, TInt 64),
       (''disableOutputCap'', True, TBool), (''processId'', True, TString),
       (''sandboxPolicy'', True, TRaw)]"

definition CommandExecResult_t :: gotype where
  "CommandExecResult_t =
     TStruct [(''exitCode'', False, TInt 64), (''stdout'', False, TString),
       (''stderr'', False, TString)]"

definition CommandExecWriteRequest_t :: gotype where
  "CommandExecWriteRequest_t =
     TStruct [(''processId'', False, TString), (''deltaBase64'', True, TString),
       (''closeStdin'', True, TBool)]"

definition CommandExecResizeRequest_t :: gotype where
  "CommandExecResizeRequest_t =
     TStruct [(''processId'', False, TString), (''size'', False, CommandExecTerminalSize_t)]"

definition CommandExecTerminateRequest_t :: gotype where
  "CommandExecTerminateRequest_t = TStruct [(''processId'', False, TString)]"

section \<open>Configuration, skills, experimental features, hooks\<close>

definition ConfigReadRequest_t :: gotype where
  "ConfigReadRequest_t = TStruct [(''cwd'', True, TString), (''includeLayers'', True, TBool)]"

definition ConfigReadResult_t :: gotype where
  "ConfigReadResult_t =
     TStruct [(''config'', False, TRaw), (''layers'', True, TRaw), (''origins'', True, TRaw)]"

definition ConfigValueWriteRequest_t :: gotype where
  "ConfigValueWriteRequest_t =
     TStruct [(''filePath'', True, TString), (''keyPath'', False, TString),
       (''value'', False, TRaw), (''mergeStrategy'', True, TString),
       (''expectedVersion'', True, TString)]"

definition ConfigBatchWriteRequest_t :: gotype where
  "ConfigBatchWriteRequest_t =
     TStruct [(''filePath'', True, TString), (''edits'', False, TRaw),
       (''expectedVersion'', True, TString), (''reloadUserConfig'', True, TBool)]"

definition ExperimentalFeature_t :: gotype where
  "ExperimentalFeature_t =
     TStruct [(''name'', False, TString), (''displayName'', True, TString),
       (''description'', True, TString), (''announcement'', True, TString),
       (''enabled'', False, TBool), (''defaultEnabled'', False, TBool), (''stage'', True, TRaw)]"

definition ExperimentalFeatureListRequest_t :: gotype where
  "ExperimentalFeatureListRequest_t =
     TStruct [(''threadId'', True, TString), (''cursor'', True, TString),
       (''limit'', True, TInt 64)]"

definition ExperimentalFeatureListResult_t :: gotype where
  "ExperimentalFeatureListResult_t =
     TStruct [(''data'', False, TSlice ExperimentalFeature_t), (''nextCursor'', True, TString)]"

definition ExperimentalFeatureEnablementSetRequest_t :: gotype where
  "ExperimentalFeatureEnablementSetRequest_t = TStruct [(''enablement'', False, TMap TBool)]"

definition ExperimentalFeatureEnablementSetResult_t :: gotype where
  "ExperimentalFeatureEnablementSetResult_t = TStruct [(''enablement'', False, TMap TBool)]"

definition HooksListRequest_t :: gotype where
  "HooksListRequest_t = TStruct [(''cwds'', True, TSlice TString)]"

definition HooksListResult_t :: gotype where
  "HooksListResult_t = TStruct [(''data'', False, TRaw)]"

definition ModelProviderCapabilities_t :: gotype where
  "ModelProviderCapabilities_t =
     TStruct [(''namespaceTools'', False, TBool), (''imageGeneration'', False, TBool),
       (''webSearch'', False, TBool)]"

section \<open>Streaming events\<close>

definition ItemAgentMessageDeltaEvent_t :: gotype where
  "ItemAgentMessageDeltaEvent_t =
     TStruct [(''threadId'', True, TString), (''turnId'', True, TString),
       (''itemId'', True, TString), (''delta'', True, TRaw), (''text'', True, TString)]"

definition ItemPlanDeltaEvent_t :: gotype where
  "ItemPlanDeltaEvent_t =
     TStruct [(''threadId'', True, TString), (''turnId'', True, TString),
       (''itemId'', True, TString), (''delta'', True, TRaw), (''text'', True, TString)]"

definition ItemReasoningSummaryTextDeltaEvent_t :: gotype where
  "ItemReasoningSummaryTextDeltaEvent_t =
     TStruct [(''threadId'', True, TString), (''turnId'', True, TString),
       (''itemId'', True, TString), (''text'', True, TString)]"

definition ItemReasoningSummaryPartAddedEvent_t :: gotype where
  "ItemReasoningSummaryPartAddedEvent_t =
     TStruct [(''threadId'', True, TString), (''turnId'', True, TString),
       (''itemId'', True, TString), (''part'', True, TRaw)]"

definition ItemReasoningTextDeltaEvent_t :: gotype where
  "ItemReasoningTextDeltaEvent_t =
     TStruct [(''threadId'', True, TString), (''turnId'', True, TString),
       (''itemId'', True, TString), (''text'', True, TString)]"

definition ItemCommandExecutionOutputDeltaEvent_t :: gotype where
  "ItemCommandExecutionOutputDeltaEvent_t =
     TStruct [(''threadId'', True, TString), (''turnId'', True, TString),
       (''itemId'', True, TString), (''stream'', True, TString), (''output'', True, TString),
       (''delta'', True, TString)]"

definition CommandExecOutputDeltaEvent_t :: gotype where
  "CommandExecOutputDeltaEvent_t =
     TStruct [(''processId'', True, TString), (''stream'', True, TString),
       (''deltaBase64'', True, TString), (''capReached'', True, TBool)]"

definition ItemFileChangePatchUpdatedEvent_t :: gotype where
  "ItemFileChangePatchUpdatedEvent_t =
     TStruct [(''threadId'', True, TString), (''turnId'', True, TString),
       (''itemId'', True, TString), (''patch'', True, TRaw)]"

definition ItemFileChangeOutputDeltaEvent_t :: gotype where
  "ItemFileChangeOutputDeltaEvent_t =
     TStruct [(''threadId'', True, TString), (''turnId'', True, TString),
       (''itemId'', True, TString), (''output'', True, TString), (''delta'', True, TString)]"

definition ItemAutoApprovalReviewStartedEvent_t :: gotype where
  "ItemAutoApprovalReviewStartedEvent_t =
     TStruct [(''threadId'', True, TString), (''turnId'', True, TString),
       (''itemId'', True, TString)]"

definition ItemAutoApprovalReviewCompletedEvent_t :: gotype where
  "ItemAutoApprovalReviewCompletedEvent_t =
     TStruct [(''threadId'', True, TString), (''turnId'', True, TString),
       (''itemId'', True, TString)]"

definition RawNotificationEvent_t :: gotype where
  "RawNotificationEvent_t =
     TStruct [(''threadId'', True, TString), (''turnId'', True, TString),
       (''itemId'', True, TString)]"

section \<open>Extra events\<close>

definition ThreadDeletedEvent_t :: gotype where
  "ThreadDeletedEvent_t = TStruct [(''threadId'', False, TString)]"

definition ThreadNameUpdatedEvent_t :: gotype where
  "ThreadNameUpdatedEvent_t =
     TStruct [(''threadId'', False, TString), (''threadName'', True, TString)]"

definition ThreadCompactedEvent_t :: gotype where
  "ThreadCompactedEvent_t = TStruct [(''threadId'', False, TString), (''turnId'', False, TString)]"

definition ThreadSettingsUpdatedEvent_t :: gotype where
  "ThreadSettingsUpdatedEvent_t =
     TStruct [(''threadId'', False, TString), (''threadSettings'', True, TRaw)]"

definition AccountUpdatedEvent_t :: gotype where
  "AccountUpdatedEvent_t = TStruct [(''authMode'', True, TString), (''planType'', True, TString)]"

definition AccountRateLimitsUpdatedEvent_t :: gotype where
  "AccountRateLimitsUpdatedEvent_t = TStruct [(''rateLimits'', True, TRaw)]"

definition WarningEvent_t :: gotype where
  "WarningEvent_t = TStruct [(''threadId'', True, TString), (''message'', False, TString)]"

definition ConfigWarningEvent_t :: gotype where
  "ConfigWarningEvent_t =
     TStruct [(''summary'', False, TString), (''details'', True, TString),
       (''path'', True, TString), (''range'', True, TRaw)]"

definition DeprecationNoticeEvent_t :: gotype where
  "DeprecationNoticeEvent_t = TStruct [(''summary'', False, TString), (''details'', True, TString)]"

definition GuardianWarningEvent_t :: gotype where
  "GuardianWarningEvent_t = TStruct [(''threadId'', False, TString), (''message'', False, TString)]"

definition WindowsWorldWritableWarningEvent_t :: gotype where
  "WindowsWorldWritableWarningEvent_t =
     TStruct [(''samplePaths'', True, TSlice TString), (''extraCount'', True, TInt 64),
       (''failedScan'', True, TBool)]"

definition WindowsSandboxSetupCompletedEvent_t :: gotype where
  "WindowsSandboxSetupCompletedEvent_t =
     TStruct [(''mode'', True, TString), (''success'', True, TBool), (''error'', True, TString)]"

definition ModelReroutedEvent_t :: gotype where
  "ModelReroutedEvent_t =
     TStruct [(''threadId'', False, TString), (''turnId'', False, TString),
       (''fromModel'', False, TString), (''toModel'', False, TString), (''reason'', True, TRaw)]"

definition ModelVerificationEvent_t :: gotype where
  "ModelVerificationEvent_t =
     TStruct [(''threadId'', False, TString), (''turnId'', False, TString),
       (''verifications'', True, TRaw)]"

definition TurnModerationMetadataEvent_t :: gotype where
  "TurnModerationMetadataEvent_t =
     TStruct [(''threadId'', False, TString), (''turnId'', False, TString),
       (''metadata'', True, TRaw)]"

definition ProcessExitedEvent_t :: gotype where
  "ProcessExitedEvent_t =
     TStruct [(''processHandle'', False, TString), (''exitCode'', False, TInt 64),
       (''stdout'', True, TString), (''stdoutCapReached'', True, TBool),
       (''stderr'', True, TString), (''stderrCapReached'', True, TBool)]"

definition ProcessOutputDeltaEvent_t :: gotype where
  "ProcessOutputDeltaEvent_t =
     TStruct [(''processHandle'', False, TString), (''stream'', True, TString),
       (''deltaBase64'', True, TString), (''capReached'', True, TBool)]"

definition TerminalInteractionEvent_t :: gotype where
  "TerminalInteractionEvent_t =
     TStruct [(''threadId'', False, TString), (''turnId'', False, TString),
       (''itemId'', False, TString), (''processId'', False, TString), (''stdin'', True, TString)]"

definition McpToolCallProgressEvent_t :: gotype where
  "McpToolCallProgressEvent_t =
     TStruct [(''threadId'', False, TString), (''turnId'', False, TString),
       (''itemId'', False, TString), (''message'', True, TString)]"

definition HookStartedEvent_t :: gotype where
  "HookStartedEvent_t =
     TStruct [(''threadId'', False, TString), (''turnId'', True, TString), (''run'', True, TRaw)]"

definition HookCompletedEvent_t :: gotype where
  "HookCompletedEvent_t =
     TStruct [(''threadId'', False, TString), (''turnId'', True, TString), (''run'', True, TRaw)]"

definition RawResponseItemCompletedEvent_t :: gotype where
  "RawResponseItemCompletedEvent_t =
     TStruct [(''threadId'', False, TString), (''turnId'', False, TString), (''item'', True, TRaw)]"

definition McpServerStatusUpdatedEvent_t :: gotype where
  "McpServerStatusUpdatedEvent_t =
     TStruct [(''threadId'', True, TString), (''name'', False, TString),
       (''status'', True, TString), (''error'', True, TString)]"

definition McpServerOauthLoginCompletedEvent_t :: gotype where
  "McpServerOauthLoginCompletedEvent_t =
     TStruct [(''name'', False, TString), (''success'', True, TBool), (''error'', True, TString)]"

definition SkillsChangedEvent_t :: gotype where
  "SkillsChangedEvent_t =
     TStruct [(''cursor'', True, TString), (''limit'', True, TInt 64),
       (''threadId'', True, TString), (''forceRefetch'', True, TBool)]"

definition FsChangedEvent_t :: gotype where
  "FsChangedEvent_t =
     TStruct [(''watchId'', False, TString), (''changedPaths'', True, TSlice TString)]"

definition AppListUpdatedEvent_t :: gotype where
  "AppListUpdatedEvent_t = TStruct [(''data'', True, TRaw)]"

definition RemoteControlStatusChangedEvent_t :: gotype where
  "RemoteControlStatusChangedEvent_t =
     TStruct [(''status'', True, TString), (''serverName'', True, TString),
       (''installationId'', True, TString), (''environmentId'', True, TString)]"

definition ExternalAgentConfigImportCompletedEvent_t :: gotype where
  "ExternalAgentConfigImportCompletedEvent_t =
     TStruct [(''importId'', False, TString), (''itemTypeResults'', True, TRaw)]"

definition ExternalAgentConfigImportProgressEvent_t :: gotype where
  "ExternalAgentConfigImportProgressEvent_t =
     TStruct [(''importId'', False, TString), (''itemTypeResults'', True, TRaw)]"

definition ThreadRealtimeStartedEvent_t :: gotype where
  "ThreadRealtimeStartedEvent_t =
     TStruct [(''threadId'', False, TString), (''realtimeSessionId'', True, TString),
       (''version'', True, TString)]"

definition ThreadRealtimeClosedEvent_t :: gotype where
  "ThreadRealtimeClosedEvent_t =
     TStruct [(''threadId'', False, TString), (''reason'', True, TString)]"

definition ThreadRealtimeErrorEvent_t :: gotype where
  "ThreadRealtimeErrorEvent_t =
     TStruct [(''threadId'', False, TString), (''message'', False, TString)]"

definition ThreadRealtimeItemAddedEvent_t :: gotype where
  "ThreadRealtimeItemAddedEvent_t =
     TStruct [(''threadId'', False, TString), (''item'', True, TRaw)]"

definition ThreadRealtimeSdpEvent_t :: gotype where
  "ThreadRealtimeSdpEvent_t = TStruct [(''threadId'', False, TString), (''sdp'', False, TString)]"

definition ThreadRealtimeOutputAudioDeltaEvent_t :: gotype where
  "ThreadRealtimeOutputAudioDeltaEvent_t =
     TStruct [(''threadId'', False, TString), (''audio'', True, TRaw)]"

definition ThreadRealtimeTranscriptDeltaEvent_t :: gotype where
  "ThreadRealtimeTranscriptDeltaEvent_t =
     TStruct [(''threadId'', False, TString), (''role'', True, TString), (''delta'', True, TString)]"

definition ThreadRealtimeTranscriptDoneEvent_t :: gotype where
  "ThreadRealtimeTranscriptDoneEvent_t =
     TStruct [(''threadId'', False, TString), (''role'', True, TString), (''text'', True, TString)]"

section \<open>Models\<close>

definition ModelInfo_t :: gotype where
  "ModelInfo_t =
     TStruct [(''id'', False, TString), (''model'', False, TString),
       (''displayName'', False, TString), (''description'', False, TString),
       (''hidden'', False, TBool), (''isDefault'', False, TBool)]"

definition modelListRequest_t :: gotype where
  "modelListRequest_t = TStruct [(''includeHidden'', False, TBool)]"

definition modelListResponse_t :: gotype where
  "modelListResponse_t = TStruct [(''data'', False, TSlice ModelInfo_t)]"

section \<open>Tool calls and item payloads\<close>

definition DynamicToolCallRequest_t :: gotype where
  "DynamicToolCallRequest_t =
     TStruct [(''toolName'', False, TString), (''input'', False, TRaw),
       (''threadId'', False, TString), (''turnId'', False, TString), (''itemId'', False, TString)]"

definition DynamicToolCallResult_t :: gotype where
  "DynamicToolCallResult_t = TStruct [(''content'', False, TSlice TRaw)]"

definition FileChangePayload_t :: gotype where
  "FileChangePayload_t =
     TStruct [(''filePath'', False, TString), (''changeType'', False, TString),
       (''diff'', True, TString), (''newContent'', True, TString), (''oldContent'', True, TString)]"

definition CommandExecutionPayload_t :: gotype where
  "CommandExecutionPayload_t =
     TStruct [(''command'', False, TString), (''exitCode'', True, TPtr (TInt 64)),
       (''stdout'', True, TString), (''stderr'', True, TString)]"

section \<open>Thread metadata\<close>

definition ThreadMetadataGitInfo_t :: gotype where
  "ThreadMetadataGitInfo_t =
     TStruct [(''branch'', True, TPtr TString), (''originUrl'', True, TPtr TString),
       (''sha'', True, TPtr TString)]"

definition ThreadMetadataUpdateRequest_t :: gotype where
  "ThreadMetadataUpdateRequest_t =
     TStruct [(''threadId'', False, TString), (''gitInfo'', True, TPtr ThreadMetadataGitInfo_t)]"

definition ThreadMetadataUpdateResult_t :: gotype where
  "ThreadMetadataUpdateResult_t = TStruct [(''thread'', False, TNamed ''Thread'')]"

definition ThreadUnsubscribeRequest_t :: gotype where
  "ThreadUnsubscribeRequest_t = TStruct [(''threadId'', False, TString)]"

definition ThreadUnsubscribeResult_t :: gotype where
  "ThreadUnsubscribeResult_t = TStruct [(''status'', False, TString)]"

definition ThreadDeleteRequest_t :: gotype where
  "ThreadDeleteRequest_t = TStruct [(''threadId'', False, TString)]"

definition ThreadInjectItemsRequest_t :: gotype where
  "ThreadInjectItemsRequest_t =
     TStruct [(''threadId'', False, TString), (''items'', False, TSlice TRaw)]"

definition ThreadShellCommandRequest_t :: gotype where
  "ThreadShellCommandRequest_t =
     TStruct [(''threadId'', False, TString), (''command'', False, TString)]"

definition ThreadApproveGuardianDeniedActionRequest_t :: gotype where
  "ThreadApproveGuardianDeniedActionRequest_t =
     TStruct [(''threadId'', False, TString), (''event'', False, TRaw)]"

section \<open>Configuration update\<close>

definition configUpdateRequest_t :: gotype where
  "configUpdateRequest_t =
     TStruct [(''model'', True, TString), (''approvalPolicy'', True, TString),
       (''sandboxPolicy'', True, TString)]"

definition threadCompactRequest_t :: gotype where
  "threadCompactRequest_t = TStruct [(''threadId'', False, TString)]"

section \<open>Hook messages\<close>

definition HookRequest_t :: gotype where
  "HookRequest_t =
     TStruct [(''type'', False, TString), (''tool'', True, TString), (''input'', True, TRaw),
       (''output'', True, TRaw), (''threadId'', True, TString), (''turnId'', True, TString)]"

definition HookResponse_t :: gotype where
  "HookResponse_t =
     TStruct [(''decision'', False, TString), (''reason'', True, TString),
       (''outputOverride'', True, TString)]"

section \<open>All of them\<close>

definition schema_types :: "gotype list" where
  "schema_types =
     [TokenUsage_t, TurnError_t, GitInfo_t, SchemaItem_t, SchemaTurn_t, SchemaThread_t,
      ClientInfo_t, Capabilities_t, InitializeRequest_t, InitializeResult_t, ThreadResumeRequest_t,
      ThreadReadRequest_t, TurnInterruptRequest_t, ThreadForkRequest_t, ThreadForkResult_t,
      ThreadListRequest_t, ThreadListResult_t, ThreadArchiveRequest_t, ThreadUnarchiveRequest_t,
      ThreadSetNameRequest_t, ThreadRollbackRequest_t, ReviewStartRequest_t, TurnDiffRequest_t,
      TurnDiffResult_t, SkillErrorInfo_t, SkillInterface_t, SkillToolDependency_t,
      SkillDependencies_t, SkillMetadata_t, SkillSummary_t, SkillsListEntry_t, SkillsListParams_t,
      SkillsListResponse_t, SkillsConfigWriteParams_t, SkillsConfigWriteResponse_t,
      SkillsExtraRootsSetParams_t, PluginSkillReadParams_t, PluginSkillReadResponse_t, ThreadGoal_t,
      ThreadGoalSetParams_t, ThreadGoalSetResponse_t, ThreadGoalGetParams_t,
      ThreadGoalGetResponse_t, ThreadGoalClearParams_t, ThreadGoalClearResponse_t,
      ThreadGoalUpdatedNotification_t, ThreadGoalClearedNotification_t]"

definition protocol_types :: "gotype list" where
  "protocol_types =
     [ServerRequest_t, ServerResponse_t, TurnStartedEvent_t, TurnCompletedEvent_t,
      ItemStartedEvent_t, ItemCompletedEvent_t, ThreadTokenUsageUpdatedEvent_t,
      TurnDiffUpdatedEvent_t, TurnPlanUpdatedEvent_t, ErrorEvent_t, ThreadStartedEvent_t,
      ThreadArchivedEvent_t, ThreadUnarchivedEvent_t, ThreadClosedEvent_t,
      ThreadStatusChangedEvent_t, ThreadGoalUpdatedEvent_t, ThreadGoalClearedEvent_t,
      ItemUpdatedEvent_t, ServerRequestResolvedEvent_t, CommandExecutionApprovalRequest_t,
      CommandExecutionApprovalResponse_t, FileChangeApprovalRequest_t, FileChangeApprovalResponse_t,
      PermissionsApprovalRequest_t, PermissionsApprovalResponse_t, UserInputOption_t,
      UserInputQuestion_t, UserInputRequest_t, UserInputResponse_t, MCPServerElicitationRequest_t,
      MCPServerElicitationResponse_t, MCPToolCallApprovalRequest_t, MCPToolCallApprovalResponse_t,
      AttestationGenerateResponse_t, CurrentTimeReadResponse_t]"

definition event_types :: "gotype list" where
  "event_types =
     [ItemAgentMessageDeltaEvent_t, ItemPlanDeltaEvent_t, ItemReasoningSummaryTextDeltaEvent_t,
      ItemReasoningSummaryPartAddedEvent_t, ItemReasoningTextDeltaEvent_t,
      ItemCommandExecutionOutputDeltaEvent_t, CommandExecOutputDeltaEvent_t,
      ItemFileChangePatchUpdatedEvent_t, ItemFileChangeOutputDeltaEvent_t,
      ItemAutoApprovalReviewStartedEvent_t, ItemAutoApprovalReviewCompletedEvent_t,
      RawNotificationEvent_t, ThreadDeletedEvent_t, ThreadNameUpdatedEvent_t,
      ThreadCompactedEvent_t, ThreadSettingsUpdatedEvent_t, AccountUpdatedEvent_t,
      AccountRateLimitsUpdatedEvent_t, WarningEvent_t, ConfigWarningEvent_t,
      DeprecationNoticeEvent_t, GuardianWarningEvent_t, WindowsWorldWritableWarningEvent_t,
      WindowsSandboxSetupCompletedEvent_t, ModelReroutedEvent_t, ModelVerificationEvent_t,
      TurnModerationMetadataEvent_t, ProcessExitedEvent_t, ProcessOutputDeltaEvent_t,
      TerminalInteractionEvent_t, McpToolCallProgressEvent_t, HookStartedEvent_t,
      HookCompletedEvent_t, RawResponseItemCompletedEvent_t, McpServerStatusUpdatedEvent_t,
      McpServerOauthLoginCompletedEvent_t, SkillsChangedEvent_t, FsChangedEvent_t,
      AppListUpdatedEvent_t, RemoteControlStatusChangedEvent_t,
      ExternalAgentConfigImportCompletedEvent_t, ExternalAgentConfigImportProgressEvent_t,
      ThreadRealtimeStartedEvent_t, ThreadRealtimeClosedEvent_t, ThreadRealtimeErrorEvent_t,
      ThreadRealtimeItemAddedEvent_t, ThreadRealtimeSdpEvent_t,
      ThreadRealtimeOutputAudioDeltaEvent_t, ThreadRealtimeTranscriptDeltaEvent_t,
      ThreadRealtimeTranscriptDoneEvent_t]"

definition client_types :: "gotype list" where
  "client_types =
     [AccountInfo_t, AccountReadResult_t, accountReadParams_t, loginAccountParams_t,
      loginAccountResponse_t, cancelLoginParams_t, cancelLoginResponse_t, LoginCompleted_t,
      CommandExecTerminalSize_t, CommandExecRequest_t, CommandExecResult_t,
      CommandExecWriteRequest_t, CommandExecResizeRequest_t, CommandExecTerminateRequest_t,
      ConfigReadRequest_t, ConfigReadResult_t, ConfigValueWriteRequest_t, ConfigBatchWriteRequest_t,
      ExperimentalFeature_t, ExperimentalFeatureListRequest_t, ExperimentalFeatureListResult_t,
      ExperimentalFeatureEnablementSetRequest_t, ExperimentalFeatureEnablementSetResult_t,
      HooksListRequest_t, HooksListResult_t, ModelProviderCapabilities_t, ModelInfo_t,
      modelListRequest_t, modelListResponse_t, DynamicToolCallRequest_t, DynamicToolCallResult_t,
      FileChangePayload_t, CommandExecutionPayload_t, ThreadMetadataGitInfo_t,
      ThreadMetadataUpdateRequest_t, ThreadMetadataUpdateResult_t, ThreadUnsubscribeRequest_t,
      ThreadUnsubscribeResult_t, ThreadDeleteRequest_t, ThreadInjectItemsRequest_t,
      ThreadShellCommandRequest_t, ThreadApproveGuardianDeniedActionRequest_t,
      configUpdateRequest_t, threadCompactRequest_t, HookRequest_t, HookResponse_t]"

definition wire_types :: "gotype list" where
  "wire_types = schema_types @ protocol_types @ event_types @ client_types"

lemmas schema_type_defs =
  TokenUsage_t_def TurnError_t_def GitInfo_t_def
  SchemaItem_t_def SchemaTurn_t_def SchemaThread_t_def
  ClientInfo_t_def Capabilities_t_def InitializeRequest_t_def
  InitializeResult_t_def ThreadResumeRequest_t_def ThreadReadRequest_t_def
  TurnInterruptRequest_t_def ThreadForkRequest_t_def ThreadForkResult_t_def
  ThreadListRequest_t_def ThreadListResult_t_def ThreadArchiveRequest_t_def
  ThreadUnarchiveRequest_t_def ThreadSetNameRequest_t_def ThreadRollbackRequest_t_def
  ReviewStartRequest_t_def TurnDiffRequest_t_def TurnDiffResult_t_def
  SkillErrorInfo_t_def SkillInterface_t_def SkillToolDependency_t_def
  SkillDependencies_t_def SkillMetadata_t_def SkillSummary_t_def
  SkillsListEntry_t_def SkillsListParams_t_def SkillsListResponse_t_def
  SkillsConfigWriteParams_t_def SkillsConfigWriteResponse_t_def SkillsExtraRootsSetParams_t_def
  PluginSkillReadParams_t_def PluginSkillReadResponse_t_def ThreadGoal_t_def
  ThreadGoalSetParams_t_def ThreadGoalSetResponse_t_def ThreadGoalGetParams_t_def
  ThreadGoalGetResponse_t_def ThreadGoalClearParams_t_def ThreadGoalClearResponse_t_def
  ThreadGoalUpdatedNotification_t_def ThreadGoalClearedNotification_t_def

lemmas protocol_type_defs =
  ServerRequest_t_def ServerResponse_t_def TurnStartedEvent_t_def
  TurnCompletedEvent_t_def ItemStartedEvent_t_def ItemCompletedEvent_t_def
  ThreadTokenUsageUpdatedEvent_t_def TurnDiffUpdatedEvent_t_def TurnPlanUpdatedEvent_t_def
  ErrorEvent_t_def ThreadStartedEvent_t_def ThreadArchivedEvent_t_def
  ThreadUnarchivedEvent_t_def ThreadClosedEvent_t_def ThreadStatusChangedEvent_t_def
  ThreadGoalUpdatedEvent_t_def ThreadGoalClearedEvent_t_def ItemUpdatedEvent_t_def
  ServerRequestResolvedEvent_t_def CommandExecutionApprovalRequest_t_def CommandExecutionApprovalResponse_t_def
  FileChangeApprovalRequest_t_def FileChangeApprovalResponse_t_def PermissionsApprovalRequest_t_def
  PermissionsApprovalResponse_t_def UserInputOption_t_def UserInputQuestion_t_def
  UserInputRequest_t_def UserInputResponse_t_def MCPServerElicitationRequest_t_def
  MCPServerElicitationResponse_t_def MCPToolCallApprovalRequest_t_def MCPToolCallApprovalResponse_t_def
  AttestationGenerateResponse_t_def CurrentTimeReadResponse_t_def

lemmas event_type_defs =
  ItemAgentMessageDeltaEvent_t_def ItemPlanDeltaEvent_t_def ItemReasoningSummaryTextDeltaEvent_t_def
  ItemReasoningSummaryPartAddedEvent_t_def ItemReasoningTextDeltaEvent_t_def ItemCommandExecutionOutputDeltaEvent_t_def
  CommandExecOutputDeltaEvent_t_def ItemFileChangePatchUpdatedEvent_t_def ItemFileChangeOutputDeltaEvent_t_def
  ItemAutoApprovalReviewStartedEvent_t_def ItemAutoApprovalReviewCompletedEvent_t_def RawNotificationEvent_t_def
  ThreadDeletedEvent_t_def ThreadNameUpdatedEvent_t_def ThreadCompactedEvent_t_def
  ThreadSettingsUpdatedEvent_t_def AccountUpdatedEvent_t_def AccountRateLimitsUpdatedEvent_t_def
  WarningEvent_t_def ConfigWarningEvent_t_def DeprecationNoticeEvent_t_def
  GuardianWarningEvent_t_def WindowsWorldWritableWarningEvent_t_def WindowsSandboxSetupCompletedEvent_t_def
  ModelReroutedEvent_t_def ModelVerificationEvent_t_def TurnModerationMetadataEvent_t_def
  ProcessExitedEvent_t_def ProcessOutputDeltaEvent_t_def TerminalInteractionEvent_t_def
  McpToolCallProgressEvent_t_def HookStartedEvent_t_def HookCompletedEvent_t_def
  RawResponseItemCompletedEvent_t_def McpServerStatusUpdatedEvent_t_def McpServerOauthLoginCompletedEvent_t_def
  SkillsChangedEvent_t_def FsChangedEvent_t_def AppListUpdatedEvent_t_def
  RemoteControlStatusChangedEvent_t_def ExternalAgentConfigImportCompletedEvent_t_def ExternalAgentConfigImportProgressEvent_t_def
  ThreadRealtimeStartedEvent_t_def ThreadRealtimeClosedEvent_t_def ThreadRealtimeErrorEvent_t_def
  ThreadRealtimeItemAddedEvent_t_def ThreadRealtimeSdpEvent_t_def ThreadRealtimeOutputAudioDeltaEvent_t_def
  ThreadRealtimeTranscriptDeltaEvent_t_def ThreadRealtimeTranscriptDoneEvent_t_def

lemmas client_type_defs =
  AccountInfo_t_def AccountReadResult_t_def accountReadParams_t_def
  loginAccountParams_t_def loginAccountResponse_t_def cancelLoginParams_t_def
  cancelLoginResponse_t_def LoginCompleted_t_def CommandExecTerminalSize_t_def
  CommandExecRequest_t_def CommandExecResult_t_def CommandExecWriteRequest_t_def
  CommandExecResizeRequest_t_def CommandExecTerminateRequest_t_def ConfigReadRequest_t_def
  ConfigReadResult_t_def ConfigValueWriteRequest_t_def ConfigBatchWriteRequest_t_def
  ExperimentalFeature_t_def ExperimentalFeatureListRequest_t_def ExperimentalFeatureListResult_t_def
  ExperimentalFeatureEnablementSetRequest_t_def ExperimentalFeatureEnablementSetResult_t_def HooksListRequest_t_def
  HooksListResult_t_def ModelProviderCapabilities_t_def ModelInfo_t_def
  modelListRequest_t_def modelListResponse_t_def DynamicToolCallRequest_t_def
  DynamicToolCallResult_t_def FileChangePayload_t_def CommandExecutionPayload_t_def
  ThreadMetadataGitInfo_t_def ThreadMetadataUpdateRequest_t_def ThreadMetadataUpdateResult_t_def
  ThreadUnsubscribeRequest_t_def ThreadUnsubscribeResult_t_def ThreadDeleteRequest_t_def
  ThreadInjectItemsRequest_t_def ThreadShellCommandRequest_t_def ThreadApproveGuardianDeniedActionRequest_t_def
  configUpdateRequest_t_def threadCompactRequest_t_def HookRequest_t_def
  HookResponse_t_def

section \<open>Well-formedness\<close>

text \<open>Folding on the letters that occur in the tags.\<close>

lemma fold_ascii:
  "fold_name (CHR ''a'' # r) = CHR ''A'' # fold_name r"
  "fold_name (CHR ''b'' # r) = CHR ''B'' # fold_name r"
  "fold_name (CHR ''c'' # r) = CHR ''C'' # fold_name r"
  "fold_name (CHR ''d'' # r) = CHR ''D'' # fold_name r"
  "fold_name (CHR ''e'' # r) = CHR ''E'' # fold_name r"
  "fold_name (CHR ''f'' # r) = CHR ''F'' # fold_name r"
  "fold_name (CHR ''g'' # r) = CHR ''G'' # fold_name r"
  "fold_name (CHR ''h'' # r) = CHR ''H'' # fold_name r"
  "fold_name (CHR ''i'' # r) = CHR ''I'' # fold_name r"
  "fold_name (CHR ''j'' # r) = CHR ''J'' # fold_name r"
  "fold_name (CHR ''k'' # r) = CHR ''K'' # fold_name r"
  "fold_name (CHR ''l'' # r) = CHR ''L'' # fold_name r"
  "fold_name (CHR ''m'' # r) = CHR ''M'' # fold_name r"
  "fold_name (CHR ''n'' # r) = CHR ''N'' # fold_name r"
  "fold_name (CHR ''o'' # r) = CHR ''O'' # fold_name r"
  "fold_name (CHR ''p'' # r) = CHR ''P'' # fold_name r"
  "fold_name (CHR ''q'' # r) = CHR ''Q'' # fold_name r"
  "fold_name (CHR ''r'' # r) = CHR ''R'' # fold_name r"
  "fold_name (CHR ''s'' # r) = CHR ''S'' # fold_name r"
  "fold_name (CHR ''t'' # r) = CHR ''T'' # fold_name r"
  "fold_name (CHR ''u'' # r) = CHR ''U'' # fold_name r"
  "fold_name (CHR ''v'' # r) = CHR ''V'' # fold_name r"
  "fold_name (CHR ''w'' # r) = CHR ''W'' # fold_name r"
  "fold_name (CHR ''x'' # r) = CHR ''X'' # fold_name r"
  "fold_name (CHR ''y'' # r) = CHR ''Y'' # fold_name r"
  "fold_name (CHR ''z'' # r) = CHR ''Z'' # fold_name r"
  "fold_name (CHR ''A'' # r) = CHR ''A'' # fold_name r"
  "fold_name (CHR ''B'' # r) = CHR ''B'' # fold_name r"
  "fold_name (CHR ''C'' # r) = CHR ''C'' # fold_name r"
  "fold_name (CHR ''D'' # r) = CHR ''D'' # fold_name r"
  "fold_name (CHR ''E'' # r) = CHR ''E'' # fold_name r"
  "fold_name (CHR ''F'' # r) = CHR ''F'' # fold_name r"
  "fold_name (CHR ''G'' # r) = CHR ''G'' # fold_name r"
  "fold_name (CHR ''H'' # r) = CHR ''H'' # fold_name r"
  "fold_name (CHR ''I'' # r) = CHR ''I'' # fold_name r"
  "fold_name (CHR ''J'' # r) = CHR ''J'' # fold_name r"
  "fold_name (CHR ''K'' # r) = CHR ''K'' # fold_name r"
  "fold_name (CHR ''L'' # r) = CHR ''L'' # fold_name r"
  "fold_name (CHR ''M'' # r) = CHR ''M'' # fold_name r"
  "fold_name (CHR ''N'' # r) = CHR ''N'' # fold_name r"
  "fold_name (CHR ''O'' # r) = CHR ''O'' # fold_name r"
  "fold_name (CHR ''P'' # r) = CHR ''P'' # fold_name r"
  "fold_name (CHR ''Q'' # r) = CHR ''Q'' # fold_name r"
  "fold_name (CHR ''R'' # r) = CHR ''R'' # fold_name r"
  "fold_name (CHR ''S'' # r) = CHR ''S'' # fold_name r"
  "fold_name (CHR ''T'' # r) = CHR ''T'' # fold_name r"
  "fold_name (CHR ''U'' # r) = CHR ''U'' # fold_name r"
  "fold_name (CHR ''V'' # r) = CHR ''V'' # fold_name r"
  "fold_name (CHR ''W'' # r) = CHR ''W'' # fold_name r"
  "fold_name (CHR ''X'' # r) = CHR ''X'' # fold_name r"
  "fold_name (CHR ''Y'' # r) = CHR ''Y'' # fold_name r"
  "fold_name (CHR ''Z'' # r) = CHR ''Z'' # fold_name r"
  "fold_name (CHR ''0'' # r) = CHR ''0'' # fold_name r"
  "fold_name (CHR ''1'' # r) = CHR ''1'' # fold_name r"
  "fold_name (CHR ''2'' # r) = CHR ''2'' # fold_name r"
  "fold_name (CHR ''3'' # r) = CHR ''3'' # fold_name r"
  "fold_name (CHR ''4'' # r) = CHR ''4'' # fold_name r"
  "fold_name (CHR ''5'' # r) = CHR ''5'' # fold_name r"
  "fold_name (CHR ''6'' # r) = CHR ''6'' # fold_name r"
  "fold_name (CHR ''7'' # r) = CHR ''7'' # fold_name r"
  "fold_name (CHR ''8'' # r) = CHR ''8'' # fold_name r"
  "fold_name (CHR ''9'' # r) = CHR ''9'' # fold_name r"
  "fold_name (CHR ''_'' # r) = CHR ''_'' # fold_name r"
  by (simp_all add: code_def char_of_def bit_0)

lemma schema_types_ok: "list_all type_ok schema_types"
  by (simp add: schema_types_def schema_type_defs names_ok_def fold_ascii del: fold_name.simps(2))

lemma protocol_types_ok: "list_all type_ok protocol_types"
  by (simp add: protocol_types_def protocol_type_defs TokenUsage_t_def ThreadGoal_t_def names_ok_def fold_ascii del: fold_name.simps(2))

lemma event_types_ok: "list_all type_ok event_types"
  by (simp add: event_types_def event_type_defs names_ok_def fold_ascii del: fold_name.simps(2))

lemma client_types_ok: "list_all type_ok client_types"
  by (simp add: client_types_def client_type_defs names_ok_def fold_ascii del: fold_name.simps(2))

lemma wire_types_ok: "t \<in> set wire_types \<Longrightarrow> type_ok t"
  using schema_types_ok protocol_types_ok event_types_ok client_types_ok
  by (auto simp: wire_types_def list_all_iff)

section \<open>Properties\<close>



end
