(* ===== verification/Names.thy ===== *)
theory Names imports Prelude begin

text \<open>
  The names that cross the wire: the JSON-RPC methods (\<^verbatim>\<open>internal/protocol/envelope.go\<close>) and the
  values of the string enums.  Each constant abbreviates its value; each block is listed.
\<close>

section \<open>Methods\<close>

abbreviation MethodInitialize :: string where
  "MethodInitialize \<equiv> ''initialize''"

abbreviation MethodInitialized :: string where
  "MethodInitialized \<equiv> ''initialized''"

abbreviation MethodThreadStart :: string where
  "MethodThreadStart \<equiv> ''thread/start''"

abbreviation MethodThreadResume :: string where
  "MethodThreadResume \<equiv> ''thread/resume''"

abbreviation MethodThreadRead :: string where
  "MethodThreadRead \<equiv> ''thread/read''"

abbreviation MethodTurnStart :: string where
  "MethodTurnStart \<equiv> ''turn/start''"

abbreviation MethodTurnSteer :: string where
  "MethodTurnSteer \<equiv> ''turn/steer''"

abbreviation MethodTurnInterrupt :: string where
  "MethodTurnInterrupt \<equiv> ''turn/interrupt''"

abbreviation MethodReviewStart :: string where
  "MethodReviewStart \<equiv> ''review/start''"

abbreviation MethodModelList :: string where
  "MethodModelList \<equiv> ''model/list''"

abbreviation MethodTurnStarted :: string where
  "MethodTurnStarted \<equiv> ''turn/started''"

abbreviation MethodTurnCompleted :: string where
  "MethodTurnCompleted \<equiv> ''turn/completed''"

abbreviation MethodTurnDiffUpdated :: string where
  "MethodTurnDiffUpdated \<equiv> ''turn/diff/updated''"

abbreviation MethodTurnPlanUpdated :: string where
  "MethodTurnPlanUpdated \<equiv> ''turn/plan/updated''"

abbreviation MethodThreadTokenUsageUpdated :: string where
  "MethodThreadTokenUsageUpdated \<equiv> ''thread/tokenUsage/updated''"

abbreviation MethodError :: string where
  "MethodError \<equiv> ''error''"

abbreviation MethodItemStarted :: string where
  "MethodItemStarted \<equiv> ''item/started''"

abbreviation MethodItemCompleted :: string where
  "MethodItemCompleted \<equiv> ''item/completed''"

abbreviation MethodItemAgentMessageDelta :: string where
  "MethodItemAgentMessageDelta \<equiv> ''item/agentMessage/delta''"

abbreviation MethodItemPlanDelta :: string where
  "MethodItemPlanDelta \<equiv> ''item/plan/delta''"

abbreviation MethodItemReasoningSummaryTextDelta :: string where
  "MethodItemReasoningSummaryTextDelta \<equiv> ''item/reasoning/summaryTextDelta''"

abbreviation MethodItemReasoningSummaryPartAdded :: string where
  "MethodItemReasoningSummaryPartAdded \<equiv> ''item/reasoning/summaryPartAdded''"

abbreviation MethodItemReasoningTextDelta :: string where
  "MethodItemReasoningTextDelta \<equiv> ''item/reasoning/textDelta''"

abbreviation MethodItemCommandExecutionOutputDelta :: string where
  "MethodItemCommandExecutionOutputDelta \<equiv> ''item/commandExecution/outputDelta''"

abbreviation MethodItemFileChangePatchUpdated :: string where
  "MethodItemFileChangePatchUpdated \<equiv> ''item/fileChange/patchUpdated''"

abbreviation MethodItemFileChangeOutputDelta :: string where
  "MethodItemFileChangeOutputDelta \<equiv> ''item/fileChange/outputDelta''"

abbreviation MethodItemAutoApprovalReviewStarted :: string where
  "MethodItemAutoApprovalReviewStarted \<equiv> ''item/autoApprovalReview/started''"

abbreviation MethodItemAutoApprovalReviewCompleted :: string where
  "MethodItemAutoApprovalReviewCompleted \<equiv> ''item/autoApprovalReview/completed''"

abbreviation MethodItemCommandExecutionRequestApproval :: string where
  "MethodItemCommandExecutionRequestApproval \<equiv> ''item/commandExecution/requestApproval''"

abbreviation MethodItemFileChangeRequestApproval :: string where
  "MethodItemFileChangeRequestApproval \<equiv> ''item/fileChange/requestApproval''"

abbreviation MethodItemPermissionsRequestApproval :: string where
  "MethodItemPermissionsRequestApproval \<equiv> ''item/permissions/requestApproval''"

abbreviation MethodItemToolRequestUserInput :: string where
  "MethodItemToolRequestUserInput \<equiv> ''item/tool/requestUserInput''"

abbreviation MethodItemToolCall :: string where
  "MethodItemToolCall \<equiv> ''item/tool/call''"

abbreviation MethodItemMCPRequestApproval :: string where
  "MethodItemMCPRequestApproval \<equiv> ''item/mcp/requestApproval''"

abbreviation MethodTurnDiff :: string where
  "MethodTurnDiff \<equiv> ''turn/diff''"

definition turn_methods :: "string list" where
  "turn_methods =
     [MethodInitialize, MethodInitialized, MethodThreadStart, MethodThreadResume, MethodThreadRead,
      MethodTurnStart, MethodTurnSteer, MethodTurnInterrupt, MethodReviewStart, MethodModelList,
      MethodTurnStarted, MethodTurnCompleted, MethodTurnDiffUpdated, MethodTurnPlanUpdated,
      MethodThreadTokenUsageUpdated, MethodError, MethodItemStarted, MethodItemCompleted,
      MethodItemAgentMessageDelta, MethodItemPlanDelta, MethodItemReasoningSummaryTextDelta,
      MethodItemReasoningSummaryPartAdded, MethodItemReasoningTextDelta,
      MethodItemCommandExecutionOutputDelta, MethodItemFileChangePatchUpdated,
      MethodItemFileChangeOutputDelta, MethodItemAutoApprovalReviewStarted,
      MethodItemAutoApprovalReviewCompleted, MethodItemCommandExecutionRequestApproval,
      MethodItemFileChangeRequestApproval, MethodItemPermissionsRequestApproval,
      MethodItemToolRequestUserInput, MethodItemToolCall, MethodItemMCPRequestApproval,
      MethodTurnDiff]"

abbreviation MethodThreadCompact :: string where
  "MethodThreadCompact \<equiv> ''thread/compact/start''"

abbreviation MethodThreadFork :: string where
  "MethodThreadFork \<equiv> ''thread/fork''"

abbreviation MethodThreadList :: string where
  "MethodThreadList \<equiv> ''thread/list''"

abbreviation MethodThreadLoadedList :: string where
  "MethodThreadLoadedList \<equiv> ''thread/loaded/list''"

abbreviation MethodThreadArchive :: string where
  "MethodThreadArchive \<equiv> ''thread/archive''"

abbreviation MethodThreadUnarchive :: string where
  "MethodThreadUnarchive \<equiv> ''thread/unarchive''"

abbreviation MethodThreadSetName :: string where
  "MethodThreadSetName \<equiv> ''thread/name/set''"

abbreviation MethodThreadRollback :: string where
  "MethodThreadRollback \<equiv> ''thread/rollback''"

abbreviation MethodThreadGoalSet :: string where
  "MethodThreadGoalSet \<equiv> ''thread/goal/set''"

abbreviation MethodThreadGoalClear :: string where
  "MethodThreadGoalClear \<equiv> ''thread/goal/clear''"

abbreviation MethodThreadGoalGet :: string where
  "MethodThreadGoalGet \<equiv> ''thread/goal/get''"

abbreviation MethodConfigUpdate :: string where
  "MethodConfigUpdate \<equiv> ''config/update''"

abbreviation MethodConfigRead :: string where
  "MethodConfigRead \<equiv> ''config/read''"

abbreviation MethodConfigValueWrite :: string where
  "MethodConfigValueWrite \<equiv> ''config/value/write''"

abbreviation MethodConfigBatchWrite :: string where
  "MethodConfigBatchWrite \<equiv> ''config/batchWrite''"

abbreviation MethodSkillsList :: string where
  "MethodSkillsList \<equiv> ''skills/list''"

abbreviation MethodSkillsConfigWrite :: string where
  "MethodSkillsConfigWrite \<equiv> ''skills/config/write''"

abbreviation MethodSkillsExtraRootsSet :: string where
  "MethodSkillsExtraRootsSet \<equiv> ''skills/extraRoots/set''"

abbreviation MethodExperimentalFeatureList :: string where
  "MethodExperimentalFeatureList \<equiv> ''experimentalFeature/list''"

abbreviation MethodExperimentalFeatureEnablementSet :: string where
  "MethodExperimentalFeatureEnablementSet \<equiv> ''experimentalFeature/enablement/set''"

abbreviation MethodHooksList :: string where
  "MethodHooksList \<equiv> ''hooks/list''"

abbreviation MethodCommandExec :: string where
  "MethodCommandExec \<equiv> ''command/exec''"

abbreviation MethodCommandExecWrite :: string where
  "MethodCommandExecWrite \<equiv> ''command/exec/write''"

abbreviation MethodCommandExecResize :: string where
  "MethodCommandExecResize \<equiv> ''command/exec/resize''"

abbreviation MethodCommandExecTerminate :: string where
  "MethodCommandExecTerminate \<equiv> ''command/exec/terminate''"

abbreviation MethodCommandExecOutputDelta :: string where
  "MethodCommandExecOutputDelta \<equiv> ''command/exec/outputDelta''"

abbreviation MethodThreadDelete :: string where
  "MethodThreadDelete \<equiv> ''thread/delete''"

abbreviation MethodThreadUnsubscribe :: string where
  "MethodThreadUnsubscribe \<equiv> ''thread/unsubscribe''"

abbreviation MethodThreadMetadataUpdate :: string where
  "MethodThreadMetadataUpdate \<equiv> ''thread/metadata/update''"

abbreviation MethodThreadShellCommand :: string where
  "MethodThreadShellCommand \<equiv> ''thread/shellCommand''"

abbreviation MethodThreadApproveGuardianDenied :: string where
  "MethodThreadApproveGuardianDenied \<equiv> ''thread/approveGuardianDeniedAction''"

abbreviation MethodThreadInjectItems :: string where
  "MethodThreadInjectItems \<equiv> ''thread/inject_items''"

abbreviation MethodModelProviderCapabilitiesRead :: string where
  "MethodModelProviderCapabilitiesRead \<equiv> ''modelProvider/capabilities/read''"

definition client_methods :: "string list" where
  "client_methods =
     [MethodThreadCompact, MethodThreadFork, MethodThreadList, MethodThreadLoadedList,
      MethodThreadArchive, MethodThreadUnarchive, MethodThreadSetName, MethodThreadRollback,
      MethodThreadGoalSet, MethodThreadGoalClear, MethodThreadGoalGet, MethodConfigUpdate,
      MethodConfigRead, MethodConfigValueWrite, MethodConfigBatchWrite, MethodSkillsList,
      MethodSkillsConfigWrite, MethodSkillsExtraRootsSet, MethodExperimentalFeatureList,
      MethodExperimentalFeatureEnablementSet, MethodHooksList, MethodCommandExec,
      MethodCommandExecWrite, MethodCommandExecResize, MethodCommandExecTerminate,
      MethodCommandExecOutputDelta, MethodThreadDelete, MethodThreadUnsubscribe,
      MethodThreadMetadataUpdate, MethodThreadShellCommand, MethodThreadApproveGuardianDenied,
      MethodThreadInjectItems, MethodModelProviderCapabilitiesRead]"

abbreviation MethodThreadDeleted :: string where
  "MethodThreadDeleted \<equiv> ''thread/deleted''"

abbreviation MethodThreadNameUpdated :: string where
  "MethodThreadNameUpdated \<equiv> ''thread/name/updated''"

abbreviation MethodThreadCompacted :: string where
  "MethodThreadCompacted \<equiv> ''thread/compacted''"

abbreviation MethodThreadSettingsUpdated :: string where
  "MethodThreadSettingsUpdated \<equiv> ''thread/settings/updated''"

abbreviation MethodAccountRateLimitsUpdated :: string where
  "MethodAccountRateLimitsUpdated \<equiv> ''account/rateLimits/updated''"

abbreviation MethodWarning :: string where
  "MethodWarning \<equiv> ''warning''"

abbreviation MethodConfigWarning :: string where
  "MethodConfigWarning \<equiv> ''configWarning''"

abbreviation MethodDeprecationNotice :: string where
  "MethodDeprecationNotice \<equiv> ''deprecationNotice''"

abbreviation MethodGuardianWarning :: string where
  "MethodGuardianWarning \<equiv> ''guardianWarning''"

abbreviation MethodWindowsWorldWritableWarning :: string where
  "MethodWindowsWorldWritableWarning \<equiv> ''windows/worldWritableWarning''"

abbreviation MethodWindowsSandboxSetupCompleted :: string where
  "MethodWindowsSandboxSetupCompleted \<equiv> ''windowsSandbox/setupCompleted''"

abbreviation MethodModelRerouted :: string where
  "MethodModelRerouted \<equiv> ''model/rerouted''"

abbreviation MethodModelVerification :: string where
  "MethodModelVerification \<equiv> ''model/verification''"

abbreviation MethodTurnModerationMetadata :: string where
  "MethodTurnModerationMetadata \<equiv> ''turn/moderationMetadata''"

abbreviation MethodProcessExited :: string where
  "MethodProcessExited \<equiv> ''process/exited''"

abbreviation MethodProcessOutputDelta :: string where
  "MethodProcessOutputDelta \<equiv> ''process/outputDelta''"

abbreviation MethodItemTerminalInteraction :: string where
  "MethodItemTerminalInteraction \<equiv> ''item/commandExecution/terminalInteraction''"

abbreviation MethodItemMcpToolCallProgress :: string where
  "MethodItemMcpToolCallProgress \<equiv> ''item/mcpToolCall/progress''"

abbreviation MethodHookStarted :: string where
  "MethodHookStarted \<equiv> ''hook/started''"

abbreviation MethodHookCompleted :: string where
  "MethodHookCompleted \<equiv> ''hook/completed''"

abbreviation MethodRawResponseItemCompleted :: string where
  "MethodRawResponseItemCompleted \<equiv> ''rawResponseItem/completed''"

abbreviation MethodMcpServerStatusUpdated :: string where
  "MethodMcpServerStatusUpdated \<equiv> ''mcpServer/startupStatus/updated''"

abbreviation MethodMcpServerOauthLoginCompleted :: string where
  "MethodMcpServerOauthLoginCompleted \<equiv> ''mcpServer/oauthLogin/completed''"

abbreviation MethodSkillsChanged :: string where
  "MethodSkillsChanged \<equiv> ''skills/changed''"

abbreviation MethodFsChanged :: string where
  "MethodFsChanged \<equiv> ''fs/changed''"

abbreviation MethodAppListUpdated :: string where
  "MethodAppListUpdated \<equiv> ''app/list/updated''"

abbreviation MethodRemoteControlStatusChanged :: string where
  "MethodRemoteControlStatusChanged \<equiv> ''remoteControl/status/changed''"

abbreviation MethodExternalAgentConfigImportDone :: string where
  "MethodExternalAgentConfigImportDone \<equiv> ''externalAgentConfig/import/completed''"

abbreviation MethodExternalAgentConfigImportProg :: string where
  "MethodExternalAgentConfigImportProg \<equiv> ''externalAgentConfig/import/progress''"

abbreviation MethodThreadRealtimeStarted :: string where
  "MethodThreadRealtimeStarted \<equiv> ''thread/realtime/started''"

abbreviation MethodThreadRealtimeClosed :: string where
  "MethodThreadRealtimeClosed \<equiv> ''thread/realtime/closed''"

abbreviation MethodThreadRealtimeError :: string where
  "MethodThreadRealtimeError \<equiv> ''thread/realtime/error''"

abbreviation MethodThreadRealtimeItemAdded :: string where
  "MethodThreadRealtimeItemAdded \<equiv> ''thread/realtime/itemAdded''"

abbreviation MethodThreadRealtimeSdp :: string where
  "MethodThreadRealtimeSdp \<equiv> ''thread/realtime/sdp''"

abbreviation MethodThreadRealtimeOutputAudio :: string where
  "MethodThreadRealtimeOutputAudio \<equiv> ''thread/realtime/outputAudio/delta''"

abbreviation MethodThreadRealtimeTranscriptDelta :: string where
  "MethodThreadRealtimeTranscriptDelta \<equiv> ''thread/realtime/transcript/delta''"

abbreviation MethodThreadRealtimeTranscriptDone :: string where
  "MethodThreadRealtimeTranscriptDone \<equiv> ''thread/realtime/transcript/done''"

definition extra_methods :: "string list" where
  "extra_methods =
     [MethodThreadDeleted, MethodThreadNameUpdated, MethodThreadCompacted,
      MethodThreadSettingsUpdated, MethodAccountRateLimitsUpdated, MethodWarning,
      MethodConfigWarning, MethodDeprecationNotice, MethodGuardianWarning,
      MethodWindowsWorldWritableWarning, MethodWindowsSandboxSetupCompleted, MethodModelRerouted,
      MethodModelVerification, MethodTurnModerationMetadata, MethodProcessExited,
      MethodProcessOutputDelta, MethodItemTerminalInteraction, MethodItemMcpToolCallProgress,
      MethodHookStarted, MethodHookCompleted, MethodRawResponseItemCompleted,
      MethodMcpServerStatusUpdated, MethodMcpServerOauthLoginCompleted, MethodSkillsChanged,
      MethodFsChanged, MethodAppListUpdated, MethodRemoteControlStatusChanged,
      MethodExternalAgentConfigImportDone, MethodExternalAgentConfigImportProg,
      MethodThreadRealtimeStarted, MethodThreadRealtimeClosed, MethodThreadRealtimeError,
      MethodThreadRealtimeItemAdded, MethodThreadRealtimeSdp, MethodThreadRealtimeOutputAudio,
      MethodThreadRealtimeTranscriptDelta, MethodThreadRealtimeTranscriptDone]"

abbreviation MethodAccountLoginStart :: string where
  "MethodAccountLoginStart \<equiv> ''account/login/start''"

abbreviation MethodAccountLoginCancel :: string where
  "MethodAccountLoginCancel \<equiv> ''account/login/cancel''"

abbreviation MethodAccountRead :: string where
  "MethodAccountRead \<equiv> ''account/read''"

abbreviation MethodAccountLogout :: string where
  "MethodAccountLogout \<equiv> ''account/logout''"

abbreviation MethodAccountLoginCompleted :: string where
  "MethodAccountLoginCompleted \<equiv> ''account/login/completed''"

abbreviation MethodAccountUpdated :: string where
  "MethodAccountUpdated \<equiv> ''account/updated''"

abbreviation MethodThreadStarted :: string where
  "MethodThreadStarted \<equiv> ''thread/started''"

abbreviation MethodThreadArchived :: string where
  "MethodThreadArchived \<equiv> ''thread/archived''"

abbreviation MethodThreadUnarchived :: string where
  "MethodThreadUnarchived \<equiv> ''thread/unarchived''"

abbreviation MethodThreadClosed :: string where
  "MethodThreadClosed \<equiv> ''thread/closed''"

abbreviation MethodThreadStatusChanged :: string where
  "MethodThreadStatusChanged \<equiv> ''thread/status/changed''"

abbreviation MethodThreadGoalUpdated :: string where
  "MethodThreadGoalUpdated \<equiv> ''thread/goal/updated''"

abbreviation MethodThreadGoalCleared :: string where
  "MethodThreadGoalCleared \<equiv> ''thread/goal/cleared''"

abbreviation MethodItemUpdated :: string where
  "MethodItemUpdated \<equiv> ''item/updated''"

abbreviation MethodServerRequestResolved :: string where
  "MethodServerRequestResolved \<equiv> ''serverRequest/resolved''"

definition account_methods :: "string list" where
  "account_methods =
     [MethodAccountLoginStart, MethodAccountLoginCancel, MethodAccountRead, MethodAccountLogout,
      MethodAccountLoginCompleted, MethodAccountUpdated, MethodThreadStarted, MethodThreadArchived,
      MethodThreadUnarchived, MethodThreadClosed, MethodThreadStatusChanged,
      MethodThreadGoalUpdated, MethodThreadGoalCleared, MethodItemUpdated,
      MethodServerRequestResolved]"

definition methods :: "string list" where
  "methods = turn_methods @ client_methods @ extra_methods @ account_methods"

section \<open>Enums\<close>

abbreviation ThreadStatusNotLoaded :: string where
  "ThreadStatusNotLoaded \<equiv> ''notLoaded''"

abbreviation ThreadStatusIdle :: string where
  "ThreadStatusIdle \<equiv> ''idle''"

abbreviation ThreadStatusSystemError :: string where
  "ThreadStatusSystemError \<equiv> ''systemError''"

abbreviation ThreadStatusActive :: string where
  "ThreadStatusActive \<equiv> ''active''"

definition ThreadStatus_values :: "string list" where
  "ThreadStatus_values =
     [ThreadStatusNotLoaded, ThreadStatusIdle, ThreadStatusSystemError, ThreadStatusActive]"

abbreviation ThreadActiveFlagWaitingOnApproval :: string where
  "ThreadActiveFlagWaitingOnApproval \<equiv> ''waitingOnApproval''"

abbreviation ThreadActiveFlagWaitingOnUserInput :: string where
  "ThreadActiveFlagWaitingOnUserInput \<equiv> ''waitingOnUserInput''"

definition ThreadActiveFlag_values :: "string list" where
  "ThreadActiveFlag_values =
     [ThreadActiveFlagWaitingOnApproval, ThreadActiveFlagWaitingOnUserInput]"

abbreviation TurnStatusCompleted :: string where
  "TurnStatusCompleted \<equiv> ''completed''"

abbreviation TurnStatusInterrupted :: string where
  "TurnStatusInterrupted \<equiv> ''interrupted''"

abbreviation TurnStatusFailed :: string where
  "TurnStatusFailed \<equiv> ''failed''"

abbreviation TurnStatusInProgress :: string where
  "TurnStatusInProgress \<equiv> ''inProgress''"

definition TurnStatus_values :: "string list" where
  "TurnStatus_values =
     [TurnStatusCompleted, TurnStatusInterrupted, TurnStatusFailed, TurnStatusInProgress]"

abbreviation TurnItemsViewNotLoaded :: string where
  "TurnItemsViewNotLoaded \<equiv> ''notLoaded''"

abbreviation TurnItemsViewSummary :: string where
  "TurnItemsViewSummary \<equiv> ''summary''"

abbreviation TurnItemsViewFull :: string where
  "TurnItemsViewFull \<equiv> ''full''"

definition TurnItemsView_values :: "string list" where
  "TurnItemsView_values =
     [TurnItemsViewNotLoaded, TurnItemsViewSummary, TurnItemsViewFull]"

abbreviation ItemKindUserMessage :: string where
  "ItemKindUserMessage \<equiv> ''userMessage''"

abbreviation ItemKindHookPrompt :: string where
  "ItemKindHookPrompt \<equiv> ''hookPrompt''"

abbreviation ItemKindAgentMessage :: string where
  "ItemKindAgentMessage \<equiv> ''agentMessage''"

abbreviation ItemKindPlan :: string where
  "ItemKindPlan \<equiv> ''plan''"

abbreviation ItemKindReasoning :: string where
  "ItemKindReasoning \<equiv> ''reasoning''"

abbreviation ItemKindCommandExecution :: string where
  "ItemKindCommandExecution \<equiv> ''commandExecution''"

abbreviation ItemKindFileChange :: string where
  "ItemKindFileChange \<equiv> ''fileChange''"

abbreviation ItemKindMCPToolCall :: string where
  "ItemKindMCPToolCall \<equiv> ''mcpToolCall''"

abbreviation ItemKindDynamicToolCall :: string where
  "ItemKindDynamicToolCall \<equiv> ''dynamicToolCall''"

abbreviation ItemKindCollabAgentToolCall :: string where
  "ItemKindCollabAgentToolCall \<equiv> ''collabAgentToolCall''"

abbreviation ItemKindSubAgentActivity :: string where
  "ItemKindSubAgentActivity \<equiv> ''subAgentActivity''"

abbreviation ItemKindWebSearch :: string where
  "ItemKindWebSearch \<equiv> ''webSearch''"

abbreviation ItemKindImageView :: string where
  "ItemKindImageView \<equiv> ''imageView''"

abbreviation ItemKindSleep :: string where
  "ItemKindSleep \<equiv> ''sleep''"

abbreviation ItemKindImageGeneration :: string where
  "ItemKindImageGeneration \<equiv> ''imageGeneration''"

abbreviation ItemKindEnteredReviewMode :: string where
  "ItemKindEnteredReviewMode \<equiv> ''enteredReviewMode''"

abbreviation ItemKindExitedReviewMode :: string where
  "ItemKindExitedReviewMode \<equiv> ''exitedReviewMode''"

abbreviation ItemKindContextCompaction :: string where
  "ItemKindContextCompaction \<equiv> ''contextCompaction''"

definition ItemKind_values :: "string list" where
  "ItemKind_values =
     [ItemKindUserMessage, ItemKindHookPrompt, ItemKindAgentMessage, ItemKindPlan,
      ItemKindReasoning, ItemKindCommandExecution, ItemKindFileChange, ItemKindMCPToolCall,
      ItemKindDynamicToolCall, ItemKindCollabAgentToolCall, ItemKindSubAgentActivity,
      ItemKindWebSearch, ItemKindImageView, ItemKindSleep, ItemKindImageGeneration,
      ItemKindEnteredReviewMode, ItemKindExitedReviewMode, ItemKindContextCompaction]"

abbreviation ApprovalDecisionAccept :: string where
  "ApprovalDecisionAccept \<equiv> ''accept''"

abbreviation ApprovalDecisionAcceptForSession :: string where
  "ApprovalDecisionAcceptForSession \<equiv> ''acceptForSession''"

abbreviation ApprovalDecisionAcceptWithExecpolicyAmendment :: string where
  "ApprovalDecisionAcceptWithExecpolicyAmendment \<equiv> ''acceptWithExecpolicyAmendment''"

abbreviation ApprovalDecisionApplyNetworkPolicyAmendment :: string where
  "ApprovalDecisionApplyNetworkPolicyAmendment \<equiv> ''applyNetworkPolicyAmendment''"

abbreviation ApprovalDecisionDecline :: string where
  "ApprovalDecisionDecline \<equiv> ''decline''"

abbreviation ApprovalDecisionCancel :: string where
  "ApprovalDecisionCancel \<equiv> ''cancel''"

definition ApprovalDecision_values :: "string list" where
  "ApprovalDecision_values =
     [ApprovalDecisionAccept, ApprovalDecisionAcceptForSession,
      ApprovalDecisionAcceptWithExecpolicyAmendment, ApprovalDecisionApplyNetworkPolicyAmendment,
      ApprovalDecisionDecline, ApprovalDecisionCancel]"

abbreviation FileChangeApprovalDecisionAccept :: string where
  "FileChangeApprovalDecisionAccept \<equiv> ''accept''"

abbreviation FileChangeApprovalDecisionAcceptForSession :: string where
  "FileChangeApprovalDecisionAcceptForSession \<equiv> ''acceptForSession''"

abbreviation FileChangeApprovalDecisionDecline :: string where
  "FileChangeApprovalDecisionDecline \<equiv> ''decline''"

abbreviation FileChangeApprovalDecisionCancel :: string where
  "FileChangeApprovalDecisionCancel \<equiv> ''cancel''"

definition FileChangeApprovalDecision_values :: "string list" where
  "FileChangeApprovalDecision_values =
     [FileChangeApprovalDecisionAccept, FileChangeApprovalDecisionAcceptForSession,
      FileChangeApprovalDecisionDecline, FileChangeApprovalDecisionCancel]"

abbreviation PermissionsScopeSession :: string where
  "PermissionsScopeSession \<equiv> ''session''"

abbreviation PermissionsScopeTurn :: string where
  "PermissionsScopeTurn \<equiv> ''turn''"

definition PermissionsScope_values :: "string list" where
  "PermissionsScope_values =
     [PermissionsScopeSession, PermissionsScopeTurn]"

abbreviation SkillScopeUser :: string where
  "SkillScopeUser \<equiv> ''user''"

abbreviation SkillScopeRepo :: string where
  "SkillScopeRepo \<equiv> ''repo''"

abbreviation SkillScopeSystem :: string where
  "SkillScopeSystem \<equiv> ''system''"

abbreviation SkillScopeAdmin :: string where
  "SkillScopeAdmin \<equiv> ''admin''"

definition SkillScope_values :: "string list" where
  "SkillScope_values =
     [SkillScopeUser, SkillScopeRepo, SkillScopeSystem, SkillScopeAdmin]"

abbreviation ThreadGoalStatusActive :: string where
  "ThreadGoalStatusActive \<equiv> ''active''"

abbreviation ThreadGoalStatusPaused :: string where
  "ThreadGoalStatusPaused \<equiv> ''paused''"

abbreviation ThreadGoalStatusBlocked :: string where
  "ThreadGoalStatusBlocked \<equiv> ''blocked''"

abbreviation ThreadGoalStatusUsageLimited :: string where
  "ThreadGoalStatusUsageLimited \<equiv> ''usageLimited''"

abbreviation ThreadGoalStatusBudgetLimited :: string where
  "ThreadGoalStatusBudgetLimited \<equiv> ''budgetLimited''"

abbreviation ThreadGoalStatusComplete :: string where
  "ThreadGoalStatusComplete \<equiv> ''complete''"

definition ThreadGoalStatus_values :: "string list" where
  "ThreadGoalStatus_values =
     [ThreadGoalStatusActive, ThreadGoalStatusPaused, ThreadGoalStatusBlocked,
      ThreadGoalStatusUsageLimited, ThreadGoalStatusBudgetLimited, ThreadGoalStatusComplete]"

abbreviation ApprovalModeDenyAll :: string where
  "ApprovalModeDenyAll \<equiv> ''deny_all''"

abbreviation ApprovalModeAutoReview :: string where
  "ApprovalModeAutoReview \<equiv> ''auto_review''"

abbreviation ApprovalModeOnRequest :: string where
  "ApprovalModeOnRequest \<equiv> ''on-request''"

abbreviation ApprovalModeNever :: string where
  "ApprovalModeNever \<equiv> ''never''"

definition ApprovalMode_values :: "string list" where
  "ApprovalMode_values =
     [ApprovalModeDenyAll, ApprovalModeAutoReview, ApprovalModeOnRequest, ApprovalModeNever]"

abbreviation SandboxReadOnly :: string where
  "SandboxReadOnly \<equiv> ''read-only''"

abbreviation SandboxWorkspaceWrite :: string where
  "SandboxWorkspaceWrite \<equiv> ''workspace-write''"

abbreviation SandboxFullAccess :: string where
  "SandboxFullAccess \<equiv> ''danger-full-access''"

definition SandboxMode_values :: "string list" where
  "SandboxMode_values =
     [SandboxReadOnly, SandboxWorkspaceWrite, SandboxFullAccess]"

abbreviation PlanTypeFree :: string where
  "PlanTypeFree \<equiv> ''free''"

abbreviation PlanTypeGo :: string where
  "PlanTypeGo \<equiv> ''go''"

abbreviation PlanTypePlus :: string where
  "PlanTypePlus \<equiv> ''plus''"

abbreviation PlanTypePro :: string where
  "PlanTypePro \<equiv> ''pro''"

abbreviation PlanTypeProLite :: string where
  "PlanTypeProLite \<equiv> ''prolite''"

abbreviation PlanTypeTeam :: string where
  "PlanTypeTeam \<equiv> ''team''"

abbreviation PlanTypeSelfServeBusinessUsageBased :: string where
  "PlanTypeSelfServeBusinessUsageBased \<equiv> ''self_serve_business_usage_based''"

abbreviation PlanTypeBusiness :: string where
  "PlanTypeBusiness \<equiv> ''business''"

abbreviation PlanTypeEnterpriseCBPUsageBased :: string where
  "PlanTypeEnterpriseCBPUsageBased \<equiv> ''enterprise_cbp_usage_based''"

abbreviation PlanTypeEnterprise :: string where
  "PlanTypeEnterprise \<equiv> ''enterprise''"

abbreviation PlanTypeEdu :: string where
  "PlanTypeEdu \<equiv> ''edu''"

abbreviation PlanTypeUnknown :: string where
  "PlanTypeUnknown \<equiv> ''unknown''"

definition PlanType_values :: "string list" where
  "PlanType_values =
     [PlanTypeFree, PlanTypeGo, PlanTypePlus, PlanTypePro, PlanTypeProLite, PlanTypeTeam,
      PlanTypeSelfServeBusinessUsageBased, PlanTypeBusiness, PlanTypeEnterpriseCBPUsageBased,
      PlanTypeEnterprise, PlanTypeEdu, PlanTypeUnknown]"

abbreviation AuthModeAPIKey :: string where
  "AuthModeAPIKey \<equiv> ''apikey''"

abbreviation AuthModeChatGPT :: string where
  "AuthModeChatGPT \<equiv> ''chatgpt''"

definition AuthMode_values :: "string list" where
  "AuthMode_values =
     [AuthModeAPIKey, AuthModeChatGPT]"

abbreviation CancelLoginStatusCanceled :: string where
  "CancelLoginStatusCanceled \<equiv> ''canceled''"

abbreviation CancelLoginStatusNotFound :: string where
  "CancelLoginStatusNotFound \<equiv> ''notFound''"

definition CancelLoginStatus_values :: "string list" where
  "CancelLoginStatus_values =
     [CancelLoginStatusCanceled, CancelLoginStatusNotFound]"

abbreviation MergeStrategyReplace :: string where
  "MergeStrategyReplace \<equiv> ''replace''"

abbreviation MergeStrategyUpsert :: string where
  "MergeStrategyUpsert \<equiv> ''upsert''"

definition MergeStrategy_values :: "string list" where
  "MergeStrategy_values =
     [MergeStrategyReplace, MergeStrategyUpsert]"

abbreviation ThreadUnsubscribeStatusNotLoaded :: string where
  "ThreadUnsubscribeStatusNotLoaded \<equiv> ''notLoaded''"

abbreviation ThreadUnsubscribeStatusNotSubscribed :: string where
  "ThreadUnsubscribeStatusNotSubscribed \<equiv> ''notSubscribed''"

abbreviation ThreadUnsubscribeStatusUnsubscribed :: string where
  "ThreadUnsubscribeStatusUnsubscribed \<equiv> ''unsubscribed''"

definition ThreadUnsubscribeStatus_values :: "string list" where
  "ThreadUnsubscribeStatus_values =
     [ThreadUnsubscribeStatusNotLoaded, ThreadUnsubscribeStatusNotSubscribed,
      ThreadUnsubscribeStatusUnsubscribed]"

abbreviation HookPreToolUse :: string where
  "HookPreToolUse \<equiv> ''PreToolUse''"

abbreviation HookPostToolUse :: string where
  "HookPostToolUse \<equiv> ''PostToolUse''"

abbreviation HookSessionStart :: string where
  "HookSessionStart \<equiv> ''SessionStart''"

definition HookType_values :: "string list" where
  "HookType_values =
     [HookPreToolUse, HookPostToolUse, HookSessionStart]"

abbreviation DecisionAllow :: string where
  "DecisionAllow \<equiv> ''allow''"

abbreviation DecisionBlock :: string where
  "DecisionBlock \<equiv> ''block''"

definition HookDecision_values :: "string list" where
  "HookDecision_values =
     [DecisionAllow, DecisionBlock]"

end
