(* ===== verification/Protocol.thy ===== *)
theory Protocol imports WireTypes Names GoErrors begin

text \<open>
  The protocol types with methods of their own (\<^verbatim>\<open>internal/protocol\<close> and the \<^verbatim>\<open>_ext\<close> files of its
  \<^verbatim>\<open>schema\<close> package): items, the flexible time and status of threads and turns, the requests with
  their own \<^verbatim>\<open>MarshalJSON\<close>, and the decoding of requests from the server.
\<close>

section \<open>Reading decoded values\<close>

definition vstr :: "goval \<Rightarrow> string" where
  "vstr v = (case v of VStr s \<Rightarrow> s | _ \<Rightarrow> [])"

definition vint :: "goval \<Rightarrow> int" where
  "vint v = (case v of VInt i \<Rightarrow> i | _ \<Rightarrow> 0)"

definition vbool :: "goval \<Rightarrow> bool" where
  "vbool v = (case v of VBool b \<Rightarrow> b | _ \<Rightarrow> False)"

definition vraw :: "goval \<Rightarrow> raw" where
  "vraw v = (case v of VRaw j \<Rightarrow> Some j | _ \<Rightarrow> None)"

definition vptr :: "goval \<Rightarrow> goval option" where
  "vptr v = (case v of VPtr w \<Rightarrow> Some w | _ \<Rightarrow> None)"

definition vslice :: "goval \<Rightarrow> goval list" where
  "vslice v = (case v of VSlice vs \<Rightarrow> vs | _ \<Rightarrow> [])"

definition vfields :: "goval \<Rightarrow> goval list" where
  "vfields v = (case v of VStruct vs \<Rightarrow> vs | _ \<Rightarrow> [])"

definition raw_val :: "raw \<Rightarrow> goval" where
  "raw_val r = (case r of None \<Rightarrow> VNil | Some j \<Rightarrow> VRaw j)"

definition ptr_val :: "goval option \<Rightarrow> goval" where
  "ptr_val p = (case p of None \<Rightarrow> VNil | Some v \<Rightarrow> VPtr v)"

lemma goval_views [simp]:
  "vstr (VStr s) = s" "vint (VInt i) = i" "vbool (VBool b) = b" "vraw (raw_val r) = r"
  "vptr (ptr_val p) = p" "vslice (VSlice vs) = vs" "vfields (VStruct vs) = vs"
  by (auto simp: vstr_def vint_def vbool_def vraw_def vptr_def vslice_def vfields_def raw_val_def ptr_val_def
      split: option.split)

text \<open>Decoding of an optional document: an empty one is read as null.\<close>

definition decode_raw :: "codecs \<Rightarrow> gotype \<Rightarrow> raw \<Rightarrow> goval option" where
  "decode_raw env t r = json_unmarshal env t (case r of None \<Rightarrow> JNull | Some j \<Rightarrow> j)"

definition decode_params :: "codecs \<Rightarrow> gotype \<Rightarrow> raw \<Rightarrow> goval option" where
  "decode_params env t params = decode_raw env t params"

definition decode_result :: "codecs \<Rightarrow> gotype \<Rightarrow> raw \<Rightarrow> goval option" where
  "decode_result env t result = decode_raw env t result"

section \<open>Items\<close>

text \<open>
  An item is an object with an id and a type; the other members are its payload, kept as a
  document.  A Go map of members is the list of its entries in key order.
\<close>

record item =
  item_id :: string
  item_kind :: string
  item_payload :: raw

definition obj_map :: "(string \<times> json) list \<Rightarrow> (string \<times> json) list" where
  "obj_map ms = fold (\<lambda>(k, v) kvs. put k v kvs) ms []"

definition del :: "string \<Rightarrow> (string \<times> json) list \<Rightarrow> (string \<times> json) list" where
  "del k kvs = filter (\<lambda>m. fst m \<noteq> k) kvs"

definition new_item :: "string \<Rightarrow> raw \<Rightarrow> item" where
  "new_item kind payload = \<lparr>item_id = [], item_kind = kind, item_payload = payload\<rparr>"

definition members_of :: "json \<Rightarrow> (string \<times> json) list option" where
  "members_of j = (case j of JObj ms \<Rightarrow> Some (obj_map ms) | JNull \<Rightarrow> Some [] | _ \<Rightarrow> None)"

definition item_marshal :: "item \<Rightarrow> json option" where
  "item_marshal i =
     (case (case item_payload i of None \<Rightarrow> Some [] | Some p \<Rightarrow> members_of p) of
        None \<Rightarrow> None
      | Some obj \<Rightarrow>
          let obj1 = (if item_id i \<noteq> [] then put ''id'' (JStr (coerce_utf8 0 (item_id i))) obj else obj)
          in Some (JObj (put ''type'' (JStr (coerce_utf8 0 (item_kind i))) obj1)))"

definition read_str :: "string \<Rightarrow> json \<Rightarrow> string option" where
  "read_str cur j = (case j of JStr s \<Rightarrow> Some s | JNull \<Rightarrow> Some cur | _ \<Rightarrow> None)"

definition item_unmarshal :: "item \<Rightarrow> json \<Rightarrow> item option" where
  "item_unmarshal cur j =
     (case members_of j of
        None \<Rightarrow> None
      | Some obj \<Rightarrow>
          (case map_of obj ''type'' of
             None \<Rightarrow> None
           | Some t \<Rightarrow>
               (case (read_str (item_kind cur) t,
                      case map_of obj ''id'' of None \<Rightarrow> Some (item_id cur) | Some d \<Rightarrow> read_str (item_id cur) d) of
                  (Some kind, Some i) \<Rightarrow>
                    let rest = del ''type'' (del ''id'' obj) in
                    Some \<lparr>item_id = i, item_kind = kind,
                      item_payload = (if rest = [] then None else Some (JObj rest))\<rparr>
                | _ \<Rightarrow> None)))"

definition item_decode :: "codecs \<Rightarrow> gotype \<Rightarrow> item \<Rightarrow> goval option" where
  "item_decode env t i = decode_raw env t (item_payload i)"

definition item_val :: "item \<Rightarrow> goval" where
  "item_val i = VStruct [VStr (item_id i), VStr (item_kind i), raw_val (item_payload i)]"

definition item_of :: "goval \<Rightarrow> item" where
  "item_of v = (case vfields v of
     [i, k, p] \<Rightarrow> \<lparr>item_id = vstr i, item_kind = vstr k, item_payload = vraw p\<rparr>
   | _ \<Rightarrow> \<lparr>item_id = [], item_kind = [], item_payload = None\<rparr>)"

lemma item_of_val [simp]: "item_of (item_val i) = i"
  by (simp add: item_of_def item_val_def)

section \<open>Times and statuses\<close>

text \<open>
  A time is an instant in nanoseconds since 1970.  What \<^verbatim>\<open>time.Parse\<close> makes of a string in the
  RFC 3339 layouts, and what \<^verbatim>\<open>strconv.ParseFloat\<close> followed by the conversion to \<^verbatim>\<open>int64\<close> makes of a
  number that is not an integer, are parameters.
\<close>

record timelib =
  parse_time :: "string \<Rightarrow> int option"
  float_int :: "string \<Rightarrow> int option"

definition zero_time :: int where
  "zero_time = - 62135596800 * 10 ^ 9"

definition time_from_unix :: "int \<Rightarrow> int" where
  "time_from_unix n = (if n > 10 ^ 12 \<or> n < - (10 ^ 12) then n * 10 ^ 6 else n * 10 ^ 9)"

definition flexible_time :: "timelib \<Rightarrow> int \<Rightarrow> json \<Rightarrow> int option" where
  "flexible_time lib cur j =
     (case j of
        JNull \<Rightarrow> Some cur
      | JStr s \<Rightarrow> if s = [] then Some cur else parse_time lib s
      | JNum l \<Rightarrow>
          map_option time_from_unix (case parse_int64 l of Some n \<Rightarrow> Some n | None \<Rightarrow> float_int lib l)
      | _ \<Rightarrow> None)"

fun first_status :: "(string \<times> json) list \<Rightarrow> string list \<Rightarrow> string option" where
  "first_status obj [] = None"
| "first_status obj (k # ks) =
     (case map_of obj k of
        Some (JStr s) \<Rightarrow> if s \<noteq> [] then Some s else first_status obj ks
      | _ \<Rightarrow> first_status obj ks)"

definition flexible_thread_status :: "string \<Rightarrow> json \<Rightarrow> string" where
  "flexible_thread_status cur j =
     (case j of
        JNull \<Rightarrow> cur
      | JStr s \<Rightarrow> s
      | JObj ms \<Rightarrow>
          (case first_status (obj_map ms) [''status'', ''state'', ''kind'', ''value''] of
             Some s \<Rightarrow> s
           | None \<Rightarrow>
               if map_of (obj_map ms) ''activeFlags'' \<noteq> None then ThreadStatusActive
               else ThreadStatusActive)
      | _ \<Rightarrow> ThreadStatusActive)"

section \<open>Turns and threads\<close>

record turn =
  turn_id :: string
  turn_items :: "item list"
  turn_items_view :: string
  turn_status :: string
  turn_error :: raw
  turn_started_at :: "int option"
  turn_completed_at :: "int option"
  turn_duration_ms :: int
  turn_usage :: "goval option"
  turn_raw :: raw

definition turn_alias_t :: gotype where
  "turn_alias_t =
     TStruct [(''id'', True, TString), (''items'', True, TSlice (TNamed ''Item'')),
       (''itemsView'', True, TString), (''status'', True, TString), (''error'', True, TRaw),
       (''startedAt'', True, TPtr (TNamed ''flexibleTime'')),
       (''completedAt'', True, TPtr (TNamed ''flexibleTime'')),
       (''durationMs'', True, TInt 64), (''usage'', True, TPtr TokenUsage_t)]"

text \<open>
  The methods of items and of the flexible types, for the fields that have these types.  The client
  encodes no time, and the zone of a time is not part of the model: the text of a present time is left at null.
\<close>

definition time_of :: "goval \<Rightarrow> int" where
  "time_of v = (case v of VInt t \<Rightarrow> t | _ \<Rightarrow> zero_time)"

definition leaf_codecs :: "timelib \<Rightarrow> codecs" where
  "leaf_codecs lib n =
     (if n = ''Item'' then
        \<lparr>unmarshal = (\<lambda>cur j. map_option item_val (item_unmarshal (item_of cur) j)),
         marshal = (\<lambda>v. case item_marshal (item_of v) of Some j \<Rightarrow> j | None \<Rightarrow> JNull)\<rparr>
      else if n = ''flexibleTime'' then
        \<lparr>unmarshal = (\<lambda>cur j. map_option VInt (flexible_time lib (time_of cur) j)), marshal = (\<lambda>v. JNull)\<rparr>
      else if n = ''flexibleThreadStatus'' then
        \<lparr>unmarshal = (\<lambda>cur j. Some (VStr (flexible_thread_status (vstr cur) j))), marshal = (\<lambda>v. JStr (coerce_utf8 0 (vstr v)))\<rparr>
      else no_codecs n)"

definition times_of :: "goval \<Rightarrow> int option" where
  "times_of v = map_option time_of (vptr v)"

definition turn_unmarshal :: "timelib \<Rightarrow> json \<Rightarrow> turn option" where
  "turn_unmarshal lib j =
     (case json_unmarshal (leaf_codecs lib) turn_alias_t j of
        Some (VStruct [i, items, view, status, err, st, ct, dur, usage]) \<Rightarrow>
          Some \<lparr>turn_id = vstr i, turn_items = map item_of (vslice items), turn_items_view = vstr view,
            turn_status = vstr status, turn_error = vraw err, turn_started_at = times_of st,
            turn_completed_at = times_of ct, turn_duration_ms = vint dur, turn_usage = vptr usage,
            turn_raw = Some j\<rparr>
      | _ \<Rightarrow> None)"

definition times_val :: "int option \<Rightarrow> goval" where
  "times_val t = ptr_val (map_option VInt t)"

definition turn_val :: "turn \<Rightarrow> goval" where
  "turn_val t = VStruct [VStr (turn_id t), VSlice (map item_val (turn_items t)), VStr (turn_items_view t),
     VStr (turn_status t), raw_val (turn_error t), times_val (turn_started_at t),
     times_val (turn_completed_at t), VInt (turn_duration_ms t), ptr_val (turn_usage t), raw_val (turn_raw t)]"

definition zero_turn :: turn where
  "zero_turn = \<lparr>turn_id = [], turn_items = [], turn_items_view = [], turn_status = [], turn_error = None,
     turn_started_at = None, turn_completed_at = None, turn_duration_ms = 0, turn_usage = None, turn_raw = None\<rparr>"

definition turn_of :: "goval \<Rightarrow> turn" where
  "turn_of v = (case vfields v of
     [i, items, view, status, err, st, ct, dur, usage, r] \<Rightarrow>
       \<lparr>turn_id = vstr i, turn_items = map item_of (vslice items), turn_items_view = vstr view,
        turn_status = vstr status, turn_error = vraw err, turn_started_at = times_of st,
        turn_completed_at = times_of ct, turn_duration_ms = vint dur, turn_usage = vptr usage, turn_raw = vraw r\<rparr>
   | _ \<Rightarrow> zero_turn)"

lemma times_of_val [simp]: "times_of (times_val t) = t"
  by (cases t) (simp_all add: times_of_def times_val_def time_of_def ptr_val_def vptr_def)

lemma turn_of_val [simp]: "turn_of (turn_val t) = t"
  by (simp add: turn_of_def turn_val_def comp_def)

record thread =
  thread_id :: string
  thread_session_id :: string
  thread_parent_id :: string
  thread_forked_from :: string
  thread_preview :: string
  thread_ephemeral :: bool
  thread_model_provider :: string
  thread_created_at :: "int option"
  thread_updated_at :: "int option"
  thread_path :: string
  thread_cwd :: string
  thread_status :: string
  thread_name :: string
  thread_turns :: "turn list"
  thread_raw :: raw

definition thread_alias_t :: gotype where
  "thread_alias_t =
     TStruct [(''id'', True, TString), (''sessionId'', True, TString),
       (''parentThreadId'', True, TString), (''forkedFromId'', True, TString),
       (''preview'', True, TString), (''ephemeral'', True, TBool), (''modelProvider'', True, TString),
       (''createdAt'', True, TPtr (TNamed ''flexibleTime'')),
       (''updatedAt'', True, TPtr (TNamed ''flexibleTime'')),
       (''path'', True, TString), (''cwd'', True, TString),
       (''status'', True, TNamed ''flexibleThreadStatus''), (''name'', True, TString),
       (''turns'', True, TSlice (TNamed ''Turn'')), (''rollout'', True, TSlice (TNamed ''Turn''))]"

text \<open>
  A turn and a thread have no \<^verbatim>\<open>MarshalJSON\<close>: they are encoded by their tags, which are those of the struct they are
  decoded into, but for the rollout; the document they came from is not encoded.
\<close>

definition turn_marshal :: "timelib \<Rightarrow> turn \<Rightarrow> json" where
  "turn_marshal lib t = goenc (leaf_codecs lib) turn_alias_t
     (VStruct [VStr (turn_id t), VSlice (map item_val (turn_items t)), VStr (turn_items_view t),
        VStr (turn_status t), raw_val (turn_error t), times_val (turn_started_at t),
        times_val (turn_completed_at t), VInt (turn_duration_ms t), ptr_val (turn_usage t)])"

definition turn_codecs :: "timelib \<Rightarrow> codecs" where
  "turn_codecs lib n =
     (if n = ''Turn'' then
        \<lparr>unmarshal = (\<lambda>cur j. map_option turn_val (turn_unmarshal lib j)), marshal = (\<lambda>v. turn_marshal lib (turn_of v))\<rparr>
      else leaf_codecs lib n)"

definition thread_unmarshal :: "timelib \<Rightarrow> json \<Rightarrow> thread option" where
  "thread_unmarshal lib j =
     (case json_unmarshal (turn_codecs lib) thread_alias_t j of
        Some (VStruct [i, sess, par, fork, prev, eph, prov, ct, ut, path, cwd, status, name, turns, rollout]) \<Rightarrow>
          Some \<lparr>thread_id = vstr i, thread_session_id = vstr sess, thread_parent_id = vstr par,
            thread_forked_from = vstr fork, thread_preview = vstr prev, thread_ephemeral = vbool eph,
            thread_model_provider = vstr prov, thread_created_at = times_of ct, thread_updated_at = times_of ut,
            thread_path = vstr path, thread_cwd = vstr cwd, thread_status = vstr status, thread_name = vstr name,
            thread_turns = map turn_of
              (if vslice turns = [] \<and> vslice rollout \<noteq> [] then vslice rollout else vslice turns),
            thread_raw = Some j\<rparr>
      | _ \<Rightarrow> None)"

definition thread_val :: "thread \<Rightarrow> goval" where
  "thread_val t = VStruct [VStr (thread_id t), VStr (thread_session_id t), VStr (thread_parent_id t),
     VStr (thread_forked_from t), VStr (thread_preview t), VBool (thread_ephemeral t),
     VStr (thread_model_provider t), times_val (thread_created_at t), times_val (thread_updated_at t),
     VStr (thread_path t), VStr (thread_cwd t), VStr (thread_status t), VStr (thread_name t),
     VSlice (map turn_val (thread_turns t)), raw_val (thread_raw t)]"

definition zero_thread :: thread where
  "zero_thread = \<lparr>thread_id = [], thread_session_id = [], thread_parent_id = [], thread_forked_from = [],
     thread_preview = [], thread_ephemeral = False, thread_model_provider = [], thread_created_at = None,
     thread_updated_at = None, thread_path = [], thread_cwd = [], thread_status = [], thread_name = [],
     thread_turns = [], thread_raw = None\<rparr>"

definition thread_of :: "goval \<Rightarrow> thread" where
  "thread_of v = (case vfields v of
     [i, sess, par, fork, prev, eph, prov, ct, ut, path, cwd, status, name, turns, r] \<Rightarrow>
       \<lparr>thread_id = vstr i, thread_session_id = vstr sess, thread_parent_id = vstr par,
        thread_forked_from = vstr fork, thread_preview = vstr prev, thread_ephemeral = vbool eph,
        thread_model_provider = vstr prov, thread_created_at = times_of ct, thread_updated_at = times_of ut,
        thread_path = vstr path, thread_cwd = vstr cwd, thread_status = vstr status, thread_name = vstr name,
        thread_turns = map turn_of (vslice turns), thread_raw = vraw r\<rparr>
   | _ \<Rightarrow> zero_thread)"

lemma thread_of_val [simp]: "thread_of (thread_val t) = t"
  by (simp add: thread_of_def thread_val_def comp_def)

lemma zero_turn_of [simp]: "turn_of VNil = zero_turn"
  by (simp add: turn_of_def vfields_def)

lemma zero_thread_of [simp]: "thread_of VNil = zero_thread"
  by (simp add: thread_of_def vfields_def)

definition thread_marshal :: "timelib \<Rightarrow> thread \<Rightarrow> json" where
  "thread_marshal lib t = goenc (turn_codecs lib) thread_alias_t
     (VStruct [VStr (thread_id t), VStr (thread_session_id t), VStr (thread_parent_id t),
        VStr (thread_forked_from t), VStr (thread_preview t), VBool (thread_ephemeral t),
        VStr (thread_model_provider t), times_val (thread_created_at t), times_val (thread_updated_at t),
        VStr (thread_path t), VStr (thread_cwd t), VStr (thread_status t), VStr (thread_name t),
        VSlice (map turn_val (thread_turns t)), VSlice []])"

definition protocol_codecs :: "timelib \<Rightarrow> codecs" where
  "protocol_codecs lib n =
     (if n = ''Thread'' then
        \<lparr>unmarshal = (\<lambda>cur j. map_option thread_val (thread_unmarshal lib j)), marshal = (\<lambda>v. thread_marshal lib (thread_of v))\<rparr>
      else turn_codecs lib n)"

section \<open>Requests with their own encoder\<close>

text \<open>
  A prompt is a string on the client's side and an array of parts on the wire.  A prompt that
  begins like an array is taken for a pre-encoded one: the encoder then validates it, so the
  result is optional.
\<close>

definition text_part :: "string \<Rightarrow> json" where
  "text_part s = JObj [(''text'', JStr (coerce_utf8 0 s)), (''type'', JStr ''text'')]"

definition wire_input :: "string \<Rightarrow> json option" where
  "wire_input s =
     (if has_prefix ''['' (trim_space s) then json_parse s
      else if s \<noteq> [] then Some (JArr [text_part s])
      else Some (JArr []))"

definition TurnSteerRequest_wire_t :: gotype where
  "TurnSteerRequest_wire_t =
     TStruct [(''threadId'', False, TString), (''turnId'', False, TString), (''input'', False, TAny)]"

record turn_steer_request =
  steer_thread_id :: string
  steer_turn_id :: string
  steer_input :: string

definition turn_steer_marshal :: "turn_steer_request \<Rightarrow> json option" where
  "turn_steer_marshal r =
     (case wire_input (steer_input r) of
        None \<Rightarrow> None
      | Some input \<Rightarrow>
          Some (goenc no_codecs TurnSteerRequest_wire_t
            (VStruct [VStr (steer_thread_id r), VStr (steer_turn_id r), VRaw input])))"

record turn_start_request =
  start_thread_id :: string
  start_input :: string
  start_message_id :: string
  start_cwd :: string
  start_approval_policy :: string
  start_sandbox_policy :: string
  start_permissions :: "string list"
  start_model :: string
  start_service_tier :: string
  start_effort :: string
  start_summary :: string
  start_output_schema :: raw
  start_collaboration_mode :: string
  start_multi_agent_mode :: string
  start_environments :: "string list"
  start_skill :: string

definition turn_start_fields :: "gofield list" where
  "turn_start_fields =
      [(''threadId'', False, TString), (''input'', False, TAny),
       (''clientUserMessageId'', True, TString), (''cwd'', True, TString),
       (''approvalPolicy'', True, TString), (''sandboxPolicy'', True, TString),
       (''permissions'', True, TSlice TString), (''model'', True, TString),
       (''serviceTier'', True, TString), (''effort'', True, TString), (''summary'', True, TString),
       (''outputSchema'', True, TAny), (''collaborationMode'', True, TString),
       (''multiAgentMode'', True, TString), (''environments'', True, TSlice TString)]"

definition strs_val :: "string list \<Rightarrow> goval" where
  "strs_val ss = VSlice (map VStr ss)"

text \<open>
  The output schema is a raw message stored in an interface.  The interface is not nil even when
  the message is, so the field is never omitted, and a nil message is written as null.
\<close>

definition any_of_raw :: "raw \<Rightarrow> goval" where
  "any_of_raw r = VRaw (case r of None \<Rightarrow> JNull | Some j \<Rightarrow> j)"

definition turn_start_values :: "turn_start_request \<Rightarrow> json \<Rightarrow> goval list" where
  "turn_start_values r input =
     [VStr (start_thread_id r), VRaw input, VStr (start_message_id r), VStr (start_cwd r),
      VStr (start_approval_policy r), VStr (start_sandbox_policy r), strs_val (start_permissions r),
      VStr (start_model r), VStr (start_service_tier r), VStr (start_effort r), VStr (start_summary r),
      any_of_raw (start_output_schema r), VStr (start_collaboration_mode r),
      VStr (start_multi_agent_mode r), strs_val (start_environments r)]"

definition turn_start_marshal :: "turn_start_request \<Rightarrow> json option" where
  "turn_start_marshal r =
     (case wire_input (start_input r) of
        None \<Rightarrow> None
      | Some input \<Rightarrow>
          Some (goenc no_codecs (TStruct turn_start_fields) (VStruct (turn_start_values r input))))"

record thread_start_request =
  ts_model :: string
  ts_cwd :: string
  ts_approval_policy :: string
  ts_workspace_roots :: "string list"
  ts_environments :: "string list"
  ts_personality :: string
  ts_dynamic_tools :: "string list"
  ts_ephemeral :: bool
  ts_metadata :: raw

definition ThreadStartRequest_wire_t :: gotype where
  "ThreadStartRequest_wire_t =
     TStruct [(''model'', True, TString), (''cwd'', True, TString), (''approvalPolicy'', True, TString),
       (''runtimeWorkspaceRoots'', True, TSlice TString), (''environments'', True, TSlice TString),
       (''personality'', True, TString), (''dynamicTools'', True, TSlice TString),
       (''metadata'', True, TRaw)]"

definition thread_start_marshal :: "thread_start_request \<Rightarrow> json" where
  "thread_start_marshal r = goenc no_codecs ThreadStartRequest_wire_t
     (VStruct [VStr (ts_model r), VStr (ts_cwd r), VStr (ts_approval_policy r), strs_val (ts_workspace_roots r),
       strs_val (ts_environments r), VStr (ts_personality r), strs_val (ts_dynamic_tools r),
       raw_val (ts_metadata r)])"

section \<open>Requests from the server\<close>

text \<open>
  A value of an interface is its dynamic type and its value.  Decoding fails on empty parameters.
\<close>

type_synonym any_value = "string \<times> goval"

definition request_table :: "(string \<times> string \<times> gotype) list" where
  "request_table =
     [(MethodItemCommandExecutionRequestApproval,
         ''CommandExecutionApprovalRequest'', CommandExecutionApprovalRequest_t),
      (MethodItemFileChangeRequestApproval, ''FileChangeApprovalRequest'', FileChangeApprovalRequest_t),
      (MethodItemPermissionsRequestApproval, ''PermissionsApprovalRequest'', PermissionsApprovalRequest_t),
      (MethodItemToolRequestUserInput, ''UserInputRequest'', UserInputRequest_t),
      (MethodItemMCPRequestApproval, ''MCPToolCallApprovalRequest'', MCPToolCallApprovalRequest_t)]"

definition decode_server_request :: "string \<Rightarrow> raw \<Rightarrow> go_error + any_value" where
  "decode_server_request method params =
     (case map_of request_table method of
        None \<Rightarrow> Inl (ErrWrap [] ErrUnsupportedServerRequest ('': '' @ method))
      | Some (name, t) \<Rightarrow>
          (case params of
             None \<Rightarrow> Inl (ErrText ''unexpected end of JSON input'')
           | Some j \<Rightarrow>
               (case json_unmarshal no_codecs t j of
                  None \<Rightarrow> Inl (ErrText ''json: cannot unmarshal'')
                | Some v \<Rightarrow> Inr (name, v))))"

end
