(* ===== verification/ProtocolProps.thy ===== *)
theory ProtocolProps imports Protocol begin

text \<open>
  Items survive the wire in both directions, the flexible decoders are characterised on every shape
  of input, and the encoded requests are spelled out.
\<close>

section \<open>Maps of members\<close>

lemma map_of_obj_map: "map_of (obj_map ms) = map_of (rev ms)"
proof -
  have "map_of (fold (\<lambda>(k, v) kvs. put k v kvs) ms kvs) = map_of (rev ms @ kvs)" for kvs
    by (induction ms arbitrary: kvs) (auto simp: put_map_of map_add_def fun_eq_iff split: option.splits)
  from this [of "[]"] show ?thesis by (simp add: obj_map_def)
qed

lemma obj_map_get: "map_of (obj_map ms) k = map_get k ms"
  by (simp add: map_of_obj_map map_get_def)

lemma obj_map_sorted [simp]: "keys_sorted (obj_map ms)"
proof -
  have "keys_sorted kvs \<Longrightarrow> keys_sorted (fold (\<lambda>(k, v) kvs. put k v kvs) ms kvs)" for kvs
    by (induction ms arbitrary: kvs) auto
  from this [of "[]"] show ?thesis by (simp add: obj_map_def keys_sorted_def)
qed

lemma keys_sorted_distinct: "keys_sorted kvs \<Longrightarrow> distinct (map fst kvs)"
  by (simp add: keys_sorted_def strict_sorted_iff)

lemma keys_sorted_eq:
  assumes "keys_sorted a" and "keys_sorted b" and "map_of a = map_of b"
  shows "a = b"
proof -
  note d = keys_sorted_distinct [OF assms(1)] keys_sorted_distinct [OF assms(2)]
  with assms(3) have s: "set a = set b" by (simp add: map_of_inject_set)
  have "sorted (map fst a)" "sorted (map fst b)"
    using assms(1,2) by (simp_all add: keys_sorted_def strict_sorted_iff)
  moreover have "inj_on fst (set a \<union> set b)" using d s by (simp add: distinct_map)
  ultimately show ?thesis using d s by (intro map_sorted_distinct_set_unique) auto
qed

lemma map_of_rev: "distinct (map fst kvs) \<Longrightarrow> map_of (rev kvs) = map_of kvs"
  by (subst map_of_inject_set) (simp_all add: rev_map [symmetric])

lemma obj_map_id: "keys_sorted kvs \<Longrightarrow> obj_map kvs = kvs"
  by (rule keys_sorted_eq) (simp_all add: map_of_obj_map map_of_rev keys_sorted_distinct)

lemma map_of_del: "map_of (del k kvs) = (map_of kvs)(k := None)"
  by (induction kvs) (auto simp: del_def fun_eq_iff)

lemma del_sorted [simp]: "keys_sorted kvs \<Longrightarrow> keys_sorted (del k kvs)"
  by (simp add: keys_sorted_def del_def sorted_wrt_map sorted_wrt_filter)

lemma map_of_no_key: "k \<notin> fst ` set kvs \<Longrightarrow> map_of kvs k = None"
  by (simp add: map_of_eq_None_iff)

section \<open>Items\<close>

definition item_ok :: "item \<Rightarrow> bool" where
  "item_ok i \<longleftrightarrow> valid_utf8 (item_id i) \<and> valid_utf8 (item_kind i) \<and>
     (case item_payload i of
        None \<Rightarrow> True
      | Some (JObj kvs) \<Rightarrow> kvs \<noteq> [] \<and> keys_sorted kvs \<and> ''id'' \<notin> fst ` set kvs \<and> ''type'' \<notin> fst ` set kvs
      | Some _ \<Rightarrow> False)"

definition fresh_item :: item where
  "fresh_item = \<lparr>item_id = [], item_kind = [], item_payload = None\<rparr>"

definition payload_members :: "raw \<Rightarrow> (string \<times> json) list" where
  "payload_members p = (case p of Some (JObj kvs) \<Rightarrow> kvs | _ \<Rightarrow> [])"

definition payload_of :: "(string \<times> json) list \<Rightarrow> raw" where
  "payload_of kvs = (if kvs = [] then None else Some (JObj kvs))"

lemma item_ok_payload:
  assumes "item_ok i"
  shows "(case item_payload i of None \<Rightarrow> Some [] | Some p \<Rightarrow> members_of p) = Some (payload_members (item_payload i))"
    and "keys_sorted (payload_members (item_payload i))"
    and "''id'' \<notin> fst ` set (payload_members (item_payload i))"
    and "''type'' \<notin> fst ` set (payload_members (item_payload i))"
    and "payload_of (payload_members (item_payload i)) = item_payload i"
  using assms
  by (auto simp: item_ok_def payload_members_def payload_of_def members_of_def obj_map_id keys_sorted_def
      split: option.splits json.splits)

lemma obj_split:
  assumes "keys_sorted kvs" and "''id'' \<notin> fst ` set kvs" and "''type'' \<notin> fst ` set kvs"
  shows "del ''type'' (del ''id'' (put ''type'' t (if P then put ''id'' d kvs else kvs))) = kvs"
  by (rule keys_sorted_eq) (use assms in \<open>auto simp: map_of_del put_map_of map_of_no_key fun_eq_iff\<close>)

lemma item_unmarshal_obj:
  assumes "members_of j = Some obj" and "map_of obj ''type'' = Some (JStr k)"
    and "map_of obj ''id'' = (if i = [] then None else Some (JStr i))"
  shows "item_unmarshal fresh_item j
    = Some \<lparr>item_id = i, item_kind = k, item_payload = payload_of (del ''type'' (del ''id'' obj))\<rparr>"
  using assms by (auto simp: item_unmarshal_def fresh_item_def read_str_def payload_of_def Let_def)

text \<open>The object of an encoded item.\<close>

definition item_object :: "item \<Rightarrow> (string \<times> json) list" where
  "item_object i =
     (let p = payload_members (item_payload i) in
      put ''type'' (JStr (item_kind i)) (if item_id i \<noteq> [] then put ''id'' (JStr (item_id i)) p else p))"

lemma item_marshal_object: "item_ok i \<Longrightarrow> item_marshal i = Some (JObj (item_object i))"
  using item_ok_payload(1) [of i] by (simp add: item_marshal_def item_object_def item_ok_def valid_utf8_def Let_def)

lemma item_unmarshal_object:
  assumes "item_ok i"
  shows "item_unmarshal fresh_item (JObj (item_object i)) = Some i"
proof -
  note p = item_ok_payload [OF assms]
  have "keys_sorted (item_object i)" using p(2) by (simp add: item_object_def Let_def)
  then have "members_of (JObj (item_object i)) = Some (item_object i)" by (simp add: members_of_def obj_map_id)
  then have "item_unmarshal fresh_item (JObj (item_object i))
      = Some \<lparr>item_id = item_id i, item_kind = item_kind i, item_payload = payload_of (del ''type'' (del ''id'' (item_object i)))\<rparr>"
    by (rule item_unmarshal_obj) (use p in \<open>auto simp: item_object_def Let_def put_map_of map_of_no_key\<close>)
  then show ?thesis by (simp add: item_object_def Let_def obj_split [OF p(2-4)] p(5))
qed

text \<open>
  C23. An item that is encoded is decoded to itself: the id, the kind and the payload are recovered from
  the one object they share.
\<close>

theorem item_round_trip:
  assumes "item_ok i"
  shows "\<exists>j. item_marshal i = Some j \<and> item_unmarshal fresh_item j = Some i"
  using item_marshal_object [OF assms] item_unmarshal_object [OF assms] by blast

theorem item_round_trip_witness:
  "\<exists>j. item_marshal (new_item ItemKindAgentMessage (Some (JObj [(''text'', JStr ''hi'')]))) = Some j \<and>
     item_unmarshal fresh_item j = Some (new_item ItemKindAgentMessage (Some (JObj [(''text'', JStr ''hi'')])))"
  by (rule item_round_trip) (simp add: item_ok_def new_item_def valid_utf8_ascii code_def keys_sorted_def)

text \<open>
  A turn without times that was encoded is decoded to itself, beside the document it now came from; so the
  values of events with a present turn that the round trip of the wire types is about exist.
\<close>

lemma item_named:
  assumes "item_ok i"
  shows "wt (leaf_codecs lib) (TNamed ''Item'') (item_val i)"
proof -
  have "item_of VNil = fresh_item" by (simp add: item_of_def vfields_def fresh_item_def)
  with item_marshal_object [OF assms] item_unmarshal_object [OF assms] show ?thesis by (simp add: leaf_codecs_def)
qed

lemma items_named: "list_all item_ok its \<Longrightarrow> wt_elems (leaf_codecs lib) (TNamed ''Item'') (map item_val its)"
  by (induction its) (simp_all add: item_named del: wt.simps(1))

definition turn_plain :: "codecs \<Rightarrow> turn \<Rightarrow> bool" where
  "turn_plain env t \<longleftrightarrow>
     list_all item_ok (turn_items t) \<and> valid_utf8 (turn_id t) \<and> valid_utf8 (turn_items_view t) \<and> valid_utf8 (turn_status t) \<and>
     turn_started_at t = None \<and> turn_completed_at t = None \<and> int_fits 64 (turn_duration_ms t) \<and>
     (case turn_usage t of None \<Rightarrow> True | Some u \<Rightarrow> wt env TokenUsage_t u)"

lemma turn_alias_ok: "type_ok turn_alias_t"
  by code_simp

lemma turn_recovered:
  assumes "turn_plain (leaf_codecs lib) t"
  shows "turn_unmarshal lib (turn_marshal lib t) = Some (t\<lparr>turn_raw := Some (turn_marshal lib t)\<rparr>)"
proof -
  let ?v = "VStruct [VStr (turn_id t), if turn_items t = [] then VNil else VSlice (map item_val (turn_items t)),
     VStr (turn_items_view t), VStr (turn_status t), raw_val (turn_error t), VNil, VNil, VInt (turn_duration_ms t),
     ptr_val (turn_usage t)]"
  have plain: "wt_elems (leaf_codecs lib) (TNamed ''Item'') (map item_val (turn_items t))"
    "valid_utf8 (turn_id t)" "valid_utf8 (turn_items_view t)" "valid_utf8 (turn_status t)"
    "turn_started_at t = None" "turn_completed_at t = None" "int_fits 64 (turn_duration_ms t)"
    using assms items_named by (simp_all add: turn_plain_def)
  have usage: "wt (leaf_codecs lib) TokenUsage_t u" "goenc (leaf_codecs lib) TokenUsage_t u \<noteq> JNull" if "turn_usage t = Some u" for u
  proof -
    from assms that show w: "wt (leaf_codecs lib) TokenUsage_t u" by (simp add: turn_plain_def)
    then obtain vs where "u = VStruct vs" by (cases u) (simp_all add: TokenUsage_t_def)
    then show "goenc (leaf_codecs lib) TokenUsage_t u \<noteq> JNull" by (simp add: TokenUsage_t_def)
  qed
  have "wt (leaf_codecs lib) turn_alias_t ?v"
    unfolding turn_alias_t_def
    by (cases "turn_error t"; cases "turn_usage t"; cases "turn_items t = []")
      (simp_all add: plain usage raw_val_def ptr_val_def del: wt.simps(1))
  moreover have "goenc (leaf_codecs lib) turn_alias_t ?v = turn_marshal lib t"
    unfolding turn_alias_t_def turn_marshal_def
    by (cases "turn_items t = []") (simp_all add: plain times_val_def ptr_val_def)
  ultimately have "json_unmarshal (leaf_codecs lib) turn_alias_t (turn_marshal lib t) = Some ?v"
    using unmarshal_marshal [OF turn_alias_ok] by metis
  moreover have "times_of VNil = None" by (simp add: times_of_def vptr_def)
  ultimately show ?thesis
    by (cases "turn_items t = []")
      (simp_all add: turn_unmarshal_def vslice_def comp_def, simp_all add: turn.equality plain)
qed

definition own_document :: "timelib \<Rightarrow> turn \<Rightarrow> bool" where
  "own_document lib t \<longleftrightarrow> turn_plain (leaf_codecs lib) t \<and> turn_raw t = Some (turn_marshal lib t)"

lemma turn_named:
  assumes "own_document lib t"
  shows "wt (turn_codecs lib) (TNamed ''Turn'') (turn_val t)" and "wt (protocol_codecs lib) (TNamed ''Turn'') (turn_val t)"
proof -
  have "turn_unmarshal lib (turn_marshal lib t) = Some t"
    using turn_recovered [of lib t] assms by (simp add: own_document_def turn.equality)
  then show "wt (turn_codecs lib) (TNamed ''Turn'') (turn_val t)" "wt (protocol_codecs lib) (TNamed ''Turn'') (turn_val t)"
    by (simp_all add: protocol_codecs_def turn_codecs_def)
qed

lemma turns_named: "list_all (own_document lib) ts \<Longrightarrow> wt_elems (turn_codecs lib) (TNamed ''Turn'') (map turn_val ts)"
  by (induction ts) (simp_all add: turn_named del: wt.simps(1))

text \<open>The same for a thread.\<close>

definition thread_plain :: "timelib \<Rightarrow> thread \<Rightarrow> bool" where
  "thread_plain lib t \<longleftrightarrow>
     list_all valid_utf8 [thread_id t, thread_session_id t, thread_parent_id t, thread_forked_from t, thread_preview t,
       thread_model_provider t, thread_path t, thread_cwd t, thread_status t, thread_name t] \<and>
     thread_created_at t = None \<and> thread_updated_at t = None \<and> list_all (own_document lib) (thread_turns t)"

lemma thread_alias_ok: "type_ok thread_alias_t"
  by code_simp

lemma thread_recovered:
  assumes "thread_plain lib t"
  shows "thread_unmarshal lib (thread_marshal lib t) = Some (t\<lparr>thread_raw := Some (thread_marshal lib t)\<rparr>)"
proof -
  let ?v = "VStruct [VStr (thread_id t), VStr (thread_session_id t), VStr (thread_parent_id t),
     VStr (thread_forked_from t), VStr (thread_preview t), VBool (thread_ephemeral t),
     VStr (thread_model_provider t), VNil, VNil, VStr (thread_path t), VStr (thread_cwd t),
     if thread_status t = [] then VNil else VStr (thread_status t), VStr (thread_name t),
     if thread_turns t = [] then VNil else VSlice (map turn_val (thread_turns t)), VNil]"
  have plain: "wt_elems (turn_codecs lib) (TNamed ''Turn'') (map turn_val (thread_turns t))"
    "valid_utf8 (thread_id t)" "valid_utf8 (thread_session_id t)" "valid_utf8 (thread_parent_id t)"
    "valid_utf8 (thread_forked_from t)" "valid_utf8 (thread_preview t)" "valid_utf8 (thread_model_provider t)"
    "valid_utf8 (thread_path t)" "valid_utf8 (thread_cwd t)" "valid_utf8 (thread_status t)" "valid_utf8 (thread_name t)"
    "thread_created_at t = None" "thread_updated_at t = None"
    using assms turns_named by (simp_all add: thread_plain_def)
  have status: "wt (turn_codecs lib) (TNamed ''flexibleThreadStatus'') (VStr (thread_status t))"
    using plain(10) by (simp add: turn_codecs_def leaf_codecs_def flexible_thread_status_def valid_utf8_def)
  have "wt (turn_codecs lib) thread_alias_t ?v"
    unfolding thread_alias_t_def
    by (cases "thread_status t = []"; cases "thread_turns t = []") (simp_all add: plain status del: wt.simps(1))
  moreover have "goenc (turn_codecs lib) thread_alias_t ?v = thread_marshal lib t"
    unfolding thread_alias_t_def thread_marshal_def
    by (cases "thread_status t = []"; cases "thread_turns t = []") (simp_all add: plain times_val_def ptr_val_def)
  ultimately have "json_unmarshal (turn_codecs lib) thread_alias_t (thread_marshal lib t) = Some ?v"
    using unmarshal_marshal [OF thread_alias_ok] by metis
  moreover have "times_of VNil = None" by (simp add: times_of_def vptr_def)
  ultimately show ?thesis
    by (cases "thread_status t = []"; cases "thread_turns t = []")
      (simp_all add: thread_unmarshal_def vslice_def comp_def vstr_def [of VNil], simp_all add: thread.equality plain)
qed

text \<open>
  C24. Nothing of an item from the server is lost: whatever members its object has, known or not,
  encoding the decoded item gives the same object, its members in key order and the last of those
  with one key kept.
\<close>

theorem item_lossless:
  assumes "map_get ''type'' ms = Some (JStr k)" and "valid_utf8 k"
    and "map_get ''id'' ms = (if i = [] then None else Some (JStr i))" and "valid_utf8 i"
  shows "\<exists>it. item_unmarshal fresh_item (JObj ms) = Some it \<and> item_kind it = k \<and> item_id it = i \<and>
    item_marshal it = Some (JObj (obj_map ms))"
proof -
  let ?rest = "del ''type'' (del ''id'' (obj_map ms))"
  let ?it = "\<lparr>item_id = i, item_kind = k, item_payload = payload_of ?rest\<rparr>"
  have u: "item_unmarshal fresh_item (JObj ms) = Some ?it"
    by (rule item_unmarshal_obj) (simp_all add: members_of_def obj_map_get assms)
  have r: "(case payload_of ?rest of None \<Rightarrow> Some [] | Some p \<Rightarrow> members_of p) = Some ?rest"
    by (auto simp: payload_of_def members_of_def obj_map_id)
  have "put ''type'' (JStr k) (if i \<noteq> [] then put ''id'' (JStr i) ?rest else ?rest) = obj_map ms"
    by (rule keys_sorted_eq) (use assms in \<open>auto simp: put_map_of map_of_del obj_map_get fun_eq_iff\<close>)
  then have "item_marshal ?it = Some (JObj (obj_map ms))"
    using assms(2,4) by (cases "i = []") (simp_all add: item_marshal_def r valid_utf8_def Let_def)
  with u show ?thesis by simp
qed

theorem item_lossless_witness:
  "\<exists>it. item_unmarshal fresh_item (JObj [(''type'', JStr ''plan''), (''new'', JNull), (''id'', JStr ''i1'')]) = Some it \<and>
     item_kind it = ''plan'' \<and> item_id it = ''i1'' \<and>
     item_marshal it = Some (JObj (obj_map [(''type'', JStr ''plan''), (''new'', JNull), (''id'', JStr ''i1'')]))"
  by (rule item_lossless) (simp_all add: map_get_def valid_utf8_ascii code_def)

section \<open>Requests from the server\<close>

lemma request_table_types: "(m, n, t) \<in> set request_table \<Longrightarrow> t \<in> set wire_types"
  by (auto simp: request_table_def wire_types_def protocol_types_def)

lemma request_table_distinct: "distinct (map fst request_table)"
  by (simp add: request_table_def)

lemma decode_server_request_row:
  assumes "(m, n, t) \<in> set request_table"
  shows "decode_server_request m params =
     (case params of
        None \<Rightarrow> Inl (ErrText ''unexpected end of JSON input'')
      | Some j \<Rightarrow> (case json_unmarshal no_codecs t j of
                     None \<Rightarrow> Inl (ErrText ''json: cannot unmarshal'') | Some v \<Rightarrow> Inr (n, v)))"
  using map_of_is_SomeI [OF request_table_distinct assms] by (simp add: decode_server_request_def)

text \<open>
  What it is for a method to carry parameters of a type: each value of the type, encoded, comes back as that
  type, and parameters that are absent or of another shape are an error, though not an unsupported method.
\<close>

definition carries :: "string \<Rightarrow> string \<Rightarrow> gotype \<Rightarrow> bool" where
  "carries m n t \<longleftrightarrow>
     (\<forall>v. wt no_codecs t v \<longrightarrow> decode_server_request m (Some (goenc no_codecs t v)) = Inr (n, v)) \<and>
     (\<forall>params. params = None \<or> (\<exists>j. params = Some j \<and> json_unmarshal no_codecs t j = None) \<longrightarrow>
        (\<exists>e. decode_server_request m params = Inl e \<and> \<not> error_is e ErrUnsupportedServerRequest))"

lemma carries_row:
  assumes "(m, n, t) \<in> set request_table"
  shows "carries m n t"
  using unmarshal_marshal [OF wire_types_ok [OF request_table_types [OF assms]]]
  by (auto simp: carries_def decode_server_request_row [OF assms])

text \<open>
  C26. The five requests a server may send, each by the name it has on the wire and with the struct of its
  parameters: an encoded value comes back as that struct, absent or malformed parameters are an error of
  their own, and every other method, and only those, is unsupported.
\<close>

theorem server_request_decoding:
  "carries ''item/commandExecution/requestApproval'' ''CommandExecutionApprovalRequest'' CommandExecutionApprovalRequest_t \<and>
   carries ''item/fileChange/requestApproval'' ''FileChangeApprovalRequest'' FileChangeApprovalRequest_t \<and>
   carries ''item/permissions/requestApproval'' ''PermissionsApprovalRequest'' PermissionsApprovalRequest_t \<and>
   carries ''item/tool/requestUserInput'' ''UserInputRequest'' UserInputRequest_t \<and>
   carries ''item/mcp/requestApproval'' ''MCPToolCallApprovalRequest'' MCPToolCallApprovalRequest_t \<and>
   ((\<exists>e. decode_server_request m p = Inl e \<and> error_is e ErrUnsupportedServerRequest) \<longleftrightarrow>
      m \<notin> {''item/commandExecution/requestApproval'', ''item/fileChange/requestApproval'',
            ''item/permissions/requestApproval'', ''item/tool/requestUserInput'', ''item/mcp/requestApproval''})"
proof -
  have methods: "fst ` set request_table = {''item/commandExecution/requestApproval'', ''item/fileChange/requestApproval'',
      ''item/permissions/requestApproval'', ''item/tool/requestUserInput'', ''item/mcp/requestApproval''}"
    by (simp add: request_table_def)
  have "(\<exists>e. decode_server_request m p = Inl e \<and> error_is e ErrUnsupportedServerRequest) \<longleftrightarrow> m \<notin> fst ` set request_table"
  proof (cases "map_of request_table m")
    case None
    then have "m \<notin> fst ` set request_table" by (simp add: map_of_eq_None_iff)
    with None show ?thesis by (simp add: decode_server_request_def)
  next
    case (Some nt)
    then have "m \<in> fst ` set request_table" by (force dest: map_of_SomeD)
    with Some show ?thesis by (cases nt) (auto simp: decode_server_request_def split: option.splits)
  qed
  then show ?thesis unfolding methods by (intro conjI carries_row) (simp_all add: request_table_def)
qed

theorem server_request_decoding_witness:
  "decode_server_request ''item/mcp/requestApproval''
     (Some (goenc no_codecs MCPToolCallApprovalRequest_t (VStruct [VStr ''run'', VStr [], VNil, VStr ''t'', VStr []])))
   = Inr (''MCPToolCallApprovalRequest'', VStruct [VStr ''run'', VStr [], VNil, VStr ''t'', VStr []])"
proof -
  have "wt no_codecs MCPToolCallApprovalRequest_t (VStruct [VStr ''run'', VStr [], VNil, VStr ''t'', VStr []])"
    by (simp add: MCPToolCallApprovalRequest_t_def valid_utf8_ascii code_def)
  with server_request_decoding [of "''x''" None] show ?thesis unfolding carries_def by blast
qed

section \<open>Encoded requests\<close>

lemma map_get_Cons: "map_get k ((k', v) # ms) = (case map_get k ms of Some x \<Rightarrow> Some x | None \<Rightarrow> if k = k' then Some v else None)"
  by (auto simp: map_get_def map_add_def split: option.splits)

lemma map_get_Nil [simp]: "map_get k [] = None"
  by (simp add: map_get_def)

text \<open>A field that is written under its own name, in the place of a struct with distinct names.\<close>

lemma enc_fields_absent:
  "k \<notin> set (map field_name fs) \<Longrightarrow> map_get k (enc_fields env fs vs) = None"
proof (induction fs arbitrary: vs)
  case (Cons f fs)
  then show ?case by (cases vs) (auto simp: map_get_Cons)
qed simp

lemma enc_fields_get:
  assumes "distinct (map field_name fs)" and "length vs = length fs" and "i < length fs"
  shows "map_get (field_name (fs ! i)) (enc_fields env fs vs)
    = (if omit_empty (fs ! i) \<and> is_empty (vs ! i) then None else Some (goenc env (field_type (fs ! i)) (vs ! i)))"
  using assms
proof (induction fs arbitrary: vs i)
  case (Cons f fs)
  then obtain v vs' where vs: "vs = v # vs'" by (cases vs) auto
  show ?case
  proof (cases i)
    case 0
    with Cons.prems vs show ?thesis by (auto simp: map_get_Cons enc_fields_absent)
  next
    case (Suc j)
    with Cons.prems vs have j: "j < length fs" by auto
    have "field_name (fs ! j) \<noteq> field_name f"
    proof
      assume "field_name (fs ! j) = field_name f"
      moreover from j have "field_name (fs ! j) \<in> field_name ` set fs" by simp
      ultimately show False using Cons.prems(1) by simp
    qed
    with Cons.IH [of vs' j] Cons.prems Suc vs show ?thesis by (auto simp: map_get_Cons)
  qed
qed simp

lemma turn_start_names:
  "map field_name turn_start_fields = [''threadId'', ''input'', ''clientUserMessageId'', ''cwd'', ''approvalPolicy'',
     ''sandboxPolicy'', ''permissions'', ''model'', ''serviceTier'', ''effort'', ''summary'', ''outputSchema'',
     ''collaborationMode'', ''multiAgentMode'', ''environments'']"
  by (simp add: turn_start_fields_def)

lemma turn_start_distinct: "distinct (map field_name turn_start_fields)"
  by (simp add: turn_start_names)

lemma turn_start_length: "length (turn_start_values r input) = length turn_start_fields"
  by (simp add: turn_start_values_def turn_start_fields_def)

lemmas turn_start_get = enc_fields_get [OF turn_start_distinct turn_start_length]

text \<open>
  A turn request is encoded unless its prompt begins like an array and is not JSON.  Its object
  carries the thread and the input in every case, the model when there is one, a null output
  schema when there is none, and never a skill.
\<close>

theorem turn_start_encoding:
  "(turn_start_marshal r = None \<longleftrightarrow>
      has_prefix ''['' (trim_space (start_input r)) \<and> json_parse (start_input r) = None) \<and>
   (\<forall>j. turn_start_marshal r = Some j \<longrightarrow>
      (\<exists>ms. j = JObj ms \<and>
        map_get ''threadId'' ms = Some (JStr (coerce_utf8 0 (start_thread_id r))) \<and>
        map_get ''input'' ms = wire_input (start_input r) \<and>
        map_get ''model'' ms = (if start_model r = [] then None else Some (JStr (coerce_utf8 0 (start_model r)))) \<and>
        map_get ''outputSchema'' ms
          = Some (case start_output_schema r of None \<Rightarrow> JNull | Some s \<Rightarrow> s) \<and>
        map_get ''skill'' ms = None))"
proof (cases "wire_input (start_input r)")
  case None
  then show ?thesis by (auto simp: turn_start_marshal_def wire_input_def split: if_splits)
next
  case (Some input)
  let ?ms = "enc_fields no_codecs turn_start_fields (turn_start_values r input)"
  have m: "turn_start_marshal r = Some (JObj ?ms)" by (simp add: turn_start_marshal_def Some)
  have g: "map_get ''threadId'' ?ms = Some (JStr (coerce_utf8 0 (start_thread_id r)))"
    "map_get ''input'' ?ms = Some input"
    "map_get ''model'' ?ms = (if start_model r = [] then None else Some (JStr (coerce_utf8 0 (start_model r))))"
    "map_get ''outputSchema'' ?ms = Some (case start_output_schema r of None \<Rightarrow> JNull | Some s \<Rightarrow> s)"
    using turn_start_get [where i = 0 and r = r and input = input and env = no_codecs] turn_start_get [where i = 1 and r = r and input = input and env = no_codecs]
      turn_start_get [where i = 7 and r = r and input = input and env = no_codecs] turn_start_get [where i = 11 and r = r and input = input and env = no_codecs]
    by (simp_all add: turn_start_fields_def turn_start_values_def any_of_raw_def)
  have "map_get ''skill'' ?ms = None" by (rule enc_fields_absent) (simp add: turn_start_names)
  with m g Some show ?thesis by (auto simp: wire_input_def)
qed

theorem turn_start_encoding_witness:
  "\<exists>ms. turn_start_marshal \<lparr>start_thread_id = ''t1'', start_input = ''hi'', start_message_id = [], start_cwd = [],
      start_approval_policy = [], start_sandbox_policy = [], start_permissions = [], start_model = ''m'',
      start_service_tier = [], start_effort = [], start_summary = [], start_output_schema = None,
      start_collaboration_mode = [], start_multi_agent_mode = [], start_environments = [], start_skill = ''s''\<rparr>
      = Some (JObj ms) \<and>
    map_get ''input'' ms = Some (JArr [text_part ''hi'']) \<and> map_get ''outputSchema'' ms = Some JNull \<and>
    map_get ''skill'' ms = None" (is "\<exists>ms. turn_start_marshal ?r = _ \<and> _")
proof -
  have w: "wire_input ''hi'' = Some (JArr [text_part ''hi''])" by code_simp
  then have "turn_start_marshal ?r \<noteq> None" by (simp add: turn_start_marshal_def)
  then obtain j where "turn_start_marshal ?r = Some j" by blast
  with turn_start_encoding [of ?r] w show ?thesis by auto
qed

text \<open>
  Two prompts a user can type are not sent as text: one that begins with a bracketed word cannot be
  encoded at all, and one that reads as a JSON array is sent as an array of parts.
\<close>

lemma bracket_prompts:
  "wire_input ''[TODO] tidy up'' = None" and "wire_input ''[1, 2]'' = Some (JArr [JNum ''1'', JNum ''2''])"
  by code_simp+

text \<open>
  The ephemeral flag of a thread request never reaches the wire: requests that differ in it alone are
  encoded alike.
\<close>

lemma ephemeral_dropped:
  "thread_start_marshal (r\<lparr>ts_ephemeral := b\<rparr>) = thread_start_marshal r"
  by (simp add: thread_start_marshal_def)

end
