(* ===== verification/Events.thy ===== *)
theory Events imports Protocol begin

text \<open>
  From notifications to typed events (\<^verbatim>\<open>events.go\<close>, \<^verbatim>\<open>events_extra.go\<close>) and the events that belong to a
  turn (\<^verbatim>\<open>wait.go\<close>).  The Go switches over methods and types are tables; a value of an interface is
  its dynamic type and its value, and a nil interface is \<^term>\<open>None\<close>.
\<close>

section \<open>Methods and their types\<close>

definition event_table :: "(string \<times> string \<times> gotype) list" where
  "event_table =
     [(MethodTurnStarted, ''TurnStartedEvent'', TurnStartedEvent_t),
      (MethodTurnCompleted, ''TurnCompletedEvent'', TurnCompletedEvent_t),
      (MethodTurnDiffUpdated, ''TurnDiffUpdatedEvent'', TurnDiffUpdatedEvent_t),
      (MethodTurnPlanUpdated, ''TurnPlanUpdatedEvent'', TurnPlanUpdatedEvent_t),
      (MethodThreadTokenUsageUpdated, ''ThreadTokenUsageUpdatedEvent'', ThreadTokenUsageUpdatedEvent_t),
      (MethodItemStarted, ''ItemStartedEvent'', ItemStartedEvent_t),
      (MethodItemCompleted, ''ItemCompletedEvent'', ItemCompletedEvent_t),
      (MethodItemAgentMessageDelta, ''ItemAgentMessageDeltaEvent'', ItemAgentMessageDeltaEvent_t),
      (MethodItemPlanDelta, ''ItemPlanDeltaEvent'', ItemPlanDeltaEvent_t),
      (MethodItemReasoningSummaryTextDelta, ''ItemReasoningSummaryTextDeltaEvent'', ItemReasoningSummaryTextDeltaEvent_t),
      (MethodItemReasoningSummaryPartAdded, ''ItemReasoningSummaryPartAddedEvent'', ItemReasoningSummaryPartAddedEvent_t),
      (MethodItemReasoningTextDelta, ''ItemReasoningTextDeltaEvent'', ItemReasoningTextDeltaEvent_t),
      (MethodItemCommandExecutionOutputDelta, ''ItemCommandExecutionOutputDeltaEvent'', ItemCommandExecutionOutputDeltaEvent_t),
      (MethodCommandExecOutputDelta, ''CommandExecOutputDeltaEvent'', CommandExecOutputDeltaEvent_t),
      (MethodItemFileChangePatchUpdated, ''ItemFileChangePatchUpdatedEvent'', ItemFileChangePatchUpdatedEvent_t),
      (MethodItemFileChangeOutputDelta, ''ItemFileChangeOutputDeltaEvent'', ItemFileChangeOutputDeltaEvent_t),
      (MethodItemAutoApprovalReviewStarted, ''ItemAutoApprovalReviewStartedEvent'', ItemAutoApprovalReviewStartedEvent_t),
      (MethodItemAutoApprovalReviewCompleted, ''ItemAutoApprovalReviewCompletedEvent'', ItemAutoApprovalReviewCompletedEvent_t),
      (MethodThreadStarted, ''ThreadStartedEvent'', ThreadStartedEvent_t),
      (MethodThreadArchived, ''ThreadArchivedEvent'', ThreadArchivedEvent_t),
      (MethodThreadUnarchived, ''ThreadUnarchivedEvent'', ThreadUnarchivedEvent_t),
      (MethodThreadClosed, ''ThreadClosedEvent'', ThreadClosedEvent_t),
      (MethodThreadStatusChanged, ''ThreadStatusChangedEvent'', ThreadStatusChangedEvent_t),
      (MethodThreadGoalUpdated, ''ThreadGoalUpdatedEvent'', ThreadGoalUpdatedEvent_t),
      (MethodThreadGoalCleared, ''ThreadGoalClearedEvent'', ThreadGoalClearedEvent_t),
      (MethodItemUpdated, ''ItemUpdatedEvent'', ItemUpdatedEvent_t),
      (MethodServerRequestResolved, ''ServerRequestResolvedEvent'', ServerRequestResolvedEvent_t),
      (MethodAccountLoginCompleted, ''LoginCompleted'', LoginCompleted_t),
      (MethodError, ''ErrorEvent'', ErrorEvent_t)]"

definition extra_event_table :: "(string \<times> string \<times> gotype) list" where
  "extra_event_table =
     [(MethodThreadDeleted, ''ThreadDeletedEvent'', ThreadDeletedEvent_t),
      (MethodThreadNameUpdated, ''ThreadNameUpdatedEvent'', ThreadNameUpdatedEvent_t),
      (MethodThreadCompacted, ''ThreadCompactedEvent'', ThreadCompactedEvent_t),
      (MethodThreadSettingsUpdated, ''ThreadSettingsUpdatedEvent'', ThreadSettingsUpdatedEvent_t),
      (MethodAccountUpdated, ''AccountUpdatedEvent'', AccountUpdatedEvent_t),
      (MethodAccountRateLimitsUpdated, ''AccountRateLimitsUpdatedEvent'', AccountRateLimitsUpdatedEvent_t),
      (MethodWarning, ''WarningEvent'', WarningEvent_t),
      (MethodConfigWarning, ''ConfigWarningEvent'', ConfigWarningEvent_t),
      (MethodDeprecationNotice, ''DeprecationNoticeEvent'', DeprecationNoticeEvent_t),
      (MethodGuardianWarning, ''GuardianWarningEvent'', GuardianWarningEvent_t),
      (MethodWindowsWorldWritableWarning, ''WindowsWorldWritableWarningEvent'', WindowsWorldWritableWarningEvent_t),
      (MethodWindowsSandboxSetupCompleted, ''WindowsSandboxSetupCompletedEvent'', WindowsSandboxSetupCompletedEvent_t),
      (MethodModelRerouted, ''ModelReroutedEvent'', ModelReroutedEvent_t),
      (MethodModelVerification, ''ModelVerificationEvent'', ModelVerificationEvent_t),
      (MethodTurnModerationMetadata, ''TurnModerationMetadataEvent'', TurnModerationMetadataEvent_t),
      (MethodProcessExited, ''ProcessExitedEvent'', ProcessExitedEvent_t),
      (MethodProcessOutputDelta, ''ProcessOutputDeltaEvent'', ProcessOutputDeltaEvent_t),
      (MethodItemTerminalInteraction, ''TerminalInteractionEvent'', TerminalInteractionEvent_t),
      (MethodItemMcpToolCallProgress, ''McpToolCallProgressEvent'', McpToolCallProgressEvent_t),
      (MethodHookStarted, ''HookStartedEvent'', HookStartedEvent_t),
      (MethodHookCompleted, ''HookCompletedEvent'', HookCompletedEvent_t),
      (MethodRawResponseItemCompleted, ''RawResponseItemCompletedEvent'', RawResponseItemCompletedEvent_t),
      (MethodMcpServerStatusUpdated, ''McpServerStatusUpdatedEvent'', McpServerStatusUpdatedEvent_t),
      (MethodMcpServerOauthLoginCompleted, ''McpServerOauthLoginCompletedEvent'', McpServerOauthLoginCompletedEvent_t),
      (MethodSkillsChanged, ''SkillsChangedEvent'', SkillsChangedEvent_t),
      (MethodFsChanged, ''FsChangedEvent'', FsChangedEvent_t),
      (MethodAppListUpdated, ''AppListUpdatedEvent'', AppListUpdatedEvent_t),
      (MethodRemoteControlStatusChanged, ''RemoteControlStatusChangedEvent'', RemoteControlStatusChangedEvent_t),
      (MethodExternalAgentConfigImportDone, ''ExternalAgentConfigImportCompletedEvent'', ExternalAgentConfigImportCompletedEvent_t),
      (MethodExternalAgentConfigImportProg, ''ExternalAgentConfigImportProgressEvent'', ExternalAgentConfigImportProgressEvent_t),
      (MethodThreadRealtimeStarted, ''ThreadRealtimeStartedEvent'', ThreadRealtimeStartedEvent_t),
      (MethodThreadRealtimeClosed, ''ThreadRealtimeClosedEvent'', ThreadRealtimeClosedEvent_t),
      (MethodThreadRealtimeError, ''ThreadRealtimeErrorEvent'', ThreadRealtimeErrorEvent_t),
      (MethodThreadRealtimeItemAdded, ''ThreadRealtimeItemAddedEvent'', ThreadRealtimeItemAddedEvent_t),
      (MethodThreadRealtimeSdp, ''ThreadRealtimeSdpEvent'', ThreadRealtimeSdpEvent_t),
      (MethodThreadRealtimeOutputAudio, ''ThreadRealtimeOutputAudioDeltaEvent'', ThreadRealtimeOutputAudioDeltaEvent_t),
      (MethodThreadRealtimeTranscriptDelta, ''ThreadRealtimeTranscriptDeltaEvent'', ThreadRealtimeTranscriptDeltaEvent_t),
      (MethodThreadRealtimeTranscriptDone, ''ThreadRealtimeTranscriptDoneEvent'', ThreadRealtimeTranscriptDoneEvent_t)]"

text \<open>The types the two functions that dereference a target know.\<close>

definition deref_types :: "string list" where
  "deref_types =
     [''TurnStartedEvent'', ''TurnCompletedEvent'', ''TurnDiffUpdatedEvent'',
      ''TurnPlanUpdatedEvent'', ''ThreadTokenUsageUpdatedEvent'', ''ItemStartedEvent'',
      ''ItemCompletedEvent'', ''ItemAgentMessageDeltaEvent'', ''ItemPlanDeltaEvent'',
      ''ItemReasoningSummaryTextDeltaEvent'', ''ItemReasoningSummaryPartAddedEvent'',
      ''ItemReasoningTextDeltaEvent'', ''ItemCommandExecutionOutputDeltaEvent'',
      ''CommandExecOutputDeltaEvent'', ''ItemFileChangePatchUpdatedEvent'',
      ''ItemFileChangeOutputDeltaEvent'', ''ItemAutoApprovalReviewStartedEvent'',
      ''ItemAutoApprovalReviewCompletedEvent'', ''ThreadStartedEvent'', ''ThreadArchivedEvent'',
      ''ThreadUnarchivedEvent'', ''ThreadClosedEvent'', ''ThreadStatusChangedEvent'',
      ''ThreadGoalUpdatedEvent'', ''ThreadGoalClearedEvent'', ''ItemUpdatedEvent'',
      ''ServerRequestResolvedEvent'', ''LoginCompleted'', ''ErrorEvent'', ''RawNotificationEvent'']"

definition deref_extra_types :: "string list" where
  "deref_extra_types =
     [''ThreadDeletedEvent'', ''ThreadNameUpdatedEvent'', ''ThreadCompactedEvent'',
      ''ThreadSettingsUpdatedEvent'', ''AccountUpdatedEvent'', ''AccountRateLimitsUpdatedEvent'',
      ''WarningEvent'', ''ConfigWarningEvent'', ''DeprecationNoticeEvent'',
      ''GuardianWarningEvent'', ''WindowsWorldWritableWarningEvent'',
      ''WindowsSandboxSetupCompletedEvent'', ''ModelReroutedEvent'', ''ModelVerificationEvent'',
      ''TurnModerationMetadataEvent'', ''ProcessExitedEvent'', ''ProcessOutputDeltaEvent'',
      ''TerminalInteractionEvent'', ''McpToolCallProgressEvent'', ''HookStartedEvent'',
      ''HookCompletedEvent'', ''RawResponseItemCompletedEvent'', ''McpServerStatusUpdatedEvent'',
      ''McpServerOauthLoginCompletedEvent'', ''SkillsChangedEvent'', ''FsChangedEvent'',
      ''AppListUpdatedEvent'', ''RemoteControlStatusChangedEvent'',
      ''ExternalAgentConfigImportCompletedEvent'', ''ExternalAgentConfigImportProgressEvent'',
      ''ThreadRealtimeStartedEvent'', ''ThreadRealtimeClosedEvent'', ''ThreadRealtimeErrorEvent'',
      ''ThreadRealtimeItemAddedEvent'', ''ThreadRealtimeSdpEvent'',
      ''ThreadRealtimeOutputAudioDeltaEvent'', ''ThreadRealtimeTranscriptDeltaEvent'',
      ''ThreadRealtimeTranscriptDoneEvent'']"

definition raw_event :: "string \<times> gotype" where
  "raw_event = (''RawNotificationEvent'', RawNotificationEvent_t)"

definition extra_event_target :: "string \<Rightarrow> (string \<times> gotype) option" where
  "extra_event_target method = map_of extra_event_table method"

definition event_target :: "string \<Rightarrow> string \<times> gotype" where
  "event_target method =
     (case map_of event_table method of
        Some t \<Rightarrow> t
      | None \<Rightarrow> (case extra_event_target method of Some t \<Rightarrow> t | None \<Rightarrow> raw_event))"

definition deref_extra_event :: "any_value \<Rightarrow> any_value option" where
  "deref_extra_event v = (if fst v \<in> set deref_extra_types then Some v else None)"

definition deref_event_value :: "any_value \<Rightarrow> any_value option" where
  "deref_event_value v = (if fst v \<in> set deref_types then Some v else deref_extra_event v)"

section \<open>Decoding\<close>

record event =
  ev_method :: string
  ev_raw :: raw
  ev_value :: "any_value option"

definition event_decode :: "codecs \<Rightarrow> gotype \<Rightarrow> event \<Rightarrow> goval option" where
  "event_decode env t e = decode_raw env t (ev_raw e)"

definition decode_event :: "timelib \<Rightarrow> string \<Rightarrow> raw \<Rightarrow> event" where
  "decode_event lib method raw =
     (let (name, t) = event_target method; e = \<lparr>ev_method = method, ev_raw = raw, ev_value = None\<rparr> in
      case raw of
        None \<Rightarrow> e\<lparr>ev_value := deref_event_value (name, zero t)\<rparr>
      | Some j \<Rightarrow>
          (case json_unmarshal (protocol_codecs lib) t j of
             None \<Rightarrow>
               (case json_unmarshal (protocol_codecs lib) (snd raw_event) j of
                  Some v \<Rightarrow> e\<lparr>ev_value := Some (fst raw_event, v)\<rparr>
                | None \<Rightarrow> e\<lparr>ev_value := Some (fst raw_event, zero (snd raw_event))\<rparr>)
           | Some v \<Rightarrow> e\<lparr>ev_value := deref_event_value (name, v)\<rparr>))"

section \<open>Events of a turn\<close>

text \<open>Selecting a field of an event by the name of its tag.\<close>

definition field_of :: "gotype \<Rightarrow> string \<Rightarrow> goval \<Rightarrow> goval" where
  "field_of t name v =
     (case t of
        TStruct fs \<Rightarrow>
          (case index_where (\<lambda>f. field_name f = name) fs of
             Some i \<Rightarrow> if i < length (vfields v) then vfields v ! i else VNil
           | None \<Rightarrow> VNil)
      | _ \<Rightarrow> VNil)"

definition event_type :: "string \<Rightarrow> gotype" where
  "event_type name =
     (case map_of (map snd (event_table @ extra_event_table) @ [raw_event]) name of
        Some t \<Rightarrow> t | None \<Rightarrow> TStruct [])"

definition sel :: "string \<Rightarrow> any_value \<Rightarrow> goval" where
  "sel name v = field_of (event_type (fst v)) name (snd v)"

definition turn_event_id :: "string \<Rightarrow> turn option \<Rightarrow> string" where
  "turn_event_id i t =
     (if trim_space i \<noteq> [] then i else (case t of Some t \<Rightarrow> turn_id t | None \<Rightarrow> []))"

definition turn_ptr :: "goval \<Rightarrow> turn option" where
  "turn_ptr v = map_option turn_of (vptr v)"

definition turn_item_events :: "string list" where
  "turn_item_events =
     [''ItemStartedEvent'', ''ItemCompletedEvent'', ''ItemAgentMessageDeltaEvent'',
      ''ItemPlanDeltaEvent'', ''ItemReasoningSummaryTextDeltaEvent'',
      ''ItemReasoningSummaryPartAddedEvent'', ''ItemReasoningTextDeltaEvent'',
      ''ItemCommandExecutionOutputDeltaEvent'', ''ItemFileChangePatchUpdatedEvent'',
      ''ItemFileChangeOutputDeltaEvent'', ''ItemAutoApprovalReviewStartedEvent'',
      ''ItemAutoApprovalReviewCompletedEvent'', ''ItemUpdatedEvent'', ''TurnDiffUpdatedEvent'',
      ''TurnPlanUpdatedEvent'', ''ErrorEvent'']"

definition thread_events :: "string list" where
  "thread_events =
     [''ThreadStartedEvent'', ''ThreadArchivedEvent'', ''ThreadUnarchivedEvent'',
      ''ThreadClosedEvent'', ''ThreadStatusChangedEvent'', ''ThreadGoalUpdatedEvent'',
      ''ThreadGoalClearedEvent'', ''ServerRequestResolvedEvent'', ''ThreadTokenUsageUpdatedEvent'']"
definition value_matches_turn :: "any_value \<Rightarrow> string \<Rightarrow> string \<Rightarrow> bool" where
  "value_matches_turn v threadID turnID =
     (let n = fst v; th = vstr (sel ''threadId'' v); tu = vstr (sel ''turnId'' v) in
      if n \<in> {''TurnStartedEvent'', ''TurnCompletedEvent''}
      then th = threadID \<and> turn_event_id tu (turn_ptr (sel ''turn'' v)) = turnID
      else if n \<in> set turn_item_events then th = threadID \<and> tu = turnID
      else if n \<in> set thread_events then th = threadID
      else if n = ''RawNotificationEvent''
      then (th = [] \<or> th = threadID) \<and> (tu = [] \<or> tu = turnID)
      else False)"

definition event_matches_turn :: "event \<Rightarrow> string \<Rightarrow> string \<Rightarrow> bool" where
  "event_matches_turn e threadID turnID =
     (case ev_value e of None \<Rightarrow> False | Some v \<Rightarrow> value_matches_turn v threadID turnID)"

definition is_terminal_turn_status :: "string \<Rightarrow> bool" where
  "is_terminal_turn_status s \<longleftrightarrow> s \<in> {TurnStatusCompleted, TurnStatusFailed, TurnStatusInterrupted}"

section \<open>Decoding is total\<close>

lemma tables_deref:
  "list_all (\<lambda>x. fst (snd x) \<in> set deref_types) event_table"
  "list_all (\<lambda>x. fst (snd x) \<in> set deref_extra_types) extra_event_table"
  by (simp_all add: event_table_def extra_event_table_def deref_types_def deref_extra_types_def)

lemma deref_target [simp]: "deref_event_value (fst (event_target m), v) = Some (fst (event_target m), v)"
proof (cases "map_of event_table m")
  case (Some t)
  then have "(m, t) \<in> set event_table" by (rule map_of_SomeD)
  with tables_deref(1) have "fst t \<in> set deref_types" by (auto simp: list_all_iff)
  with Some show ?thesis by (simp add: event_target_def deref_event_value_def)
next
  case None
  show ?thesis
  proof (cases "map_of extra_event_table m")
    case (Some t)
    then have "(m, t) \<in> set extra_event_table" by (rule map_of_SomeD)
    with tables_deref(2) have "fst t \<in> set deref_extra_types" by (auto simp: list_all_iff)
    with Some None show ?thesis
      by (simp add: event_target_def extra_event_target_def deref_event_value_def deref_extra_event_def)
  next
    case None
    with \<open>map_of event_table m = None\<close> show ?thesis
      by (simp add: event_target_def extra_event_target_def deref_event_value_def raw_event_def deref_types_def)
  qed
qed

lemmas each_type_ok =
  protocol_types_ok [unfolded protocol_types_def list.pred_inject]
  event_types_ok [unfolded event_types_def list.pred_inject]
  client_types_ok [unfolded client_types_def list.pred_inject]

lemma tables_ok:
  "list_all (\<lambda>x. type_ok (snd (snd x))) event_table"
  "list_all (\<lambda>x. type_ok (snd (snd x))) extra_event_table"
  by (simp_all only: event_table_def extra_event_table_def list.pred_inject snd_conv each_type_ok simp_thms)

lemma target_type_ok: "type_ok (snd (event_target m))"
  using tables_ok each_type_ok
  by (auto simp: event_target_def extra_event_target_def raw_event_def list_all_iff
      split: option.splits dest!: map_of_SomeD)

lemma decode_event_value:
  "ev_value (decode_event lib m r) =
     (case r of
        None \<Rightarrow> Some (fst (event_target m), zero (snd (event_target m)))
      | Some j \<Rightarrow>
          (case json_unmarshal (protocol_codecs lib) (snd (event_target m)) j of
             Some v \<Rightarrow> Some (fst (event_target m), v)
           | None \<Rightarrow>
               (case json_unmarshal (protocol_codecs lib) RawNotificationEvent_t j of
                  Some v \<Rightarrow> Some (''RawNotificationEvent'', v)
                | None \<Rightarrow> Some (''RawNotificationEvent'', zero RawNotificationEvent_t))))"
  using deref_target [of m]
  by (cases "event_target m") (simp add: decode_event_def raw_event_def split: option.split)

lemma decode_event_frame [simp]: "ev_method (decode_event lib m r) = m" "ev_raw (decode_event lib m r) = r"
  by (simp_all add: decode_event_def Let_def case_prod_unfold split: option.splits)

text \<open>
  Decoding a notification never fails and never gives a nil value: the event has the type of its
  method or is a raw event, and an encoded value of the method's type is recovered.
\<close>

theorem event_decoding:
  "ev_method (decode_event lib m r) = m \<and> ev_raw (decode_event lib m r) = r \<and>
   (\<exists>v. ev_value (decode_event lib m r) = Some v \<and> fst v \<in> {fst (event_target m), ''RawNotificationEvent''}) \<and>
   (\<forall>w. wt (protocol_codecs lib) (snd (event_target m)) w \<longrightarrow>
      r = Some (goenc (protocol_codecs lib) (snd (event_target m)) w) \<longrightarrow>
      ev_value (decode_event lib m r) = Some (fst (event_target m), w))"
  using unmarshal_marshal [OF target_type_ok [of m], of "protocol_codecs lib"]
  by (auto simp: decode_event_value split: option.splits)

theorem event_decoding_witness:
  "\<forall>lib. ev_value (decode_event lib MethodThreadClosed
      (Some (goenc (protocol_codecs lib) (snd (event_target MethodThreadClosed)) (VStruct [VStr ''t1'']))))
    = Some (''ThreadClosedEvent'', VStruct [VStr ''t1''])"
proof
  fix lib
  have t: "event_target MethodThreadClosed = (''ThreadClosedEvent'', ThreadClosedEvent_t)"
    by (simp add: event_target_def event_table_def)
  have "wt (protocol_codecs lib) ThreadClosedEvent_t (VStruct [VStr ''t1''])"
    by (simp add: ThreadClosedEvent_t_def valid_utf8_ascii code_def)
  with event_decoding [of lib MethodThreadClosed
      "Some (goenc (protocol_codecs lib) ThreadClosedEvent_t (VStruct [VStr ''t1'']))"] t
  show "ev_value (decode_event lib MethodThreadClosed
      (Some (goenc (protocol_codecs lib) (snd (event_target MethodThreadClosed)) (VStruct [VStr ''t1'']))))
    = Some (''ThreadClosedEvent'', VStruct [VStr ''t1''])"
    by simp
qed

section \<open>Members the client does not know\<close>

definition field_names :: "gotype \<Rightarrow> string list" where
  "field_names t = (case t of TStruct fs \<Rightarrow> map field_name fs | _ \<Rightarrow> [])"

definition is_struct :: "gotype \<Rightarrow> bool" where
  "is_struct t = (case t of TStruct fs \<Rightarrow> True | _ \<Rightarrow> False)"

lemma target_struct: "is_struct (snd (event_target m))"
proof -
  have "list_all (\<lambda>x. is_struct (snd (snd x))) event_table"
    "list_all (\<lambda>x. is_struct (snd (snd x))) extra_event_table"
    by (simp_all add: event_table_def extra_event_table_def is_struct_def event_type_defs protocol_type_defs
        client_type_defs)
  then show ?thesis
    by (auto simp: event_target_def extra_event_target_def raw_event_def list_all_iff
        is_struct_def RawNotificationEvent_t_def split: option.splits dest!: map_of_SomeD)
qed

lemma unmarshal_unknown:
  assumes "is_struct t" and "\<not> known_key (field_names t) k"
  shows "json_unmarshal env t (JObj (ms @ (k, j) # ms')) = json_unmarshal env t (JObj (ms @ ms'))"
proof -
  from assms(1) obtain fs where t: "t = TStruct fs" by (auto simp: is_struct_def split: gotype.splits)
  with assms(2) show ?thesis
    unfolding t by (intro unmarshal_known_cong) (simp add: field_names_def)
qed

text \<open>
  A newer server may add members to a notification: one that matches no field of the event's type
  or of the raw event changes nothing of the decoded value.
\<close>

theorem event_unknown_member:
  assumes "\<not> known_key (field_names (snd (event_target m))) k"
    and "\<not> known_key (field_names RawNotificationEvent_t) k"
  shows "ev_value (decode_event lib m (Some (JObj (ms @ (k, j) # ms'))))
    = ev_value (decode_event lib m (Some (JObj (ms @ ms'))))"
proof -
  have "is_struct RawNotificationEvent_t" by (simp add: is_struct_def RawNotificationEvent_t_def)
  show ?thesis
    unfolding decode_event_value option.case unmarshal_unknown [OF target_struct assms(1)]
      unmarshal_unknown [OF \<open>is_struct RawNotificationEvent_t\<close> assms(2)] ..
qed

theorem event_unknown_member_witness:
  "\<forall>lib ms ms' j. ev_value (decode_event lib MethodThreadClosed (Some (JObj (ms @ (''new'', j) # ms'))))
    = ev_value (decode_event lib MethodThreadClosed (Some (JObj (ms @ ms'))))"
proof (intro allI event_unknown_member)
  have "event_target MethodThreadClosed = (''ThreadClosedEvent'', ThreadClosedEvent_t)"
    by (simp add: event_target_def event_table_def)
  then show "\<not> known_key (field_names (snd (event_target MethodThreadClosed))) ''new''"
    by (simp add: ThreadClosedEvent_t_def field_names_def known_key_def match_name_def fold_ascii
        del: fold_name.simps(2))
  show "\<not> known_key (field_names RawNotificationEvent_t) ''new''"
    by (simp add: RawNotificationEvent_t_def field_names_def known_key_def match_name_def fold_ascii
        del: fold_name.simps(2))
qed

section \<open>Which events reach a turn\<close>

lemma value_matches_thread:
  "value_matches_turn v th tu \<Longrightarrow> vstr (sel ''threadId'' v) = th \<or>
     (fst v = ''RawNotificationEvent'' \<and> vstr (sel ''threadId'' v) = [])"
  by (auto simp: value_matches_turn_def Let_def split: if_splits)

lemma matches_value: "event_matches_turn e th tu \<longleftrightarrow> (\<exists>v. ev_value e = Some v \<and> value_matches_turn v th tu)"
  by (simp add: event_matches_turn_def split: option.splits)

lemma extra_types_unmatched:
  "list_all (\<lambda>x. fst (snd x) \<notin> set [''TurnStartedEvent'', ''TurnCompletedEvent'', ''RawNotificationEvent'']) extra_event_table"
  "list_all (\<lambda>x. fst (snd x) \<notin> set turn_item_events) extra_event_table"
  "list_all (\<lambda>x. fst (snd x) \<notin> set thread_events) extra_event_table"
    apply (simp add: extra_event_table_def)
   apply (simp add: extra_event_table_def turn_item_events_def)
  apply (simp add: extra_event_table_def thread_events_def)
  done

lemma tables_disjoint: "list_all (\<lambda>m. m \<notin> set (map fst event_table)) (map fst extra_event_table)"
  by (simp add: extra_event_table_def event_table_def)

text \<open>
  The typed extra notifications are never streamed: although many carry a thread and a turn, the
  filter has no case for their types, so none of them matches any turn, while the same message under
  a method the client does not know is a raw event and matches.
\<close>

theorem extra_events_never_match:
  assumes "m \<in> fst ` set extra_event_table"
    and "json_unmarshal (protocol_codecs lib) (snd (event_target m)) j = Some v"
  shows "\<not> event_matches_turn (decode_event lib m (Some j)) th tu"
proof -
  have "m \<notin> set (map fst event_table)" using assms(1) tables_disjoint by (auto simp only: list_all_iff set_map)
  then have "map_of event_table m = None" by (simp add: map_of_eq_None_iff)
  moreover obtain t where t: "map_of extra_event_table m = Some t"
    using assms(1) by (meson map_of_eq_None_iff not_None_eq)
  ultimately have "event_target m = t" by (simp add: event_target_def extra_event_target_def)
  moreover from t have "(m, t) \<in> set extra_event_table" by (rule map_of_SomeD)
  with extra_types_unmatched have "fst t \<notin> set turn_item_events" "fst t \<notin> set thread_events"
    "fst t \<notin> set [''TurnStartedEvent'', ''TurnCompletedEvent'', ''RawNotificationEvent'']"
    by (auto simp: list_all_iff)
  ultimately show ?thesis
    using assms(2) by (auto simp: event_matches_turn_def decode_event_value value_matches_turn_def Let_def)
qed

theorem extra_events_never_match_witness:
  "\<forall>lib th tu. \<not> event_matches_turn (decode_event lib MethodItemMcpToolCallProgress
      (Some (JObj [(''threadId'', JStr th), (''turnId'', JStr tu)]))) th tu"
proof (intro allI)
  fix lib th tu
  let ?j = "JObj [(''threadId'', JStr th), (''turnId'', JStr tu)]"
  have t: "event_target MethodItemMcpToolCallProgress = (''McpToolCallProgressEvent'', McpToolCallProgressEvent_t)"
    by (simp add: event_target_def event_table_def extra_event_target_def extra_event_table_def)
  have "json_unmarshal (protocol_codecs lib) McpToolCallProgressEvent_t ?j
      = Some (VStruct [VStr th, VStr tu, VStr [], VStr []])"
    by (simp add: McpToolCallProgressEvent_t_def json_unmarshal_def match_name_def)
  then have "json_unmarshal (protocol_codecs lib) (snd (event_target MethodItemMcpToolCallProgress)) ?j
      = Some (VStruct [VStr th, VStr tu, VStr [], VStr []])"
    by (simp only: t snd_conv)
  then show "\<not> event_matches_turn (decode_event lib MethodItemMcpToolCallProgress (Some ?j)) th tu"
    by (rule extra_events_never_match [rotated]) (simp add: extra_event_table_def)
qed

end
