(* ===== verification/Jsonx.thy ===== *)
theory Jsonx imports JsonText "HOL-Library.Multiset" begin

text \<open>
  Text and JSON found inside loosely typed payloads (\<^verbatim>\<open>internal/jsonx/jsonx.go\<close>).  A payload is
  decoded into an interface first: the members of an object become a Go map, the numbers become
  floats.  Go iterates over a map in any order; the order and the spelling of floats are
  parameters, and the theorems hold for all of them.
\<close>

record anylib =
  iter_order :: "(string \<times> json) list \<Rightarrow> (string \<times> json) list"
  float_text :: "string \<Rightarrow> string option"

text \<open>The entries of a map in the order of one iteration: a permutation of them.\<close>

definition iterate :: "anylib \<Rightarrow> (string \<times> json) list \<Rightarrow> (string \<times> json) list" where
  "iterate lib kvs = (if mset (iter_order lib kvs) = mset kvs then iter_order lib kvs else kvs)"

lemma iterate_set [simp]: "set (iterate lib kvs) = set kvs"
  by (auto simp: iterate_def dest: mset_eq_setD)

section \<open>Decoding into an interface\<close>

fun decode_any :: "anylib \<Rightarrow> json \<Rightarrow> json option"
and decode_any_elems :: "anylib \<Rightarrow> json list \<Rightarrow> json list option"
and decode_any_members :: "anylib \<Rightarrow> (string \<times> json) list \<Rightarrow> (string \<times> json) list \<Rightarrow> (string \<times> json) list option" where
  "decode_any lib (JNum l) = map_option JNum (float_text lib l)"
| "decode_any lib (JArr js) = map_option JArr (decode_any_elems lib js)"
| "decode_any lib (JObj ms) = map_option JObj (decode_any_members lib [] ms)"
| "decode_any lib j = Some j"
| "decode_any_elems lib [] = Some []"
| "decode_any_elems lib (j # js) =
     (case decode_any lib j of
        None \<Rightarrow> None
      | Some v \<Rightarrow> map_option ((#) v) (decode_any_elems lib js))"
| "decode_any_members lib kvs [] = Some kvs"
| "decode_any_members lib kvs ((k, j) # ms) =
     (case decode_any lib j of
        None \<Rightarrow> None
      | Some v \<Rightarrow> decode_any_members lib (put k v kvs) ms)"

section \<open>Text\<close>

definition code_fence :: string where
  "code_fence = [CHR 0x60, CHR 0x60, CHR 0x60]"

definition strip_code_fence :: "string \<Rightarrow> string" where
  "strip_code_fence s =
     trim_space (trim_suffix code_fence (trim_prefix code_fence (trim_prefix (code_fence @ ''json'') (trim_space s))))"

definition text_keys :: "string list" where
  "text_keys = [''text'', ''content'', ''message'', ''output'', ''value'']"

text \<open>The values of an object in the order they are tried: those of the known keys, then all.\<close>

definition text_values :: "anylib \<Rightarrow> (string \<times> json) list \<Rightarrow> json list" where
  "text_values lib kvs = List.map_filter (map_of kvs) text_keys @ map snd (iterate lib kvs)"

lemma map_of_value: "map_of kvs k \<noteq> None \<Longrightarrow> the (map_of kvs k) \<in> snd ` set kvs"
proof -
  assume "map_of kvs k \<noteq> None"
  then obtain v where v: "map_of kvs k = Some v" by blast
  from map_of_SomeD [OF v] have "snd (k, v) \<in> snd ` set kvs" by (rule imageI)
  with v show ?thesis by simp
qed

lemma text_values_set [simp]: "set (text_values lib kvs) = snd ` set kvs"
proof
  have "List.map_filter (map_of kvs) ks = map (the \<circ> map_of kvs) (filter (\<lambda>k. map_of kvs k \<noteq> None) ks)" for ks
    by (simp add: List.map_filter_def)
  then have "set (List.map_filter (map_of kvs) text_keys) \<subseteq> snd ` set kvs"
    using map_of_value [of kvs] by (simp del: map_of_eq_None_iff) blast
  then show "set (text_values lib kvs) \<subseteq> snd ` set kvs"
    by (simp add: text_values_def)
qed (auto simp: text_values_def)

lemma member_size: "x \<in> snd ` set kvs \<Longrightarrow> size x < Suc (size_list (size_prod (\<lambda>_. 0) size) kvs)"
proof (induction kvs)
  case (Cons m kvs)
  obtain k v where m: "m = (k, v)" by (cases m)
  with Cons.prems consider "x = v" | "x \<in> snd ` set kvs" by auto
  then show ?case using Cons.IH m by cases auto
qed simp

lemma elem_size: "x \<in> set js \<Longrightarrow> size x < Suc (size_list size js)"
  by (induction js) (auto simp: less_Suc_eq_le)

fun first_text :: "string list \<Rightarrow> string" where
  "first_text [] = []"
| "first_text (s # ss) = (if s \<noteq> [] then s else first_text ss)"

function extract_text_value :: "anylib \<Rightarrow> json \<Rightarrow> string" where
  "extract_text_value lib (JStr s) = trim_space (strip_code_fence s)"
| "extract_text_value lib (JArr js) = first_text (map (extract_text_value lib) (rev js))"
| "extract_text_value lib (JObj kvs) = first_text (map (extract_text_value lib) (text_values lib kvs))"
| "extract_text_value lib JNull = []"
| "extract_text_value lib (JBool b) = []"
| "extract_text_value lib (JNum l) = []"
  by pat_completeness auto

termination
  by (relation "measure (\<lambda>(lib, j). size j)") (auto intro: elem_size intro!: member_size imageI)

definition extract_text_candidate :: "anylib \<Rightarrow> raw \<Rightarrow> string" where
  "extract_text_candidate lib payload =
     (case payload of
        None \<Rightarrow> []
      | Some j \<Rightarrow> (case decode_any lib j of None \<Rightarrow> [] | Some v \<Rightarrow> extract_text_value lib v))"

definition extract_string_candidate :: "anylib \<Rightarrow> raw \<Rightarrow> string" where
  "extract_string_candidate lib payload =
     (case payload of
        None \<Rightarrow> []
      | Some j \<Rightarrow> (case decode_any lib j of None \<Rightarrow> [] | Some v \<Rightarrow> extract_text_value lib v))"

fun first_non_empty :: "string list \<Rightarrow> string" where
  "first_non_empty [] = []"
| "first_non_empty (v # vs) = (if trim_space v \<noteq> [] then v else first_non_empty vs)"

section \<open>JSON documents\<close>

function collect_json_candidates :: "anylib \<Rightarrow> json \<Rightarrow> json list" where
  "collect_json_candidates lib (JStr s) =
     (case json_parse (trim_space (strip_code_fence s)) of Some j \<Rightarrow> [j] | None \<Rightarrow> [])"
| "collect_json_candidates lib (JArr js) = concat (map (collect_json_candidates lib) js)"
| "collect_json_candidates lib (JObj kvs) =
     concat (map (collect_json_candidates lib) (map snd (iterate lib kvs))) @ [JObj kvs]"
| "collect_json_candidates lib JNull = []"
| "collect_json_candidates lib (JBool b) = []"
| "collect_json_candidates lib (JNum l) = []"
  by pat_completeness auto

termination
  by (relation "measure (\<lambda>(lib, j). size j)") (auto intro: elem_size intro!: member_size imageI rev_image_eqI)

definition extract_structured_candidate :: "anylib \<Rightarrow> raw \<Rightarrow> raw" where
  "extract_structured_candidate lib payload =
     (case payload of
        None \<Rightarrow> None
      | Some j \<Rightarrow>
          (case decode_any lib j of
             None \<Rightarrow> None
           | Some v \<Rightarrow> (case collect_json_candidates lib v of c # cs \<Rightarrow> Some c | [] \<Rightarrow> Some j)))"

section \<open>What is found\<close>

inductive has_string :: "json \<Rightarrow> string \<Rightarrow> bool" where
  hs_str: "has_string (JStr s) s"
| hs_arr: "j \<in> set js \<Longrightarrow> has_string j s \<Longrightarrow> has_string (JArr js) s"
| hs_obj: "j \<in> snd ` set kvs \<Longrightarrow> has_string j s \<Longrightarrow> has_string (JObj kvs) s"

inductive_simps has_string_simps [simp]:
  "has_string (JStr s) t" "has_string (JArr js) t" "has_string (JObj kvs) t"
  "has_string JNull t" "has_string (JBool b) t" "has_string (JNum l) t"

lemma first_text_nil: "first_text ss = [] \<longleftrightarrow> (\<forall>s\<in>set ss. s = [])"
  by (induction ss) auto

lemma first_text_in: "first_text ss \<noteq> [] \<Longrightarrow> first_text ss \<in> set ss"
  by (induction ss) auto

lemma strip_trimmed [simp]: "trim_space (strip_code_fence s) = strip_code_fence s"
  by (simp add: strip_code_fence_def trim_space_idem)

lemma extract_text_found:
  "extract_text_value lib d \<noteq> [] \<Longrightarrow> \<exists>s. has_string d s \<and> extract_text_value lib d = strip_code_fence s"
proof (induction lib d rule: extract_text_value.induct)
  case (2 lib js)
  then have "extract_text_value lib (JArr js) \<in> extract_text_value lib ` set js"
    using first_text_in [of "map (extract_text_value lib) (rev js)"] by simp
  then obtain j where j: "j \<in> set js" "extract_text_value lib (JArr js) = extract_text_value lib j" by blast
  with 2 obtain s where "has_string j s" "extract_text_value lib j = strip_code_fence s" by auto
  with j show ?case by auto
next
  case (3 lib kvs)
  then have "extract_text_value lib (JObj kvs) \<in> extract_text_value lib ` snd ` set kvs"
    using first_text_in [of "map (extract_text_value lib) (text_values lib kvs)"] by simp
  then obtain j where j: "j \<in> snd ` set kvs" "extract_text_value lib (JObj kvs) = extract_text_value lib j"
    by blast
  with 3 obtain s where "has_string j s" "extract_text_value lib j = strip_code_fence s" by auto
  with j show ?case by (auto simp del: extract_text_value.simps)
qed auto

lemma extract_text_complete: "has_string d s \<Longrightarrow> strip_code_fence s \<noteq> [] \<Longrightarrow> extract_text_value lib d \<noteq> []"
  by (induction rule: has_string.induct) (auto simp: first_text_nil)

text \<open>
  Extraction finds a text exactly when some string of the document has one, and what it returns is
  such a string with its white space and code fence removed, whatever the order of iteration.
\<close>

theorem text_extraction:
  "(extract_text_value lib d \<noteq> [] \<longleftrightarrow> (\<exists>s. has_string d s \<and> strip_code_fence s \<noteq> [])) \<and>
   (extract_text_value lib d = [] \<or>
     (\<exists>s. has_string d s \<and> extract_text_value lib d = strip_code_fence s))"
  using extract_text_found [of lib d] extract_text_complete [of d _ lib] by metis

text \<open>A text under the first of the known keys wins, whatever the order of iteration.\<close>

lemma text_key_wins:
  assumes "map_of kvs ''text'' = Some v" and "extract_text_value lib v \<noteq> []"
  shows "extract_text_value lib (JObj kvs) = extract_text_value lib v"
  using assms by (simp add: text_values_def text_keys_def)

inductive has_object :: "json \<Rightarrow> (string \<times> json) list \<Rightarrow> bool" where
  ho_here: "has_object (JObj kvs) kvs"
| ho_arr: "j \<in> set js \<Longrightarrow> has_object j o' \<Longrightarrow> has_object (JArr js) o'"
| ho_obj: "j \<in> snd ` set kvs \<Longrightarrow> has_object j o' \<Longrightarrow> has_object (JObj kvs) o'"

definition candidate_of :: "json \<Rightarrow> json \<Rightarrow> bool" where
  "candidate_of d c \<longleftrightarrow>
     (\<exists>s. has_string d s \<and> json_parse (strip_code_fence s) = Some c) \<or> (\<exists>kvs. has_object d kvs \<and> c = JObj kvs)"

lemma candidate_arr: "j \<in> set js \<Longrightarrow> candidate_of j c \<Longrightarrow> candidate_of (JArr js) c"
  unfolding candidate_of_def by (blast intro: hs_arr ho_arr)

lemma candidate_obj: "j \<in> snd ` set kvs \<Longrightarrow> candidate_of j c \<Longrightarrow> candidate_of (JObj kvs) c"
  unfolding candidate_of_def by (blast intro: hs_obj ho_obj)

lemma collect_sound:
  "c \<in> set (collect_json_candidates lib d) \<Longrightarrow> candidate_of d c"
proof (induction lib d rule: collect_json_candidates.induct)
  case (2 lib js)
  then obtain j where j: "j \<in> set js" "c \<in> set (collect_json_candidates lib j)" by auto
  from "2.IH" [OF j] show ?case by (rule candidate_arr [OF j(1)])
next
  case (3 lib kvs)
  then consider "c = JObj kvs" | j where "j \<in> snd ` set kvs" "c \<in> set (collect_json_candidates lib j)"
    by auto
  then show ?case
  proof cases
    case 2
    then have "j \<in> set (map snd (iterate lib kvs))" by simp
    from "3.IH" [OF this 2(2)] show ?thesis by (rule candidate_obj [OF 2(1)])
  qed (auto simp: candidate_of_def intro: ho_here)
qed (auto simp: candidate_of_def split: option.splits)

lemma structured_found:
  "extract_structured_candidate lib (Some j) \<noteq> None \<longleftrightarrow> decode_any lib j \<noteq> None"
  by (auto simp: extract_structured_candidate_def split: option.splits list.splits)

end
