(* ===== verification/Wait.thy ===== *)
theory Wait imports Events Jsonx begin

text \<open>
  Waiting for a turn and collecting its output (\<^verbatim>\<open>wait.go\<close>, \<^verbatim>\<open>output.go\<close>, \<^verbatim>\<open>turn.go\<close>, and \<^verbatim>\<open>Run\<close> and
  \<^verbatim>\<open>RunStreamed\<close> of \<^verbatim>\<open>thread.go\<close>).  A loop that polls the server and selects on its channels is a
  function of what it observes: each round has the answers of the server and the case of the
  select that ran.
\<close>

section \<open>Reading a turn\<close>

fun find_turn :: "string \<Rightarrow> turn list \<Rightarrow> turn option" where
  "find_turn i [] = None"
| "find_turn i (t # ts) = (if turn_id t = i then Some t else find_turn i ts)"

definition read_turn :: "string \<Rightarrow> go_error + thread \<Rightarrow> go_error + turn" where
  "read_turn turnID res =
     (case res of
        Inl e \<Rightarrow> if contains ''not materialized'' (error_text e) then Inl ErrTurnNotFound
          else Inl (ErrWrap ''thread/read: '' e [])
      | Inr th \<Rightarrow>
          (case find_turn turnID (rev (thread_turns th)) of
             Some t \<Rightarrow> Inr t
           | None \<Rightarrow> Inl ErrTurnNotFound))"

section \<open>WaitForTurn\<close>

definition max_transient_retries :: nat where
  "max_transient_retries = 5"

datatype wake = CtxDone go_error | SubClosed | SubEvent event | Tick

datatype wait_result = WReturn turn | WFail go_error | WGo nat

text \<open>One call of \<^verbatim>\<open>check\<close> and what both of its call sites do with it.\<close>

definition wait_check :: "nat \<Rightarrow> go_error + turn \<Rightarrow> wait_result" where
  "wait_check n r =
     (case r of
        Inr t \<Rightarrow> if is_terminal_turn_status (turn_status t) then WReturn t else WGo 0
      | Inl e \<Rightarrow>
          if error_is e ErrTurnNotFound then WGo 0
          else if is_transient_error (Some e)
          then if n + 1 \<ge> max_transient_retries then WFail e else WGo (n + 1)
          else WFail e)"

type_synonym wait_round = "(go_error + thread) \<times> wake \<times> (go_error + thread)"

definition wait_wakes :: "event \<Rightarrow> string \<Rightarrow> string \<Rightarrow> bool" where
  "wait_wakes e threadID turnID \<longleftrightarrow> event_matches_turn e threadID turnID \<and>
     ev_method e \<in> {MethodTurnCompleted, MethodItemCompleted, MethodItemStarted}"

definition wait_select :: "string \<Rightarrow> string \<Rightarrow> wake \<Rightarrow> go_error + thread \<Rightarrow> nat \<Rightarrow> wait_result" where
  "wait_select threadID turnID w res n =
     (case w of
        CtxDone e \<Rightarrow> WFail e
      | SubClosed \<Rightarrow> WGo n
      | Tick \<Rightarrow> WGo n
      | SubEvent ev \<Rightarrow>
          if wait_wakes ev threadID turnID then wait_check n (read_turn turnID res) else WGo n)"

fun wait_loop :: "string \<Rightarrow> string \<Rightarrow> nat \<Rightarrow> wait_round list \<Rightarrow> wait_result" where
  "wait_loop threadID turnID n [] = WGo n"
| "wait_loop threadID turnID n ((res, w, res2) # rounds) =
     (case wait_check n (read_turn turnID res) of
        WGo n1 \<Rightarrow>
          (case wait_select threadID turnID w res2 n1 of
             WGo n2 \<Rightarrow> wait_loop threadID turnID n2 rounds
           | r \<Rightarrow> r)
      | r \<Rightarrow> r)"

definition wait_for_turn :: "string \<Rightarrow> string \<Rightarrow> wait_round list \<Rightarrow> wait_result" where
  "wait_for_turn threadID turnID rounds =
     (if trim_space threadID = [] then WFail (ErrText ''threadID is required'')
      else if trim_space turnID = [] then WFail (ErrText ''turnID is required'')
      else wait_loop threadID turnID 0 rounds)"

section \<open>The collector\<close>

record collector =
  oc_turn :: "turn option"
  oc_items :: "item list"
  oc_payloads :: "json list"
  oc_deltas :: "string list"
  oc_usage :: "goval option"

definition new_collector :: collector where
  "new_collector = \<lparr>oc_turn = None, oc_items = [], oc_payloads = [], oc_deltas = [], oc_usage = None\<rparr>"

text \<open>Merging by id: an index from ids to positions, the last position of an id at first.\<close>

fun index_by_id :: "nat \<Rightarrow> item list \<Rightarrow> (string \<rightharpoonup> nat) \<Rightarrow> (string \<rightharpoonup> nat)" where
  "index_by_id i [] m = m"
| "index_by_id i (it # its) m =
     index_by_id (Suc i) its (if item_id it \<noteq> [] then m(item_id it \<mapsto> i) else m)"

fun merge_loop :: "(string \<rightharpoonup> nat) \<Rightarrow> item list \<Rightarrow> item list \<Rightarrow> item list" where
  "merge_loop m merged [] = merged"
| "merge_loop m merged (it # its) =
     (if item_id it \<noteq> [] then
        (case m (item_id it) of
           Some i \<Rightarrow> merge_loop m (merged[i := it]) its
         | None \<Rightarrow> merge_loop (m(item_id it \<mapsto> length merged)) (merged @ [it]) its)
      else merge_loop m (merged @ [it]) its)"

definition merge_items :: "item list \<Rightarrow> item list \<Rightarrow> item list" where
  "merge_items existing incoming =
     (if existing = [] then incoming
      else merge_loop (index_by_id 0 existing Map.empty) existing incoming)"

definition raw_list :: "raw \<Rightarrow> json list" where
  "raw_list r = (case r of None \<Rightarrow> [] | Some j \<Rightarrow> [j])"

definition capture_turn :: "turn \<Rightarrow> collector \<Rightarrow> collector" where
  "capture_turn t c = c\<lparr>oc_turn := Some t, oc_items := merge_items (oc_items c) (turn_items t),
     oc_payloads := oc_payloads c @ concat (map (raw_list \<circ> item_payload) (turn_items t)) @ raw_list (turn_raw t)\<rparr>"

definition capture_item :: "item \<Rightarrow> collector \<Rightarrow> collector" where
  "capture_item it c = c\<lparr>oc_items := oc_items c @ [it], oc_payloads := oc_payloads c @ raw_list (item_payload it)\<rparr>"

definition capture_event :: "anylib \<Rightarrow> event \<Rightarrow> collector \<Rightarrow> collector" where
  "capture_event lib e c =
     (case ev_value e of
        None \<Rightarrow> c
      | Some v \<Rightarrow>
          if fst v = ''ItemCompletedEvent'' then
            (case vptr (sel ''item'' v) of None \<Rightarrow> c | Some i \<Rightarrow> capture_item (item_of i) c)
          else if fst v = ''ItemAgentMessageDeltaEvent'' then
            (let text = first_non_empty [vstr (sel ''text'' v), extract_string_candidate lib (ev_raw e)]
             in if text \<noteq> [] then c\<lparr>oc_deltas := oc_deltas c @ [text]\<rparr> else c)
          else if fst v = ''TurnCompletedEvent'' then
            (let c1 = (case turn_ptr (sel ''turn'' v) of None \<Rightarrow> c | Some t \<Rightarrow> capture_turn t c)
             in (case vptr (sel ''usage'' v) of None \<Rightarrow> c1 | Some u \<Rightarrow> c1\<lparr>oc_usage := Some u\<rparr>))
          else c)"

definition delta_text :: "collector \<Rightarrow> string" where
  "delta_text c = concat (oc_deltas c)"

text \<open>The events buffered on the subscription; they are all consumed.\<close>

fun capture_pending_events :: "anylib \<Rightarrow> string \<Rightarrow> string \<Rightarrow> event list \<Rightarrow> collector \<Rightarrow> collector" where
  "capture_pending_events lib threadID turnID [] c = c"
| "capture_pending_events lib threadID turnID (e # es) c =
     capture_pending_events lib threadID turnID es
       (if event_matches_turn e threadID turnID then capture_event lib e c else c)"

definition agent_texts :: "anylib \<Rightarrow> item list \<Rightarrow> string list" where
  "agent_texts lib items =
     map (extract_text_candidate lib \<circ> item_payload)
       (filter (\<lambda>i. item_kind i = ItemKindAgentMessage) (rev items))"

definition final_agent_message :: "anylib \<Rightarrow> turn \<Rightarrow> collector \<Rightarrow> string" where
  "final_agent_message lib t c =
     (let own = first_text (agent_texts lib (turn_items t)); seen = first_text (agent_texts lib (oc_items c)) in
      if own \<noteq> [] then own
      else if seen \<noteq> [] then seen
      else if oc_deltas c \<noteq> [] then concat (oc_deltas c)
      else first_text (map (extract_text_candidate lib \<circ> Some) (rev (oc_payloads c))))"

fun first_some :: "'a option list \<Rightarrow> 'a option" where
  "first_some [] = None"
| "first_some (x # xs) = (case x of Some y \<Rightarrow> Some y | None \<Rightarrow> first_some xs)"

definition structured_payload :: "anylib \<Rightarrow> turn \<Rightarrow> collector \<Rightarrow> raw" where
  "structured_payload lib t c =
     (case first_some (map (extract_structured_candidate lib)
         (map item_payload (rev (oc_items c)) @ map item_payload (rev (turn_items t)) @ map Some (rev (oc_payloads c)))) of
        Some j \<Rightarrow> Some j
      | None \<Rightarrow> json_parse (trim_space (concat (oc_deltas c))))"

section \<open>Waiting for the output of a turn\<close>

text \<open>
  One round of a retry: whether the context ended, the events buffered by then, and the answer of
  the server.  A round of the loop has the answer, the events buffered when the turn is found
  terminal with the rounds of the retry, the case of the select, and the answer to the read
  after a completion event.
\<close>

type_synonym retry_round = "bool \<times> event list \<times> (go_error + thread)"

definition nothing_collected :: "collector \<Rightarrow> bool" where
  "nothing_collected c \<longleftrightarrow> oc_items c = [] \<and> oc_deltas c = [] \<and> oc_usage c = None"

fun retry_rounds :: "anylib \<Rightarrow> string \<Rightarrow> string \<Rightarrow> turn \<Rightarrow> collector \<Rightarrow> retry_round list \<Rightarrow> turn \<times> collector" where
  "retry_rounds lib threadID turnID best c [] = (best, c)"
| "retry_rounds lib threadID turnID best c ((ended, evs, res) # rs) =
     (if ended then (best, c)
      else
        let c1 = capture_pending_events lib threadID turnID evs c in
        if \<not> nothing_collected c1 then (best, c1)
        else (case read_turn turnID res of
                Inl e \<Rightarrow> retry_rounds lib threadID turnID best c1 rs
              | Inr t \<Rightarrow>
                  let c2 = capture_turn t c1 in
                  if turn_items t \<noteq> [] \<or> turn_usage t \<noteq> None then (t, c2)
                  else retry_rounds lib threadID turnID t c2 rs))"

definition retry_read_turn_for_items ::
  "anylib \<Rightarrow> string \<Rightarrow> string \<Rightarrow> turn \<Rightarrow> collector \<Rightarrow> retry_round list \<Rightarrow> turn \<times> collector" where
  "retry_read_turn_for_items lib threadID turnID initial c rs =
     retry_rounds lib threadID turnID initial c (take 3 rs)"

record output_round =
  or_read :: "go_error + thread"
  or_pending :: "event list"
  or_retry :: "retry_round list"
  or_wake :: wake
  or_read2 :: "go_error + thread"

datatype output_result = OReturn turn collector | OFail go_error | OGo nat collector bool

definition output_poll ::
  "anylib \<Rightarrow> string \<Rightarrow> string \<Rightarrow> output_round \<Rightarrow> nat \<Rightarrow> collector \<Rightarrow> bool \<Rightarrow> output_result" where
  "output_poll lib threadID turnID r n c sub =
     (case read_turn turnID (or_read r) of
        Inr t \<Rightarrow>
          let c1 = capture_turn t c in
          if is_terminal_turn_status (turn_status t) then
            let c2 = (if sub then capture_pending_events lib threadID turnID (or_pending r) c1 else c1) in
            if turn_status t = TurnStatusCompleted \<and> turn_items t = [] \<and> nothing_collected c2
            then (case retry_read_turn_for_items lib threadID turnID t c2
                    (if sub then or_retry r else map (\<lambda>(ended, evs, res). (ended, [], res)) (or_retry r)) of
                    (t', c3) \<Rightarrow> OReturn t' c3)
            else OReturn t c2
          else OGo 0 c1 sub
      | Inl e \<Rightarrow>
          if error_is e ErrTurnNotFound then OGo 0 c sub
          else if is_transient_error (Some e)
          then if n + 1 \<ge> max_transient_retries then OFail e else OGo (n + 1) c sub
          else OFail e)"

definition completed_turn :: "event \<Rightarrow> turn option" where
  "completed_turn e =
     (case ev_value e of
        Some v \<Rightarrow> if fst v = ''TurnCompletedEvent'' then turn_ptr (sel ''turn'' v) else None
      | None \<Rightarrow> None)"

definition output_select ::
  "anylib \<Rightarrow> string \<Rightarrow> string \<Rightarrow> output_round \<Rightarrow> nat \<Rightarrow> collector \<Rightarrow> bool \<Rightarrow> output_result" where
  "output_select lib threadID turnID r n c sub =
     (case or_wake r of
        CtxDone e \<Rightarrow> OFail e
      | SubClosed \<Rightarrow> OGo n c False
      | Tick \<Rightarrow> OGo n c sub
      | SubEvent ev \<Rightarrow>
          if \<not> event_matches_turn ev threadID turnID then OGo n c sub
          else
            let c1 = capture_event lib ev c in
            if ev_method ev = MethodTurnCompleted then
              (case read_turn turnID (or_read2 r) of
                 Inr t \<Rightarrow> OReturn t (capture_turn t c1)
               | Inl e \<Rightarrow>
                   (case completed_turn ev of
                      Some t \<Rightarrow> OReturn t (capture_turn t c1)
                    | None \<Rightarrow> OGo n c1 sub))
            else OGo n c1 sub)"

fun output_loop ::
  "anylib \<Rightarrow> string \<Rightarrow> string \<Rightarrow> nat \<Rightarrow> collector \<Rightarrow> bool \<Rightarrow> output_round list \<Rightarrow> output_result" where
  "output_loop lib threadID turnID n c sub [] = OGo n c sub"
| "output_loop lib threadID turnID n c sub (r # rs) =
     (case output_poll lib threadID turnID r n c sub of
        OGo n1 c1 s1 \<Rightarrow>
          (case output_select lib threadID turnID r n1 c1 s1 of
             OGo n2 c2 s2 \<Rightarrow> output_loop lib threadID turnID n2 c2 s2 rs
           | x \<Rightarrow> x)
      | x \<Rightarrow> x)"

definition wait_for_turn_output :: "anylib \<Rightarrow> string \<Rightarrow> string \<Rightarrow> output_round list \<Rightarrow> output_result" where
  "wait_for_turn_output lib threadID turnID rs = output_loop lib threadID turnID 0 new_collector True rs"

text \<open>The two public waits over what it returned.\<close>

definition wait_for_final_agent_message :: "anylib \<Rightarrow> string \<Rightarrow> output_result \<Rightarrow> (go_error + string) option" where
  "wait_for_final_agent_message lib turnID r =
     (case r of
        OGo n c s \<Rightarrow> None
      | OFail e \<Rightarrow> Some (Inl e)
      | OReturn t c \<Rightarrow>
          let text = trim_space (final_agent_message lib t c) in
          Some (if text = [] then Inl (ErrText (''no final agent message found for turn '' @ turnID)) else Inr text))"

definition wait_for_structured_output ::
  "anylib \<Rightarrow> codecs \<Rightarrow> gotype \<Rightarrow> string \<Rightarrow> output_result \<Rightarrow> (turn \<times> (go_error + goval)) option" where
  "wait_for_structured_output lib env out turnID r =
     (case r of
        OGo n c s \<Rightarrow> None
      | OFail e \<Rightarrow> Some (zero_turn, Inl e)
      | OReturn t c \<Rightarrow>
          Some (t, case structured_payload lib t c of
                     None \<Rightarrow> Inl (ErrText (''no structured output found for turn '' @ turnID))
                   | Some j \<Rightarrow>
                       (case json_unmarshal env out j of
                          None \<Rightarrow> Inl (ErrWrap ''decode structured output: '' (ErrText ''json: cannot unmarshal'') [])
                        | Some v \<Rightarrow> Inr v)))"

section \<open>The result of a turn\<close>

record turn_result =
  tr_turn :: turn
  tr_items :: "item list"
  tr_usage :: "goval option"
  tr_error :: "goval option"
  tr_delta_text :: string

definition final_agent_text :: "anylib \<Rightarrow> turn_result \<Rightarrow> string" where
  "final_agent_text lib r =
     (let own = first_text (agent_texts lib (tr_items r)); seen = first_text (agent_texts lib (turn_items (tr_turn r))) in
      if own \<noteq> [] then trim_space own
      else if seen \<noteq> [] then trim_space seen
      else if tr_delta_text r \<noteq> [] then trim_space (tr_delta_text r)
      else [])"

definition run_result :: "anylib \<Rightarrow> turn \<Rightarrow> collector \<Rightarrow> turn_result" where
  "run_result lib completed c =
     (let r = \<lparr>tr_turn = completed,
           tr_items = (if turn_items completed = [] then oc_items c else turn_items completed),
           tr_usage = (case turn_usage completed of Some u \<Rightarrow> Some u | None \<Rightarrow> oc_usage c),
           tr_error = (case turn_error completed of
              None \<Rightarrow> None
            | Some j \<Rightarrow> if j = JNull then None else json_unmarshal no_codecs TurnError_t j),
           tr_delta_text = []\<rparr>
      in if final_agent_text lib r = [] then r\<lparr>tr_delta_text := delta_text c\<rparr> else r)"

section \<open>Streaming\<close>

record thread_event =
  te_kind :: string
  te_raw :: "any_value option"

text \<open>
  The forwarding goroutine of \<^verbatim>\<open>RunStreamed\<close> on the events of its subscription: what it sends before
  it stops, and whether it stopped by itself.
\<close>

fun stream_events :: "string \<Rightarrow> string \<Rightarrow> event list \<Rightarrow> thread_event list \<times> bool" where
  "stream_events threadID turnID [] = ([], False)"
| "stream_events threadID turnID (e # es) =
     (if \<not> event_matches_turn e threadID turnID then stream_events threadID turnID es
      else
        let te = \<lparr>te_kind = ev_method e, te_raw = ev_value e\<rparr> in
        if ev_method e = MethodTurnCompleted then ([te], True)
        else if ev_method e = MethodError then ([te], True)
        else (case stream_events threadID turnID es of (tes, stopped) \<Rightarrow> (te # tes, stopped)))"

text \<open>\<^verbatim>\<open>StreamText\<close>: the text written for the events received, with a writer that does not fail.\<close>

definition event_text :: "thread_event \<Rightarrow> string" where
  "event_text te =
     (case te_raw te of
        Some v \<Rightarrow> if fst v = ''ItemAgentMessageDeltaEvent'' then vstr (sel ''text'' v) else []
      | None \<Rightarrow> [])"

definition stream_text :: "thread_event list \<Rightarrow> string" where
  "stream_text tes = concat (map event_text tes)"

end
