(* ===== verification/WaitProps.thy ===== *)
theory WaitProps imports Wait begin

text \<open>
  The wait for a turn against a reference that only sees the answers of the server, when it returns
  and when it gives up; merging of items against its specification; and the text of a result.
\<close>

section \<open>Reading a turn\<close>

lemma find_turn_Some: "find_turn i ts = Some t \<Longrightarrow> turn_id t = i \<and> t \<in> set ts"
  by (induction ts) (auto split: if_splits)

lemma read_turn_ok: "read_turn tu res = Inr t \<Longrightarrow> turn_id t = tu \<and> (\<exists>th. res = Inr th \<and> t \<in> set (thread_turns th))"
  by (auto simp: read_turn_def split: sum.splits if_splits option.splits dest: find_turn_Some)

section \<open>The reads of a run\<close>

definition round_reads :: "string \<Rightarrow> string \<Rightarrow> wait_round \<Rightarrow> (go_error + turn) list" where
  "round_reads th tu r =
     (case r of (res, w, res2) \<Rightarrow>
        read_turn tu res #
        (case w of SubEvent ev \<Rightarrow> if wait_wakes ev th tu then [read_turn tu res2] else [] | _ \<Rightarrow> []))"

definition reads :: "string \<Rightarrow> string \<Rightarrow> wait_round list \<Rightarrow> (go_error + turn) list" where
  "reads th tu rounds = concat (map (round_reads th tu) rounds)"

fun scan :: "nat \<Rightarrow> (go_error + turn) list \<Rightarrow> wait_result" where
  "scan n [] = WGo n"
| "scan n (r # rs) = (case wait_check n r of WGo m \<Rightarrow> scan m rs | x \<Rightarrow> x)"

definition context_lives :: "wait_round list \<Rightarrow> bool" where
  "context_lives rounds \<longleftrightarrow> (\<forall>(res, w, res2)\<in>set rounds. \<forall>e. w \<noteq> CtxDone e)"

lemma scan_append: "scan n (rs @ rs') = (case scan n rs of WGo m \<Rightarrow> scan m rs' | x \<Rightarrow> x)"
  by (induction n rs rule: scan.induct) (auto split: wait_result.split)

lemma wait_loop_scan: "context_lives rounds \<Longrightarrow> wait_loop th tu n rounds = scan n (reads th tu rounds)"
proof (induction rounds arbitrary: n)
  case (Cons r rounds)
  obtain res w res2 where r: "r = (res, w, res2)" by (cases r)
  from Cons.prems have w: "\<And>e. w \<noteq> CtxDone e" and l: "context_lives rounds"
    by (auto simp: context_lives_def r)
  show ?case
    using w by (cases w)
      (auto simp: r reads_def round_reads_def wait_select_def Cons.IH [OF l, unfolded reads_def]
        split: wait_result.split)
qed (simp add: reads_def)

section \<open>Returning\<close>

lemma scan_return: "scan n rs = WReturn t \<Longrightarrow> Inr t \<in> set rs \<and> is_terminal_turn_status (turn_status t)"
  by (induction n rs rule: scan.induct)
    (auto simp: wait_check_def split: wait_result.splits sum.splits if_splits)

lemma wait_check_return: "wait_check n r = WReturn t \<Longrightarrow> r = Inr t \<and> is_terminal_turn_status (turn_status t)"
  by (auto simp: wait_check_def split: sum.splits if_splits)

lemma wait_loop_return:
  "wait_loop th tu n rounds = WReturn t \<Longrightarrow> is_terminal_turn_status (turn_status t) \<and>
     (\<exists>(res, w, res2)\<in>set rounds. read_turn tu res = Inr t \<or> read_turn tu res2 = Inr t)"
proof (induction rounds arbitrary: n)
  case (Cons r rounds)
  obtain res w res2 where r: "r = (res, w, res2)" by (cases r)
  from Cons.prems show ?case
    by (auto simp: r wait_select_def split: wait_result.splits wake.splits if_splits
        dest: wait_check_return dest!: Cons.IH)
qed simp

text \<open>
  The turn \<^verbatim>\<open>WaitForTurn\<close> returns is the one asked for, in a terminal status, as some answer of the
  server had it.
\<close>

theorem wait_returns_terminal:
  assumes "wait_for_turn th tu rounds = WReturn t"
  shows "is_terminal_turn_status (turn_status t) \<and> turn_id t = tu \<and>
    (\<exists>(res, w, res2)\<in>set rounds. \<exists>thr. (res = Inr thr \<or> res2 = Inr thr) \<and> t \<in> set (thread_turns thr))"
proof -
  from assms have "wait_loop th tu 0 rounds = WReturn t" by (simp add: wait_for_turn_def split: if_splits)
  from wait_loop_return [OF this] obtain res w res2 where
    t: "is_terminal_turn_status (turn_status t)" "(res, w, res2) \<in> set rounds"
      "read_turn tu res = Inr t \<or> read_turn tu res2 = Inr t"
    by blast
  then show ?thesis using read_turn_ok [of tu res t] read_turn_ok [of tu res2 t] by blast
qed

definition demo_turn :: "string \<Rightarrow> turn" where
  "demo_turn s = zero_turn\<lparr>turn_id := ''u1'', turn_status := s\<rparr>"

definition demo_thread :: "string \<Rightarrow> thread" where
  "demo_thread s = zero_thread\<lparr>thread_id := ''t1'', thread_turns := [demo_turn s]\<rparr>"

definition busy :: go_error where
  "busy = ErrText ''rollout is empty''"

definition demo_rounds :: "wait_round list" where
  "demo_rounds = [(Inl busy, Tick, Inl busy), (Inr (demo_thread TurnStatusInProgress), Tick, Inl busy),
     (Inr (demo_thread TurnStatusCompleted), Tick, Inl busy)]"

lemmas demo_defs = demo_turn_def demo_thread_def zero_turn_def zero_thread_def

lemma busy_facts:
  "is_transient_error (Some busy)" "\<not> error_is busy ErrTurnNotFound"
  "is_transient_error (Some (ErrWrap ''thread/read: '' busy []))"
  "\<not> contains ''not materialized'' (error_text busy)"
  by code_simp+

lemma demo_read:
  "read_turn ''u1'' (Inr (demo_thread s)) = Inr (demo_turn s)"
  "read_turn ''u1'' (Inl busy) = Inl (ErrWrap ''thread/read: '' busy [])"
  by (simp_all add: read_turn_def demo_defs busy_facts)

lemma demo_status [simp]: "turn_status (demo_turn s) = s"
  by (simp add: demo_defs)

lemma demo_wait: "wait_for_turn ''t1'' ''u1'' demo_rounds = WReturn (demo_turn TurnStatusCompleted)"
proof -
  have "trim_space ''t1'' \<noteq> []" "trim_space ''u1'' \<noteq> []" by code_simp+
  then show ?thesis
    by (simp add: wait_for_turn_def demo_rounds_def demo_read wait_check_def busy_facts wait_select_def
        max_transient_retries_def is_terminal_turn_status_def)
qed

theorem wait_returns_terminal_witness:
  "is_terminal_turn_status (turn_status (demo_turn TurnStatusCompleted)) \<and> turn_id (demo_turn TurnStatusCompleted) = ''u1''"
  using wait_returns_terminal [OF demo_wait] by blast

section \<open>Giving up\<close>

definition transient :: "go_error + turn \<Rightarrow> bool" where
  "transient r = (case r of Inl e \<Rightarrow> \<not> error_is e ErrTurnNotFound \<and> is_transient_error (Some e) | Inr t \<Rightarrow> False)"

definition fatal :: "go_error + turn \<Rightarrow> bool" where
  "fatal r = (case r of Inl e \<Rightarrow> \<not> error_is e ErrTurnNotFound \<and> \<not> is_transient_error (Some e) | Inr t \<Rightarrow> False)"

definition terminal :: "go_error + turn \<Rightarrow> bool" where
  "terminal r = (case r of Inl e \<Rightarrow> False | Inr t \<Rightarrow> is_terminal_turn_status (turn_status t))"

lemma wait_check_cases:
  "wait_check n r =
     (if terminal r then WReturn (projr r)
      else if fatal r then WFail (projl r)
      else if transient r then (if n + 1 \<ge> max_transient_retries then WFail (projl r) else WGo (n + 1))
      else WGo 0)"
  by (auto simp: wait_check_def terminal_def fatal_def transient_def split: sum.split)

text \<open>The shape of a sequence of answers on which the wait fails, with \<open>n\<close> transient ones before it.\<close>

lemma scan_fail:
  assumes "scan n rs = WFail e"
  shows "\<exists>pre run r post. rs = pre @ run @ r # post \<and> projl r = e \<and> \<not> terminal r \<and>
    (fatal r \<or> transient r \<and> (\<forall>x\<in>set run. transient x) \<and>
       (max_transient_retries \<le> length run + 1 \<or> pre = [] \<and> max_transient_retries \<le> n + length run + 1))"
  using assms
proof (induction n rs rule: scan.induct)
  case (2 n r rs)
  show ?case
  proof (cases "wait_check n r")
    case (WFail e')
    with 2 have "projl r = e" "\<not> terminal r" "fatal r \<or> transient r \<and> max_transient_retries \<le> n + 1"
      by (auto simp: wait_check_cases split: if_splits)
    then have "r # rs = [] @ [] @ r # rs \<and> projl r = e \<and> \<not> terminal r \<and>
      (fatal r \<or> transient r \<and> (\<forall>x\<in>set []. transient x) \<and>
         (max_transient_retries \<le> length [] + 1 \<or> [] = [] \<and> max_transient_retries \<le> n + length [] + 1))"
      by auto
    then show ?thesis by blast
  next
    case (WGo m)
    with 2 obtain pre run r' post where s: "rs = pre @ run @ r' # post" "projl r' = e" "\<not> terminal r'"
      "fatal r' \<or> transient r' \<and> (\<forall>x\<in>set run. transient x) \<and>
         (max_transient_retries \<le> length run + 1 \<or> pre = [] \<and> max_transient_retries \<le> m + length run + 1)"
      by auto
    have m: "m = 0 \<or> m = Suc n \<and> transient r"
      using WGo by (auto simp: wait_check_cases split: if_splits)
    show ?thesis
    proof (cases "m = Suc n \<and> transient r \<and> pre = []")
      case True
      with s have "r # rs = [] @ (r # run) @ r' # post \<and> projl r' = e \<and> \<not> terminal r' \<and>
        (fatal r' \<or> transient r' \<and> (\<forall>x\<in>set (r # run). transient x) \<and>
           (max_transient_retries \<le> length (r # run) + 1 \<or> [] = [] \<and> max_transient_retries \<le> n + length (r # run) + 1))"
        by auto
      then show ?thesis by blast
    next
      case False
      with s m have "r # rs = (r # pre) @ run @ r' # post \<and> projl r' = e \<and> \<not> terminal r' \<and>
        (fatal r' \<or> transient r' \<and> (\<forall>x\<in>set run. transient x) \<and>
           (max_transient_retries \<le> length run + 1 \<or> r # pre = [] \<and> max_transient_retries \<le> n + length run + 1))"
        by auto
      then show ?thesis by blast
    qed
  qed (use 2 in auto)
qed simp

text \<open>
  While its context lives, \<^verbatim>\<open>WaitForTurn\<close> gives up only on an answer that is a fatal error, or that is
  the last of at least five transient errors in a row.
\<close>

theorem wait_gives_up:
  assumes "context_lives rounds" and "wait_loop th tu 0 rounds = WFail e"
  shows "\<exists>pre run r post. reads th tu rounds = pre @ run @ r # post \<and> r = Inl e \<and>
    (fatal r \<or> transient r \<and> (\<forall>x\<in>set run. transient x) \<and> 5 \<le> length run + 1)"
proof -
  from scan_fail [of 0 "reads th tu rounds" e] assms wait_loop_scan
  obtain pre run r post where s: "reads th tu rounds = pre @ run @ r # post" "projl r = e" "\<not> terminal r"
    "fatal r \<or> transient r \<and> (\<forall>x\<in>set run. transient x) \<and> 5 \<le> length run + 1"
    by (auto simp: max_transient_retries_def)
  then have "r = Inl e" by (cases r) (auto simp: fatal_def transient_def)
  with s show ?thesis by blast
qed

lemma demo_give_up:
  "wait_loop ''t1'' ''u1'' 0 (replicate 5 (Inl busy, Tick, Inl busy)) = WFail (ErrWrap ''thread/read: '' busy [])"
  by (simp add: numeral_eq_Suc demo_read wait_check_def busy_facts wait_select_def max_transient_retries_def)

theorem wait_gives_up_witness:
  "\<exists>pre run r post. reads ''t1'' ''u1'' (replicate 5 (Inl busy, Tick, Inl busy)) = pre @ run @ r # post \<and>
    r = Inl (ErrWrap ''thread/read: '' busy []) \<and>
    (fatal r \<or> transient r \<and> (\<forall>x\<in>set run. transient x) \<and> 5 \<le> length run + 1)"
  by (rule wait_gives_up [OF _ demo_give_up]) (simp add: context_lives_def)

section \<open>Liveness\<close>

lemma scan_reaches:
  "(\<forall>r\<in>set rs. \<not> fatal r \<and> \<not> terminal r) \<Longrightarrow> n + length (filter transient rs) < max_transient_retries \<Longrightarrow>
     \<exists>m. scan n rs = WGo m"
proof (induction n rs rule: scan.induct)
  case (2 n r rs)
  then show ?case by (auto simp: wait_check_cases split: if_splits)
qed simp

text \<open>
  C29. If the server answers with the turn in a terminal status, after answers without a fatal error and
  with fewer than five transient errors, then \<^verbatim>\<open>WaitForTurn\<close> returns that turn.
\<close>

theorem wait_returns:
  assumes "context_lives rounds" and "trim_space th \<noteq> []" and "trim_space tu \<noteq> []"
    and "reads th tu rounds = pre @ Inr t # post" and "is_terminal_turn_status (turn_status t)"
    and "\<forall>r\<in>set pre. \<not> fatal r \<and> \<not> terminal r" and "length (filter transient pre) < 5"
  shows "wait_for_turn th tu rounds = WReturn t"
proof -
  obtain m where m: "scan 0 pre = WGo m"
    using scan_reaches [OF assms(6), of 0] assms(7) by (auto simp: max_transient_retries_def)
  have "wait_check m (Inr t) = WReturn t" using assms(5) by (simp add: wait_check_def)
  with m assms show ?thesis by (simp add: wait_for_turn_def wait_loop_scan scan_append)
qed

theorem wait_returns_witness:
  "wait_for_turn ''t1'' ''u1'' demo_rounds = WReturn (demo_turn TurnStatusCompleted)"
proof (rule wait_returns)
  let ?pre = "[Inl (ErrWrap ''thread/read: '' busy []), Inr (demo_turn TurnStatusInProgress)]"
  show "context_lives demo_rounds" by (simp add: context_lives_def demo_rounds_def)
  show "trim_space ''t1'' \<noteq> []" "trim_space ''u1'' \<noteq> []" by code_simp+
  show "reads ''t1'' ''u1'' demo_rounds = ?pre @ Inr (demo_turn TurnStatusCompleted) # []"
    by (simp add: reads_def round_reads_def demo_rounds_def demo_read)
  show "is_terminal_turn_status (turn_status (demo_turn TurnStatusCompleted))"
    by (simp add: is_terminal_turn_status_def)
  show "\<forall>r\<in>set ?pre. \<not> fatal r \<and> \<not> terminal r"
    by (simp add: fatal_def terminal_def busy_facts is_terminal_turn_status_def)
  show "length (filter transient ?pre) < 5" by simp
qed

end
