(* ===== verification/OutputProps.thy ===== *)
theory OutputProps imports Wait begin

text \<open>
  The collector: merging by id against its specification, what the text of a result is, and the
  answers a client can get from a completion event.
\<close>

section \<open>Merging\<close>

definition ids :: "item list \<Rightarrow> string list" where
  "ids its = filter (\<lambda>i. i \<noteq> []) (map item_id its)"

lemma ids_simps [simp]:
  "ids [] = []" "ids (it # its) = (if item_id it \<noteq> [] then item_id it # ids its else ids its)"
  "ids (xs @ ys) = ids xs @ ids ys"
  by (simp_all add: ids_def)

lemma ids_set: "i \<in> set (ids its) \<longleftrightarrow> i \<noteq> [] \<and> (\<exists>it\<in>set its. item_id it = i)"
  by (auto simp: ids_def)

lemma ids_map: "map item_id xs = map item_id ys \<Longrightarrow> ids xs = ids ys"
  by (simp add: ids_def)

lemma ids_update:
  assumes "item_id it = item_id (xs ! i)"
  shows "map item_id (xs[i := it]) = map item_id xs"
proof (cases "i < length xs")
  case True
  with assms show ?thesis by (simp add: map_update list_update_same_conv)
qed (metis list_update_beyond not_less)

text \<open>
  The specification, without an index.  An item seen before stays in its place; where its id occurs for the
  last time, it is there in its newest version, and copies further ahead stay as they were.  The items
  with other ids follow in their order, each once, in its newest version, and so do items without an id.
\<close>

definition newest :: "item list \<Rightarrow> item \<Rightarrow> item" where
  "newest its x =
     (if item_id x = [] then x
      else (case List.find (\<lambda>y. item_id y = item_id x) (rev its) of Some y \<Rightarrow> y | None \<Rightarrow> x))"

fun refresh :: "item list \<Rightarrow> item list \<Rightarrow> item list" where
  "refresh its [] = []"
| "refresh its (x # xs) = (if item_id x \<in> set (ids xs) then x else newest its x) # refresh its xs"

fun added :: "string set \<Rightarrow> item list \<Rightarrow> item list" where
  "added seen [] = []"
| "added seen (x # xs) =
     (if item_id x \<in> seen then added seen xs else newest xs x # added (set (ids [x]) \<union> seen) xs)"

definition merge_spec :: "item list \<Rightarrow> item list \<Rightarrow> item list" where
  "merge_spec existing incoming = refresh incoming existing @ added (set (ids existing)) incoming"

lemma newest_Nil [simp]: "newest [] x = x"
  by (simp add: newest_def)

lemma find_append: "List.find P (xs @ ys) = (case List.find P xs of Some x \<Rightarrow> Some x | None \<Rightarrow> List.find P ys)"
  by (induction xs) simp_all

lemma newest_Cons: "newest (it # its) x = newest its (if item_id x \<noteq> [] \<and> item_id it = item_id x then it else x)"
  by (auto simp: newest_def find_append split: option.split)

lemma refresh_nth:
  "length (refresh its xs) = length xs \<and> (\<forall>p < length xs. refresh its xs ! p =
     (if item_id (xs ! p) \<in> set (ids (drop (Suc p) xs)) then xs ! p else newest its (xs ! p)))"
proof (induction xs)
  case (Cons x xs)
  then show ?case by (auto simp: nth_Cons split: nat.split)
qed simp

lemma refresh_unseen: "item_id it \<notin> set (ids xs) \<Longrightarrow> refresh (it # its) xs = refresh its xs"
  by (induction xs) (auto simp: newest_Cons split: if_splits)

lemma refresh_snoc: "item_id it \<notin> set (ids xs) \<Longrightarrow> refresh its (xs @ [it]) = refresh its xs @ [newest its it]"
  by (induction xs) (auto split: if_splits)

section \<open>The index\<close>

text \<open>The index of a list: the last position of each id.\<close>

definition last_at :: "string \<Rightarrow> nat \<Rightarrow> item list \<Rightarrow> bool" where
  "last_at k i its \<longleftrightarrow> i < length its \<and> item_id (its ! i) = k \<and> k \<notin> set (ids (drop (Suc i) its))"

definition indexes :: "(string \<rightharpoonup> nat) \<Rightarrow> item list \<Rightarrow> bool" where
  "indexes m its \<longleftrightarrow> (\<forall>k i. k \<noteq> [] \<longrightarrow> (m k = Some i \<longleftrightarrow> last_at k i its))"

lemma last_at_snoc:
  "k \<noteq> [] \<Longrightarrow> last_at k i (its @ [it]) \<longleftrightarrow> (if item_id it = k then i = length its else last_at k i its)"
  by (auto simp: last_at_def nth_append less_Suc_eq)

lemma indexes_snoc:
  "indexes m its \<Longrightarrow> indexes (if item_id it \<noteq> [] then m(item_id it \<mapsto> length its) else m) (its @ [it])"
  by (auto simp: indexes_def last_at_snoc)

lemma indexes_update:
  assumes "indexes m its" and "item_id it = item_id (its ! i)"
  shows "indexes m (its[i := it])"
proof -
  note same = ids_update [OF assms(2)]
  have "item_id (its[i := it] ! j) = item_id (its ! j)" if "j < length its" for j
    using arg_cong [OF same, of "\<lambda>ks. ks ! j"] that by simp
  moreover have "ids (drop n (its[i := it])) = ids (drop n its)" for n
    by (rule ids_map) (metis drop_map same)
  ultimately have "last_at k j (its[i := it]) \<longleftrightarrow> last_at k j its" for k j by (auto simp: last_at_def)
  with assms(1) show ?thesis by (simp add: indexes_def)
qed

lemma indexes_by_id: "indexes m pre \<Longrightarrow> indexes (index_by_id (length pre) its m) (pre @ its)"
proof (induction its arbitrary: m pre)
  case (Cons it its)
  from Cons.IH [OF indexes_snoc [OF Cons.prems, of it]] show ?case by simp
qed simp

lemma last_at_exists: "k \<in> set (ids its) \<Longrightarrow> \<exists>i. last_at k i its"
proof (induction its rule: rev_induct)
  case (snoc it its)
  then have "k \<noteq> []" by (auto simp: ids_def split: if_splits)
  with snoc show ?case by (auto simp: last_at_snoc split: if_splits)
qed simp

lemma indexes_new: "indexes m its \<Longrightarrow> k \<noteq> [] \<Longrightarrow> m k = None \<Longrightarrow> k \<notin> set (ids its)"
  using last_at_exists [of k its] by (auto simp: indexes_def)

section \<open>The merge against its specification\<close>

lemma merge_spec_new:
  assumes "item_id it \<notin> set (ids merged)"
  shows "merge_spec (merged @ [it]) its = merge_spec merged (it # its)"
  using assms by (simp add: merge_spec_def refresh_unseen refresh_snoc Un_commute)

lemma merge_spec_known:
  assumes "last_at (item_id it) i merged" and "item_id it \<noteq> []"
  shows "merge_spec (merged[i := it]) its = merge_spec merged (it # its)"
proof -
  from assms have i: "i < length merged" "item_id (merged ! i) = item_id it"
    "item_id it \<notin> set (ids (drop (Suc i) merged))" by (simp_all add: last_at_def)
  note same = ids_update [OF i(2) [symmetric]]
  have drop_ids: "ids (drop n (merged[i := it])) = ids (drop n merged)" for n
    by (rule ids_map) (metis drop_map same)
  have "refresh its (merged[i := it]) = refresh (it # its) merged"
  proof (rule nth_equalityI)
    show "length (refresh its (merged[i := it])) = length (refresh (it # its) merged)" by (simp add: refresh_nth)
    fix p assume "p < length (refresh its (merged[i := it]))"
    then have p: "p < length merged" by (simp add: refresh_nth)
    show "refresh its (merged[i := it]) ! p = refresh (it # its) merged ! p"
    proof (cases "p = i")
      case True
      with p i assms(2) show ?thesis by (simp add: refresh_nth drop_ids newest_Cons)
    next
      case False
      have "item_id (merged ! p) \<in> set (ids (drop (Suc p) merged))" if eq: "item_id it = item_id (merged ! p)"
      proof -
        have "p < i"
        proof (rule ccontr)
          assume "\<not> p < i"
          with False p have "merged ! p \<in> set (drop (Suc i) merged)"
            by (auto simp: in_set_conv_nth intro!: exI [of _ "p - Suc i"])
          with i(3) eq assms(2) show False by (auto simp: ids_set)
        qed
        with i(1) have "merged ! i \<in> set (drop (Suc p) merged)"
          by (auto simp: in_set_conv_nth intro!: exI [of _ "i - Suc p"])
        with i(2) eq assms(2) show ?thesis by (auto simp: ids_set)
      qed
      with False p show ?thesis by (auto simp: refresh_nth drop_ids newest_Cons)
    qed
  qed
  moreover have "item_id it \<in> set (ids merged)" using i assms(2) by (auto simp: ids_set)
  ultimately show ?thesis by (simp add: merge_spec_def ids_map [OF same])
qed

lemma merge_loop_spec: "indexes m merged \<Longrightarrow> merge_loop m merged its = merge_spec merged its"
proof (induction m merged its rule: merge_loop.induct)
  case (1 m merged)
  have "refresh [] merged = merged" by (induction merged) auto
  then show ?case by (simp add: merge_spec_def)
next
  case (2 m merged it its)
  show ?case
  proof (cases "item_id it = []")
    case True
    then have "item_id it \<notin> set (ids merged)" by (simp add: ids_set)
    with 2(3) [OF _ ] True indexes_snoc [OF 2(4), of it] show ?thesis by (simp add: merge_spec_new)
  next
    case False
    show ?thesis
    proof (cases "m (item_id it)")
      case None
      have "indexes (m(item_id it \<mapsto> length merged)) (merged @ [it])" using indexes_snoc [OF 2(4), of it] False by simp
      from 2(1) [OF False None this] merge_spec_new [OF indexes_new [OF 2(4) False None]] False None
      show ?thesis by (simp add: fun_upd_def)
    next
      case (Some i)
      with 2(4) False have i: "last_at (item_id it) i merged" by (simp add: indexes_def)
      then have "item_id it = item_id (merged ! i)" by (simp add: last_at_def)
      with 2(2) [OF False Some] indexes_update [OF 2(4)] Some False merge_spec_known [OF i False]
      show ?thesis by simp
    qed
  qed
qed

section \<open>The newest version of each item\<close>

text \<open>
  What a reader that goes through the items from their end finds for each id.  An item that is appended
  is the newest version of its id, and merging overrides the versions there were.
\<close>

definition versions :: "item list \<Rightarrow> string \<rightharpoonup> item" where
  "versions its = map_of (rev (map (\<lambda>x. (item_id x, x)) (filter (\<lambda>x. item_id x \<noteq> []) its)))"

lemma versions_append [simp]: "versions (xs @ ys) = versions xs ++ versions ys"
  by (simp add: versions_def)

lemma versions_Nil [simp]: "versions [] = Map.empty"
  by (simp add: versions_def)

lemma versions_single [simp]: "versions [x] = (if item_id x = [] then Map.empty else [item_id x \<mapsto> x])"
  by (simp add: versions_def)

lemma versions_None: "versions its k = None \<longleftrightarrow> k \<notin> set (ids its)"
  by (auto simp: versions_def map_of_eq_None_iff ids_set image_iff)

lemma versions_update:
  assumes "last_at (item_id it) i its" and "item_id it \<noteq> []"
  shows "versions (its[i := it]) = (versions its)(item_id it \<mapsto> it)"
proof -
  from assms have i: "i < length its" "item_id (its ! i) = item_id it"
    and none: "versions (drop (Suc i) its) (item_id it) = None" by (simp_all add: last_at_def versions_None)
  have "versions (its[i := it]) = versions (take i its @ [it] @ drop (Suc i) its)" using i(1) by (simp add: upd_conv_take_nth_drop)
  moreover have "versions its = versions (take i its @ [its ! i] @ drop (Suc i) its)" using i(1) by (simp add: Cons_nth_drop_Suc)
  ultimately show ?thesis using none i(2) assms(2)
    by (simp only: versions_append versions_single if_False) (auto simp: fun_eq_iff map_add_def split: option.split)
qed

lemma versions_merge_loop: "indexes m merged \<Longrightarrow> versions (merge_loop m merged its) = versions merged ++ versions its"
proof (induction m merged its rule: merge_loop.induct)
  case (2 m merged it its)
  have cons: "versions (it # its) = versions [it] ++ versions its" using versions_append [of "[it]" its] by simp
  show ?case
  proof (cases "item_id it = []")
    case True
    with 2(3) indexes_snoc [OF 2(4), of it] show ?thesis by (simp add: cons)
  next
    case False
    show ?thesis
    proof (cases "m (item_id it)")
      case None
      have "indexes (m(item_id it \<mapsto> length merged)) (merged @ [it])" using indexes_snoc [OF 2(4), of it] False by simp
      from 2(1) [OF False None this] False None show ?thesis by (simp add: cons fun_upd_def)
    next
      case (Some i)
      with 2(4) False have i: "last_at (item_id it) i merged" by (simp add: indexes_def)
      then have "item_id it = item_id (merged ! i)" by (simp add: last_at_def)
      from 2(2) [OF False Some indexes_update [OF 2(4) this]] False Some
      have "versions (merge_loop m merged (it # its)) = versions (merged[i := it]) ++ versions its" by simp
      then show ?thesis unfolding versions_update [OF i False] cons using False by simp
    qed
  qed
qed simp

lemma existing_indexed: "indexes (index_by_id 0 existing Map.empty) existing"
proof -
  have "indexes Map.empty []" by (simp add: indexes_def last_at_def)
  from indexes_by_id [OF this, of existing] show ?thesis by simp
qed


definition demo_item :: "string \<Rightarrow> string \<Rightarrow> item" where
  "demo_item i text = \<lparr>item_id = i, item_kind = ItemKindAgentMessage, item_payload = Some (JObj [(''text'', JStr text)])\<rparr>"

text \<open>
  An item that was polled, came again as an event, which appends it, and was polled once more: the copy
  of the first poll stays.
\<close>

lemma stale_copy:
  "merge_items (merge_items [] [demo_item ''a'' ''1''] @ [demo_item ''a'' ''2'']) [demo_item ''a'' ''3'', demo_item ''b'' ''4'']
    = [demo_item ''a'' ''1'', demo_item ''a'' ''3'', demo_item ''b'' ''4'']"
  by (simp add: merge_items_def demo_item_def)

section \<open>The text of a result\<close>

definition has_agent_text :: "anylib \<Rightarrow> item list \<Rightarrow> bool" where
  "has_agent_text lib items \<longleftrightarrow> (\<exists>i\<in>set items. item_kind i = ItemKindAgentMessage \<and>
     extract_text_candidate lib (item_payload i) \<noteq> [])"

lemma trim_nil [simp]: "trim_space [] = []"
  by (simp add: trim_space_def trim_right_def)

lemma agent_text_iff: "has_agent_text lib items \<longleftrightarrow> first_text (agent_texts lib items) \<noteq> []"
  by (auto simp: first_text_nil agent_texts_def has_agent_text_def)

lemma extract_trimmed: "trim_space (extract_text_value lib d) = extract_text_value lib d"
proof (cases "extract_text_value lib d = []")
  case False
  from extract_text_found [OF this] show ?thesis by auto
qed simp

lemma agent_texts_trimmed: "s \<in> set (agent_texts lib items) \<Longrightarrow> trim_space s = s"
  by (auto simp: agent_texts_def extract_text_candidate_def extract_trimmed split: option.splits)

lemma first_agent_trimmed: "trim_space (first_text (agent_texts lib items)) = first_text (agent_texts lib items)"
proof (cases "first_text (agent_texts lib items) = []")
  case False
  from agent_texts_trimmed [OF first_text_in [OF this]] show ?thesis .
qed simp

text \<open>
  The text of the result of \<^verbatim>\<open>Run\<close>: the last agent message of the turn's own items if it has one; if the
  turn came without items, the last agent message seen in events; and only when there is neither,
  the streamed deltas.
\<close>

theorem run_text:
  "final_agent_text lib (run_result lib t c) =
     (if has_agent_text lib (turn_items t) then first_text (agent_texts lib (turn_items t))
      else if turn_items t = [] \<and> has_agent_text lib (oc_items c) then first_text (agent_texts lib (oc_items c))
      else trim_space (concat (oc_deltas c)))"
proof -
  let ?f = "\<lambda>its. first_text (agent_texts lib its)"
  have n: "?f [] = []" by (simp add: agent_texts_def)
  show ?thesis
    by (cases "concat (oc_deltas c) = []"; cases "turn_items t = []")
      (simp_all add: run_result_def final_agent_text_def delta_text_def Let_def agent_text_iff
        first_agent_trimmed n del: concat_eq_Nil_conv)
qed

section \<open>Events on the wire\<close>

definition in_order :: anylib where
  "in_order = \<lparr>iter_order = id, float_text = Some\<rparr>"

definition reversed :: anylib where
  "reversed = \<lparr>iter_order = rev, float_text = Some\<rparr>"

definition delta_params :: json where
  "delta_params = JObj [(''delta'', JStr ''Hello''), (''threadId'', JStr ''t1'')]"

text \<open>
  The text of a streamed delta depends on the order in which Go iterates over a map: a notification
  that carries its delta under \<^verbatim>\<open>delta\<close> makes the collector record the delta in one order and the id of
  the thread in another.
\<close>

theorem delta_is_thread_id:
  "\<forall>tl. oc_deltas (capture_event in_order (decode_event tl MethodItemAgentMessageDelta (Some delta_params)) new_collector)
      = [''Hello''] \<and>
    oc_deltas (capture_event reversed (decode_event tl MethodItemAgentMessageDelta (Some delta_params)) new_collector)
      = [''t1'']"
proof
  fix tl
  let ?e = "decode_event tl MethodItemAgentMessageDelta (Some delta_params)"
  have t: "event_target MethodItemAgentMessageDelta = (''ItemAgentMessageDeltaEvent'', ItemAgentMessageDeltaEvent_t)"
    by (simp add: event_target_def event_table_def)
  have "json_unmarshal (protocol_codecs tl) ItemAgentMessageDeltaEvent_t delta_params
      = Some (VStruct [VStr ''t1'', VStr [], VStr [], VRaw (JStr ''Hello''), VStr []])"
    by (simp add: ItemAgentMessageDeltaEvent_t_def delta_params_def json_unmarshal_def match_name_def)
  then have v: "ev_value ?e = Some (''ItemAgentMessageDeltaEvent'', VStruct [VStr ''t1'', VStr [], VStr [], VRaw (JStr ''Hello''), VStr []])"
    by (simp add: decode_event_value t)
  have "sel ''text'' (''ItemAgentMessageDeltaEvent'', VStruct [VStr ''t1'', VStr [], VStr [], VRaw (JStr ''Hello''), VStr []]) = VStr []"
    by (simp add: sel_def event_type_def event_table_def field_of_def ItemAgentMessageDeltaEvent_t_def)
  moreover have "extract_string_candidate in_order (Some delta_params) = ''Hello''"
    "extract_string_candidate reversed (Some delta_params) = ''t1''"
    "trim_space ''Hello'' \<noteq> []" "trim_space ''t1'' \<noteq> []"
    by code_simp+
  ultimately show "oc_deltas (capture_event in_order ?e new_collector) = [''Hello''] \<and>
      oc_deltas (capture_event reversed ?e new_collector) = [''t1'']"
    by (simp add: capture_event_def v new_collector_def Let_def)
qed

end
