(* ===== verification/Interaction.thy ===== *)
theory Interaction imports RpcProps ProtocolProps begin

text \<open>
  Requests from the server: the loop that hands them to the client's handler and replies, the adapter
  of approval handlers, the dispatcher (\<^verbatim>\<open>interaction.go\<close>, \<^verbatim>\<open>client.go\<close>), and typed inputs and payloads.
  A handler is a function of the method and the parameters.
\<close>

type_synonym request_handler = "string \<Rightarrow> raw \<Rightarrow> go_error + raw"
type_synonym typed_handler = "goval \<Rightarrow> go_error + goval"

definition server_response_from :: "gotype \<Rightarrow> goval \<Rightarrow> raw" where
  "server_response_from t v = Some (goenc no_codecs t v)"

definition respond :: "gotype \<Rightarrow> go_error + goval \<Rightarrow> go_error + raw" where
  "respond t r = (case r of Inl e \<Rightarrow> Inl e | Inr v \<Rightarrow> Inr (server_response_from t v))"

section \<open>Approval handlers\<close>

record approval_handler =
  on_exec :: typed_handler
  on_file :: typed_handler
  on_permissions :: typed_handler
  on_user_input :: typed_handler

definition approval_adapter :: "approval_handler \<Rightarrow> request_handler" where
  "approval_adapter h method params =
     (case decode_server_request method params of
        Inl e \<Rightarrow> Inl e
      | Inr (name, v) \<Rightarrow>
          if name = ''CommandExecutionApprovalRequest'' then respond CommandExecutionApprovalResponse_t (on_exec h v)
          else if name = ''FileChangeApprovalRequest'' then respond FileChangeApprovalResponse_t (on_file h v)
          else if name = ''PermissionsApprovalRequest'' then respond PermissionsApprovalResponse_t (on_permissions h v)
          else if name = ''UserInputRequest'' then respond UserInputResponse_t (on_user_input h v)
          else Inl ErrUnsupportedServerRequest)"

section \<open>The dispatcher\<close>

record dispatcher =
  d_exec :: "typed_handler option"
  d_file :: "typed_handler option"
  d_dynamic_tool :: "typed_handler option"
  d_mcp :: "typed_handler option"
  d_fallback :: "request_handler option"

definition decode_request :: "gotype \<Rightarrow> raw \<Rightarrow> go_error + goval" where
  "decode_request t params =
     (case params of
        None \<Rightarrow> Inl (ErrText ''unexpected end of JSON input'')
      | Some j \<Rightarrow>
          (case json_unmarshal no_codecs t j of
             None \<Rightarrow> Inl (ErrText ''json: cannot unmarshal'')
           | Some v \<Rightarrow> Inr v))"

text \<open>One case of the switch: the default without a handler, the decoded request to a handler.\<close>

definition dispatch_to ::
  "typed_handler option \<Rightarrow> goval \<Rightarrow> gotype \<Rightarrow> gotype \<Rightarrow> raw \<Rightarrow> go_error + raw" where
  "dispatch_to h dflt req_t resp_t params =
     (case h of
        None \<Rightarrow> Inr (server_response_from resp_t dflt)
      | Some f \<Rightarrow>
          (case decode_request req_t params of
             Inl e \<Rightarrow> Inl e
           | Inr v \<Rightarrow> respond resp_t (f v)))"

definition decline :: goval where
  "decline = VStruct [VStr ApprovalDecisionDecline]"

definition dispatch :: "dispatcher \<Rightarrow> request_handler" where
  "dispatch d method params =
     (if method = MethodItemCommandExecutionRequestApproval
      then dispatch_to (d_exec d) decline CommandExecutionApprovalRequest_t CommandExecutionApprovalResponse_t params
      else if method = MethodItemFileChangeRequestApproval
      then dispatch_to (d_file d) decline FileChangeApprovalRequest_t FileChangeApprovalResponse_t params
      else if method = MethodItemToolCall
      then dispatch_to (d_dynamic_tool d) (VStruct [VSlice []]) DynamicToolCallRequest_t DynamicToolCallResult_t params
      else if method = MethodItemMCPRequestApproval
      then dispatch_to (d_mcp d) decline MCPToolCallApprovalRequest_t MCPToolCallApprovalResponse_t params
      else (case d_fallback d of
              Some f \<Rightarrow> f method params
            | None \<Rightarrow> Inl ErrUnsupportedServerRequest))"

section \<open>The request loop\<close>

text \<open>
  What the loop does with one request: reply with the result (null when it is empty), with an
  internal error, or, without a handler, that there is none.
\<close>

definition serve_request ::
  "request_handler option \<Rightarrow> go_error option \<Rightarrow> request \<Rightarrow> ('z) jrpc_scheme \<Rightarrow> (go_error + (nat \<times> json)) \<times> request" where
  "serve_request handler ctx_err r t =
     (case handler of
        None \<Rightarrow> reply_error ctx_err (- 32601) ''request handler not configured'' None r t
      | Some h \<Rightarrow>
          (case h (req_method r) (req_params r) of
             Inl e \<Rightarrow> reply_error ctx_err (- 32603) (error_text e) None r t
           | Inr result \<Rightarrow> reply ctx_err (case result of None \<Rightarrow> JNull | Some j \<Rightarrow> j) r t))"

section \<open>Inputs and payloads\<close>

definition TextInput :: "string \<Rightarrow> json" where
  "TextInput text = JObj [(''text'', JStr (coerce_utf8 0 text)), (''type'', JStr ''text'')]"

definition ImageInput :: "string \<Rightarrow> string \<Rightarrow> json" where
  "ImageInput url mediaType =
     JObj (opt_member ''mediaType'' (if mediaType \<noteq> [] then Some (JStr (coerce_utf8 0 mediaType)) else None)
       @ [(''type'', JStr ''image''), (''url'', JStr (coerce_utf8 0 url))])"

definition SkillInput :: "string \<Rightarrow> json" where
  "SkillInput skillName = JObj [(''name'', JStr (coerce_utf8 0 skillName)), (''type'', JStr ''skill'')]"

definition MentionInput :: "string \<Rightarrow> string \<Rightarrow> json" where
  "MentionInput mentionID text =
     JObj [(''id'', JStr (coerce_utf8 0 mentionID)), (''text'', JStr (coerce_utf8 0 text)), (''type'', JStr ''mention'')]"

definition encode_inputs :: "json list \<Rightarrow> string" where
  "encode_inputs inputs = (if inputs = [] then [] else print_json True (JArr inputs))"

definition item_as :: "string \<Rightarrow> gotype \<Rightarrow> item \<Rightarrow> goval option" where
  "item_as kind t i =
     (if item_kind i \<noteq> kind then None
      else (case item_payload i of None \<Rightarrow> None | Some p \<Rightarrow> json_unmarshal no_codecs t p))"

definition ItemAsFileChange :: "item \<Rightarrow> goval option" where
  "ItemAsFileChange i = item_as ItemKindFileChange FileChangePayload_t i"

definition ItemAsCommandExecution :: "item \<Rightarrow> goval option" where
  "ItemAsCommandExecution i = item_as ItemKindCommandExecution CommandExecutionPayload_t i"

section \<open>Typed inputs reach the wire as they are\<close>

lemma trim_space_brackets: "trim_space (CHR ''['' # s @ '']'') = CHR ''['' # s @ '']''"
  by (rule trim_space_ends) (simp_all add: code_def space1_def)

text \<open>
  Typed inputs, encoded into the prompt string of a turn, reach the wire as the array of parts they
  are: the encoder of the request recognises and does not wrap them.
\<close>

theorem typed_inputs_wire:
  assumes "inputs \<noteq> []" and "json_ok max_depth (JArr inputs)"
  shows "wire_input (encode_inputs inputs) = Some (JArr inputs)"
proof -
  have "print_json True (JArr inputs) = CHR ''['' # print_elems True inputs @ '']''" by simp
  then have "has_prefix ''['' (trim_space (print_json True (JArr inputs)))"
    by (simp only: trim_space_brackets) (simp add: has_prefix_def)
  then show ?thesis using assms by (simp only: wire_input_def encode_inputs_def json_parse_print if_True if_False)
qed

theorem typed_inputs_wire_witness:
  "wire_input (encode_inputs [TextInput ''[TODO] tidy up'', SkillInput ''fmt''])
     = Some (JArr [TextInput ''[TODO] tidy up'', SkillInput ''fmt''])"
  by (rule typed_inputs_wire)
    (simp_all add: TextInput_def SkillInput_def max_depth_def valid_utf8_ascii coerce_ascii code_def
      del: coerce_utf8.simps)

section \<open>Nothing is approved by default\<close>

definition approvals :: "(string \<times> gotype \<times> gotype) list" where
  "approvals =
     [(MethodItemCommandExecutionRequestApproval, CommandExecutionApprovalRequest_t, CommandExecutionApprovalResponse_t),
      (MethodItemFileChangeRequestApproval, FileChangeApprovalRequest_t, FileChangeApprovalResponse_t),
      (MethodItemMCPRequestApproval, MCPToolCallApprovalRequest_t, MCPToolCallApprovalResponse_t)]"

definition handler_for :: "dispatcher \<Rightarrow> string \<Rightarrow> typed_handler option" where
  "handler_for d method =
     (if method = MethodItemCommandExecutionRequestApproval then d_exec d
      else if method = MethodItemFileChangeRequestApproval then d_file d
      else if method = MethodItemMCPRequestApproval then d_mcp d else None)"

lemma dispatch_to_result:
  "dispatch_to h dflt req_t resp_t p = Inr r \<Longrightarrow>
     (h = None \<and> r = Some (goenc no_codecs resp_t dflt)) \<or>
     (\<exists>f j v a. h = Some f \<and> p = Some j \<and> json_unmarshal no_codecs req_t j = Some v \<and> f v = Inr a \<and>
        r = Some (goenc no_codecs resp_t a))"
  by (auto simp: dispatch_to_def decode_request_def respond_def server_response_from_def
      split: option.splits sum.splits)

lemma decline_json:
  "goenc no_codecs CommandExecutionApprovalResponse_t decline = JObj [(''decision'', JStr ''decline'')]"
  "goenc no_codecs FileChangeApprovalResponse_t decline = JObj [(''decision'', JStr ''decline'')]"
  "goenc no_codecs MCPToolCallApprovalResponse_t decline = JObj [(''decision'', JStr ''decline'')]"
  by (simp_all add: decline_def CommandExecutionApprovalResponse_t_def FileChangeApprovalResponse_t_def
      MCPToolCallApprovalResponse_t_def coerce_ascii code_def del: coerce_utf8.simps)

text \<open>
  C28. The dispatcher never approves on its own: its answer to an approval request is a refusal, or the
  encoding of what the handler registered for that method returned for the decoded request.
\<close>

theorem dispatcher_approves_only_by_handler:
  assumes "(m, req_t, resp_t) \<in> set approvals" and "dispatch d m p = Inr r"
  shows "r = Some (JObj [(''decision'', JStr ''decline'')]) \<and> handler_for d m = None \<or>
    (\<exists>f j v a. handler_for d m = Some f \<and> p = Some j \<and> json_unmarshal no_codecs req_t j = Some v \<and>
       f v = Inr a \<and> r = Some (goenc no_codecs resp_t a))"
proof -
  have "dispatch d m p = dispatch_to (handler_for d m) decline req_t resp_t p"
    "goenc no_codecs resp_t decline = JObj [(''decision'', JStr ''decline'')]"
    using assms(1) by (auto simp: approvals_def dispatch_def handler_for_def decline_json)
  with dispatch_to_result [of "handler_for d m" decline req_t resp_t p r] assms(2) show ?thesis by auto
qed

theorem dispatcher_approves_only_by_handler_witness:
  "\<exists>r. dispatch \<lparr>d_exec = None, d_file = None, d_dynamic_tool = None, d_mcp = None, d_fallback = None\<rparr>
      MethodItemMCPRequestApproval (Some (JObj [])) = Inr r \<and> r = Some (JObj [(''decision'', JStr ''decline'')])"
proof -
  let ?d = "\<lparr>d_exec = None, d_file = None, d_dynamic_tool = None, d_mcp = None, d_fallback = None\<rparr>"
  have "(MethodItemMCPRequestApproval, MCPToolCallApprovalRequest_t, MCPToolCallApprovalResponse_t) \<in> set approvals"
    by (simp add: approvals_def)
  moreover have "handler_for ?d MethodItemMCPRequestApproval = None" by (simp add: handler_for_def)
  moreover obtain r where r: "dispatch ?d MethodItemMCPRequestApproval (Some (JObj [])) = Inr r"
    by (simp add: dispatch_def dispatch_to_def)
  ultimately show ?thesis using dispatcher_approves_only_by_handler [of MethodItemMCPRequestApproval _ _ ?d] by fastforce
qed

section \<open>Every request is answered once\<close>

text \<open>
  The loop answers every request it takes while its session is current, exactly once: one message
  with the id of the request on the connection of its session, the handler's result or an error with
  the code for its failure; a second answer is refused.
\<close>

theorem request_answered:
  fixes t :: "'z jrpc_scheme"
  assumes "\<not> req_replied r" and "send_conn None (req_session r) t = Inr c"
  shows "\<exists>r'. serve_request h None r t = (Inr (c, case h of
        None \<Rightarrow> enc_reply (req_id r) JNull (Some \<lparr>rpc_code = - 32601, rpc_message = ''request handler not configured'', rpc_data = None\<rparr>)
      | Some f \<Rightarrow>
          (case f (req_method r) (req_params r) of
             Inl e \<Rightarrow> enc_reply (req_id r) JNull (Some \<lparr>rpc_code = - 32603, rpc_message = error_text e, rpc_data = None\<rparr>)
           | Inr res \<Rightarrow> enc_reply (req_id r) (case res of None \<Rightarrow> JNull | Some j \<Rightarrow> j) None)), r') \<and>
    (\<forall>ce j. reply ce j r' t = (Inl ErrAlreadyReplied, r'))"
proof -
  have "serve_request h None r t = (Inr (c, case h of
        None \<Rightarrow> enc_reply (req_id r) JNull (Some \<lparr>rpc_code = - 32601, rpc_message = ''request handler not configured'', rpc_data = None\<rparr>)
      | Some f \<Rightarrow>
          (case f (req_method r) (req_params r) of
             Inl e \<Rightarrow> enc_reply (req_id r) JNull (Some \<lparr>rpc_code = - 32603, rpc_message = error_text e, rpc_data = None\<rparr>)
           | Inr res \<Rightarrow> enc_reply (req_id r) (case res of None \<Rightarrow> JNull | Some j \<Rightarrow> j) None)), r\<lparr>req_replied := True\<rparr>)"
    using assms by (simp add: serve_request_def reply_def reply_error_def split: option.split sum.split)
  then show ?thesis by (auto simp: reply_def)
qed

theorem request_answered_witness:
  "\<exists>r'. serve_request (Some (dispatch \<lparr>d_exec = None, d_file = None, d_dynamic_tool = None, d_mcp = None, d_fallback = None\<rparr>))
      None demo_request (new_transport 7 False)
    = (Inr (7, enc_reply (JNum ''5'') JNull
        (Some \<lparr>rpc_code = - 32603, rpc_message = error_text ErrUnsupportedServerRequest, rpc_data = None\<rparr>)), r')"
proof -
  have q: "\<not> req_replied demo_request" "req_id demo_request = JNum ''5''" "req_method demo_request = ''m''"
    and c: "send_conn None (req_session demo_request) (new_transport 7 False) = Inr 7"
    by (simp_all add: demo_request_def send_conn_def new_transport_def start_session_def with_cancel_def run_cancel_def)
  let ?d = "\<lparr>d_exec = None, d_file = None, d_dynamic_tool = None, d_mcp = None, d_fallback = None\<rparr>"
  have d: "dispatch ?d ''m'' x = Inl ErrUnsupportedServerRequest" for x
    by (simp add: dispatch_def)
  have "\<exists>r'. serve_request (Some (dispatch ?d)) None demo_request (new_transport 7 False) =
      (Inr (7, enc_reply (JNum ''5'') JNull
        (Some \<lparr>rpc_code = - 32603, rpc_message = error_text ErrUnsupportedServerRequest, rpc_data = None\<rparr>)), r') \<and>
      (\<forall>ce j. reply ce j r' (new_transport 7 False) = (Inl ErrAlreadyReplied, r'))"
    using request_answered [OF q(1) c, of "Some (dispatch ?d)"] by (simp only: q(2,3) d option.case sum.case)
  then show ?thesis by blast
qed

end
