(* ===== verification/Sessions.thy ===== *)
theory Sessions imports Prelude begin

text \<open>
  The slots of live threads: the semaphore of the client (\<^verbatim>\<open>acquireThreadSlot\<close> in \<^verbatim>\<open>client.go\<close>) and the
  sessions that hold its slots (\<^verbatim>\<open>StartThread\<close>, \<^verbatim>\<open>ResumeThread\<close>, and \<^verbatim>\<open>Fork\<close> and \<^verbatim>\<open>Close\<close> of \<^verbatim>\<open>thread.go\<close>).
  The semaphore is a buffered channel, of which only the number of values matters; a client
  without a limit has none.
\<close>

section \<open>The semaphore\<close>

definition default_max_threads :: nat where
  "default_max_threads = 64"

text \<open>The capacity \<^verbatim>\<open>New\<close> makes of the option: zero is the default, a negative number no limit.\<close>

definition sem_capacity :: "int \<Rightarrow> nat option" where
  "sem_capacity maxThreads =
     (let m = (if maxThreads = 0 then int default_max_threads else maxThreads) in
      if m > 0 then Some (nat m) else None)"

text \<open>Acquiring with room: the new count. Without room the select waits for the context.\<close>

definition acquire_thread_slot :: "nat option \<Rightarrow> nat \<Rightarrow> nat option" where
  "acquire_thread_slot cap held =
     (case cap of None \<Rightarrow> Some held | Some c \<Rightarrow> if held < c then Some (Suc held) else None)"

definition release_slot :: "nat option \<Rightarrow> nat \<Rightarrow> nat" where
  "release_slot cap held =
     (case cap of None \<Rightarrow> held | Some c \<Rightarrow> if held > 0 then held - 1 else held)"

section \<open>Sessions\<close>

text \<open>
  A session is opening while its request is on the way (and while its initial prompt runs), then
  live, then closed.  A session that fails to open releases its slot; closing it more than once
  releases it once.
\<close>

datatype session_phase = Opening | Prompting | Live | Closed | Refused

record sessions =
  ss_cap :: "nat option"
  ss_held :: nat
  ss_next :: nat
  ss_phase :: "nat \<Rightarrow> session_phase option"

definition new_sessions :: "int \<Rightarrow> sessions" where
  "new_sessions maxThreads =
     \<lparr>ss_cap = sem_capacity maxThreads, ss_held = 0, ss_next = 0, ss_phase = Map.empty\<rparr>"

definition set_phase :: "nat \<Rightarrow> session_phase \<Rightarrow> sessions \<Rightarrow> sessions" where
  "set_phase i p s = s\<lparr>ss_phase := (ss_phase s)(i \<mapsto> p)\<rparr>"

definition release :: "sessions \<Rightarrow> sessions" where
  "release s = s\<lparr>ss_held := release_slot (ss_cap s) (ss_held s)\<rparr>"

definition begin_open :: "sessions \<Rightarrow> sessions option" where
  "begin_open s =
     (case acquire_thread_slot (ss_cap s) (ss_held s) of
        None \<Rightarrow> None
      | Some h \<Rightarrow> Some (s\<lparr>ss_held := h, ss_next := Suc (ss_next s),
            ss_phase := (ss_phase s)(ss_next s \<mapsto> Opening)\<rparr>))"

text \<open>The answer to the opening request, and whether there is an initial prompt to run.\<close>

definition opened :: "bool \<Rightarrow> bool \<Rightarrow> nat \<Rightarrow> sessions \<Rightarrow> sessions" where
  "opened ok prompt i s =
     (if ok then set_phase i (if prompt then Prompting else Live) s
      else release (set_phase i Refused s))"

definition close_session :: "nat \<Rightarrow> sessions \<Rightarrow> sessions" where
  "close_session i s =
     (case ss_phase s i of
        Some Closed \<Rightarrow> s
      | _ \<Rightarrow> release (set_phase i Closed s))"

definition prompted :: "bool \<Rightarrow> nat \<Rightarrow> sessions \<Rightarrow> sessions" where
  "prompted ok i s = (if ok then set_phase i Live s else close_session i s)"

inductive session_step :: "sessions \<Rightarrow> sessions \<Rightarrow> bool" where
  step_begin: "begin_open s = Some s' \<Longrightarrow> session_step s s'"
| step_opened: "ss_phase s i = Some Opening \<Longrightarrow> session_step s (opened ok prompt i s)"
| step_prompted: "ss_phase s i = Some Prompting \<Longrightarrow> session_step s (prompted ok i s)"
| step_close: "ss_phase s i \<in> {Some Live, Some Closed} \<Longrightarrow> session_step s (close_session i s)"

inductive_cases session_stepE: "session_step s s'"

definition session_start :: "int \<Rightarrow> sessions \<Rightarrow> bool" where
  "session_start m s \<longleftrightarrow> s = new_sessions m"

definition holders :: "sessions \<Rightarrow> nat set" where
  "holders s = {i. ss_phase s i \<in> {Some Opening, Some Prompting, Some Live}}"

definition session_inv :: "int \<Rightarrow> sessions \<Rightarrow> bool" where
  "session_inv m s \<longleftrightarrow> ss_cap s = sem_capacity m \<and>
     (\<forall>i \<ge> ss_next s. ss_phase s i = None) \<and>
     ss_held s = (if ss_cap s = None then 0 else card (holders s)) \<and>
     (\<forall>c. ss_cap s = Some c \<longrightarrow> ss_held s \<le> c)"

lemma holder_less: "session_inv m s \<Longrightarrow> i \<in> holders s \<Longrightarrow> i < ss_next s"
  by (rule ccontr) (auto simp: session_inv_def holders_def not_less)

lemma holders_finite: "session_inv m s \<Longrightarrow> finite (holders s)"
  by (rule finite_subset [of _ "{..<ss_next s}"]) (auto intro: holder_less)

text \<open>Moving a session out of the holders gives back one slot; moving it among them none.\<close>

lemma release_inv:
  assumes "session_inv m s" and "i \<in> holders s" and "p \<in> {Closed, Refused}"
  shows "session_inv m (release (set_phase i p s))"
proof -
  have h: "holders (release (set_phase i p s)) = holders s - {i}"
    using assms(3) by (auto simp: holders_def release_def set_phase_def)
  have f: "finite (holders s)" using assms(1) by (rule holders_finite)
  have "i < ss_next s" using assms(1,2) by (rule holder_less)
  moreover have "0 < card (holders s)" using f assms(2) by (auto simp: card_gt_0_iff)
  moreover have "card (holders s - {i}) = card (holders s) - 1" using f assms(2) by simp
  ultimately show ?thesis using assms(1) h
    by (auto simp: session_inv_def release_def set_phase_def release_slot_def split: option.splits)
qed

lemma move_inv:
  assumes "session_inv m s" and "i \<in> holders s" and "p \<in> {Opening, Prompting, Live}"
  shows "session_inv m (set_phase i p s)"
proof -
  have "holders (set_phase i p s) = holders s"
    using assms(2,3) by (auto simp: holders_def set_phase_def)
  moreover have "i < ss_next s" using assms(1,2) by (rule holder_less)
  ultimately show ?thesis using assms(1) by (auto simp: session_inv_def set_phase_def)
qed

lemma close_inv: "session_inv m s \<Longrightarrow> ss_phase s i \<in> {Some Prompting, Some Live, Some Closed} \<Longrightarrow>
    session_inv m (close_session i s)"
  using release_inv [of m s i Closed] by (auto simp: close_session_def holders_def split: session_phase.splits)

lemma begin_inv:
  assumes "session_inv m s" and "begin_open s = Some s'"
  shows "session_inv m s'"
proof -
  have n: "ss_phase s (ss_next s) = None" using assms(1) by (auto simp: session_inv_def)
  obtain h where h: "acquire_thread_slot (ss_cap s) (ss_held s) = Some h"
    and s': "s' = s\<lparr>ss_held := h, ss_next := Suc (ss_next s), ss_phase := (ss_phase s)(ss_next s \<mapsto> Opening)\<rparr>"
    using assms(2) by (auto simp: begin_open_def split: option.splits)
  have "holders s' = insert (ss_next s) (holders s)" "ss_next s \<notin> holders s"
    using n by (auto simp: holders_def s')
  moreover have "finite (holders s)" using assms(1) by (rule holders_finite)
  ultimately have "card (holders s') = Suc (card (holders s))" by simp
  then show ?thesis using assms(1) h
    by (auto simp: session_inv_def s' acquire_thread_slot_def split: option.splits if_splits)
qed

interpretation slots: invariant_system "session_start m" session_step "session_inv m"
proof
  show "session_start m s \<Longrightarrow> session_inv m s" for s
    by (auto simp: session_start_def new_sessions_def session_inv_def holders_def)
  show "session_inv m s \<Longrightarrow> session_step s t \<Longrightarrow> session_inv m t" for s t
    by (elim session_stepE)
      (auto simp: opened_def prompted_def holders_def
        intro: begin_inv release_inv move_inv close_inv)
qed

text \<open>
  C36. The semaphore counts exactly the sessions that are opening or live: there are never more of them
  than the limit, a failed or closed session gives its slot back once, and when all of them are
  closed every slot is free.
\<close>

theorem slots_never_leak:
  assumes "reachable (session_start m) session_step s" and "sem_capacity m = Some c"
  shows "ss_held s = card (holders s) \<and> card (holders s) \<le> c \<and>
    (holders s = {} \<longrightarrow> (\<forall>k<c. acquire_thread_slot (ss_cap s) k = Some (Suc k) \<and> ss_held s = 0))"
  using slots.reachable_inv [OF assms(1)] assms(2)
  by (auto simp: session_inv_def acquire_thread_slot_def)

definition demo_sessions :: sessions where
  "demo_sessions = close_session 0 (close_session 0 (opened True False 0 (the (begin_open (new_sessions 2)))))"

lemma demo_sessions_reachable: "reachable (session_start 2) session_step demo_sessions"
proof -
  let ?s0 = "new_sessions 2"
  have b: "begin_open ?s0 = Some (the (begin_open ?s0))"
    by (simp add: begin_open_def new_sessions_def acquire_thread_slot_def sem_capacity_def)
  have p: "ss_phase (the (begin_open ?s0)) 0 = Some Opening"
    by (simp add: begin_open_def new_sessions_def acquire_thread_slot_def sem_capacity_def)
  let ?s2 = "opened True False 0 (the (begin_open ?s0))"
  have "reachable (session_start 2) session_step ?s0" by (rule reach_start) (simp add: session_start_def)
  then have "reachable (session_start 2) session_step (the (begin_open ?s0))"
    by (rule reach_step) (rule step_begin [OF b])
  then have "reachable (session_start 2) session_step ?s2" by (rule reach_step) (rule step_opened [OF p])
  then have "reachable (session_start 2) session_step (close_session 0 ?s2)"
    by (rule reach_step) (rule step_close, simp add: opened_def set_phase_def)
  then show ?thesis unfolding demo_sessions_def
    by (rule reach_step) (rule step_close, simp add: opened_def set_phase_def close_session_def release_def)
qed

theorem slots_never_leak_witness: "ss_held demo_sessions = card (holders demo_sessions) \<and> card (holders demo_sessions) \<le> 2"
  using slots_never_leak [OF demo_sessions_reachable, of 2] by (simp add: sem_capacity_def)

end
