(* ===== verification/ClientApi.thy ===== *)
theory ClientApi imports Interaction Wait begin

text \<open>
  The methods of the client and of its handles (\<^verbatim>\<open>client.go\<close>, \<^verbatim>\<open>thread.go\<close>, \<^verbatim>\<open>account.go\<close>,
  \<^verbatim>\<open>commandexec.go\<close>, \<^verbatim>\<open>rpc_extras.go\<close>, \<^verbatim>\<open>turn.go\<close>).  A connection is the transport they run on: its call
  and its notification as functions of a state that only the transport knows.
\<close>

section \<open>Calls over a connection\<close>

text \<open>The parameters of a call: none (omitted), a document, or a value that cannot be encoded.\<close>

datatype payload = NoParams | Params json | BadParams

record 's connection =
  conn_call :: "string \<Rightarrow> payload \<Rightarrow> 's \<Rightarrow> (go_error + raw) \<times> 's"
  conn_notify :: "string \<Rightarrow> payload \<Rightarrow> 's \<Rightarrow> go_error option \<times> 's"
  conn_close :: "'s \<Rightarrow> go_error option \<times> 's"

type_synonym ('s, 'a) api = "'s \<Rightarrow> (go_error + 'a) \<times> 's"

definition then_do :: "('s, 'a) api \<Rightarrow> ('a \<Rightarrow> ('s, 'b) api) \<Rightarrow> ('s, 'b) api" where
  "then_do m f s = (case m s of (Inl e, s') \<Rightarrow> (Inl e, s') | (Inr x, s') \<Rightarrow> f x s')"

definition giving :: "'a \<Rightarrow> ('s, 'a) api" where
  "giving x s = (Inr x, s)"

definition failing :: "go_error \<Rightarrow> ('s, 'a) api" where
  "failing e s = (Inl e, s)"

lemma then_do_simps [simp]:
  "then_do (giving x) f = f x" "then_do (failing e) f = failing e" "then_do m giving = m"
  "then_do (then_do m f) g = then_do m (\<lambda>x. then_do (f x) g)"
  by (auto simp: then_do_def giving_def failing_def split: prod.splits sum.splits intro!: ext)

text \<open>Where the result goes: an empty one leaves the caller's value as it is.\<close>

definition decode_answer :: "codecs \<Rightarrow> gotype \<Rightarrow> raw \<Rightarrow> go_error + goval" where
  "decode_answer env t r =
     (case r of
        None \<Rightarrow> Inr (zero t)
      | Some j \<Rightarrow> (case json_unmarshal env t j of None \<Rightarrow> Inl unmarshal_error | Some v \<Rightarrow> Inr v))"

definition call_for :: "codecs \<Rightarrow> gotype \<Rightarrow> 's connection \<Rightarrow> string \<Rightarrow> payload \<Rightarrow> ('s, goval) api" where
  "call_for env t c method p = then_do (conn_call c method p) (\<lambda>r s. (decode_answer env t r, s))"

definition call_plain :: "'s connection \<Rightarrow> string \<Rightarrow> payload \<Rightarrow> ('s, unit) api" where
  "call_plain c method p = then_do (conn_call c method p) (\<lambda>r. giving ())"

definition enc :: "gotype \<Rightarrow> goval \<Rightarrow> payload" where
  "enc t v = Params (goenc no_codecs t v)"

definition enc_opt :: "json option \<Rightarrow> payload" where
  "enc_opt j = (case j of None \<Rightarrow> BadParams | Some j \<Rightarrow> Params j)"

text \<open>\<^verbatim>\<open>Client.Call\<close>, the raw call.\<close>

definition raw_call :: "codecs \<Rightarrow> gotype option \<Rightarrow> 's connection \<Rightarrow> string \<Rightarrow> payload \<Rightarrow> ('s, goval) api" where
  "raw_call env result c method p =
     (case result of
        None \<Rightarrow> then_do (call_plain c method p) (\<lambda>u. giving VNil)
      | Some t \<Rightarrow> call_for env t c method p)"

section \<open>The handshake\<close>

definition Initialize :: "'s connection \<Rightarrow> goval \<Rightarrow> ('s, goval) api" where
  "Initialize c req =
     then_do (call_for no_codecs InitializeResult_t c MethodInitialize (enc InitializeRequest_t req))
       (\<lambda>result s.
          case conn_notify c MethodInitialized NoParams s of
            (Some e, s') \<Rightarrow> (Inl e, s')
          | (None, s') \<Rightarrow> (Inr result, s'))"

section \<open>Threads and turns\<close>

definition thread_resp_t :: gotype where
  "thread_resp_t = TStruct [(''thread'', False, TNamed ''Thread'')]"

definition turn_resp_t :: gotype where
  "turn_resp_t = TStruct [(''turn'', False, TNamed ''Turn'')]"

definition threads_resp_t :: gotype where
  "threads_resp_t = TStruct [(''data'', False, TSlice (TNamed ''Thread''))]"

definition ids_resp_t :: gotype where
  "ids_resp_t = TStruct [(''data'', False, TSlice TString)]"

definition field0 :: "goval \<Rightarrow> goval" where
  "field0 v = (case vfields v of x # xs \<Rightarrow> x | [] \<Rightarrow> VNil)"

definition thread_call :: "timelib \<Rightarrow> 's connection \<Rightarrow> string \<Rightarrow> payload \<Rightarrow> ('s, thread) api" where
  "thread_call lib c method p =
     then_do (call_for (protocol_codecs lib) thread_resp_t c method p) (\<lambda>v. giving (thread_of (field0 v)))"

definition ThreadStart :: "timelib \<Rightarrow> 's connection \<Rightarrow> thread_start_request \<Rightarrow> ('s, thread) api" where
  "ThreadStart lib c req = thread_call lib c MethodThreadStart (Params (thread_start_marshal req))"

definition ThreadResume :: "timelib \<Rightarrow> 's connection \<Rightarrow> goval \<Rightarrow> ('s, thread) api" where
  "ThreadResume lib c req = thread_call lib c MethodThreadResume (enc ThreadResumeRequest_t req)"

definition ThreadRead :: "timelib \<Rightarrow> 's connection \<Rightarrow> goval \<Rightarrow> ('s, thread) api" where
  "ThreadRead lib c req = thread_call lib c MethodThreadRead (enc ThreadReadRequest_t req)"

definition ThreadFork :: "timelib \<Rightarrow> 's connection \<Rightarrow> goval \<Rightarrow> ('s, thread) api" where
  "ThreadFork lib c req = thread_call lib c MethodThreadFork (enc ThreadForkRequest_t req)"

definition ThreadList :: "timelib \<Rightarrow> 's connection \<Rightarrow> goval \<Rightarrow> ('s, thread list) api" where
  "ThreadList lib c req =
     then_do (call_for (protocol_codecs lib) threads_resp_t c MethodThreadList (enc ThreadListRequest_t req))
       (\<lambda>v. giving (map thread_of (vslice (field0 v))))"

definition ThreadLoadedList :: "'s connection \<Rightarrow> ('s, string list) api" where
  "ThreadLoadedList c =
     then_do (call_for no_codecs ids_resp_t c MethodThreadLoadedList (Params (JObj [])))
       (\<lambda>v. giving (map vstr (vslice (field0 v))))"

definition ThreadArchive :: "'s connection \<Rightarrow> goval \<Rightarrow> ('s, unit) api" where
  "ThreadArchive c req = call_plain c MethodThreadArchive (enc ThreadArchiveRequest_t req)"

definition ThreadUnarchive :: "'s connection \<Rightarrow> goval \<Rightarrow> ('s, unit) api" where
  "ThreadUnarchive c req = call_plain c MethodThreadUnarchive (enc ThreadUnarchiveRequest_t req)"

definition ThreadSetName :: "'s connection \<Rightarrow> goval \<Rightarrow> ('s, unit) api" where
  "ThreadSetName c req = call_plain c MethodThreadSetName (enc ThreadSetNameRequest_t req)"

definition ThreadRollback :: "'s connection \<Rightarrow> goval \<Rightarrow> ('s, unit) api" where
  "ThreadRollback c req = call_plain c MethodThreadRollback (enc ThreadRollbackRequest_t req)"

definition TurnSteer :: "'s connection \<Rightarrow> turn_steer_request \<Rightarrow> ('s, unit) api" where
  "TurnSteer c req = call_plain c MethodTurnSteer (enc_opt (turn_steer_marshal req))"

definition ReviewStart :: "'s connection \<Rightarrow> goval \<Rightarrow> ('s, unit) api" where
  "ReviewStart c req = call_plain c MethodReviewStart (enc ReviewStartRequest_t req)"

definition TurnStart :: "timelib \<Rightarrow> 's connection \<Rightarrow> turn_start_request \<Rightarrow> ('s, turn) api" where
  "TurnStart lib c req =
     then_do (call_for (protocol_codecs lib) turn_resp_t c MethodTurnStart (enc_opt (turn_start_marshal req)))
       (\<lambda>v. giving (turn_of (field0 v)))"

definition TurnInterrupt :: "'s connection \<Rightarrow> goval \<Rightarrow> ('s, unit) api" where
  "TurnInterrupt c req = call_plain c MethodTurnInterrupt (enc TurnInterruptRequest_t req)"

definition TurnDiff :: "'s connection \<Rightarrow> goval \<Rightarrow> ('s, goval) api" where
  "TurnDiff c req = call_for no_codecs TurnDiffResult_t c MethodTurnDiff (enc TurnDiffRequest_t req)"

text \<open>\<^verbatim>\<open>readTurn\<close> reads the thread with its turns and looks for the turn in them.\<close>

definition thread_read_req :: "string \<Rightarrow> bool \<Rightarrow> goval" where
  "thread_read_req threadID includeTurns = VStruct [VStr threadID, VBool includeTurns]"

definition TurnRead :: "timelib \<Rightarrow> 's connection \<Rightarrow> string \<Rightarrow> string \<Rightarrow> ('s, turn) api" where
  "TurnRead lib c threadID turnID s =
     (case ThreadRead lib c (thread_read_req threadID True) s of
        (res, s') \<Rightarrow> (read_turn turnID res, s'))"

text \<open>\<^verbatim>\<open>Ping\<close> lists one thread.\<close>

definition Ping :: "timelib \<Rightarrow> 's connection \<Rightarrow> ('s, unit) api" where
  "Ping lib c = then_do (ThreadList lib c (VStruct [VInt 1, VStr []])) (\<lambda>ts. giving ())"

section \<open>Thread metadata, goals and history\<close>

definition ThreadMetadataUpdate :: "timelib \<Rightarrow> 's connection \<Rightarrow> goval \<Rightarrow> ('s, goval) api" where
  "ThreadMetadataUpdate lib c req =
     call_for (protocol_codecs lib) ThreadMetadataUpdateResult_t c MethodThreadMetadataUpdate
       (enc ThreadMetadataUpdateRequest_t req)"

definition ThreadUnsubscribe :: "'s connection \<Rightarrow> goval \<Rightarrow> ('s, goval) api" where
  "ThreadUnsubscribe c req = call_for no_codecs ThreadUnsubscribeResult_t c MethodThreadUnsubscribe (enc ThreadUnsubscribeRequest_t req)"

definition ThreadDelete :: "'s connection \<Rightarrow> goval \<Rightarrow> ('s, unit) api" where
  "ThreadDelete c req = call_plain c MethodThreadDelete (enc ThreadDeleteRequest_t req)"

definition ThreadInjectItems :: "'s connection \<Rightarrow> goval \<Rightarrow> ('s, unit) api" where
  "ThreadInjectItems c req = call_plain c MethodThreadInjectItems (enc ThreadInjectItemsRequest_t req)"

definition ThreadShellCommand :: "'s connection \<Rightarrow> goval \<Rightarrow> ('s, unit) api" where
  "ThreadShellCommand c req = call_plain c MethodThreadShellCommand (enc ThreadShellCommandRequest_t req)"

definition ThreadApproveGuardianDeniedAction :: "'s connection \<Rightarrow> goval \<Rightarrow> ('s, unit) api" where
  "ThreadApproveGuardianDeniedAction c req = call_plain c MethodThreadApproveGuardianDenied (enc ThreadApproveGuardianDeniedActionRequest_t req)"

definition ThreadGoalSet :: "'s connection \<Rightarrow> goval \<Rightarrow> ('s, goval) api" where
  "ThreadGoalSet c req =
     then_do (call_for no_codecs ThreadGoalSetResponse_t c MethodThreadGoalSet (enc ThreadGoalSetParams_t req))
       (\<lambda>v. giving (field0 v))"

definition ThreadGoalClear :: "'s connection \<Rightarrow> goval \<Rightarrow> ('s, unit) api" where
  "ThreadGoalClear c req = call_plain c MethodThreadGoalClear (enc ThreadGoalClearParams_t req)"

text \<open>Without a goal the zero goal.\<close>

definition ThreadGoalGet :: "'s connection \<Rightarrow> goval \<Rightarrow> ('s, goval) api" where
  "ThreadGoalGet c req =
     then_do (call_for no_codecs ThreadGoalGetResponse_t c MethodThreadGoalGet (enc ThreadGoalGetParams_t req))
       (\<lambda>v. giving (case vptr (field0 v) of None \<Rightarrow> zero ThreadGoal_t | Some g \<Rightarrow> g))"

section \<open>Configuration, skills, features, hooks\<close>

definition SetModel :: "'s connection \<Rightarrow> string \<Rightarrow> ('s, unit) api" where
  "SetModel c m = call_plain c MethodConfigUpdate (enc configUpdateRequest_t (VStruct [VStr m, VStr [], VStr []]))"

definition SetApprovalPolicy :: "'s connection \<Rightarrow> string \<Rightarrow> ('s, unit) api" where
  "SetApprovalPolicy c p = call_plain c MethodConfigUpdate (enc configUpdateRequest_t (VStruct [VStr [], VStr p, VStr []]))"

definition SetSandbox :: "'s connection \<Rightarrow> string \<Rightarrow> ('s, unit) api" where
  "SetSandbox c p = call_plain c MethodConfigUpdate (enc configUpdateRequest_t (VStruct [VStr [], VStr [], VStr p]))"

definition ConfigRead :: "'s connection \<Rightarrow> goval \<Rightarrow> ('s, goval) api" where
  "ConfigRead c req = call_for no_codecs ConfigReadResult_t c MethodConfigRead (enc ConfigReadRequest_t req)"

definition ConfigValueWrite :: "'s connection \<Rightarrow> goval \<Rightarrow> ('s, unit) api" where
  "ConfigValueWrite c req = call_plain c MethodConfigValueWrite (enc ConfigValueWriteRequest_t req)"

definition ConfigBatchWrite :: "'s connection \<Rightarrow> goval \<Rightarrow> ('s, unit) api" where
  "ConfigBatchWrite c req = call_plain c MethodConfigBatchWrite (enc ConfigBatchWriteRequest_t req)"

definition SkillsList :: "'s connection \<Rightarrow> goval \<Rightarrow> ('s, goval) api" where
  "SkillsList c req = call_for no_codecs SkillsListResponse_t c MethodSkillsList (enc SkillsListParams_t req)"

definition SkillsConfigWrite :: "'s connection \<Rightarrow> goval \<Rightarrow> ('s, goval) api" where
  "SkillsConfigWrite c req = call_for no_codecs SkillsConfigWriteResponse_t c MethodSkillsConfigWrite (enc SkillsConfigWriteParams_t req)"

definition SkillsExtraRootsSet :: "'s connection \<Rightarrow> goval \<Rightarrow> ('s, unit) api" where
  "SkillsExtraRootsSet c req = call_plain c MethodSkillsExtraRootsSet (enc SkillsExtraRootsSetParams_t req)"

definition ExperimentalFeatureList :: "'s connection \<Rightarrow> goval \<Rightarrow> ('s, goval) api" where
  "ExperimentalFeatureList c req = call_for no_codecs ExperimentalFeatureListResult_t c MethodExperimentalFeatureList (enc ExperimentalFeatureListRequest_t req)"

definition ExperimentalFeatureEnablementSet :: "'s connection \<Rightarrow> goval \<Rightarrow> ('s, goval) api" where
  "ExperimentalFeatureEnablementSet c req = call_for no_codecs ExperimentalFeatureEnablementSetResult_t c MethodExperimentalFeatureEnablementSet (enc ExperimentalFeatureEnablementSetRequest_t req)"

definition HooksList :: "'s connection \<Rightarrow> goval \<Rightarrow> ('s, goval) api" where
  "HooksList c req = call_for no_codecs HooksListResult_t c MethodHooksList (enc HooksListRequest_t req)"

definition ModelProviderCapabilitiesRead :: "'s connection \<Rightarrow> ('s, goval) api" where
  "ModelProviderCapabilitiesRead c =
     call_for no_codecs ModelProviderCapabilities_t c MethodModelProviderCapabilitiesRead (Params (JObj []))"

section \<open>Interactive commands\<close>

definition CommandExec :: "'s connection \<Rightarrow> goval \<Rightarrow> ('s, goval) api" where
  "CommandExec c req = call_for no_codecs CommandExecResult_t c MethodCommandExec (enc CommandExecRequest_t req)"

definition CommandExecWrite :: "'s connection \<Rightarrow> goval \<Rightarrow> ('s, unit) api" where
  "CommandExecWrite c req = call_plain c MethodCommandExecWrite (enc CommandExecWriteRequest_t req)"

definition CommandExecResize :: "'s connection \<Rightarrow> goval \<Rightarrow> ('s, unit) api" where
  "CommandExecResize c req = call_plain c MethodCommandExecResize (enc CommandExecResizeRequest_t req)"

definition CommandExecTerminate :: "'s connection \<Rightarrow> goval \<Rightarrow> ('s, unit) api" where
  "CommandExecTerminate c req = call_plain c MethodCommandExecTerminate (enc CommandExecTerminateRequest_t req)"

definition handle_write :: "'s connection \<Rightarrow> string \<Rightarrow> string \<Rightarrow> ('s, unit) api" where
  "handle_write c processID delta = CommandExecWrite c (VStruct [VStr processID, VStr delta, VBool False])"

definition handle_close_stdin :: "'s connection \<Rightarrow> string \<Rightarrow> ('s, unit) api" where
  "handle_close_stdin c processID = CommandExecWrite c (VStruct [VStr processID, VStr [], VBool True])"

definition handle_resize :: "'s connection \<Rightarrow> string \<Rightarrow> int \<Rightarrow> int \<Rightarrow> ('s, unit) api" where
  "handle_resize c processID cols rows =
     CommandExecResize c (VStruct [VStr processID, VStruct [VInt cols, VInt rows]])"

definition handle_terminate :: "'s connection \<Rightarrow> string \<Rightarrow> ('s, unit) api" where
  "handle_terminate c processID = CommandExecTerminate c (VStruct [VStr processID])"

end
