(* ===== verification/GoQuote.thy ===== *)
theory GoQuote imports JsonText begin

text \<open>
  The \<^verbatim>\<open>%q\<close> verb of \<^verbatim>\<open>fmt\<close>: a double-quoted Go string.  The escapes of ASCII are exact; text beyond
  ASCII is taken to be printable, which \<^verbatim>\<open>strconv\<close> keeps as it is.
\<close>

definition quote_char :: "char \<Rightarrow> string" where
  "quote_char c =
     (let n = code c in
      if n = 0x22 then [CHR 0x5C, CHR 0x22]
      else if n = 0x5C then [CHR 0x5C, CHR 0x5C]
      else if n = 0x07 then [CHR 0x5C, CHR ''a'']
      else if n = 0x08 then [CHR 0x5C, CHR ''b'']
      else if n = 0x0C then [CHR 0x5C, CHR ''f'']
      else if n = 0x0A then [CHR 0x5C, CHR ''n'']
      else if n = 0x0D then [CHR 0x5C, CHR ''r'']
      else if n = 0x09 then [CHR 0x5C, CHR ''t'']
      else if n = 0x0B then [CHR 0x5C, CHR ''v'']
      else if n < 0x20 \<or> n = 0x7F then [CHR 0x5C, CHR ''x'', hex_digit (n div 16), hex_digit (n mod 16)]
      else [c])"

definition quoted :: "string \<Rightarrow> string" where
  "quoted s = CHR 0x22 # concat (map quote_char s) @ [CHR 0x22]"

text \<open>A quoted string is one line, whatever it quotes.\<close>

lemma hex_digit_no_newline: "d < 16 \<Longrightarrow> CHR 0x0A \<noteq> hex_digit d"
proof
  assume d: "d < 16" and n: "CHR 0x0A = hex_digit d"
  from d have "code (hex_digit d) \<noteq> 0x0A" by (auto simp: hex_digit_def code_def)
  then show False by (simp add: n [symmetric] code_def)
qed

lemma quote_char_no_newline: "CHR 0x0A \<notin> set (quote_char c)"
proof -
  have "CHR 0x0A = c \<Longrightarrow> code c = 0x0A" by (auto simp: code_def)
  then show ?thesis by (auto simp: quote_char_def Let_def hex_digit_no_newline)
qed

lemma quoted_one_line: "CHR 0x0A \<notin> set (quoted s)"
  using quote_char_no_newline by (auto simp: quoted_def)

end
