(* ===== verification/ClientOps.thy ===== *)
theory ClientOps imports ClientApi GoQuote begin

text \<open>
  What is built on the calls: session threads and their options (\<^verbatim>\<open>thread.go\<close>, \<^verbatim>\<open>turn.go\<close>), accounts
  and logins (\<^verbatim>\<open>account.go\<close>), the model list and the cached model catalog (\<^verbatim>\<open>client.go\<close>).
\<close>

section \<open>Options of turns and threads\<close>

datatype turn_option =
    WithModel string | WithApprovalPolicy string | WithSandbox string
  | WithApprovalMode string | WithSandboxMode string | WithInputs "json list"
  | WithCWD string | WithEffort string | WithSkill string | WithOutputSchema raw

fun apply_turn_option :: "turn_option \<Rightarrow> turn_start_request \<Rightarrow> turn_start_request" where
  "apply_turn_option (WithModel m) r = r\<lparr>start_model := m\<rparr>"
| "apply_turn_option (WithApprovalPolicy p) r = r\<lparr>start_approval_policy := p\<rparr>"
| "apply_turn_option (WithSandbox p) r = r\<lparr>start_sandbox_policy := p\<rparr>"
| "apply_turn_option (WithApprovalMode m) r = r\<lparr>start_approval_policy := m\<rparr>"
| "apply_turn_option (WithSandboxMode m) r = r\<lparr>start_sandbox_policy := m\<rparr>"
| "apply_turn_option (WithInputs is) r = r\<lparr>start_input := encode_inputs is\<rparr>"
| "apply_turn_option (WithCWD d) r = r\<lparr>start_cwd := d\<rparr>"
| "apply_turn_option (WithEffort e) r = r\<lparr>start_effort := e\<rparr>"
| "apply_turn_option (WithSkill k) r = r\<lparr>start_skill := k\<rparr>"
| "apply_turn_option (WithOutputSchema j) r = r\<lparr>start_output_schema := j\<rparr>"

definition apply_turn_options :: "turn_option list \<Rightarrow> turn_start_request \<Rightarrow> turn_start_request" where
  "apply_turn_options opts r = fold apply_turn_option opts r"

datatype thread_option =
    WithThreadModel string | WithThreadApprovalPolicy string | WithThreadApprovalMode string
  | WithThreadCWD string | WithThreadEphemeral bool | WithThreadPersonality string
  | WithInitialInput string

record thread_config =
  tc_req :: thread_start_request
  tc_initial_input :: string

fun apply_thread_option :: "thread_option \<Rightarrow> thread_config \<Rightarrow> thread_config" where
  "apply_thread_option (WithThreadModel m) c = c\<lparr>tc_req := (tc_req c)\<lparr>ts_model := m\<rparr>\<rparr>"
| "apply_thread_option (WithThreadApprovalPolicy p) c = c\<lparr>tc_req := (tc_req c)\<lparr>ts_approval_policy := p\<rparr>\<rparr>"
| "apply_thread_option (WithThreadApprovalMode m) c = c\<lparr>tc_req := (tc_req c)\<lparr>ts_approval_policy := m\<rparr>\<rparr>"
| "apply_thread_option (WithThreadCWD d) c = c\<lparr>tc_req := (tc_req c)\<lparr>ts_cwd := d\<rparr>\<rparr>"
| "apply_thread_option (WithThreadEphemeral e) c = c\<lparr>tc_req := (tc_req c)\<lparr>ts_ephemeral := e\<rparr>\<rparr>"
| "apply_thread_option (WithThreadPersonality p) c = c\<lparr>tc_req := (tc_req c)\<lparr>ts_personality := p\<rparr>\<rparr>"
| "apply_thread_option (WithInitialInput i) c = c\<lparr>tc_initial_input := i\<rparr>"

definition zero_thread_start :: thread_start_request where
  "zero_thread_start = \<lparr>ts_model = [], ts_cwd = [], ts_approval_policy = [], ts_workspace_roots = [],
     ts_environments = [], ts_personality = [], ts_dynamic_tools = [], ts_ephemeral = False, ts_metadata = None\<rparr>"

definition apply_thread_options :: "thread_option list \<Rightarrow> thread_config" where
  "apply_thread_options opts = fold apply_thread_option opts \<lparr>tc_req = zero_thread_start, tc_initial_input = []\<rparr>"

section \<open>Session threads\<close>

definition turn_request :: "string \<Rightarrow> string \<Rightarrow> turn_start_request" where
  "turn_request threadID input = \<lparr>start_thread_id = threadID, start_input = input, start_message_id = [],
     start_cwd = [], start_approval_policy = [], start_sandbox_policy = [], start_permissions = [],
     start_model = [], start_service_tier = [], start_effort = [], start_summary = [],
     start_output_schema = None, start_collaboration_mode = [], start_multi_agent_mode = [],
     start_environments = [], start_skill = []\<rparr>"

text \<open>
  \<^verbatim>\<open>Run\<close>: the turn is started and its output awaited, with what the rounds of the waiting loop observe;
  \<^term>\<open>None\<close> while it has not returned.
\<close>

definition run_turn :: "timelib \<Rightarrow> anylib \<Rightarrow> 's connection \<Rightarrow> string \<Rightarrow> string \<Rightarrow> turn_option list \<Rightarrow>
    output_round list \<Rightarrow> 's \<Rightarrow> (go_error + turn_result) option \<times> 's" where
  "run_turn tlib alib c threadID input opts rounds s =
     (case TurnStart tlib c (apply_turn_options opts (turn_request threadID input)) s of
        (Inl e, s') \<Rightarrow> (Some (Inl e), s')
      | (Inr t, s') \<Rightarrow>
          (case wait_for_turn_output alib threadID (turn_id t) rounds of
             OGo n col sub \<Rightarrow> None
           | OFail e \<Rightarrow> Some (Inl e)
           | OReturn completed col \<Rightarrow> Some (Inr (run_result alib completed col)), s'))"

definition ThreadInterrupt :: "'s connection \<Rightarrow> string \<Rightarrow> string \<Rightarrow> ('s, unit) api" where
  "ThreadInterrupt c threadID turnID = TurnInterrupt c (VStruct [VStr threadID, VStr turnID])"

definition Compact :: "'s connection \<Rightarrow> string \<Rightarrow> ('s, unit) api" where
  "Compact c threadID = call_plain c MethodThreadCompact (enc threadCompactRequest_t (VStruct [VStr threadID]))"

definition Steer :: "'s connection \<Rightarrow> string \<Rightarrow> string \<Rightarrow> string \<Rightarrow> ('s, unit) api" where
  "Steer c threadID turnID input =
     TurnSteer c \<lparr>steer_thread_id = threadID, steer_turn_id = turnID, steer_input = input\<rparr>"

definition SteerInputs :: "'s connection \<Rightarrow> string \<Rightarrow> string \<Rightarrow> json list \<Rightarrow> ('s, unit) api" where
  "SteerInputs c threadID turnID inputs =
     TurnSteer c \<lparr>steer_thread_id = threadID, steer_turn_id = turnID, steer_input = encode_inputs inputs\<rparr>"

definition Archive :: "'s connection \<Rightarrow> string \<Rightarrow> ('s, unit) api" where
  "Archive c threadID = ThreadArchive c (VStruct [VStr threadID])"

definition Unarchive :: "'s connection \<Rightarrow> string \<Rightarrow> ('s, unit) api" where
  "Unarchive c threadID = ThreadUnarchive c (VStruct [VStr threadID])"

definition SetName :: "'s connection \<Rightarrow> string \<Rightarrow> string \<Rightarrow> ('s, unit) api" where
  "SetName c threadID name = ThreadSetName c (VStruct [VStr threadID, VStr name])"

definition SetGoal :: "'s connection \<Rightarrow> string \<Rightarrow> string \<Rightarrow> ('s, unit) api" where
  "SetGoal c threadID goal =
     then_do (ThreadGoalSet c (VStruct [VStr threadID, VStr goal, VNil, VNil])) (\<lambda>g. giving ())"

definition ClearGoal :: "'s connection \<Rightarrow> string \<Rightarrow> ('s, unit) api" where
  "ClearGoal c threadID = ThreadGoalClear c (VStruct [VStr threadID])"

definition GetGoal :: "'s connection \<Rightarrow> string \<Rightarrow> ('s, goval) api" where
  "GetGoal c threadID = ThreadGoalGet c (VStruct [VStr threadID])"

text \<open>The ids are a slice, which may be nil.\<close>

definition Rollback :: "'s connection \<Rightarrow> string \<Rightarrow> string list option \<Rightarrow> ('s, unit) api" where
  "Rollback c threadID turnIDs =
     ThreadRollback c (VStruct [VStr threadID, case turnIDs of None \<Rightarrow> VNil | Some ids \<Rightarrow> strs_val ids])"

definition GitDiff :: "'s connection \<Rightarrow> string \<Rightarrow> string \<Rightarrow> ('s, string) api" where
  "GitDiff c threadID turnID =
     then_do (TurnDiff c (VStruct [VStr threadID, VStr turnID])) (\<lambda>v. giving (vstr (field0 v)))"

section \<open>Accounts\<close>

definition AccountRead :: "'s connection \<Rightarrow> ('s, goval) api" where
  "AccountRead c = call_for no_codecs AccountReadResult_t c MethodAccountRead (enc accountReadParams_t (VStruct [VBool False]))"

definition login_params :: "string \<Rightarrow> string \<Rightarrow> payload" where
  "login_params type key = enc loginAccountParams_t (VStruct [VStr type, VStr key])"

definition LoginAPIKey :: "'s connection \<Rightarrow> string \<Rightarrow> ('s, unit) api" where
  "LoginAPIKey c key =
     then_do (call_for no_codecs loginAccountResponse_t c MethodAccountLoginStart (login_params ''apiKey'' key))
       (\<lambda>v. giving ())"

record login_handle =
  lh_type :: string
  lh_login_id :: string
  lh_auth_url :: string
  lh_verification_url :: string
  lh_user_code :: string

definition login_handle_of :: "goval \<Rightarrow> login_handle" where
  "login_handle_of v = (case vfields v of
     [t, i, a, ver, u] \<Rightarrow> \<lparr>lh_type = vstr t, lh_login_id = vstr i, lh_auth_url = vstr a,
        lh_verification_url = vstr ver, lh_user_code = vstr u\<rparr>
   | _ \<Rightarrow> \<lparr>lh_type = [], lh_login_id = [], lh_auth_url = [], lh_verification_url = [], lh_user_code = []\<rparr>)"

definition start_interactive_login :: "'s connection \<Rightarrow> payload \<Rightarrow> ('s, login_handle) api" where
  "start_interactive_login c params =
     then_do (call_for no_codecs loginAccountResponse_t c MethodAccountLoginStart params)
       (\<lambda>v. let h = login_handle_of v in
          if lh_login_id h = []
          then failing (ErrText (''account/login/start returned no loginId for type '' @ quoted (lh_type h)))
          else giving h)"

definition LoginChatGPT :: "'s connection \<Rightarrow> ('s, login_handle) api" where
  "LoginChatGPT c = start_interactive_login c (login_params ''chatgpt'' [])"

definition LoginDeviceCode :: "'s connection \<Rightarrow> ('s, login_handle) api" where
  "LoginDeviceCode c = start_interactive_login c (login_params ''chatgptDeviceCode'' [])"

definition Logout :: "'s connection \<Rightarrow> ('s, unit) api" where
  "Logout c = call_plain c MethodAccountLogout NoParams"

text \<open>
  \<^verbatim>\<open>Wait\<close> over what its select observes: the end of the context, an event, or the end of the
  subscription; \<^term>\<open>None\<close> while it waits.
\<close>

definition login_completed :: "login_handle \<Rightarrow> event \<Rightarrow> goval option" where
  "login_completed h ev =
     (if ev_method ev \<noteq> MethodAccountLoginCompleted then None
      else (case event_decode no_codecs LoginCompleted_t ev of
              None \<Rightarrow> None
            | Some p \<Rightarrow>
                let i = vstr (vfields p ! 1) in
                if i \<noteq> [] \<and> i \<noteq> lh_login_id h then None else Some p))"

fun login_wait :: "login_handle \<Rightarrow> wake list \<Rightarrow> (go_error + goval) option" where
  "login_wait h [] = None"
| "login_wait h (CtxDone e # ws) = Some (Inl e)"
| "login_wait h (SubClosed # ws) = Some (Inl (ErrText (''event stream closed before login '' @ quoted (lh_login_id h) @ '' completed'')))"
| "login_wait h (Tick # ws) = login_wait h ws"
| "login_wait h (SubEvent ev # ws) =
     (case login_completed h ev of Some p \<Rightarrow> Some (Inr p) | None \<Rightarrow> login_wait h ws)"

definition cancel_login :: "'s connection \<Rightarrow> login_handle \<Rightarrow> ('s, string) api" where
  "cancel_login c h =
     then_do (call_for no_codecs cancelLoginResponse_t c MethodAccountLoginCancel
         (enc cancelLoginParams_t (VStruct [VStr (lh_login_id h)])))
       (\<lambda>v. giving (vstr (field0 v)))"

section \<open>Models\<close>

definition ModelList :: "'s connection \<Rightarrow> bool \<Rightarrow> ('s, goval list) api" where
  "ModelList c includeHidden =
     then_do (call_for no_codecs modelListResponse_t c MethodModelList
         (enc modelListRequest_t (VStruct [VBool includeHidden])))
       (\<lambda>v. giving (vslice (field0 v)))"

definition model_name :: "goval \<Rightarrow> string" where
  "model_name m = (let i = vstr (vfields m ! 0) in if i = [] then vstr (vfields m ! 1) else i)"

definition Models :: "'s connection \<Rightarrow> ('s, string list) api" where
  "Models c = then_do (ModelList c False)
     (\<lambda>infos. giving (sort (filter (\<lambda>i. i \<noteq> []) (map model_name infos))))"

end
