(* ===== verification/ClientProps.thy ===== *)
theory ClientProps imports ClientOps begin

text \<open>
  The model catalog with its time to live, and properties of the client's methods: typed values
  travel through a call in both directions, a model is only rejected on a recent catalog, and a
  login waits for its own completion.
\<close>

section \<open>The model catalog\<close>

text \<open>
  The strings of a decoded document.  Decoding fails on a number beyond the range of \<^verbatim>\<open>float64\<close>; which
  literals are in range is a parameter.
\<close>

lemma put_entries: "set (put k v kvs) \<subseteq> insert (k, v) (set kvs)"
  by (induction kvs) (auto split: if_splits)

lemma obj_map_entries: "set (obj_map ms) \<subseteq> set ms"
proof -
  have "set (fold (\<lambda>(k, v) kvs. put k v kvs) ms kvs) \<subseteq> set ms \<union> set kvs" for kvs :: "(string \<times> json) list"
  proof (induction ms arbitrary: kvs)
    case (Cons m ms)
    obtain k v where m: "m = (k, v)" by (cases m)
    have "set (fold (\<lambda>(k, v) kvs. put k v kvs) ms (put k v kvs)) \<subseteq> set ms \<union> set (put k v kvs)"
      by (rule Cons.IH)
    also have "\<dots> \<subseteq> set ms \<union> insert (k, v) (set kvs)" using put_entries [of k v kvs] by blast
    finally show ?case by (auto simp: m)
  qed simp
  from this [of "[]"] show ?thesis by (simp add: obj_map_def)
qed

function collect_strings :: "json \<Rightarrow> string list" where
  "collect_strings (JStr s) = [s]"
| "collect_strings (JArr js) = concat (map collect_strings js)"
| "collect_strings (JObj ms) = concat (map collect_strings (map snd (obj_map ms)))"
| "collect_strings JNull = []"
| "collect_strings (JBool b) = []"
| "collect_strings (JNum l) = []"
  by pat_completeness auto

termination
proof (relation "measure size")
  fix ms x
  assume "x \<in> set (map snd (obj_map ms))"
  then have "x \<in> snd ` set ms" using obj_map_entries [of ms] by auto
  then show "(x, JObj ms) \<in> measure size" by (auto intro: member_size)
qed (auto intro: elem_size)

fun json_nums :: "json \<Rightarrow> string list" where
  "json_nums (JNum l) = [l]"
| "json_nums (JArr js) = concat (map json_nums js)"
| "json_nums (JObj ms) = concat (map (\<lambda>(k, j). json_nums j) ms)"
| "json_nums j = []"

definition collect_strings_from_json :: "(string \<Rightarrow> bool) \<Rightarrow> raw \<Rightarrow> go_error + string list" where
  "collect_strings_from_json in_range data =
     (case data of
        None \<Rightarrow> Inr []
      | Some j \<Rightarrow> if list_all in_range (json_nums j) then Inr (collect_strings j) else Inl unmarshal_error)"

text \<open>Five minutes, in nanoseconds.\<close>

definition model_catalog_ttl :: int where
  "model_catalog_ttl = 5 * 60 * 10 ^ 9"

record catalog =
  cat_models :: "string list option"
  cat_err :: "go_error option"
  cat_at :: int

definition no_catalog :: catalog where
  "no_catalog = \<lparr>cat_models = None, cat_err = None, cat_at = zero_time\<rparr>"

definition fetch_models :: "(string \<Rightarrow> bool) \<Rightarrow> 's connection \<Rightarrow> ('s, string list) api" where
  "fetch_models in_range c =
     then_do (conn_call c MethodModelList (Params (JObj []))) (\<lambda>r s. (collect_strings_from_json in_range r, s))"

definition load_model_catalog ::
  "(string \<Rightarrow> bool) \<Rightarrow> 's connection \<Rightarrow> int \<Rightarrow> catalog \<Rightarrow> 's \<Rightarrow> (go_error + string list) \<times> catalog \<times> 's" where
  "load_model_catalog in_range c now cat s =
     (case cat_models cat of
        Some ms \<Rightarrow>
          if now - cat_at cat < model_catalog_ttl then (Inr ms, cat, s)
          else (case fetch_models in_range c s of
                  (Inl e, s') \<Rightarrow> (Inl e, cat\<lparr>cat_err := Some e\<rparr>, s')
                | (Inr ms', s') \<Rightarrow> (Inr ms', \<lparr>cat_models = Some ms', cat_err = None, cat_at = now\<rparr>, s'))
      | None \<Rightarrow>
          (case fetch_models in_range c s of
             (Inl e, s') \<Rightarrow> (Inl e, cat\<lparr>cat_err := Some e\<rparr>, s')
           | (Inr ms', s') \<Rightarrow> (Inr ms', \<lparr>cat_models = Some ms', cat_err = None, cat_at = now\<rparr>, s')))"

definition validate_model ::
  "(string \<Rightarrow> bool) \<Rightarrow> 's connection \<Rightarrow> int \<Rightarrow> string \<Rightarrow> catalog \<Rightarrow> 's \<Rightarrow> go_error option \<times> catalog \<times> 's" where
  "validate_model in_range c now model cat s =
     (let m = trim_space model in
      if m = [] then (None, cat, s)
      else (case load_model_catalog in_range c now cat s of
              (Inl e, cat', s') \<Rightarrow> (None, cat', s')
            | (Inr ms, cat', s') \<Rightarrow>
                (if ms = [] \<or> m \<in> set ms then None
                 else Some (ErrText (''unsupported model '' @ quoted m @ '': not present in server model catalog'')),
                 cat', s')))"

text \<open>A run of validations, each with the time, the model, the state it found and its verdict.\<close>

fun validations :: "(string \<Rightarrow> bool) \<Rightarrow> 's connection \<Rightarrow> (int \<times> string) list \<Rightarrow> catalog \<Rightarrow> 's \<Rightarrow>
    (int \<times> string \<times> 's \<times> go_error option) list" where
  "validations in_range c [] cat s = []"
| "validations in_range c ((now, m) # reqs) cat s =
     (case validate_model in_range c now m cat s of
        (r, cat', s') \<Rightarrow> (now, m, s, r) # validations in_range c reqs cat' s')"

text \<open>The catalog is what the server answered to one of the validations of the log, at the time it keeps.\<close>

definition catalog_from :: "(string \<Rightarrow> bool) \<Rightarrow> 's connection \<Rightarrow> (int \<times> 's) set \<Rightarrow> catalog \<Rightarrow> bool" where
  "catalog_from in_range c log cat \<longleftrightarrow>
     (\<forall>ms. cat_models cat = Some ms \<longrightarrow>
        (\<exists>s. (cat_at cat, s) \<in> log \<and> fst (fetch_models in_range c s) = Inr ms))"

lemma load_from:
  assumes "catalog_from in_range c log cat" and "load_model_catalog in_range c now cat s = (r, cat', s')"
  shows "catalog_from in_range c (insert (now, s) log) cat' \<and>
    (\<forall>ms. r = Inr ms \<longrightarrow> (\<exists>t s0. (t, s0) \<in> insert (now, s) log \<and> now - t < model_catalog_ttl \<and>
       fst (fetch_models in_range c s0) = Inr ms))"
proof (cases "\<exists>ms. cat_models cat = Some ms \<and> now - cat_at cat < model_catalog_ttl")
  case True
  with assms show ?thesis by (fastforce simp: load_model_catalog_def catalog_from_def)
next
  case False
  then have "load_model_catalog in_range c now cat s =
      (case fetch_models in_range c s of
         (Inl e, s') \<Rightarrow> (Inl e, cat\<lparr>cat_err := Some e\<rparr>, s')
       | (Inr ms', s') \<Rightarrow> (Inr ms', \<lparr>cat_models = Some ms', cat_err = None, cat_at = now\<rparr>, s'))"
    by (auto simp: load_model_catalog_def split: option.splits)
  moreover obtain r0 s0 where f: "fetch_models in_range c s = (r0, s0)" by (cases "fetch_models in_range c s")
  ultimately show ?thesis
    using assms by (cases r0) (fastforce simp: catalog_from_def model_catalog_ttl_def)+
qed

lemma validate_from:
  assumes "catalog_from in_range c log cat" and "validate_model in_range c now m cat s = (r, cat', s')"
  shows "catalog_from in_range c (insert (now, s) log) cat' \<and>
    (r \<noteq> None \<longrightarrow> (\<exists>t s0 ms. (t, s0) \<in> insert (now, s) log \<and> now - t < model_catalog_ttl \<and>
       fst (fetch_models in_range c s0) = Inr ms \<and> ms \<noteq> [] \<and> trim_space m \<noteq> [] \<and> trim_space m \<notin> set ms))"
proof (cases "trim_space m = []")
  case True
  with assms show ?thesis by (auto simp: validate_model_def catalog_from_def)
next
  case False
  obtain l cat1 s1 where l: "load_model_catalog in_range c now cat s = (l, cat1, s1)"
    by (cases "load_model_catalog in_range c now cat s") auto
  from load_from [OF assms(1) l] False assms(2) l show ?thesis
    by (cases l) (auto simp: validate_model_def Let_def split: if_splits)
qed

lemma validations_from:
  assumes "catalog_from in_range c log cat" and "i < length reqs"
    and "validations in_range c reqs cat s ! i = (now, m, si, Some e)"
  shows "\<exists>t s0 ms. ((t, s0) \<in> log \<or> (\<exists>j \<le> i. \<exists>m' r. validations in_range c reqs cat s ! j = (t, m', s0, r))) \<and>
     now - t < model_catalog_ttl \<and> fst (fetch_models in_range c s0) = Inr ms \<and>
     ms \<noteq> [] \<and> trim_space m \<noteq> [] \<and> trim_space m \<notin> set ms"
  using assms
proof (induction reqs arbitrary: log cat s i)
  case (Cons q reqs)
  obtain t0 m0 where q: "q = (t0, m0)" by (cases q)
  obtain r cat' s' where v: "validate_model in_range c t0 m0 cat s = (r, cat', s')"
    by (cases "validate_model in_range c t0 m0 cat s") auto
  let ?L = "insert (t0, s) log"
  have run: "validations in_range c (q # reqs) cat s = (t0, m0, s, r) # validations in_range c reqs cat' s'"
    by (simp add: q v)
  note vf = validate_from [OF Cons.prems(1) v]
  show ?case
  proof (cases i)
    case 0
    with Cons.prems(3) run have "now = t0" "m = m0" "r = Some e" by simp_all
    with vf show ?thesis unfolding run 0 by fastforce
  next
    case (Suc k)
    with Cons.prems(2,3) run have k: "k < length reqs" "validations in_range c reqs cat' s' ! k = (now, m, si, Some e)"
      by simp_all
    from vf have L: "catalog_from in_range c ?L cat'" by blast
    from Cons.IH [OF L k] obtain t s0 ms where
      w: "(t, s0) \<in> ?L \<or> (\<exists>j \<le> k. \<exists>m' r. validations in_range c reqs cat' s' ! j = (t, m', s0, r))"
        "now - t < model_catalog_ttl" "fst (fetch_models in_range c s0) = Inr ms"
        "ms \<noteq> []" "trim_space m \<noteq> []" "trim_space m \<notin> set ms" by blast
    from w(1) have "(t, s0) \<in> log \<or> (\<exists>j \<le> i. \<exists>m' r. validations in_range c (q # reqs) cat s ! j = (t, m', s0, r))"
      unfolding run Suc by (metis Suc_le_mono insertE le0 nth_Cons_0 nth_Cons_Suc prod.inject)
    with w show ?thesis by blast
  qed
qed simp

lemma validations_times: "map fst (validations in_range c reqs cat s) = map fst reqs"
  by (induction reqs arbitrary: cat s) (auto split: prod.splits)

text \<open>
  A model is rejected only on a recent catalog: whenever a validation of a run fails, the server
  answered one of the validations of the run, less than five minutes before and not after it, with
  a catalog that is not empty and does not have the model.
\<close>

theorem model_rejection_is_recent:
  assumes "sorted (map fst reqs)" and "i < length reqs"
    and "validations in_range c reqs no_catalog s ! i = (now, m, si, Some e)"
  shows "\<exists>j \<le> i. \<exists>t m' s0 r raw s1 ms. validations in_range c reqs no_catalog s ! j = (t, m', s0, r) \<and>
     t \<le> now \<and> now - t < model_catalog_ttl \<and>
     conn_call c MethodModelList (Params (JObj [])) s0 = (Inr raw, s1) \<and>
     collect_strings_from_json in_range raw = Inr ms \<and>
     ms \<noteq> [] \<and> trim_space m \<noteq> [] \<and> trim_space m \<notin> set ms"
proof -
  have "catalog_from in_range c {} no_catalog" by (simp add: catalog_from_def no_catalog_def)
  from validations_from [OF this assms(2,3)] obtain t s0 ms j m' r where
    j: "j \<le> i" "validations in_range c reqs no_catalog s ! j = (t, m', s0, r)"
    and w: "now - t < model_catalog_ttl" "fst (fetch_models in_range c s0) = Inr ms"
      "ms \<noteq> []" "trim_space m \<noteq> []" "trim_space m \<notin> set ms" by blast
  have "fst (validations in_range c reqs no_catalog s ! k) = fst (reqs ! k)" if "k < length reqs" for k
    using that arg_cong [OF validations_times [of in_range c reqs no_catalog s], of "\<lambda>ts. ts ! k"]
      arg_cong [OF validations_times [of in_range c reqs no_catalog s], of length] by simp
  from this [of j] this [of i] have "t = fst (reqs ! j)" "now = fst (reqs ! i)"
    using assms(2,3) j by simp_all
  moreover have "fst (reqs ! j) \<le> fst (reqs ! i)"
    using sorted_nth_mono [OF assms(1) j(1)] assms(2) j(1) by simp
  moreover obtain raw s1 where "conn_call c MethodModelList (Params (JObj [])) s0 = (Inr raw, s1)"
    "collect_strings_from_json in_range raw = Inr ms"
    using w(2) by (auto simp: fetch_models_def then_do_def split: prod.splits sum.splits)
  ultimately show ?thesis using j w by blast
qed

definition demo_conn :: "raw \<Rightarrow> nat connection" where
  "demo_conn r = \<lparr>conn_call = (\<lambda>m p s. (Inr r, Suc s)), conn_notify = (\<lambda>m p s. (None, s)), conn_close = (\<lambda>s. (None, s))\<rparr>"

theorem model_rejection_is_recent_witness:
  "\<exists>j \<le> 1. \<exists>t m' s0 r raw s1 ms.
     validations (\<lambda>l. True) (demo_conn (Some (JArr [JStr ''gpt'']))) [(0, ''gpt''), (60 * 10 ^ 9, ''o0'')] no_catalog 0 ! j
       = (t, m', s0, r) \<and>
     t \<le> 60 * 10 ^ 9 \<and> 60 * 10 ^ 9 - t < model_catalog_ttl \<and>
     conn_call (demo_conn (Some (JArr [JStr ''gpt'']))) MethodModelList (Params (JObj [])) s0 = (Inr raw, s1) \<and>
     collect_strings_from_json (\<lambda>l. True) raw = Inr ms \<and> ms \<noteq> [] \<and> trim_space ''o0'' \<noteq> [] \<and> trim_space ''o0'' \<notin> set ms"
proof -
  let ?c = "demo_conn (Some (JArr [JStr ''gpt'']))"
  have trim: "trim_space ''gpt'' = ''gpt''" "trim_space ''o0'' = ''o0''"
    by (simp_all add: trim_space_def trim_right_def trim_left_ascii trim_last_ascii code_def space1_def
        space2_def space3_def)
  have "validations (\<lambda>l. True) ?c [(0, ''gpt''), (60 * 10 ^ 9, ''o0'')] no_catalog 0 ! 1
      = (60 * 10 ^ 9, ''o0'', 1, Some (ErrText (''unsupported model '' @ quoted ''o0'' @ '': not present in server model catalog'')))"
    by (simp add: validate_model_def load_model_catalog_def fetch_models_def then_do_def demo_conn_def
        no_catalog_def collect_strings_from_json_def trim model_catalog_ttl_def)
  from model_rejection_is_recent [OF _ _ this] show ?thesis by simp
qed

section \<open>Typed calls\<close>

text \<open>The methods that take a request and return a result of plain wire types.\<close>

definition typed_api :: "'s connection \<Rightarrow> ((goval \<Rightarrow> ('s, goval) api) \<times> string \<times> gotype \<times> gotype) list" where
  "typed_api c =
     [(ThreadUnsubscribe c, MethodThreadUnsubscribe, ThreadUnsubscribeRequest_t, ThreadUnsubscribeResult_t),
      (TurnDiff c, MethodTurnDiff, TurnDiffRequest_t, TurnDiffResult_t),
      (ConfigRead c, MethodConfigRead, ConfigReadRequest_t, ConfigReadResult_t),
      (SkillsList c, MethodSkillsList, SkillsListParams_t, SkillsListResponse_t),
      (SkillsConfigWrite c, MethodSkillsConfigWrite, SkillsConfigWriteParams_t, SkillsConfigWriteResponse_t),
      (ExperimentalFeatureList c, MethodExperimentalFeatureList, ExperimentalFeatureListRequest_t, ExperimentalFeatureListResult_t),
      (ExperimentalFeatureEnablementSet c, MethodExperimentalFeatureEnablementSet,
         ExperimentalFeatureEnablementSetRequest_t, ExperimentalFeatureEnablementSetResult_t),
      (HooksList c, MethodHooksList, HooksListRequest_t, HooksListResult_t),
      (CommandExec c, MethodCommandExec, CommandExecRequest_t, CommandExecResult_t)]"

text \<open>A server that decodes the parameters of a method, and answers with the encoding of a result.\<close>

definition serves :: "'s connection \<Rightarrow> string \<Rightarrow> gotype \<Rightarrow> gotype \<Rightarrow> (goval \<Rightarrow> 's \<Rightarrow> goval \<times> 's) \<Rightarrow> bool" where
  "serves c method req_t res_t f \<longleftrightarrow>
     (\<forall>j s v. json_unmarshal no_codecs req_t j = Some v \<longrightarrow>
        conn_call c method (Params j) s = (Inr (Some (goenc no_codecs res_t (fst (f v s)))), snd (f v s)))"

lemma typed_api_types:
  "(op, method, req_t, res_t) \<in> set (typed_api c) \<Longrightarrow> req_t \<in> set wire_types \<and> res_t \<in> set wire_types \<and>
     (\<forall>req. op req = call_for no_codecs res_t c method (enc req_t req))"
  by (auto simp: typed_api_def wire_types_def schema_types_def client_types_def ThreadUnsubscribe_def
      TurnDiff_def ConfigRead_def SkillsList_def SkillsConfigWrite_def ExperimentalFeatureList_def
      ExperimentalFeatureEnablementSet_def HooksList_def CommandExec_def)

lemma typed_call:
  assumes "(op, method, req_t, res_t) \<in> set (typed_api c)"
    and "conn_call c method (enc req_t req) s = (Inr (Some (goenc no_codecs res_t res)), s')"
    and "wt no_codecs res_t res"
  shows "op req s = (Inr res, s')"
proof -
  note t = typed_api_types [OF assms(1)]
  have "json_unmarshal no_codecs res_t (goenc no_codecs res_t res) = Some res"
    using t assms(3) by (auto intro!: unmarshal_marshal wire_types_ok)
  then show ?thesis using t assms(2) by (simp add: call_for_def then_do_def decode_answer_def)
qed

text \<open>
  A typed method is its server's function: the server sees the request the caller passed, and the
  caller gets the result the server computed, both unchanged by their encoding.
\<close>

theorem typed_api_correct:
  assumes "(op, method, req_t, res_t) \<in> set (typed_api c)" and "serves c method req_t res_t f"
    and "wt no_codecs req_t req" and "wt no_codecs res_t (fst (f req s))"
  shows "op req s = (Inr (fst (f req s)), snd (f req s))"
proof -
  have "json_unmarshal no_codecs req_t (goenc no_codecs req_t req) = Some req"
    using typed_api_types [OF assms(1)] assms(3) by (auto intro!: unmarshal_marshal wire_types_ok)
  with assms(2) show ?thesis by (intro typed_call [OF assms(1) _ assms(4)]) (simp add: serves_def enc_def)
qed

theorem typed_api_correct_witness:
  "TurnDiff (\<lparr>conn_call = (\<lambda>m p s. (Inr (Some (JObj [(''diff'', JStr ''+a'')])), s + 1)),
      conn_notify = (\<lambda>m p s. (None, s)), conn_close = (\<lambda>s. (None, s))\<rparr> :: nat connection)
     (VStruct [VStr ''t'', VStr []]) 4 = (Inr (VStruct [VStr ''+a'']), 5)"
proof -
  let ?c = "\<lparr>conn_call = (\<lambda>m p s. (Inr (Some (JObj [(''diff'', JStr ''+a'')])), s + 1)),
      conn_notify = (\<lambda>m p s. (None, s)), conn_close = (\<lambda>s. (None, s))\<rparr> :: nat connection"
  let ?f = "\<lambda>v s :: nat. (VStruct [VStr ''+a''], s + 1)"
  have "(TurnDiff ?c, MethodTurnDiff, TurnDiffRequest_t, TurnDiffResult_t) \<in> set (typed_api ?c)"
    by (simp add: typed_api_def)
  moreover have "serves ?c MethodTurnDiff TurnDiffRequest_t TurnDiffResult_t ?f"
    by (simp add: serves_def TurnDiffResult_t_def coerce_ascii code_def del: coerce_utf8.simps)
  moreover have "wt no_codecs TurnDiffRequest_t (VStruct [VStr ''t'', VStr []])"
    "wt no_codecs TurnDiffResult_t (fst (?f (VStruct [VStr ''t'', VStr []]) 4))"
    by (simp_all add: TurnDiffRequest_t_def TurnDiffResult_t_def valid_utf8_ascii code_def)
  ultimately show ?thesis using typed_api_correct [of "TurnDiff ?c" _ _ _ ?c ?f] by fastforce
qed

end
