(* ===== verification/NewClient.thy ===== *)
theory NewClient imports ClientOps Sessions Retry begin

text \<open>
  The options of a client and \<^verbatim>\<open>New\<close> (\<^verbatim>\<open>options.go\<close>, \<^verbatim>\<open>client.go\<close>).  What \<^verbatim>\<open>New\<close> does to the world is a
  log of effects; the world (whether a connection can be made or a process started, and what the
  server answers after what has happened) is a record of functions.
\<close>

section \<open>The configuration\<close>

text \<open>
  The transports built by options, and the transport of a client: a caller's own, one over streams,
  or an inner transport behind the retry policy.
\<close>

type_synonym headers = "(string \<times> string) list"

datatype inner =
    HTTPInner string headers | WSInner string headers | UnixWSInner string headers
  | ReconnectingHTTPInner string headers | ReconnectingWSInner string headers

datatype ('t, 'io) chosen =
    Own 't | Stdio 'io | OsStdio | ProcessStdio | Channel inner "retry_config option"

datatype request_handling = Approvals approval_handler | Requests request_handler

record ('t, 'io) client_config =
  cfg_transport :: "('t, 'io) chosen option"
  cfg_handler :: "request_handling option"
  cfg_max_threads :: int
  cfg_process_path :: string
  cfg_process_args :: "string list"
  cfg_process_env :: "string list"
  cfg_process_dir :: string
  cfg_auto_login :: string
  cfg_auto_init :: bool
  cfg_http_headers :: headers
  cfg_ws_headers :: headers
  cfg_retry :: "retry_config option"
  cfg_inner :: "inner option"

definition zero_config :: "('t, 'io) client_config" where
  "zero_config = \<lparr>cfg_transport = None, cfg_handler = None, cfg_max_threads = 0, cfg_process_path = [],
     cfg_process_args = [], cfg_process_env = [], cfg_process_dir = [], cfg_auto_login = [],
     cfg_auto_init = False, cfg_http_headers = [], cfg_ws_headers = [], cfg_retry = None, cfg_inner = None\<rparr>"

section \<open>The world\<close>

datatype 'io effect =
    Opened inner | OpenedStreams 'io | Started string "string list" "string list" string
  | Called string payload | Notified string payload | ClosedTransport | ShutDown

record 'io world =
  dial :: "'io effect list \<Rightarrow> inner \<Rightarrow> go_error option"
  start_process :: "'io effect list \<Rightarrow> string \<Rightarrow> string list \<Rightarrow> string list \<Rightarrow> string \<Rightarrow> go_error option"
  answer :: "'io effect list \<Rightarrow> string \<Rightarrow> payload \<Rightarrow> go_error + raw"
  notify_err :: "'io effect list \<Rightarrow> string \<Rightarrow> go_error option"
  close_err :: "'io effect list \<Rightarrow> go_error option"
  home_socket :: string

definition world_conn :: "'io world \<Rightarrow> 'io effect list connection" where
  "world_conn w =
     \<lparr>conn_call = (\<lambda>m p fx. (answer w fx m p, fx @ [Called m p])),
      conn_notify = (\<lambda>m p fx. (notify_err w fx m, fx @ [Notified m p])),
      conn_close = (\<lambda>fx. (close_err w fx, fx @ [ClosedTransport]))\<rparr>"

section \<open>Options\<close>

datatype ('t, 'io) client_option =
    WithTransport 't
  | WithApprovalHandler "approval_handler option"
  | WithRequestHandler "request_handler option"
  | WithStdioTransport 'io
  | WithStdioProcess string "string list"
  | WithProcessEnv string string
  | WithProcessDir string
  | WithHTTPBearerToken string | WithHTTPAPIKey string
  | WithWSBearerToken string | WithWSAPIKey string
  | WithHTTPTransport string | WithWSTransport string | WithUnixSocketWSTransport string
  | WithReconnectingHTTPTransport string | WithReconnectingWSTransport string
  | WithRetry retry_config
  | WithAutoLogin string
  | WithMaxThreads int

definition set_auth_header :: "string \<Rightarrow> string \<Rightarrow> headers \<Rightarrow> headers" where
  "set_auth_header k v m = put k v m"

text \<open>
  The HTTP transports connect later, so they are made without failing; a WebSocket is dialled at
  once.
\<close>

definition use_inner :: "inner \<Rightarrow> ('t, 'io) client_config \<Rightarrow> ('t, 'io) client_config" where
  "use_inner i cfg = cfg\<lparr>cfg_inner := Some i, cfg_auto_init := True\<rparr>"

definition open_inner :: "inner \<Rightarrow> ('t, 'io) client_config \<Rightarrow> ('io effect list, ('t, 'io) client_config) api" where
  "open_inner i cfg fx = (Inr (use_inner i cfg), fx @ [Opened i])"

definition dial_inner :: "'io world \<Rightarrow> inner \<Rightarrow> ('t, 'io) client_config \<Rightarrow> ('io effect list, ('t, 'io) client_config) api" where
  "dial_inner w i cfg fx =
     (case dial w fx i of Some e \<Rightarrow> (Inl e, fx) | None \<Rightarrow> open_inner i cfg fx)"

fun apply_option :: "'io world \<Rightarrow> ('t, 'io) client_option \<Rightarrow> ('t, 'io) client_config \<Rightarrow>
    ('io effect list, ('t, 'io) client_config) api" where
  "apply_option w (WithTransport t) cfg = giving (cfg\<lparr>cfg_transport := Some (Own t), cfg_auto_init := True\<rparr>)"
| "apply_option w (WithApprovalHandler h) cfg = giving (cfg\<lparr>cfg_handler := map_option Approvals h\<rparr>)"
| "apply_option w (WithRequestHandler h) cfg = giving (cfg\<lparr>cfg_handler := map_option Requests h\<rparr>)"
| "apply_option w (WithStdioTransport io) cfg =
     (\<lambda>fx. (Inr (cfg\<lparr>cfg_transport := Some (Stdio io)\<rparr>), fx @ [OpenedStreams io]))"
| "apply_option w (WithStdioProcess path args) cfg =
     giving (cfg\<lparr>cfg_process_path := path, cfg_process_args := args, cfg_auto_init := True\<rparr>)"
| "apply_option w (WithProcessEnv k v) cfg = giving (cfg\<lparr>cfg_process_env := cfg_process_env cfg @ [k @ ''='' @ v]\<rparr>)"
| "apply_option w (WithProcessDir d) cfg = giving (cfg\<lparr>cfg_process_dir := d\<rparr>)"
| "apply_option w (WithHTTPBearerToken t) cfg =
     giving (cfg\<lparr>cfg_http_headers := set_auth_header ''Authorization'' (''Bearer '' @ t) (cfg_http_headers cfg)\<rparr>)"
| "apply_option w (WithHTTPAPIKey k) cfg =
     giving (cfg\<lparr>cfg_http_headers := set_auth_header ''X-API-Key'' k (cfg_http_headers cfg)\<rparr>)"
| "apply_option w (WithWSBearerToken t) cfg =
     giving (cfg\<lparr>cfg_ws_headers := set_auth_header ''Authorization'' (''Bearer '' @ t) (cfg_ws_headers cfg)\<rparr>)"
| "apply_option w (WithWSAPIKey k) cfg =
     giving (cfg\<lparr>cfg_ws_headers := set_auth_header ''X-API-Key'' k (cfg_ws_headers cfg)\<rparr>)"
| "apply_option w (WithHTTPTransport url) cfg = open_inner (HTTPInner url (cfg_http_headers cfg)) cfg"
| "apply_option w (WithWSTransport url) cfg = dial_inner w (WSInner url (cfg_ws_headers cfg)) cfg"
| "apply_option w (WithUnixSocketWSTransport path) cfg =
     dial_inner w (UnixWSInner (if path = [] then home_socket w else path) (cfg_ws_headers cfg)) cfg"
| "apply_option w (WithReconnectingHTTPTransport url) cfg =
     open_inner (ReconnectingHTTPInner url (cfg_http_headers cfg)) cfg"
| "apply_option w (WithReconnectingWSTransport url) cfg =
     dial_inner w (ReconnectingWSInner url (cfg_ws_headers cfg)) cfg"
| "apply_option w (WithRetry r) cfg = giving (cfg\<lparr>cfg_retry := Some r\<rparr>)"
| "apply_option w (WithAutoLogin k) cfg = giving (cfg\<lparr>cfg_auto_login := k\<rparr>)"
| "apply_option w (WithMaxThreads n) cfg = giving (cfg\<lparr>cfg_max_threads := n\<rparr>)"

fun apply_client_options :: "'io world \<Rightarrow> ('t, 'io) client_option list \<Rightarrow> ('t, 'io) client_config \<Rightarrow>
    ('io effect list, ('t, 'io) client_config) api" where
  "apply_client_options w [] cfg = giving cfg"
| "apply_client_options w (opt # opts) cfg = then_do (apply_option w opt cfg) (apply_client_options w opts)"

section \<open>New and Close\<close>

record ('t, 'io) client =
  cl_transport :: "('t, 'io) chosen"
  cl_handler :: "request_handling option"
  cl_slots :: "nat option"
  cl_process :: bool

text \<open>The transport, and whether a process was started for it.\<close>

definition choose_transport ::
  "'io world \<Rightarrow> ('t, 'io) client_config \<Rightarrow> ('io effect list, ('t, 'io) chosen \<times> bool) api" where
  "choose_transport w cfg fx =
     (let t = (case cfg_inner cfg of Some i \<Rightarrow> Some (Channel i (cfg_retry cfg)) | None \<Rightarrow> cfg_transport cfg) in
      if cfg_process_path cfg \<noteq> [] then
        (case start_process w fx (cfg_process_path cfg) (cfg_process_args cfg) (cfg_process_env cfg) (cfg_process_dir cfg) of
           Some e \<Rightarrow> (Inl e, fx)
         | None \<Rightarrow> (Inr (ProcessStdio, True),
             fx @ [Started (cfg_process_path cfg) (cfg_process_args cfg) (cfg_process_env cfg) (cfg_process_dir cfg)]))
      else (Inr (case t of Some t \<Rightarrow> t | None \<Rightarrow> OsStdio, False), fx))"

definition close_client :: "'io world \<Rightarrow> ('t, 'io) client \<Rightarrow> 'io effect list \<Rightarrow> go_error option \<times> 'io effect list" where
  "close_client w cl fx =
     (case conn_close (world_conn w) fx of
        (err, fx') \<Rightarrow> (err, if cl_process cl then fx' @ [ShutDown] else fx'))"

definition sdk_init_request :: goval where
  "sdk_init_request = VStruct [VStruct [VStr ''codex-go-sdk'', VStr ''0.1.0''],
     VStruct [VBool True, VBool False, VBool False]]"

definition auto_init :: "'io world \<Rightarrow> ('t, 'io) client_config \<Rightarrow> ('t, 'io) client \<Rightarrow>
    ('io effect list, ('t, 'io) client) api" where
  "auto_init w cfg cl fx =
     (case Initialize (world_conn w) sdk_init_request fx of
        (Inl e, fx1) \<Rightarrow> (Inl (ErrWrap ''codex initialize: '' e []), snd (close_client w cl fx1))
      | (Inr v, fx1) \<Rightarrow>
          if cfg_auto_login cfg = [] then (Inr cl, fx1)
          else (case LoginAPIKey (world_conn w) (cfg_auto_login cfg) fx1 of
                  (Inl e, fx2) \<Rightarrow> (Inl (ErrWrap ''codex auto-login: '' e []), snd (close_client w cl fx2))
                | (Inr u, fx2) \<Rightarrow> (Inr cl, fx2)))"

definition new_client :: "'io world \<Rightarrow> ('t, 'io) client_option list \<Rightarrow> ('io effect list, ('t, 'io) client) api" where
  "new_client w opts =
     then_do (apply_client_options w opts zero_config) (\<lambda>cfg.
       then_do (choose_transport w cfg) (\<lambda>(t, proc).
         let cl = \<lparr>cl_transport = t, cl_handler = cfg_handler cfg, cl_slots = sem_capacity (cfg_max_threads cfg),
               cl_process = proc\<rparr>
         in if cfg_auto_init cfg then auto_init w cfg cl else giving cl))"

section \<open>The place of the retry policy does not matter\<close>

lemma retry_open: "then_do (open_inner i cfg) (\<lambda>c. giving (c\<lparr>cfg_retry := r\<rparr>)) = open_inner i (cfg\<lparr>cfg_retry := r\<rparr>)"
  by (simp add: fun_eq_iff then_do_def open_inner_def use_inner_def giving_def)

lemma retry_dial: "then_do (dial_inner w i cfg) (\<lambda>c. giving (c\<lparr>cfg_retry := r\<rparr>)) = dial_inner w i (cfg\<lparr>cfg_retry := r\<rparr>)"
  by (simp add: fun_eq_iff then_do_def dial_inner_def open_inner_def use_inner_def giving_def split: option.split)

lemma retry_option:
  "(\<And>q. opt \<noteq> WithRetry q) \<Longrightarrow>
     then_do (apply_option w opt cfg) (\<lambda>c. giving (c\<lparr>cfg_retry := r\<rparr>)) = apply_option w opt (cfg\<lparr>cfg_retry := r\<rparr>)"
  by (cases cfg; cases opt) (simp_all add: retry_open retry_dial, simp add: fun_eq_iff then_do_def giving_def, blast)

lemma retry_options:
  "\<forall>q. WithRetry q \<notin> set opts \<Longrightarrow>
     then_do (apply_client_options w opts cfg) (\<lambda>c. giving (c\<lparr>cfg_retry := r\<rparr>))
       = apply_client_options w opts (cfg\<lparr>cfg_retry := r\<rparr>)"
proof (induction opts arbitrary: cfg)
  case (Cons opt opts)
  then have "\<And>q. opt \<noteq> WithRetry q" and IH: "\<And>cfg. then_do (apply_client_options w opts cfg) (\<lambda>c. giving (c\<lparr>cfg_retry := r\<rparr>))
      = apply_client_options w opts (cfg\<lparr>cfg_retry := r\<rparr>)" by auto
  from retry_option [OF this(1), where w = w and cfg = cfg and r = r, symmetric] show ?case by (simp add: IH)
qed simp

lemma apply_options_append:
  "apply_client_options w (opts @ opts') = (\<lambda>cfg. then_do (apply_client_options w opts cfg) (apply_client_options w opts'))"
  by (induction opts) (auto intro!: ext)

text \<open>
  The place of \<^verbatim>\<open>WithRetry\<close> among the options does not matter: \<^verbatim>\<open>New\<close> does and returns the same as with
  the policy given first.
\<close>

theorem new_retry_order:
  assumes "\<forall>q. WithRetry q \<notin> set (opts1 @ opts2)"
  shows "new_client w (opts1 @ WithRetry r # opts2) = new_client w (WithRetry r # opts1 @ opts2)"
proof -
  have "apply_client_options w (opts1 @ WithRetry r # opts2) zero_config =
      then_do (then_do (apply_client_options w opts1 zero_config) (\<lambda>c. giving (c\<lparr>cfg_retry := Some r\<rparr>)))
        (apply_client_options w opts2)"
  proof -
    have "apply_client_options w (WithRetry r # opts2) = (\<lambda>c. apply_client_options w opts2 (c\<lparr>cfg_retry := Some r\<rparr>))"
      by (rule ext) simp
    then show ?thesis by (simp only: apply_options_append then_do_simps)
  qed
  also have "\<dots> = apply_client_options w (WithRetry r # opts1 @ opts2) zero_config"
    using assms by (simp add: retry_options apply_options_append del: then_do_simps(4))
  finally show ?thesis by (simp add: new_client_def)
qed

theorem new_retry_order_witness:
  "\<forall>w. new_client w ([WithHTTPTransport ''http://h''] @ WithRetry default_retry_config # [WithMaxThreads 3])
     = new_client w (WithRetry default_retry_config # [WithHTTPTransport ''http://h''] @ [WithMaxThreads 3])"
  by (rule allI, rule new_retry_order) simp

section \<open>The handshake, and nothing left open after it fails\<close>

fun is_setup :: "'io effect \<Rightarrow> bool" where
  "is_setup (Opened i) = True"
| "is_setup (OpenedStreams io) = True"
| "is_setup (Started p args env dir) = True"
| "is_setup _ = False"

definition handshake :: "('t, 'io) client_config \<Rightarrow> 'io effect list" where
  "handshake cfg =
     [Called MethodInitialize (enc InitializeRequest_t sdk_init_request), Notified MethodInitialized NoParams]
     @ (if cfg_auto_login cfg = [] then []
        else [Called MethodAccountLoginStart (login_params ''apiKey'' (cfg_auto_login cfg))])"

lemma open_setup: "open_inner i cfg fx = (r, fx') \<Longrightarrow> \<exists>p. fx' = fx @ p \<and> list_all is_setup p"
  by (auto simp: open_inner_def)

lemma dial_setup: "dial_inner w i cfg fx = (r, fx') \<Longrightarrow> \<exists>p. fx' = fx @ p \<and> list_all is_setup p"
  by (auto simp: dial_inner_def intro: open_setup split: option.splits)

lemma option_setup: "apply_option w opt cfg fx = (r, fx') \<Longrightarrow> \<exists>p. fx' = fx @ p \<and> list_all is_setup p"
  by (cases opt) (auto simp: giving_def dest: open_setup dial_setup)

lemma options_setup:
  "apply_client_options w opts cfg fx = (r, fx') \<Longrightarrow> \<exists>p. fx' = fx @ p \<and> list_all is_setup p"
proof (induction opts arbitrary: cfg fx)
  case (Cons opt opts)
  obtain r1 fx1 where o: "apply_option w opt cfg fx = (r1, fx1)" by (cases "apply_option w opt cfg fx")
  from option_setup [OF o] obtain p where p: "fx1 = fx @ p" "list_all is_setup p" by blast
  show ?case
  proof (cases r1)
    case (Inl e)
    with Cons.prems o p show ?thesis by (auto simp: then_do_def)
  next
    case (Inr cfg1)
    with Cons.prems o have "apply_client_options w opts cfg1 fx1 = (r, fx')" by (simp add: then_do_def)
    from Cons.IH [OF this] obtain q where "fx' = fx1 @ q" "list_all is_setup q" by blast
    with p show ?thesis by (intro exI [of _ "p @ q"]) simp
  qed
qed (auto simp: giving_def)

lemma choose_setup:
  "choose_transport w cfg fx = (r, fx') \<Longrightarrow> (\<exists>p. fx' = fx @ p \<and> list_all is_setup p) \<and>
     (\<forall>t proc. r = Inr (t, proc) \<longrightarrow> proc = (cfg_process_path cfg \<noteq> []))"
  by (auto simp: choose_transport_def Let_def split: option.splits if_splits)

definition cleanup :: "bool \<Rightarrow> 'io effect list" where
  "cleanup proc = ClosedTransport # (if proc then [ShutDown] else [])"

lemma close_cleanup: "snd (close_client w cl fx) = fx @ cleanup (cl_process cl)"
  by (simp add: close_client_def world_conn_def cleanup_def)

lemma initialize_effects:
  assumes "Initialize (world_conn w) req fx = (r, fx')"
  shows "(\<exists>v. r = Inr v \<and> fx' = fx @ [Called MethodInitialize (enc InitializeRequest_t req), Notified MethodInitialized NoParams]) \<or>
    (\<exists>e. r = Inl e \<and> (fx' = fx @ [Called MethodInitialize (enc InitializeRequest_t req)] \<or>
      fx' = fx @ [Called MethodInitialize (enc InitializeRequest_t req), Notified MethodInitialized NoParams]))"
  using assms
  by (auto simp: Initialize_def call_for_def then_do_def world_conn_def
      split: prod.splits sum.splits option.splits dest!: sym [of "Inl _"] sym [of "Inr _"])

lemma login_effects:
  "LoginAPIKey (world_conn w) key fx = (r, fx') \<Longrightarrow>
     fx' = fx @ [Called MethodAccountLoginStart (login_params ''apiKey'' key)]"
  by (auto simp: LoginAPIKey_def call_for_def then_do_def world_conn_def giving_def split: prod.splits sum.splits)

lemma auto_init_effects:
  assumes "auto_init w cfg cl fx = (r, fx')"
  shows "(r = Inr cl \<and> fx' = fx @ handshake cfg) \<or>
    (\<exists>e k. r = Inl e \<and> 0 < k \<and> fx' = fx @ take k (handshake cfg) @ cleanup (cl_process cl))"
proof -
  let ?h = "handshake cfg"
  obtain r1 fx1 where i: "Initialize (world_conn w) sdk_init_request fx = (r1, fx1)"
    by (cases "Initialize (world_conn w) sdk_init_request fx")
  note eff = initialize_effects [OF i]
  show ?thesis
  proof (cases r1)
    case (Inl e)
    with eff have "fx1 = fx @ take 1 ?h \<or> fx1 = fx @ take 2 ?h" by (auto simp: handshake_def)
    then have "\<exists>k > 0. fx1 = fx @ take k ?h" by (metis zero_less_one zero_less_numeral)
    then obtain k where "0 < k" "fx1 = fx @ take k ?h" by blast
    with Inl i assms show ?thesis by (auto simp: auto_init_def close_cleanup)
  next
    case (Inr v)
    with eff have fx1: "fx1 = fx @ take 2 ?h" by (auto simp: handshake_def)
    show ?thesis
    proof (cases "cfg_auto_login cfg = []")
      case True
      then have "take 2 ?h = ?h" by (simp add: handshake_def)
      with True Inr i assms fx1 show ?thesis by (simp add: auto_init_def)
    next
      case False
      obtain r2 fx2 where l: "LoginAPIKey (world_conn w) (cfg_auto_login cfg) fx1 = (r2, fx2)"
        by (cases "LoginAPIKey (world_conn w) (cfg_auto_login cfg) fx1")
      from login_effects [OF l] fx1 False have fx2: "fx2 = fx @ take 3 ?h" "take 3 ?h = ?h" by (simp_all add: handshake_def)
      show ?thesis
      proof (cases r2)
        case (Inl e)
        with False Inr i l fx2 assms show ?thesis
          by (auto simp: auto_init_def close_cleanup intro!: exI [of _ "3 :: nat"])
      next
        case (Inr u)
        with False \<open>r1 = Inr v\<close> i l fx2 assms show ?thesis by (simp add: auto_init_def)
      qed
    qed
  qed
qed

text \<open>
  C27. \<^verbatim>\<open>New\<close> sends nothing before it has its transport, and then exactly the handshake; when a step of the
  handshake fails, the transport is closed, and the process it started is shut down.
\<close>

theorem new_client_effects:
  assumes "new_client w opts [] = (r, fx)"
  shows "(\<exists>e. r = Inl e \<and> list_all is_setup fx) \<or>
    (\<exists>cfg fx1 pre. apply_client_options w opts zero_config [] = (Inr cfg, fx1) \<and> list_all is_setup pre \<and>
      (case r of
         Inr cl \<Rightarrow> fx = pre @ (if cfg_auto_init cfg then handshake cfg else [])
       | Inl e \<Rightarrow> \<exists>k > 0. fx = pre @ take k (handshake cfg) @ cleanup (cfg_process_path cfg \<noteq> [])))"
proof -
  obtain r1 fx1 where o: "apply_client_options w opts zero_config [] = (r1, fx1)"
    by (cases "apply_client_options w opts zero_config []")
  from options_setup [OF o] have s1: "list_all is_setup fx1" by auto
  show ?thesis
  proof (cases r1)
    case (Inl e)
    with assms o s1 show ?thesis by (auto simp: new_client_def then_do_def)
  next
    case (Inr cfg)
    obtain r2 fx2 where c: "choose_transport w cfg fx1 = (r2, fx2)" by (cases "choose_transport w cfg fx1")
    from choose_setup [OF c] s1 have s2: "list_all is_setup fx2" by auto
    show ?thesis
    proof (cases r2)
      case (Inl e)
      with assms o c Inr s2 show ?thesis by (auto simp: new_client_def then_do_def)
    next
      case (Inr tp)
      obtain t proc where tp: "tp = (t, proc)" by (cases tp)
      from choose_setup [OF c] Inr tp have proc: "proc = (cfg_process_path cfg \<noteq> [])" by simp
      let ?cl = "\<lparr>cl_transport = t, cl_handler = cfg_handler cfg, cl_slots = sem_capacity (cfg_max_threads cfg),
          cl_process = proc\<rparr>"
      from assms o c Inr tp \<open>r1 = Inr cfg\<close>
      have n: "(if cfg_auto_init cfg then auto_init w cfg ?cl else giving ?cl) fx2 = (r, fx)"
        by (simp add: new_client_def then_do_def Let_def)
      have "(case r of Inr cl \<Rightarrow> fx = fx2 @ (if cfg_auto_init cfg then handshake cfg else [])
         | Inl e \<Rightarrow> \<exists>k > 0. fx = fx2 @ take k (handshake cfg) @ cleanup (cfg_process_path cfg \<noteq> []))"
      proof (cases "cfg_auto_init cfg")
        case True
        with n have "auto_init w cfg ?cl fx2 = (r, fx)" by simp
        from auto_init_effects [OF this] True proc show ?thesis by (auto split: sum.split)
      next
        case False
        with n show ?thesis by (auto simp: giving_def split: sum.split)
      qed
      with o s2 \<open>r1 = Inr cfg\<close> show ?thesis by blast
    qed
  qed
qed

text \<open>A world whose server answers everything but a login.\<close>

definition demo_world :: "unit world" where
  "demo_world =
     \<lparr>dial = (\<lambda>fx i. None), start_process = (\<lambda>fx p args env d. None),
      answer = (\<lambda>fx m p. if m = MethodAccountLoginStart then Inl ErrDisconnected else Inr (Some (JObj []))),
      notify_err = (\<lambda>fx m. None), close_err = (\<lambda>fx. None), home_socket = []\<rparr>"

definition demo_effects :: "unit effect list" where
  "demo_effects = [Started ''codex'' [] [] [],
     Called MethodInitialize (enc InitializeRequest_t sdk_init_request), Notified MethodInitialized NoParams,
     Called MethodAccountLoginStart (login_params ''apiKey'' ''k''), ClosedTransport, ShutDown]"

theorem new_client_effects_witness:
  "snd (new_client demo_world ([WithStdioProcess ''codex'' [], WithAutoLogin ''k''] :: (unit, unit) client_option list) [])
     = demo_effects \<and>
   (\<exists>(cfg :: (unit, unit) client_config) pre. \<exists>k > 0. list_all is_setup pre \<and>
      demo_effects = pre @ take k (handshake cfg) @ cleanup (cfg_process_path cfg \<noteq> []))"
proof -
  let ?opts = "[WithStdioProcess ''codex'' [], WithAutoLogin ''k''] :: (unit, unit) client_option list"
  obtain r fx where n: "new_client demo_world ?opts [] = (r, fx)" by (cases "new_client demo_world ?opts []")
  have init: "decode_answer no_codecs InitializeResult_t (Some (JObj [])) = Inr (zero InitializeResult_t)"
    by (simp add: decode_answer_def json_unmarshal_def InitializeResult_t_def)
  have e: "fx = demo_effects" "\<exists>e. r = Inl e"
    using n
    by (auto simp: new_client_def zero_config_def then_do_def giving_def choose_transport_def demo_world_def Let_def
        auto_init_def Initialize_def call_for_def world_conn_def init LoginAPIKey_def close_client_def demo_effects_def)
  then obtain e0 where r: "r = Inl e0" by blast
  have "\<not> list_all is_setup demo_effects" by (simp add: demo_effects_def)
  then have "\<exists>(cfg :: (unit, unit) client_config) pre. \<exists>k > 0. list_all is_setup pre \<and>
      demo_effects = pre @ take k (handshake cfg) @ cleanup (cfg_process_path cfg \<noteq> [])"
    using new_client_effects [OF n] unfolding r e(1) sum.case by blast
  with n e(1) show ?thesis by simp
qed

end
