(* ===== verification/JsonLines.thy ===== *)
theory JsonLines imports JsonRoundTrip begin

text \<open>
  Printed JSON has no control characters: a document is one line, which is what the protocols that
  separate their messages by newlines rely on.
\<close>

definition graphic :: "char \<Rightarrow> bool" where
  "graphic c \<longleftrightarrow> 32 \<le> code c"

definition graphic_text :: "string \<Rightarrow> bool" where
  "graphic_text s \<longleftrightarrow> (\<forall>c \<in> set s. graphic c)"

lemma graphic_text_simps [simp]:
  "graphic_text []" "graphic_text (c # s) \<longleftrightarrow> graphic c \<and> graphic_text s"
  "graphic_text (s @ t) \<longleftrightarrow> graphic_text s \<and> graphic_text t"
  by (auto simp: graphic_text_def)

lemma graphic_no_newline: "graphic_text s \<Longrightarrow> CHR 0x0A \<notin> set s \<and> CHR 0x0D \<notin> set s"
  by (auto simp: graphic_text_def graphic_def code_def)

section \<open>Numbers\<close>

lemma digits1_graphic: "digits1 s = Some (d, t) \<Longrightarrow> graphic_text d"
  by (auto simp: digits1_def digits_def graphic_text_def graphic_def is_digit_def dest!: set_takeWhileD split: if_splits)

lemma scan_int_graphic: "scan_int s = Some (d, t) \<Longrightarrow> graphic_text d"
  by (auto simp: scan_int_def graphic_def code_def dest: digits1_graphic split: list.splits if_splits)

lemma scan_frac_graphic: "scan_frac s = Some (d, t) \<Longrightarrow> graphic_text d"
  by (auto simp: scan_frac_def graphic_def code_def dest: digits1_graphic split: list.splits if_splits)

lemma scan_exp_graphic: "scan_exp s = Some (d, t) \<Longrightarrow> graphic_text d"
  by (auto simp: scan_exp_def graphic_def code_def dest: digits1_graphic split: list.splits if_splits)

lemma scan_unsigned_graphic:
  assumes "scan_unsigned s = Some (d, t)"
  shows "graphic_text d"
proof -
  from assms obtain i u f v e where parts: "scan_int s = Some (i, u)" "scan_frac u = Some (f, v)" "scan_exp v = Some (e, t)"
    and d: "d = i @ f @ e"
    by (auto simp: scan_unsigned_def split: option.splits)
  from d scan_int_graphic [OF parts(1)] scan_frac_graphic [OF parts(2)] scan_exp_graphic [OF parts(3)]
  show ?thesis by simp
qed

lemma num_graphic: "num_ok l \<Longrightarrow> graphic_text l"
proof (cases l)
  case (Cons c r)
  assume "num_ok l"
  with Cons show ?thesis
    by (auto simp: num_ok_def scan_num_def graphic_def code_def dest: scan_unsigned_graphic split: if_splits)
qed simp

section \<open>Strings and documents\<close>

lemma hex_graphic: "d < 16 \<Longrightarrow> graphic (hex_digit d)"
  by (auto simp: graphic_def hex_digit_def code_def)

lemma u_escape_graphic: "graphic_text (u_escape n)"
  by (simp add: u_escape_def hex_graphic graphic_def [of "CHR 0x5C"] graphic_def [of "CHR ''u''"] code_def)

lemma esc_char_graphic: "graphic_text (esc_char h c)"
  by (auto simp: esc_char_def u_escape_graphic graphic_def code_def)

lemma enc_str_graphic: "graphic_text (enc_str h s)"
  by (induction h s rule: enc_str.induct) (simp_all add: u_escape_graphic esc_char_graphic)

lemma quote_graphic: "graphic_text (quote h s)"
  by (simp add: quote_def enc_str_graphic graphic_def code_def)

lemma print_graphic:
  "json_ok d j \<Longrightarrow> graphic_text (print_json h j)"
  "elems_ok d js \<Longrightarrow> graphic_text (print_elems h js)"
  "members_ok d ms \<Longrightarrow> graphic_text (print_members h ms)"
proof (induction h j and h js and h ms arbitrary: d and d and d rule: print_json_print_elems_print_members.induct)
qed (auto simp: graphic_def code_def num_graphic quote_graphic print_elems.simps print_members.simps)

section \<open>Lines\<close>

text \<open>\<^verbatim>\<open>bufio.ScanLines\<close> strips a carriage return before the line end.\<close>

definition drop_cr :: "string \<Rightarrow> string" where
  "drop_cr s = (if s \<noteq> [] \<and> last s = CHR 0x0D then butlast s else s)"

lemma drop_cr_graphic: "graphic_text s \<Longrightarrow> drop_cr s = s"
proof -
  assume "graphic_text s"
  then have "last s \<noteq> CHR 0x0D" if "s \<noteq> []" using last_in_set [OF that] graphic_no_newline by metis
  then show ?thesis by (auto simp: drop_cr_def)
qed

lemma takeWhile_line: "CHR 0x0A \<notin> set s \<Longrightarrow> takeWhile (\<lambda>c. c \<noteq> CHR 0x0A) (s @ CHR 0x0A # t) = s"
  by (induction s) auto

text \<open>
  \<^verbatim>\<open>bufio.Scanner\<close> with a buffer of the given size: the lines of a stream, and whether one that does
  not fit with its end ended the scan.  A last line needs no line end.
\<close>

function scan_lines :: "nat \<Rightarrow> string \<Rightarrow> string list \<times> bool" where
  "scan_lines limit s =
     (let l = takeWhile (\<lambda>c. c \<noteq> CHR 0x0A) s in
      if s = [] then ([], False)
      else if limit \<le> length l then ([], True)
      else (case scan_lines limit (drop (Suc (length l)) s) of (ls, too_long) \<Rightarrow> (drop_cr l # ls, too_long)))"
  by pat_completeness auto

termination
  by (relation "measure (\<lambda>(limit, s). length s)") auto

declare scan_lines.simps [simp del]

lemma scan_lines_Nil [simp]: "scan_lines limit [] = ([], False)"
  by (simp add: scan_lines.simps)

lemma scan_lines_line:
  assumes "graphic_text l" and "length l < limit"
  shows "scan_lines limit (l @ CHR 0x0A # rest) = (l # fst (scan_lines limit rest), snd (scan_lines limit rest))"
proof -
  have "takeWhile (\<lambda>c. c \<noteq> CHR 0x0A) (l @ CHR 0x0A # rest) = l"
    by (rule takeWhile_line [OF conjunct1 [OF graphic_no_newline [OF assms(1)]]])
  then show ?thesis
    using assms(2) drop_cr_graphic [OF assms(1)] by (subst scan_lines.simps) (simp add: Let_def split: prod.split)
qed

end
