(* ===== verification/HookBridge.thy ===== *)
theory HookBridge imports JsonLines WireTypes GoQuote Names GoErrors begin

text \<open>
  The hook bridge: the listener of \<^verbatim>\<open>internal/hookbridge/listener.go\<close> and the shim
  (\<^verbatim>\<open>cmd/codex-sdk-hook-shim\<close>) that forwards a hook invocation to it over a socket.  A connection is the
  text the peer wrote before it ended the stream; the accept loop serves each connection by itself.
\<close>

section \<open>The listener\<close>

text \<open>
  \<^verbatim>\<open>bufio.Scanner\<close> with its default split function and buffer: the first line without its line end, or
  nothing when the stream is empty or the line does not fit in 64 KiB with its end.
\<close>

definition max_scan_token_size :: nat where
  "max_scan_token_size = 64 * 1024"

definition scan_line :: "nat \<Rightarrow> string \<Rightarrow> string option" where
  "scan_line limit s =
     (let l = takeWhile (\<lambda>c. c \<noteq> CHR 0x0A) s in
      if s = [] \<or> limit \<le> length l then None else Some (drop_cr l))"

type_synonym hook_handler = "goval \<Rightarrow> goval"

definition allow_response :: goval where
  "allow_response = VStruct [VStr DecisionAllow, VStr [], VStr []]"

definition hook_dispatch :: "hook_handler option \<Rightarrow> goval \<Rightarrow> goval" where
  "hook_dispatch h req =
     (case h of
        None \<Rightarrow> allow_response
      | Some f \<Rightarrow>
          (case f req of
             VStruct (VStr d # rest) \<Rightarrow> VStruct ((if d = [] then VStr DecisionAllow else VStr d) # rest)
           | r \<Rightarrow> r))"

definition write_response :: "goval \<Rightarrow> string" where
  "write_response r = print_json True (goenc no_codecs HookResponse_t r) @ [CHR 0x0A]"

definition handle_conn :: "hook_handler option \<Rightarrow> string \<Rightarrow> string" where
  "handle_conn h input =
     (case scan_line max_scan_token_size input of
        None \<Rightarrow> write_response allow_response
      | Some line \<Rightarrow>
          (case json_parse line of
             None \<Rightarrow> write_response allow_response
           | Some j \<Rightarrow>
               (case json_unmarshal no_codecs HookRequest_t j of
                  None \<Rightarrow> write_response allow_response
                | Some req \<Rightarrow> write_response (hook_dispatch h req))))"

definition config_entry :: "string \<Rightarrow> string \<Rightarrow> string" where
  "config_entry hook path =
     ''  [[hooks.'' @ hook @ '']]'' @ [CHR 0x0A] @
     ''    command = ['' @ quoted ''codex-sdk-hook-shim'' @ '', '' @ quoted ''--socket'' @ '', '' @ quoted path @ '']'' @ [CHR 0x0A]"

definition config_snippet :: "string \<Rightarrow> string" where
  "config_snippet path =
     ''[hooks]'' @ [CHR 0x0A] @ config_entry HookPreToolUse path @ config_entry HookPostToolUse path
       @ config_entry HookSessionStart path"

section \<open>The shim\<close>

definition shim_payload :: "string \<Rightarrow> string" where
  "shim_payload p = rev (dropWhile (\<lambda>c. c = CHR 0x0A) (rev p)) @ [CHR 0x0A]"

text \<open>
  The output of the shim, or nothing when it exits with an error: without a socket, or when the
  connection to it fails.
\<close>

definition shim :: "(string \<Rightarrow> string \<Rightarrow> string option) \<Rightarrow> string \<Rightarrow> string \<Rightarrow> string option" where
  "shim connect socket payload = (if socket = [] then None else connect socket (shim_payload payload))"

text \<open>
  The program: the socket of the flag, or of the environment; what each of its steps meets is the world's.  It
  ends with a text on standard error and code 1, or with the response on standard output.
\<close>

record shim_world =
  sw_flag :: "string option"
  sw_env :: string
  sw_stdin :: "go_error + string"
  sw_dial :: "string \<Rightarrow> go_error option"
  sw_write :: "string \<Rightarrow> go_error option"
  sw_response :: "string \<Rightarrow> string \<Rightarrow> go_error + string"
  sw_stdout :: "string \<Rightarrow> go_error option"

datatype shim_end = ShimFailed string | ShimWrote string

definition shim_socket :: "shim_world \<Rightarrow> string" where
  "shim_socket w = (case sw_flag w of Some s \<Rightarrow> s | None \<Rightarrow> sw_env w)"

definition shim_name :: string where
  "shim_name = ''codex-sdk-hook-shim: ''"

definition shim_exchange :: "shim_world \<Rightarrow> string \<Rightarrow> string \<Rightarrow> shim_end" where
  "shim_exchange w socket line =
     (case sw_dial w socket of
        Some e \<Rightarrow> ShimFailed (shim_name @ ''dial '' @ socket @ '': '' @ error_text e)
      | None \<Rightarrow>
          (case sw_write w line of
             Some e \<Rightarrow> ShimFailed (shim_name @ ''write payload: '' @ error_text e)
           | None \<Rightarrow>
               (case sw_response w socket line of
                  Inl e \<Rightarrow> ShimFailed (shim_name @ ''read response: '' @ error_text e)
                | Inr r \<Rightarrow>
                    (case sw_stdout w r of
                       Some e \<Rightarrow> ShimFailed (shim_name @ ''write stdout: '' @ error_text e)
                     | None \<Rightarrow> ShimWrote r))))"

definition shim_main :: "shim_world \<Rightarrow> shim_end" where
  "shim_main w =
     (if shim_socket w = [] then ShimFailed (shim_name @ ''socket path required (--socket or CODEX_HOOK_SOCKET)'')
      else (case sw_stdin w of
              Inl e \<Rightarrow> ShimFailed (shim_name @ ''read stdin: '' @ error_text e)
            | Inr payload \<Rightarrow> shim_exchange w (shim_socket w) (shim_payload payload)))"

text \<open>What the program writes is the output of the shim over a connection that carries the exchange.\<close>

lemma shim_main_wrote:
  assumes "shim_main w = ShimWrote out" and "sw_stdin w = Inr payload"
  shows "shim (\<lambda>s l. case sw_response w s l of Inl e \<Rightarrow> None | Inr r \<Rightarrow> Some r) (shim_socket w) payload = Some out"
  using assms by (auto simp: shim_main_def shim_exchange_def shim_def split: if_splits option.splits sum.splits)

section \<open>The first line of a stream\<close>

lemma scan_line_graphic:
  assumes "graphic_text s" and "length s < limit"
  shows "scan_line limit (s @ CHR 0x0A # t) = Some s"
proof -
  from graphic_no_newline [OF assms(1)] drop_cr_graphic [OF assms(1)] assms(2) show ?thesis by (simp add: scan_line_def takeWhile_line Let_def)
qed

lemma shim_payload_graphic: "graphic_text s \<Longrightarrow> shim_payload s = s @ [CHR 0x0A]"
proof -
  assume "graphic_text s"
  then have "last s \<noteq> CHR 0x0A" if "s \<noteq> []" using last_in_set [OF that] graphic_no_newline by metis
  then have "dropWhile (\<lambda>c. c = CHR 0x0A) (rev s) = rev s" by (auto simp: dropWhile_eq_self_iff hd_rev)
  then show ?thesis by (simp add: shim_payload_def)
qed

lemma hook_types: "HookRequest_t \<in> set wire_types" "HookResponse_t \<in> set wire_types"
  by (simp_all add: wire_types_def client_types_def)

lemma response_keys: "valid_utf8 ''decision''" "valid_utf8 ''reason''" "valid_utf8 ''outputOverride''"
  by (simp_all add: valid_utf8_ascii code_def)

lemma response_ok:
  assumes "valid_utf8 d" and "valid_utf8 r" and "valid_utf8 out"
  shows "wt no_codecs HookResponse_t (VStruct [VStr d, VStr r, VStr out])"
    and "json_ok max_depth (goenc no_codecs HookResponse_t (VStruct [VStr d, VStr r, VStr out]))"
proof -
  have "coerce_utf8 0 s = s" if "valid_utf8 s" for s using that by (simp add: valid_utf8_def)
  with assms response_keys
  show "json_ok max_depth (goenc no_codecs HookResponse_t (VStruct [VStr d, VStr r, VStr out]))"
    by (simp add: HookResponse_t_def max_depth_def)
  show "wt no_codecs HookResponse_t (VStruct [VStr d, VStr r, VStr out])"
    using assms by (simp add: HookResponse_t_def)
qed

lemma written_response:
  assumes "valid_utf8 d" and "valid_utf8 r" and "valid_utf8 out"
  shows "\<exists>text j. write_response (VStruct [VStr d, VStr r, VStr out]) = text @ [CHR 0x0A] \<and> CHR 0x0A \<notin> set text \<and>
    json_parse text = Some j \<and> json_unmarshal no_codecs HookResponse_t j = Some (VStruct [VStr d, VStr r, VStr out])"
  using json_parse_print [OF response_ok(2) [OF assms]]
    unmarshal_marshal [OF wire_types_ok [OF hook_types(2)] response_ok(1) [OF assms]] print_graphic(1) [OF response_ok(2) [OF assms]]
  by (auto simp: write_response_def dest: graphic_no_newline)

section \<open>A hook invocation\<close>

text \<open>
  A hook goes all the way and back: the request the shim is given reaches the handler as it was
  encoded, and the line the shim prints decodes to the handler's response, with \<^verbatim>\<open>allow\<close> for an
  empty decision; a request has to fit in a line of 64 KiB.
\<close>

theorem hook_round_trip:
  assumes "wt no_codecs HookRequest_t req" and "json_ok max_depth (goenc no_codecs HookRequest_t req)"
    and "length (print_json html (goenc no_codecs HookRequest_t req)) < max_scan_token_size"
    and "f req = VStruct [VStr d, VStr r, VStr out]" and "valid_utf8 d" "valid_utf8 r" "valid_utf8 out"
    and "socket \<noteq> []"
  shows "\<exists>text j. shim (\<lambda>s p. Some (handle_conn (Some f) p)) socket (print_json html (goenc no_codecs HookRequest_t req))
       = Some (text @ [CHR 0x0A]) \<and> CHR 0x0A \<notin> set text \<and> json_parse text = Some j \<and>
     json_unmarshal no_codecs HookResponse_t j
       = Some (VStruct [VStr (if d = [] then DecisionAllow else d), VStr r, VStr out])"
proof -
  let ?q = "print_json html (goenc no_codecs HookRequest_t req)"
  have g: "graphic_text ?q" by (rule print_graphic(1) [OF assms(2)])
  have "json_parse ?q = Some (goenc no_codecs HookRequest_t req)" by (rule json_parse_print [OF assms(2)])
  moreover have "json_unmarshal no_codecs HookRequest_t (goenc no_codecs HookRequest_t req) = Some req"
    by (rule unmarshal_marshal [OF wire_types_ok [OF hook_types(1)] assms(1)])
  moreover have "scan_line max_scan_token_size (?q @ [CHR 0x0A]) = Some ?q"
    using scan_line_graphic [OF g assms(3), of "[]"] by simp
  ultimately have "handle_conn (Some f) (?q @ [CHR 0x0A]) = write_response (hook_dispatch (Some f) req)"
    by (simp only: handle_conn_def option.case)
  moreover have "hook_dispatch (Some f) req = VStruct [VStr (if d = [] then DecisionAllow else d), VStr r, VStr out]"
    by (simp add: hook_dispatch_def assms(4))
  moreover have "valid_utf8 (if d = [] then DecisionAllow else d)"
    using assms(5) by (simp add: valid_utf8_ascii code_def)
  ultimately show ?thesis
    using written_response [OF _ assms(6,7)] assms(8) by (simp only: shim_def shim_payload_graphic [OF g] if_False) fastforce
qed

lemma demo_hook:
  "wt no_codecs HookRequest_t (VStruct [VStr HookPreToolUse, VStr ''sh'', VNil, VNil, VStr [], VStr []])"
  "goenc no_codecs HookRequest_t (VStruct [VStr HookPreToolUse, VStr ''sh'', VNil, VNil, VStr [], VStr []])
     = JObj [(''type'', JStr HookPreToolUse), (''tool'', JStr ''sh'')]"
  by (simp_all add: HookRequest_t_def valid_utf8_ascii coerce_ascii code_def del: coerce_utf8.simps)

theorem hook_round_trip_witness:
  "\<exists>text j. shim (\<lambda>s p. Some (handle_conn (Some (\<lambda>req. VStruct [VStr DecisionBlock, VStr ''no'', VStr []])) p)) ''/s''
       (print_json False (JObj [(''type'', JStr HookPreToolUse), (''tool'', JStr ''sh'')]))
     = Some (text @ [CHR 0x0A]) \<and> json_parse text = Some j \<and>
     json_unmarshal no_codecs HookResponse_t j = Some (VStruct [VStr DecisionBlock, VStr ''no'', VStr []])"
proof -
  let ?q = "VStruct [VStr HookPreToolUse, VStr ''sh'', VNil, VNil, VStr [], VStr []]"
  have ok: "json_ok max_depth (goenc no_codecs HookRequest_t ?q)"
    unfolding demo_hook(2) by (simp add: max_depth_def valid_utf8_ascii code_def)
  have len: "length (print_json False (goenc no_codecs HookRequest_t ?q)) < max_scan_token_size"
    unfolding demo_hook(2)
    by (simp add: max_scan_token_size_def print_members.simps quote_def esc_char_def code_def)
  have u: "valid_utf8 DecisionBlock" "valid_utf8 ''no''" "valid_utf8 []" by (simp_all add: valid_utf8_ascii code_def)
  from hook_round_trip [where f = "\<lambda>req. VStruct [VStr DecisionBlock, VStr ''no'', VStr []]" and socket = "''/s''",
      OF demo_hook(1) ok len refl u]
  show ?thesis unfolding demo_hook(2) by auto
qed

text \<open>
  The listener never blocks on its own: when its answer decodes to a decision other than
  \<^verbatim>\<open>allow\<close>, the answer is what the handler returned for the request that the first line of the
  connection decodes to.  An empty or oversized line, or one that does not decode, is allowed.
\<close>

theorem hook_blocks_only_by_handler:
  assumes "\<And>f req. h = Some f \<Longrightarrow> \<exists>d r out. f req = VStruct [VStr d, VStr r, VStr out] \<and> valid_utf8 d \<and> valid_utf8 r \<and> valid_utf8 out"
    and "json_parse (butlast (handle_conn h input)) = Some j"
    and "json_unmarshal no_codecs HookResponse_t j = Some (VStruct (VStr d # rest))" and "d \<noteq> DecisionAllow"
  shows "\<exists>f line q req. h = Some f \<and> scan_line max_scan_token_size input = Some line \<and> json_parse line = Some q \<and>
    json_unmarshal no_codecs HookRequest_t q = Some req \<and> f req = VStruct (VStr d # rest)"
proof -
  have decoded: "VStruct (VStr d # rest) = VStruct [VStr d', VStr r, VStr out]"
    if "handle_conn h input = write_response (VStruct [VStr d', VStr r, VStr out])"
      "valid_utf8 d'" "valid_utf8 r" "valid_utf8 out" for d' r out
    using written_response [OF that(2-4)] that(1) assms(2,3) by auto
  have "valid_utf8 DecisionAllow" "valid_utf8 []" by (simp_all add: valid_utf8_ascii code_def)
  with decoded [of DecisionAllow "[]" "[]"] assms(4) have ne: "handle_conn h input \<noteq> write_response allow_response"
    by (auto simp: allow_response_def)
  then obtain line q req where l: "scan_line max_scan_token_size input = Some line" "json_parse line = Some q"
    "json_unmarshal no_codecs HookRequest_t q = Some req"
    and c: "handle_conn h input = write_response (hook_dispatch h req)"
    by (auto simp: handle_conn_def split: option.splits)
  from c ne obtain f where f: "h = Some f" by (cases h) (auto simp: hook_dispatch_def)
  from assms(1) [OF f, of req] obtain d' r out where r: "f req = VStruct [VStr d', VStr r, VStr out]"
    "valid_utf8 d'" "valid_utf8 r" "valid_utf8 out" by blast
  let ?d = "if d' = [] then DecisionAllow else d'"
  have "valid_utf8 ?d" using r(2) by (simp add: valid_utf8_ascii code_def)
  moreover have "hook_dispatch h req = VStruct [VStr ?d, VStr r, VStr out]" by (simp add: hook_dispatch_def f r(1))
  ultimately have "VStruct (VStr d # rest) = VStruct [VStr ?d, VStr r, VStr out]"
    using decoded r(3,4) c by simp
  with assms(4) have "VStruct (VStr d # rest) = f req" by (auto simp: r(1) split: if_splits)
  with f l show ?thesis by auto
qed

theorem hook_blocks_only_by_handler_witness:
  "\<exists>line q req. scan_line max_scan_token_size (''{}'' @ [CHR 0x0A]) = Some line \<and> json_parse line = Some q \<and>
     json_unmarshal no_codecs HookRequest_t q = Some req"
proof -
  let ?f = "\<lambda>req. VStruct [VStr DecisionBlock, VStr ''no'', VStr []]"
  let ?in = "''{}'' @ [CHR 0x0A]"
  have u: "valid_utf8 DecisionBlock" "valid_utf8 ''no''" "valid_utf8 []" by (simp_all add: valid_utf8_ascii code_def)
  have "json_parse (print_json False (JObj [])) = Some (JObj [])" by (rule json_parse_print) (simp add: max_depth_def)
  then have p: "json_parse ''{}'' = Some (JObj [])" by (simp add: print_members.simps)
  have "scan_line max_scan_token_size ?in = Some ''{}''"
    by (simp add: scan_line_def drop_cr_def max_scan_token_size_def)
  then have "handle_conn (Some ?f) ?in = write_response (?f VNil)"
    using p by (simp add: handle_conn_def hook_dispatch_def json_unmarshal_def HookRequest_t_def)
  with written_response [OF u] obtain j where
    j: "json_parse (butlast (handle_conn (Some ?f) ?in)) = Some j"
      "json_unmarshal no_codecs HookResponse_t j = Some (VStruct [VStr DecisionBlock, VStr ''no'', VStr []])"
    by auto
  from hook_blocks_only_by_handler [OF _ j] u show ?thesis by fastforce
qed

end
