(* ===== verification/Callback.thy ===== *)
theory Callback imports RpcTransport begin

text \<open>
  A request from the server on the transports that answer over a reply channel (stdio, WebSocket and
  HTTP): \<^verbatim>\<open>Reply\<close> and \<^verbatim>\<open>ReplyError\<close> of \<^verbatim>\<open>transport.go\<close> put one value into the channel, and a goroutine of the
  transport turns it into the message it writes.
\<close>

record reply_result =
  rr_result :: json
  rr_error :: "rpc_error option"

record chan_request =
  cq_id :: json
  cq_method :: string
  cq_params :: raw
  cq_replied :: bool
  cq_chan :: "reply_result gochan"

definition new_chan_request :: "json \<Rightarrow> string \<Rightarrow> raw \<Rightarrow> chan_request" where
  "new_chan_request i method params =
     \<lparr>cq_id = i, cq_method = method, cq_params = params, cq_replied = False, cq_chan = make_chan 1\<rparr>"

text \<open>
  The mark and the send are under the lock of the request.  A send that would block is \<^term>\<open>None\<close>.
\<close>

definition put_reply :: "reply_result \<Rightarrow> chan_request \<Rightarrow> (go_error option \<times> chan_request) option" where
  "put_reply rr q =
     (if cq_replied q then Some (Some ErrAlreadyReplied, q)
      else (case chan_send (cq_chan q) rr of
              SendOk ch \<Rightarrow> Some (None, q\<lparr>cq_replied := True, cq_chan := ch\<rparr>)
            | _ \<Rightarrow> None))"

definition chan_reply :: "json \<Rightarrow> chan_request \<Rightarrow> (go_error option \<times> chan_request) option" where
  "chan_reply result q = put_reply \<lparr>rr_result = result, rr_error = None\<rparr> q"

definition chan_reply_error :: "int \<Rightarrow> string \<Rightarrow> raw \<Rightarrow> chan_request \<Rightarrow> (go_error option \<times> chan_request) option" where
  "chan_reply_error c m d q =
     put_reply \<lparr>rr_result = JNull, rr_error = Some \<lparr>rpc_code = c, rpc_message = m, rpc_data = d\<rparr>\<rparr> q"

text \<open>What \<^verbatim>\<open>awaitReply\<close> writes for the value: the result beside no error, or null beside the error.\<close>

definition reply_message :: "json \<Rightarrow> reply_result \<Rightarrow> json" where
  "reply_message i rr =
     (case rr_error rr of
        Some e \<Rightarrow> enc_reply i JNull (Some e)
      | None \<Rightarrow> enc_reply i (rr_result rr) None)"

text \<open>
  \<^verbatim>\<open>awaitReply\<close>: it takes the value, or stops when the transport is done or the context of the session
  ends; with both possible either may happen, which the flag chooses.
\<close>

datatype awaited = Wrote json | Stopped | StillWaiting

definition await_reply :: "bool \<Rightarrow> bool \<Rightarrow> chan_request \<Rightarrow> awaited \<times> chan_request" where
  "await_reply stopped prefer_stop q =
     (case chan_recv (cq_chan q) of
        RecvVal rr ch \<Rightarrow>
          if stopped \<and> prefer_stop then (Stopped, q)
          else (Wrote (reply_message (cq_id q) rr), q\<lparr>cq_chan := ch\<rparr>)
      | _ \<Rightarrow> if stopped then (Stopped, q) else (StillWaiting, q))"

text \<open>
  The life of a request: the handler may reply any number of times, and the goroutine polls until it
  has written or stopped.  What is written is collected, and what each reply returned: an error or
  none, or \<^term>\<open>None\<close> for a reply that blocks the handler.
\<close>

datatype request_action = DoReply json | DoReplyError int string raw | DoAwait bool bool

record request_run =
  qr_written :: "json list"
  qr_returned :: "go_error option option list"
  qr_ended :: bool
  qr_request :: chan_request

definition note_reply :: "(go_error option \<times> chan_request) option \<Rightarrow> request_run \<Rightarrow> request_run" where
  "note_reply r s =
     (case r of
        None \<Rightarrow> s\<lparr>qr_returned := qr_returned s @ [None]\<rparr>
      | Some (e, q) \<Rightarrow> s\<lparr>qr_returned := qr_returned s @ [Some e], qr_request := q\<rparr>)"

fun request_step :: "request_action \<Rightarrow> request_run \<Rightarrow> request_run" where
  "request_step (DoReply j) s = note_reply (chan_reply j (qr_request s)) s"
| "request_step (DoReplyError c m d) s = note_reply (chan_reply_error c m d (qr_request s)) s"
| "request_step (DoAwait stopped prefer_stop) s =
     (if qr_ended s then s
      else (case await_reply stopped prefer_stop (qr_request s) of
              (Wrote j, q) \<Rightarrow> s\<lparr>qr_written := qr_written s @ [j], qr_ended := True, qr_request := q\<rparr>
            | (Stopped, q) \<Rightarrow> s\<lparr>qr_ended := True\<rparr>
            | (StillWaiting, q) \<Rightarrow> s))"

definition new_run :: "chan_request \<Rightarrow> request_run" where
  "new_run q = \<lparr>qr_written = [], qr_returned = [], qr_ended = False, qr_request = q\<rparr>"

definition run_request :: "request_action list \<Rightarrow> chan_request \<Rightarrow> request_run" where
  "run_request acts q = fold request_step acts (new_run q)"

section \<open>At most one reply, the first\<close>

fun reply_of :: "request_action \<Rightarrow> reply_result option" where
  "reply_of (DoReply j) = Some \<lparr>rr_result = j, rr_error = None\<rparr>"
| "reply_of (DoReplyError c m d) =
     Some \<lparr>rr_result = JNull, rr_error = Some \<lparr>rpc_code = c, rpc_message = m, rpc_data = d\<rparr>\<rparr>"
| "reply_of (DoAwait s p) = None"

text \<open>The replies of a run, and what the handler must be told: the first one is taken, every later one refused.\<close>

definition replies :: "request_action list \<Rightarrow> reply_result list" where
  "replies acts = List.map_filter reply_of acts"

definition told :: "'a list \<Rightarrow> go_error option option list" where
  "told rs = (case rs of [] \<Rightarrow> [] | _ # rest \<Rightarrow> Some None # map (\<lambda>_. Some (Some ErrAlreadyReplied)) rest)"

lemma replies_simps [simp]:
  "replies [] = []" "replies (acts @ [a]) = replies acts @ (case reply_of a of None \<Rightarrow> [] | Some r \<Rightarrow> [r])"
  by (simp_all add: replies_def List.map_filter_def split: option.split)

lemma told_simps [simp]:
  "told [] = []" "told (r # rs) = Some None # map (\<lambda>_. Some (Some ErrAlreadyReplied)) rs"
  by (simp_all add: told_def)

text \<open>
  The request has not been replied to; or the first reply is in its channel; or it has been written.
\<close>

definition request_inv :: "json \<Rightarrow> reply_result list \<Rightarrow> request_run \<Rightarrow> bool" where
  "request_inv i rs s \<longleftrightarrow>
     cq_id (qr_request s) = i \<and> chan_cap (cq_chan (qr_request s)) = 1 \<and> \<not> chan_closed (cq_chan (qr_request s)) \<and>
     qr_returned s = told rs \<and>
     (case rs of
        [] \<Rightarrow> \<not> cq_replied (qr_request s) \<and> chan_buf (cq_chan (qr_request s)) = [] \<and> qr_written s = []
      | r # _ \<Rightarrow> cq_replied (qr_request s) \<and>
          (chan_buf (cq_chan (qr_request s)) = [r] \<and> qr_written s = [] \<or>
           chan_buf (cq_chan (qr_request s)) = [] \<and> qr_written s = [reply_message i r] \<and> qr_ended s))"

lemma request_inv_reply:
  assumes "request_inv i rs s"
  shows "request_inv i (rs @ [r]) (note_reply (put_reply r (qr_request s)) s)"
  using assms by (cases rs) (auto simp: request_inv_def note_reply_def put_reply_def chan_send_def)

lemma request_inv_await:
  assumes "request_inv i rs s"
  shows "request_inv i rs (request_step (DoAwait stopped prefer_stop) s)"
proof (cases "await_reply stopped prefer_stop (qr_request s)")
  case (Pair a q)
  with assms show ?thesis
    by (cases rs) (auto simp: request_inv_def await_reply_def chan_recv_def split: if_splits list.splits)
qed

lemma request_inv_run: "request_inv i (replies acts) (run_request acts (new_chan_request i m ps))"
proof (induction acts rule: rev_induct)
  case Nil
  show ?case by (simp add: run_request_def new_run_def request_inv_def new_chan_request_def)
next
  case (snoc a acts)
  then show ?case
    using request_inv_reply request_inv_await
    by (cases a) (simp_all add: run_request_def chan_reply_def chan_reply_error_def del: request_step.simps(3))
qed

text \<open>Once a reply is in the channel, the goroutine that polls writes it, unless it has been stopped.\<close>

lemma await_writes:
  assumes "request_inv i (r # rs) s" and "\<not> qr_ended s"
  shows "qr_written (request_step (DoAwait False p) s) = [reply_message i r]"
  using assms by (auto simp: request_inv_def await_reply_def chan_recv_def)

text \<open>
  C14. However often a handler replies and however the answering goroutine is scheduled: no reply
  blocks; the first one is taken and every later one is told that the request has been replied to;
  at most one message is written, that of the first reply, with the request's id; and as long as
  the goroutine has neither written nor been stopped, it writes that message when it runs next.
\<close>

theorem one_reply_per_request:
  "let s = run_request acts (new_chan_request i m ps);
       t = run_request (acts @ [DoAwait False p]) (new_chan_request i m ps)
   in (case replies acts of
        [] \<Rightarrow> qr_returned s = [] \<and> qr_written s = []
      | r # rest \<Rightarrow>
          qr_returned s = Some None # map (\<lambda>_. Some (Some ErrAlreadyReplied)) rest \<and>
          (qr_written s = [] \<or> qr_written s = [reply_message i r]) \<and>
          (qr_ended s \<or> qr_written t = [reply_message i r]))"
proof -
  let ?s = "run_request acts (new_chan_request i m ps)"
  have step: "run_request (acts @ [DoAwait False p]) (new_chan_request i m ps) = request_step (DoAwait False p) ?s"
    by (simp add: run_request_def)
  show ?thesis
  proof (cases "replies acts")
    case Nil
    with request_inv_run [of i acts m ps] show ?thesis by (simp add: request_inv_def Let_def)
  next
    case (Cons r rest)
    with request_inv_run [of i acts m ps] have inv: "request_inv i (r # rest) ?s" by simp
    with await_writes [OF inv, of p] Cons show ?thesis by (auto simp: request_inv_def step Let_def simp del: request_step.simps)
  qed
qed

text \<open>An error after a result, with the goroutine running last: the result is written and the error refused.\<close>

lemma demo_replies:
  "qr_written (run_request [DoReply JNull, DoReplyError 1 ''late'' None, DoAwait False False] (new_chan_request (JNum ''5'') ''m'' None))
     = [reply_message (JNum ''5'') \<lparr>rr_result = JNull, rr_error = None\<rparr>]"
  by (simp add: run_request_def new_run_def note_reply_def new_chan_request_def chan_reply_def chan_reply_error_def put_reply_def
      await_reply_def chan_send_def chan_recv_def make_chan_def)

end
