(* ===== verification/Stdio.thy ===== *)
theory Stdio imports Callback JsonLines begin

text \<open>
  The stdio transport (\<^verbatim>\<open>stdio.go\<close>, \<^verbatim>\<open>combine.go\<close>): the reader that adds the protocol version the server
  leaves out, and the wrapping of the \<^verbatim>\<open>jrpc2\<close> client.  That client is a library outside the
  repository: its calls are arguments.
\<close>

section \<open>The version fixer\<close>

definition jsonrpc_version_field :: string where
  "jsonrpc_version_field = CHR 0x22 # ''jsonrpc'' @ CHR 0x22 # CHR '':'' # CHR 0x22 # ''2.0'' @ [CHR 0x22]"

definition inject_jsonrpc_version :: "string \<Rightarrow> string" where
  "inject_jsonrpc_version line =
     (let t = trim_space line in
      if t = [] \<or> hd t \<noteq> CHR ''{'' then line
      else if contains jsonrpc_version_field t then line
      else CHR ''{'' # jsonrpc_version_field
        @ (if length t > 1 \<and> t ! 1 \<noteq> CHR ''}'' then '','' else []) @ tl t)"

text \<open>What a reader gets of a stream: its lines, each fixed and ended, up to one of 1 MiB, and whether there was one.\<close>

definition max_stdio_line :: nat where
  "max_stdio_line = 2 ^ 20"

definition fixed_lines :: "string \<Rightarrow> string \<times> bool" where
  "fixed_lines s =
     (case scan_lines max_stdio_line s of
        (ls, too_long) \<Rightarrow> (concat (map (\<lambda>l. inject_jsonrpc_version l @ [CHR 0x0A]) ls), too_long))"

section \<open>Calls and callbacks\<close>

text \<open>The calls after the check that the transport is not done; a call without a result discards it.\<close>

definition stdio_call :: "bool \<Rightarrow> (string \<Rightarrow> 'p \<Rightarrow> go_error + raw) \<Rightarrow> string \<Rightarrow> 'p \<Rightarrow> go_error + raw" where
  "stdio_call finished call_result method params = (if finished then Inl ErrClosed else call_result method params)"

definition stdio_notify :: "bool \<Rightarrow> (string \<Rightarrow> 'p \<Rightarrow> go_error option) \<Rightarrow> string \<Rightarrow> 'p \<Rightarrow> go_error option" where
  "stdio_notify finished notify method params = (if finished then Some ErrClosed else notify method params)"

text \<open>
  What the callback of a server's request returns to \<^verbatim>\<open>jrpc2\<close>: the first two arms stop it, the last is
  the value of the reply channel.  The data of an error reply is dropped.
\<close>

datatype callback_event = TransportDone | ContextDone go_error | Replied reply_result

definition on_callback :: "callback_event \<Rightarrow> go_error + json" where
  "on_callback ev =
     (case ev of
        TransportDone \<Rightarrow> Inl ErrClosed
      | ContextDone e \<Rightarrow> Inl e
      | Replied rr \<Rightarrow>
          (case rr_error rr of
             Some e \<Rightarrow> Inl (ErrRPC \<lparr>rpc_code = rpc_code e, rpc_message = rpc_message e, rpc_data = None\<rparr>)
           | None \<Rightarrow> Inr (rr_result rr)))"

text \<open>\<^verbatim>\<open>combinedStream.Close\<close>: both ends are closed, and the first error is returned.\<close>

definition combined_close :: "go_error option \<Rightarrow> go_error option \<Rightarrow> go_error option" where
  "combined_close r_err w_err = (case r_err of Some e \<Rightarrow> Some e | None \<Rightarrow> w_err)"

section \<open>Fixed messages\<close>

lemma print_object_members:
  "ms \<noteq> [] \<Longrightarrow> print_members h ((k, j) # ms) = quote h k @ CHR '':'' # print_json h j @ CHR '','' # print_members h ms"
  by (cases ms) (auto simp: print_members.simps)

lemma print_members_head: "ms \<noteq> [] \<Longrightarrow> \<exists>t. print_members h ms = CHR 0x22 # t"
proof (cases ms)
  case (Cons m r)
  then show ?thesis by (cases m; cases r) (auto simp: print_members.simps quote_def)
qed simp

lemma quote_version: "quote h ''jsonrpc'' @ CHR '':'' # print_json h (JStr ''2.0'') = jsonrpc_version_field"
  by (simp add: quote_def esc_char_def code_def jsonrpc_version_field_def)

lemma inject_object:
  assumes "\<not> contains jsonrpc_version_field (print_json h (JObj ms))"
  shows "inject_jsonrpc_version (print_json h (JObj ms)) = print_json h (JObj ((''jsonrpc'', JStr ''2.0'') # ms))"
proof -
  let ?t = "print_json h (JObj ms)"
  have t: "?t = CHR ''{'' # print_members h ms @ ''}''" by simp
  have trim: "trim_space ?t = ?t" unfolding t by (rule trim_space_ends) (simp_all add: code_def space1_def)
  show ?thesis
  proof (cases "ms = []")
    case True
    have "inject_jsonrpc_version ?t = CHR ''{'' # jsonrpc_version_field @ ''}''"
      using assms trim True by (simp add: inject_jsonrpc_version_def print_members.simps)
    also have "\<dots> = print_json h (JObj ((''jsonrpc'', JStr ''2.0'') # ms))"
      unfolding True quote_version [of h, symmetric] by (simp add: print_members.simps del: print_json.simps(4))
    finally show ?thesis .
  next
    case False
    from print_members_head [OF this] obtain u where u: "print_members h ms = CHR 0x22 # u" by blast
    have "inject_jsonrpc_version ?t = CHR ''{'' # jsonrpc_version_field @ CHR '','' # print_members h ms @ ''}''"
      using assms trim u by (simp add: inject_jsonrpc_version_def)
    also have "\<dots> = print_json h (JObj ((''jsonrpc'', JStr ''2.0'') # ms))"
      unfolding quote_version [of h, symmetric]
      by (simp add: print_object_members [OF False] del: print_json.simps(4))
    finally show ?thesis .
  qed
qed

text \<open>
  A message the server sends without the protocol version, on a line of its own, comes out of the
  version fixer as a line with the same message and the version, and the stream goes on behind it.
\<close>

theorem version_added:
  assumes "json_ok max_depth (JObj ms)" and "\<not> contains jsonrpc_version_field (print_json h (JObj ms))"
    and "length (print_json h (JObj ms)) < max_stdio_line"
  shows "\<exists>line. fixed_lines (print_json h (JObj ms) @ CHR 0x0A # rest)
      = (line @ CHR 0x0A # fst (fixed_lines rest), snd (fixed_lines rest)) \<and>
    CHR 0x0A \<notin> set line \<and> json_parse line = Some (JObj ((''jsonrpc'', JStr ''2.0'') # ms))"
proof -
  let ?t = "print_json h (JObj ms)"
  let ?j = "JObj ((''jsonrpc'', JStr ''2.0'') # ms)"
  have ok: "json_ok max_depth ?j" using assms(1) by (simp add: valid_utf8_ascii code_def)
  have g: "graphic_text ?t" by (rule print_graphic(1) [OF assms(1)])
  have "fixed_lines (?t @ CHR 0x0A # rest)
      = (print_json h ?j @ CHR 0x0A # fst (fixed_lines rest), snd (fixed_lines rest))"
    using scan_lines_line [OF g assms(3)] inject_object [OF assms(2)]
    by (simp add: fixed_lines_def split: prod.split del: print_json.simps)
  moreover have "json_parse (print_json h ?j) = Some ?j" by (rule json_parse_print [OF ok])
  moreover have "CHR 0x0A \<notin> set (print_json h ?j)" using graphic_no_newline [OF print_graphic(1) [OF ok]] by blast
  ultimately show ?thesis by blast
qed

lemma demo_message_text:
  "print_json False (JObj [(''method'', JStr ''m''), (''params'', JNull)])
     = CHR ''{'' # CHR 0x22 # ''method'' @ CHR 0x22 # CHR '':'' # CHR 0x22 # CHR ''m'' # CHR 0x22 # CHR '','' #
       CHR 0x22 # ''params'' @ CHR 0x22 # '':null}''"
  by (simp add: print_members.simps quote_def esc_char_def code_def)

theorem version_added_witness:
  "fixed_lines (print_json False (JObj [(''method'', JStr ''m''), (''params'', JNull)]) @ [CHR 0x0A]) \<noteq> ([], False) \<and>
   (\<exists>line. json_parse line
      = Some (JObj [(''jsonrpc'', JStr ''2.0''), (''method'', JStr ''m''), (''params'', JNull)]))"
proof -
  let ?ms = "[(''method'', JStr ''m''), (''params'', JNull)]"
  have "json_ok max_depth (JObj ?ms)"
    by (simp add: max_depth_def valid_utf8_ascii code_def)
  moreover have "\<not> contains jsonrpc_version_field (print_json False (JObj ?ms))"
    unfolding demo_message_text by (simp add: jsonrpc_version_field_def has_prefix_def)
  moreover have "length (print_json False (JObj ?ms)) < max_stdio_line"
    unfolding demo_message_text by (simp add: max_stdio_line_def)
  ultimately show ?thesis using version_added [of ?ms False "[]"] by auto
qed

end
