(* ===== verification/WebSocket.thy ===== *)
theory WebSocket imports Callback RpcSystem begin

text \<open>
  The WebSocket transport (\<^verbatim>\<open>websocket.go\<close>): one definition per critical section and select, and the
  concurrent system of calls, the reader and any number of goroutines that terminate the transport.
  The connection itself is a library: writing succeeds or fails, reading yields a text or ends.
  The reply channel of a call belongs to it, so a channel is named by the position of its call.
\<close>

section \<open>State\<close>

record ws_call =
  wc_id :: u64
  wc_chan :: "call_result gochan"
  wc_pc :: call_pc

record ws =
  ws_next :: u64
  ws_pending :: "u64 \<rightharpoonup> nat"
  ws_calls :: "ws_call list"
  ws_requests :: "chan_request gochan"
  ws_notes :: "notification gochan"
  ws_done :: bool

definition new_websocket :: ws where
  "new_websocket = \<lparr>ws_next = 0, ws_pending = Map.empty, ws_calls = [], ws_requests = make_chan 32,
     ws_notes = make_chan 32, ws_done = False\<rparr>"

section \<open>Calls\<close>

text \<open>The checks before a call is registered, and those of a notification.\<close>

definition ws_notify_check :: "bool \<Rightarrow> go_error option \<Rightarrow> go_error option" where
  "ws_notify_check finished ctx_err = (if finished then Some ErrClosed else ctx_err)"

definition ws_call_check :: "string \<Rightarrow> bool \<Rightarrow> go_error option \<Rightarrow> go_error option" where
  "ws_call_check method finished ctx_err =
     (if method = [] then Some ErrProtocol else ws_notify_check finished ctx_err)"

definition ws_register :: "('z) ws_scheme \<Rightarrow> (u64 \<times> nat) \<times> ('z) ws_scheme" where
  "ws_register w =
     (let i = ws_next w + 1; a = length (ws_calls w) in
      ((i, a), w\<lparr>ws_next := i, ws_pending := (ws_pending w)(i \<mapsto> a),
         ws_calls := ws_calls w @ [\<lparr>wc_id = i, wc_chan = make_chan 1, wc_pc = Writing\<rparr>]\<rparr>))"

definition ws_remove :: "u64 \<Rightarrow> ('z) ws_scheme \<Rightarrow> ('z) ws_scheme" where
  "ws_remove i w = w\<lparr>ws_pending := (ws_pending w)(i := None)\<rparr>"

definition ws_set_call :: "nat \<Rightarrow> (ws_call \<Rightarrow> ws_call) \<Rightarrow> ('z) ws_scheme \<Rightarrow> ('z) ws_scheme" where
  "ws_set_call a f w = w\<lparr>ws_calls := (ws_calls w)[a := f (ws_calls w ! a)]\<rparr>"

definition ws_at :: "('z) ws_scheme \<Rightarrow> nat \<Rightarrow> call_pc \<Rightarrow> bool" where
  "ws_at w a pc \<longleftrightarrow> a < length (ws_calls w) \<and> wc_pc (ws_calls w ! a) = pc"

definition ws_go :: "nat \<Rightarrow> call_pc \<Rightarrow> ('z) ws_scheme \<Rightarrow> ('z) ws_scheme" where
  "ws_go a pc w = ws_set_call a (\<lambda>c. c\<lparr>wc_pc := pc\<rparr>) w"

section \<open>Responses\<close>

definition ws_take :: "u64 \<Rightarrow> ('z) ws_scheme \<Rightarrow> nat option \<times> ('z) ws_scheme" where
  "ws_take i w = (case ws_pending w i of None \<Rightarrow> (None, w) | Some a \<Rightarrow> (Some a, ws_remove i w))"

text \<open>
  The send of \<^verbatim>\<open>deliverResponse\<close>: to the channel, or dropped when the transport is done; it blocks
  (\<^term>\<open>None\<close>) when neither is possible.
\<close>

definition ws_put :: "bool \<Rightarrow> nat \<Rightarrow> call_result \<Rightarrow> ('z) ws_scheme \<Rightarrow> ('z) ws_scheme option" where
  "ws_put prefer_done a r w =
     (if prefer_done \<and> ws_done w then Some w
      else (case chan_send (wc_chan (ws_calls w ! a)) r of
              SendOk ch \<Rightarrow> Some (ws_set_call a (\<lambda>c. c\<lparr>wc_chan := ch\<rparr>) w)
            | _ \<Rightarrow> None))"

definition ws_offer :: "nat \<Rightarrow> call_result \<Rightarrow> ('z) ws_scheme \<Rightarrow> ('z) ws_scheme" where
  "ws_offer a r w =
     (case chan_send (wc_chan (ws_calls w ! a)) r of
        SendOk ch \<Rightarrow> ws_set_call a (\<lambda>c. c\<lparr>wc_chan := ch\<rparr>) w
      | _ \<Rightarrow> w)"

text \<open>The locked part of \<^verbatim>\<open>terminate\<close> and its end.\<close>

definition ws_swap :: "('z) ws_scheme \<Rightarrow> (u64 \<rightharpoonup> nat) \<times> ('z) ws_scheme" where
  "ws_swap w = (ws_pending w, w\<lparr>ws_pending := Map.empty\<rparr>)"

definition ws_close_done :: "('z) ws_scheme \<Rightarrow> ('z) ws_scheme" where
  "ws_close_done w = w\<lparr>ws_done := True\<rparr>"

section \<open>The reader\<close>

text \<open>
  A frame that is not a message is skipped.  A request or a notification is queued, blocking the
  reader (\<^term>\<open>None\<close>) while its queue is full and the transport is not done.
\<close>

definition ws_frame :: "string \<Rightarrow> frame option" where
  "ws_frame data =
     (case json_parse data of
        None \<Rightarrow> None
      | Some j \<Rightarrow> (case read_frame j of FBad e \<Rightarrow> None | f \<Rightarrow> Some f))"

definition ws_queue_request :: "bool \<Rightarrow> chan_request \<Rightarrow> ('z) ws_scheme \<Rightarrow> (bool \<times> ('z) ws_scheme) option" where
  "ws_queue_request prefer_done q w =
     (if prefer_done \<and> ws_done w then Some (False, w)
      else (case chan_send (ws_requests w) q of
              SendOk ch \<Rightarrow> Some (True, w\<lparr>ws_requests := ch\<rparr>)
            | _ \<Rightarrow> if ws_done w then Some (False, w) else None))"

definition ws_queue_note :: "bool \<Rightarrow> notification \<Rightarrow> ('z) ws_scheme \<Rightarrow> (bool \<times> ('z) ws_scheme) option" where
  "ws_queue_note prefer_done n w =
     (if prefer_done \<and> ws_done w then Some (False, w)
      else (case chan_send (ws_notes w) n of
              SendOk ch \<Rightarrow> Some (True, w\<lparr>ws_notes := ch\<rparr>)
            | _ \<Rightarrow> if ws_done w then Some (False, w) else None))"

section \<open>The system\<close>

text \<open>
  History: the responses the reader took, by id; values between the unlock and their send are
  flights; whether some goroutine has swapped the map of a terminating transport.
\<close>

record wsys = ws +
  wy_flights :: "flight list"
  wy_log :: "(u64 \<times> call_result) set"
  wy_swapped :: bool

definition ws_start :: "wsys \<Rightarrow> bool" where
  "ws_start s \<longleftrightarrow> s = ws.extend new_websocket \<lparr>wy_flights = [], wy_log = {}, wy_swapped = False\<rparr>"

inductive ws_step :: "wsys \<Rightarrow> wsys \<Rightarrow> bool" where
  w_call: "ws_next s \<noteq> - 1 \<Longrightarrow> ws_register s = (ia, t) \<Longrightarrow> ws_step s t"
| w_written: "ws_at s a Writing \<Longrightarrow> ws_step s (ws_go a Waiting s)"
| w_write_failed: "ws_at s a Writing \<Longrightarrow> ws_step s (ws_go a (Removing e) s)"
| w_ctx_done: "ws_at s a Waiting \<Longrightarrow> e \<in> {ErrCanceled, ErrDeadlineExceeded} \<Longrightarrow> ws_step s (ws_go a (Removing e) s)"
| w_saw_done: "ws_at s a Waiting \<Longrightarrow> ws_done s \<Longrightarrow> ws_step s (ws_go a (Removing ErrClosed) s)"
| w_received: "ws_at s a Waiting \<Longrightarrow> chan_recv (wc_chan (ws_calls s ! a)) = RecvVal r ch \<Longrightarrow>
     ws_step s (ws_set_call a (\<lambda>c. c\<lparr>wc_chan := ch, wc_pc := Returned r\<rparr>) s)"
| w_removed: "ws_at s a (Removing e) \<Longrightarrow>
     ws_step s (ws_go a (Aborted e) (ws_remove (wc_id (ws_calls s ! a)) s))"
| w_response: "ws_take i s = (Some a, t) \<Longrightarrow>
     ws_step s (t\<lparr>wy_flights := Put a r # wy_flights s, wy_log := insert (i, r) (wy_log s)\<rparr>)"
| w_put: "wy_flights s = fs @ Put a r # gs \<Longrightarrow> ws_put d a r s = Some t \<Longrightarrow> ws_step s (t\<lparr>wy_flights := fs @ gs\<rparr>)"
| w_offer: "wy_flights s = fs @ Offer a r # gs \<Longrightarrow> ws_step s ((ws_offer a r s)\<lparr>wy_flights := fs @ gs\<rparr>)"
| w_swapped: "ws_swap s = (pending, t) \<Longrightarrow> offers_of pending ErrClosed os \<Longrightarrow>
     ws_step s (t\<lparr>wy_flights := os @ wy_flights s, wy_swapped := True\<rparr>)"
| w_closed: "wy_swapped s \<Longrightarrow> ws_step s (ws_close_done s)"

end
