(* ===== verification/Promises.thy ===== *)
theory Promises imports Prelude begin

text \<open>
  What a transport promises to its calls, without its tables, channels and goroutines: each call has a
  key of its own and is open, then answered, then the answer is delivered; an open or answered call
  may be lost (its caller leaves, or the transport ends).  Nothing is answered twice and an answer
  never changes.  A transport implements this as a \<^verbatim>\<open>promise_keeper\<close>.
\<close>

datatype 'r promise = Open | Answered 'r | Delivered 'r | Lost

definition evolves :: "'r promise \<Rightarrow> 'r promise \<Rightarrow> bool" where
  "evolves p q \<longleftrightarrow>
     (case p of
        Open \<Rightarrow> (\<exists>r. q = Answered r) \<or> q = Lost
      | Answered r \<Rightarrow> q = Delivered r \<or> q = Lost
      | _ \<Rightarrow> False)"

inductive promise_step :: "('k \<times> 'r promise) list \<Rightarrow> ('k \<times> 'r promise) list \<Rightarrow> bool" where
  promised: "i \<notin> fst ` set ps \<Longrightarrow> promise_step ps (ps @ [(i, Open)])"
| evolved: "k < length ps \<Longrightarrow> ps ! k = (i, p) \<Longrightarrow> evolves p q \<Longrightarrow> promise_step ps (ps[k := (i, q)])"

inductive_cases promise_stepE: "promise_step ps qs"

section \<open>Many promises at once\<close>

lemma promises_evolve:
  assumes "length qs = length ps"
    and "\<And>k. k < length ps \<Longrightarrow> fst (qs ! k) = fst (ps ! k) \<and> (snd (qs ! k) = snd (ps ! k) \<or> evolves (snd (ps ! k)) (snd (qs ! k)))"
  shows "promise_step\<^sup>*\<^sup>* ps qs"
proof -
  have "n \<le> length ps \<Longrightarrow> promise_step\<^sup>*\<^sup>* ps (take n qs @ drop n ps)" for n
  proof (induction n)
    case (Suc n)
    then have n: "n < length ps" by simp
    let ?m = "take n qs @ drop n ps"
    have next_list: "take (Suc n) qs @ drop (Suc n) ps = ?m[n := qs ! n]"
      using n assms(1) by (simp add: take_Suc_conv_app_nth list_update_append upd_conv_take_nth_drop
          Cons_nth_drop_Suc [symmetric])
    have at: "?m ! n = ps ! n" using n assms(1) by (simp add: nth_append)
    show ?case
    proof (cases "snd (qs ! n) = snd (ps ! n)")
      case True
      with assms(2) [OF n] have "qs ! n = ps ! n" by (simp add: prod_eq_iff)
      with at have "?m[n := qs ! n] = ?m" by (metis list_update_id)
      with Suc n next_list show ?thesis by simp
    next
      case False
      with assms(2) [OF n] have "fst (qs ! n) = fst (ps ! n)" "evolves (snd (ps ! n)) (snd (qs ! n))" by blast+
      then have "promise_step ?m (?m[n := (fst (ps ! n), snd (qs ! n))])"
        using n assms(1) at by (intro evolved) auto
      moreover have "(fst (ps ! n), snd (qs ! n)) = qs ! n"
        using assms(2) [OF n] by (simp add: prod_eq_iff)
      ultimately have "promise_step ?m (take (Suc n) qs @ drop (Suc n) ps)" using next_list by simp
      with Suc n show ?thesis by (simp add: rtranclp.rtrancl_into_rtrancl)
    qed
  qed simp
  from this [of "length ps"] show ?thesis using assms(1) by simp
qed

section \<open>What a promise is worth\<close>

lemma promise_step_keys:
  "promise_step ps qs \<Longrightarrow> distinct (map fst ps) \<Longrightarrow> distinct (map fst qs)"
  by (elim promise_stepE) (auto simp: map_update, metis fst_conv length_map list_update_id nth_map)

lemma promise_step_kept:
  "promise_step ps qs \<Longrightarrow> k < length ps \<Longrightarrow> ps ! k = (i, Delivered r) \<Longrightarrow> k < length qs \<and> qs ! k = (i, Delivered r)"
  by (elim promise_stepE) (auto simp: nth_append nth_list_update evolves_def)

lemma promise_step_answer:
  "promise_step ps qs \<Longrightarrow> k < length ps \<Longrightarrow> ps ! k = (i, Answered r) \<Longrightarrow>
     k < length qs \<and> qs ! k \<in> {(i, Answered r), (i, Delivered r), (i, Lost)}"
  by (elim promise_stepE) (auto simp: nth_append nth_list_update evolves_def)

lemma promise_step_lost:
  "promise_step ps qs \<Longrightarrow> k < length ps \<Longrightarrow> ps ! k = (i, Lost) \<Longrightarrow> k < length qs \<and> qs ! k = (i, Lost)"
  by (elim promise_stepE) (auto simp: nth_append nth_list_update evolves_def)

lemma promises_answer:
  assumes "promise_step\<^sup>*\<^sup>* ps qs" and "k < length ps" and "ps ! k \<in> {(i, Answered r), (i, Delivered r), (i, Lost)}"
  shows "k < length qs \<and> qs ! k \<in> {(i, Answered r), (i, Delivered r), (i, Lost)}"
  using assms
proof (induction rule: rtranclp_induct)
  case (step qs rs)
  then show ?case
    using promise_step_answer [of qs rs k i r] promise_step_kept [of qs rs k i r] promise_step_lost [of qs rs k i]
    by auto
qed simp

section \<open>The contract of a transport\<close>

locale promise_keeper = invariant_system start step inv
  for start :: "'s \<Rightarrow> bool" and step :: "'s \<Rightarrow> 's \<Rightarrow> bool" and inv :: "'s \<Rightarrow> bool" +
  fixes promises :: "'s \<Rightarrow> ('k \<times> 'r promise) list"
  assumes promises_start: "start s \<Longrightarrow> promises s = []"
    and promises_step: "inv s \<Longrightarrow> step s t \<Longrightarrow> promise_step\<^sup>*\<^sup>* (promises s) (promises t)"
begin

lemma promises_run: "inv s \<Longrightarrow> step\<^sup>*\<^sup>* s t \<Longrightarrow> promise_step\<^sup>*\<^sup>* (promises s) (promises t)"
proof (rotate_tac 1, induction rule: rtranclp_induct)
  case (step t u)
  then show ?case using run_inv promises_step by (meson rtranclp_trans)
qed simp

lemma promises_reachable: "reachable start step s \<Longrightarrow> promise_step\<^sup>*\<^sup>* [] (promises s)"
proof (induction rule: reachable.induct)
  case (reach_step s t)
  then show ?case using reachable_inv promises_step by (meson rtranclp_trans)
qed (simp add: promises_start)

lemma answer_final:
  assumes "reachable start step s" and "step\<^sup>*\<^sup>* s t" and "k < length (promises s)"
    and "promises s ! k \<in> {(i, Answered r), (i, Delivered r)}"
  shows "k < length (promises t) \<and> promises t ! k \<in> {(i, Answered r), (i, Delivered r), (i, Lost)}"
  using promises_answer [OF promises_run [OF reachable_inv [OF assms(1)] assms(2)] assms(3)] assms(4) by blast

end

end
