(* ===== verification/WebSocketProps.thy ===== *)
theory WebSocketProps imports WebSocket Promises begin

text \<open>
  The invariant of the WebSocket system: where the one answer of each call is, and where it may come
  from.
\<close>

section \<open>Tokens\<close>

definition ws_returned :: "ws_call \<Rightarrow> call_result option" where
  "ws_returned c = (case wc_pc c of Returned r \<Rightarrow> Some r | _ \<Rightarrow> None)"

definition ws_buf :: "wsys \<Rightarrow> nat \<Rightarrow> call_result list" where
  "ws_buf s a = chan_buf (wc_chan (ws_calls s ! a))"

definition ws_tokens :: "wsys \<Rightarrow> nat \<Rightarrow> nat" where
  "ws_tokens s a = of_bool (a \<in> ran (ws_pending s)) + in_flight (wy_flights s) a + length (ws_buf s a)
     + of_bool (ws_returned (ws_calls s ! a) \<noteq> None)"

definition ws_genuine :: "wsys \<Rightarrow> nat \<Rightarrow> call_result \<Rightarrow> bool" where
  "ws_genuine s a r \<longleftrightarrow> r = flush_result ErrClosed \<or> (wc_id (ws_calls s ! a), r) \<in> wy_log s"

definition ws_expecting :: "wsys \<Rightarrow> nat \<Rightarrow> bool" where
  "ws_expecting s a \<longleftrightarrow> ws_at s a Writing \<or> ws_at s a Waiting"

definition ws_ids_ok :: "wsys \<Rightarrow> bool" where
  "ws_ids_ok s \<longleftrightarrow> distinct (map wc_id (ws_calls s)) \<and> (\<forall>c \<in> set (ws_calls s). wc_id c \<le> ws_next s) \<and>
     (\<forall>i a. ws_pending s i = Some a \<longrightarrow> a < length (ws_calls s) \<and> wc_id (ws_calls s ! a) = i) \<and>
     (\<forall>f \<in> set (wy_flights s). flight_addr f < length (ws_calls s))"

definition ws_call_ok :: "wsys \<Rightarrow> nat \<Rightarrow> bool" where
  "ws_call_ok s a \<longleftrightarrow> chan_cap (wc_chan (ws_calls s ! a)) = 1 \<and> \<not> chan_closed (wc_chan (ws_calls s ! a)) \<and>
     (\<forall>r \<in> set (ws_buf s a). ws_genuine s a r) \<and>
     (\<forall>r. ws_returned (ws_calls s ! a) = Some r \<longrightarrow> ws_genuine s a r) \<and>
     (\<forall>f \<in> set (wy_flights s). flight_addr f = a \<longrightarrow> ws_genuine s a (flight_value f)) \<and>
     ws_tokens s a \<le> 1 \<and> (ws_expecting s a \<longrightarrow> ws_done s \<or> ws_tokens s a = 1)"

definition ws_inv :: "wsys \<Rightarrow> bool" where
  "ws_inv s \<longleftrightarrow> ws_ids_ok s \<and> (\<forall>a < length (ws_calls s). ws_call_ok s a)"

lemma ws_invD: "ws_inv s \<Longrightarrow> ws_ids_ok s" "ws_inv s \<Longrightarrow> a < length (ws_calls s) \<Longrightarrow> ws_call_ok s a"
  by (simp_all add: ws_inv_def)

lemma ws_pendingD:
  "ws_ids_ok s \<Longrightarrow> ws_pending s i = Some a \<Longrightarrow> a < length (ws_calls s) \<and> wc_id (ws_calls s ! a) = i"
  by (simp add: ws_ids_ok_def)

lemma ws_pending_inj: "ws_ids_ok s \<Longrightarrow> map_inj (ws_pending s)"
  unfolding map_inj_def using ws_pendingD by metis

lemma ws_pending_iff:
  assumes "ws_ids_ok s"
  shows "a \<in> ran (ws_pending s) \<longleftrightarrow> a < length (ws_calls s) \<and> ws_pending s (wc_id (ws_calls s ! a)) = Some a"
  using ws_pendingD [OF assms] by (auto simp: ran_def)

lemma ws_id_inj:
  "ws_ids_ok s \<Longrightarrow> a < length (ws_calls s) \<Longrightarrow> b < length (ws_calls s) \<Longrightarrow>
     wc_id (ws_calls s ! a) = wc_id (ws_calls s ! b) \<Longrightarrow> a = b"
  by (auto simp: ws_ids_ok_def distinct_conv_nth)

section \<open>Views of the steps\<close>

lemma ws_set_call_sel [simp]:
  "ws_pending (ws_set_call a f s) = ws_pending s" "ws_next (ws_set_call a f s) = ws_next s"
  "ws_done (ws_set_call a f s) = ws_done s" "length (ws_calls (ws_set_call a f s)) = length (ws_calls s)"
  "wy_flights (ws_set_call a f s') = wy_flights s'" "wy_log (ws_set_call a f s') = wy_log s'"
  "b < length (ws_calls s) \<Longrightarrow>
     ws_calls (ws_set_call a f s) ! b = (if b = a then f (ws_calls s ! b) else ws_calls s ! b)"
  by (simp_all add: ws_set_call_def)

lemma ws_remove_sel [simp]:
  "ws_pending (ws_remove i s) = (ws_pending s)(i := None)" "ws_next (ws_remove i s) = ws_next s"
  "ws_done (ws_remove i s) = ws_done s" "ws_calls (ws_remove i s) = ws_calls s"
  "wy_flights (ws_remove i s') = wy_flights s'" "wy_log (ws_remove i s') = wy_log s'"
  by (simp_all add: ws_remove_def)

lemma ws_ids_set_call:
  assumes "ws_ids_ok s" and "\<And>c. wc_id (f c) = wc_id c"
  shows "ws_ids_ok (ws_set_call a f s)"
proof -
  have ids: "map wc_id (ws_calls (ws_set_call a f s)) = map wc_id (ws_calls s)"
  proof (cases "a < length (ws_calls s)")
    case True
    then show ?thesis by (simp add: ws_set_call_def map_update assms(2)) (metis length_map list_update_id nth_map)
  qed (simp add: ws_set_call_def list_update_beyond not_less)
  have le: "\<forall>c \<in> set (ws_calls (ws_set_call a f s)). wc_id c \<le> ws_next s"
  proof
    fix c assume "c \<in> set (ws_calls (ws_set_call a f s))"
    then have "wc_id c \<in> set (map wc_id (ws_calls (ws_set_call a f s)))" by simp
    then have "wc_id c \<in> wc_id ` set (ws_calls s)" unfolding ids by simp
    with assms(1) show "wc_id c \<le> ws_next s" by (auto simp: ws_ids_ok_def)
  qed
  have "b < length (ws_calls s) \<Longrightarrow> wc_id (ws_calls (ws_set_call a f s) ! b) = wc_id (ws_calls s ! b)" for b
    by (simp add: assms(2))
  then show ?thesis using assms(1) ids le by (auto simp: ws_ids_ok_def)
qed

text \<open>A call whose views are the same is as good as before.\<close>

definition same_call_views :: "wsys \<Rightarrow> wsys \<Rightarrow> nat \<Rightarrow> bool" where
  "same_call_views s t a \<longleftrightarrow>
     wc_id (ws_calls t ! a) = wc_id (ws_calls s ! a) \<and> wc_chan (ws_calls t ! a) = wc_chan (ws_calls s ! a) \<and>
     ws_returned (ws_calls t ! a) = ws_returned (ws_calls s ! a) \<and>
     (a \<in> ran (ws_pending t) \<longleftrightarrow> a \<in> ran (ws_pending s)) \<and>
     filter (\<lambda>f. flight_addr f = a) (wy_flights t) = filter (\<lambda>f. flight_addr f = a) (wy_flights s) \<and>
     wy_log s \<subseteq> wy_log t \<and> (ws_done s \<longrightarrow> ws_done t) \<and> (ws_expecting t a \<longrightarrow> ws_expecting s a)"

lemma ws_call_same:
  assumes "ws_call_ok s a" and "same_call_views s t a"
  shows "ws_call_ok t a"
proof -
  have tok: "ws_tokens t a = ws_tokens s a"
    using assms(2) by (simp add: ws_tokens_def same_call_views_def in_flight_def ws_buf_def)
  have gen: "ws_genuine s a r \<Longrightarrow> ws_genuine t a r" for r
    using assms(2) by (auto simp: ws_genuine_def same_call_views_def)
  have fl: "f \<in> set (wy_flights t) \<Longrightarrow> flight_addr f = a \<Longrightarrow> f \<in> set (wy_flights s)" for f
  proof -
    assume "f \<in> set (wy_flights t)" "flight_addr f = a"
    then have "f \<in> set (filter (\<lambda>f. flight_addr f = a) (wy_flights t))" by simp
    with assms(2) show ?thesis by (simp add: same_call_views_def)
  qed
  have buf: "ws_buf t a = ws_buf s a" using assms(2) by (simp add: ws_buf_def same_call_views_def)
  show ?thesis
    using assms gen fl unfolding ws_call_ok_def tok buf by (auto simp: same_call_views_def)
qed

text \<open>The program counter of a call that has not returned moves to another such.\<close>

lemma ws_inv_go:
  assumes inv: "ws_inv s" and at: "ws_at s a pc" and "\<And>r. pc \<noteq> Returned r" and "\<And>r. pc' \<noteq> Returned r"
    and "pc' \<in> {Writing, Waiting} \<Longrightarrow> pc \<in> {Writing, Waiting}"
  shows "ws_inv (ws_go a pc' s)"
proof -
  let ?t = "ws_go a pc' s"
  have a: "a < length (ws_calls s)" "wc_pc (ws_calls s ! a) = pc" using at by (simp_all add: ws_at_def)
  have "ws_ids_ok ?t" unfolding ws_go_def by (rule ws_ids_set_call [OF ws_invD(1) [OF inv]]) simp
  moreover have "ws_call_ok ?t b" if b: "b < length (ws_calls s)" for b
  proof (rule ws_call_same [OF ws_invD(2) [OF inv b]])
    have "ws_returned (ws_calls ?t ! b) = ws_returned (ws_calls s ! b)"
      using a b assms(3,4) by (auto simp: ws_go_def ws_returned_def split: call_pc.splits)
    moreover have "ws_expecting ?t b \<Longrightarrow> ws_expecting s b"
      using a b assms(5) by (auto simp: ws_expecting_def ws_at_def ws_go_def split: if_splits)
    ultimately show "same_call_views s ?t b" using b by (simp add: same_call_views_def) (simp add: ws_go_def)
  qed
  ultimately show ?thesis by (simp add: ws_inv_def) (simp add: ws_go_def)
qed

section \<open>The invariant is preserved\<close>

lemma ws_inv_call:
  assumes inv: "ws_inv s" and n: "ws_next s \<noteq> - 1" and reg: "ws_register s = (ia, t)"
  shows "ws_inv t"
proof -
  let ?i = "ws_next s + 1" and ?n = "length (ws_calls s)"
  have t: "t = s\<lparr>ws_next := ?i, ws_pending := (ws_pending s)(?i \<mapsto> ?n),
      ws_calls := ws_calls s @ [\<lparr>wc_id = ?i, wc_chan = make_chan 1, wc_pc = Writing\<rparr>]\<rparr>"
    using reg by (simp add: ws_register_def Let_def)
  note ids = ws_invD(1) [OF inv]
  have fresh: "wc_id c \<noteq> ?i" "wc_id c \<le> ?i" if "c \<in> set (ws_calls s)" for c
    using that ids u64_inc_fresh [OF n] u64_inc_mono [OF n] by (auto simp: ws_ids_ok_def)
  have free: "ws_pending s ?i = None"
    using ws_pendingD [OF ids, of ?i] fresh(1) nth_mem by (metis not_None_eq)
  have pend: "ws_pending s j = Some a \<Longrightarrow> a < ?n \<and> wc_id (ws_calls s ! a) = j" for j a
    using ws_pendingD [OF ids] .
  have "ws_ids_ok t"
    using ids fresh pend unfolding ws_ids_ok_def t by (fastforce simp: nth_append split: if_splits)
  moreover have "ws_call_ok t a" if a: "a < ?n" for a
  proof (rule ws_call_same [OF ws_invD(2) [OF inv a]])
    have "a \<in> ran (ws_pending t) \<longleftrightarrow> a \<in> ran (ws_pending s)"
      using a free by (auto simp: t ran_def split: if_splits) (metis option.distinct(1))
    with a show "same_call_views s t a"
      by (auto simp: same_call_views_def t nth_append ws_expecting_def ws_at_def)
  qed
  moreover have "ws_call_ok t ?n"
  proof -
    have "\<forall>f \<in> set (wy_flights s). flight_addr f \<noteq> ?n" using ids by (auto simp: ws_ids_ok_def)
    then have "in_flight (wy_flights s) ?n = 0" by (simp add: in_flight_def filter_empty_conv)
    moreover have "?n \<in> ran (ws_pending t)" by (auto simp: t ran_def)
    ultimately show ?thesis
      using \<open>\<forall>f \<in> set (wy_flights s). flight_addr f \<noteq> ?n\<close>
      by (simp add: ws_call_ok_def ws_tokens_def ws_buf_def ws_returned_def) (simp add: t)
  qed
  ultimately show ?thesis by (auto simp: ws_inv_def t less_Suc_eq)
qed

lemma ws_inv_received:
  assumes inv: "ws_inv s" and at: "ws_at s a Waiting" and recv: "chan_recv (wc_chan (ws_calls s ! a)) = RecvVal r ch"
  shows "ws_inv (ws_set_call a (\<lambda>c. c\<lparr>wc_chan := ch, wc_pc := Returned r\<rparr>) s)" (is "ws_inv ?t")
proof -
  from recv obtain xs where ch: "chan_buf (wc_chan (ws_calls s ! a)) = r # xs"
    "ch = (wc_chan (ws_calls s ! a))\<lparr>chan_buf := xs\<rparr>" by (auto simp: chan_recv_Val_iff)
  have a: "a < length (ws_calls s)" "wc_pc (ws_calls s ! a) = Waiting" using at by (simp_all add: ws_at_def)
  have "ws_ids_ok ?t" by (rule ws_ids_set_call [OF ws_invD(1) [OF inv]]) simp
  moreover have "ws_call_ok ?t b" if b: "b < length (ws_calls s)" for b
  proof (cases "b = a")
    case False
    with b show ?thesis
      by (intro ws_call_same [OF ws_invD(2) [OF inv b]])
        (simp add: same_call_views_def ws_expecting_def ws_at_def)
  next
    case True
    have ok: "ws_call_ok s a" by (rule ws_invD(2) [OF inv a(1)])
    have gen: "ws_genuine ?t a x = ws_genuine s a x" for x using a by (simp add: ws_genuine_def)
    have "ws_tokens ?t a = ws_tokens s a"
      using a ch by (simp add: ws_tokens_def ws_buf_def ws_returned_def)
    moreover have "ws_returned (ws_calls ?t ! a) = Some r" "ws_buf ?t a = xs" "\<not> ws_expecting ?t a"
      using a ch by (simp_all add: ws_returned_def ws_buf_def ws_expecting_def ws_at_def)
    moreover have "ws_genuine s a r" "\<forall>x \<in> set xs. ws_genuine s a x"
      using ok ch by (auto simp: ws_call_ok_def ws_buf_def)
    ultimately show ?thesis unfolding True using ok a ch gen by (auto simp: ws_call_ok_def)
  qed
  ultimately show ?thesis by (simp add: ws_inv_def)
qed

lemma ws_inv_removed:
  assumes inv: "ws_inv s" and at: "ws_at s a (Removing e)"
  shows "ws_inv (ws_go a (Aborted e) (ws_remove (wc_id (ws_calls s ! a)) s))"
proof -
  let ?i = "wc_id (ws_calls s ! a)"
  let ?r = "ws_remove ?i s"
  note ids = ws_invD(1) [OF inv]
  have a: "a < length (ws_calls s)" "wc_pc (ws_calls s ! a) = Removing e" using at by (simp_all add: ws_at_def)
  have "ws_ids_ok ?r" using ids by (auto simp: ws_ids_ok_def split: if_splits)
  moreover have "ws_call_ok ?r b" if b: "b < length (ws_calls s)" for b
  proof (cases "b = a")
    case False
    with ws_id_inj [OF ids b a(1)] have "wc_id (ws_calls s ! b) \<noteq> ?i" by blast
    then have "b \<in> ran (ws_pending ?r) \<longleftrightarrow> b \<in> ran (ws_pending s)"
      using ws_pending_iff [OF ids, of b] ws_pending_iff [OF \<open>ws_ids_ok ?r\<close>, of b] by simp
    with b show ?thesis
      by (intro ws_call_same [OF ws_invD(2) [OF inv b]])
        (simp add: same_call_views_def ws_expecting_def ws_at_def)
  next
    case True
    have ok: "ws_call_ok s a" by (rule ws_invD(2) [OF inv a(1)])
    have "of_bool (a \<in> ran (ws_pending ?r)) \<le> (of_bool (a \<in> ran (ws_pending s)) :: nat)"
      by (auto simp: ran_def split: if_splits)
    then have "ws_tokens ?r a \<le> ws_tokens s a" by (simp add: ws_tokens_def ws_buf_def)
    moreover have "\<not> ws_expecting ?r a" using a by (simp add: ws_expecting_def ws_at_def)
    ultimately show ?thesis unfolding True using ok
      by (auto simp: ws_call_ok_def ws_genuine_def ws_buf_def)
  qed
  ultimately have "ws_inv ?r" by (simp add: ws_inv_def)
  moreover have "ws_at ?r a (Removing e)" using at by (simp add: ws_at_def)
  ultimately show ?thesis by (rule ws_inv_go) simp_all
qed

lemma ws_inv_response:
  assumes inv: "ws_inv s" and take: "ws_take i s = (Some a, t)"
  shows "ws_inv (t\<lparr>wy_flights := Put a r # wy_flights s, wy_log := insert (i, r) (wy_log s)\<rparr>)" (is "ws_inv ?t")
proof -
  note ids = ws_invD(1) [OF inv]
  from take have p: "ws_pending s i = Some a" and t: "t = ws_remove i s"
    by (auto simp: ws_take_def split: option.splits)
  from ws_pendingD [OF ids p] have a: "a < length (ws_calls s)" "wc_id (ws_calls s ! a) = i" by blast+
  have "ws_ids_ok ?t" using ids a by (auto simp: ws_ids_ok_def t split: if_splits)
  moreover have "ws_call_ok ?t b" if b: "b < length (ws_calls s)" for b
  proof (cases "b = a")
    case False
    then have "b \<in> ran (ws_pending ?t) \<longleftrightarrow> b \<in> ran (ws_pending s)"
      using ran_del [OF ws_pending_inj [OF ids] p] by (simp add: t)
    with False b show ?thesis
      by (intro ws_call_same [OF ws_invD(2) [OF inv b]])
        (auto simp: same_call_views_def ws_expecting_def ws_at_def t)
  next
    case True
    have ok: "ws_call_ok s a" by (rule ws_invD(2) [OF inv a(1)])
    have "a \<in> ran (ws_pending s)" "a \<notin> ran (ws_pending ?t)"
      using p ran_del [OF ws_pending_inj [OF ids] p] by (auto simp: t intro: ranI)
    then have "ws_tokens ?t a = ws_tokens s a" by (simp add: ws_tokens_def ws_buf_def t)
    moreover have "ws_genuine s a x \<Longrightarrow> ws_genuine ?t a x" "ws_genuine ?t a r" for x
      using a by (auto simp: ws_genuine_def t)
    moreover have "ws_expecting ?t a = ws_expecting s a" by (simp add: ws_expecting_def ws_at_def t)
    ultimately show ?thesis unfolding True using ok by (auto simp: ws_call_ok_def ws_buf_def t)
  qed
  ultimately show ?thesis by (simp add: ws_inv_def t)
qed

text \<open>A flight finds an empty channel, so it can always be sent.\<close>

lemma ws_flight_room:
  assumes inv: "ws_inv s" and f: "f \<in> set (wy_flights s)"
  shows "flight_addr f < length (ws_calls s) \<and> ws_buf s (flight_addr f) = [] \<and>
    chan_send (wc_chan (ws_calls s ! flight_addr f)) r
      = SendOk ((wc_chan (ws_calls s ! flight_addr f))\<lparr>chan_buf := [r]\<rparr>)"
proof -
  let ?a = "flight_addr f"
  from ws_invD(1) [OF inv] f have a: "?a < length (ws_calls s)" by (auto simp: ws_ids_ok_def)
  with ws_invD(2) [OF inv] have ok: "ws_call_ok s ?a" by blast
  from f have "0 < in_flight (wy_flights s) ?a" by (auto simp: in_flight_def filter_empty_conv)
  moreover have "in_flight (wy_flights s) ?a + length (ws_buf s ?a) \<le> 1"
    using ok unfolding ws_call_ok_def ws_tokens_def by linarith
  ultimately have "length (ws_buf s ?a) = 0" by linarith
  then have "ws_buf s ?a = []" by simp
  with a ok show ?thesis by (simp add: chan_send_def ws_call_ok_def ws_buf_def)
qed

lemma ws_ids_flights: "ws_ids_ok s \<Longrightarrow> set fs \<subseteq> set (wy_flights s) \<Longrightarrow> ws_ids_ok (s\<lparr>wy_flights := fs\<rparr>)"
  by (auto simp: ws_ids_ok_def)

text \<open>A flight that lands, or that a finished transport drops.\<close>

lemma ws_inv_landed:
  assumes inv: "ws_inv s" and fl: "wy_flights s = fs @ f # gs" and a: "flight_addr f = a"
  shows "ws_inv ((ws_set_call a (\<lambda>c. c\<lparr>wc_chan := (wc_chan c)\<lparr>chan_buf := [flight_value f]\<rparr>\<rparr>) s)\<lparr>wy_flights := fs @ gs\<rparr>)" (is "ws_inv ?t")
proof -
  let ?u = "ws_set_call a (\<lambda>c. c\<lparr>wc_chan := (wc_chan c)\<lparr>chan_buf := [flight_value f]\<rparr>\<rparr>) s"
  have f: "f \<in> set (wy_flights s)" using fl by simp
  from ws_flight_room [OF inv f] a have room: "a < length (ws_calls s)" "ws_buf s a = []" by auto
  have "ws_ids_ok ?u" by (rule ws_ids_set_call [OF ws_invD(1) [OF inv]]) simp
  then have "ws_ids_ok ?t" by (rule ws_ids_flights) (auto simp: fl)
  moreover have "ws_call_ok ?t b" if b: "b < length (ws_calls s)" for b
  proof (cases "b = a")
    case False
    with a b fl show ?thesis
      by (intro ws_call_same [OF ws_invD(2) [OF inv b]])
        (simp add: same_call_views_def ws_expecting_def ws_at_def)
  next
    case True
    have ok: "ws_call_ok s a" by (rule ws_invD(2) [OF inv room(1)])
    have "ws_tokens ?t a = ws_tokens s a"
      using room a by (simp add: ws_tokens_def ws_buf_def fl ws_returned_def)
    moreover have "ws_genuine ?t a x = ws_genuine s a x" for x using room by (simp add: ws_genuine_def)
    moreover have "ws_genuine s a (flight_value f)" using ok f a by (auto simp: ws_call_ok_def)
    moreover have "ws_expecting ?t a = ws_expecting s a"
      using room by (simp add: ws_expecting_def ws_at_def)
    ultimately show ?thesis
      unfolding True using ok room by (auto simp: ws_call_ok_def ws_buf_def ws_returned_def fl)
  qed
  ultimately show ?thesis by (simp add: ws_inv_def)
qed

lemma ws_inv_dropped:
  assumes inv: "ws_inv s" and fl: "wy_flights s = fs @ f # gs" and d: "ws_done s"
  shows "ws_inv (s\<lparr>wy_flights := fs @ gs\<rparr>)" (is "ws_inv ?t")
proof -
  have "ws_ids_ok ?t" using ws_invD(1) [OF inv] by (simp add: ws_ids_ok_def fl)
  moreover have "ws_call_ok ?t b" if b: "b < length (ws_calls s)" for b
  proof -
    have "ws_tokens ?t b \<le> ws_tokens s b" by (simp add: ws_tokens_def ws_buf_def fl)
    then show ?thesis using ws_invD(2) [OF inv b] d by (auto simp: ws_call_ok_def ws_genuine_def ws_buf_def fl)
  qed
  ultimately show ?thesis by (simp add: ws_inv_def)
qed

lemma ws_inv_put:
  assumes "ws_inv s" and "wy_flights s = fs @ Put a r # gs" and "ws_put d a r s = Some t"
  shows "ws_inv (t\<lparr>wy_flights := fs @ gs\<rparr>)"
proof (cases "d \<and> ws_done s")
  case True
  with assms show ?thesis by (auto simp: ws_put_def intro: ws_inv_dropped)
next
  case False
  have "Put a r \<in> set (wy_flights s)" using assms(2) by simp
  from ws_flight_room [OF assms(1) this, of r] False assms(3)
  have "t = ws_set_call a (\<lambda>c. c\<lparr>wc_chan := (wc_chan c)\<lparr>chan_buf := [r]\<rparr>\<rparr>) s"
    by (auto simp: ws_put_def ws_set_call_def)
  with ws_inv_landed [OF assms(1,2)] show ?thesis by simp
qed

lemma ws_inv_offer:
  assumes "ws_inv s" and "wy_flights s = fs @ Offer a r # gs"
  shows "ws_inv ((ws_offer a r s)\<lparr>wy_flights := fs @ gs\<rparr>)"
proof -
  have "Offer a r \<in> set (wy_flights s)" using assms(2) by simp
  from ws_flight_room [OF assms(1) this, of r]
  have "ws_offer a r s = ws_set_call a (\<lambda>c. c\<lparr>wc_chan := (wc_chan c)\<lparr>chan_buf := [r]\<rparr>\<rparr>) s"
    by (auto simp: ws_offer_def ws_set_call_def)
  with ws_inv_landed [OF assms] show ?thesis by simp
qed

lemma ws_inv_swapped:
  assumes inv: "ws_inv s" and sw: "ws_swap s = (pending, t)" and os: "offers_of pending ErrClosed os"
  shows "ws_inv (t\<lparr>wy_flights := os @ wy_flights s, wy_swapped := True\<rparr>)" (is "ws_inv ?t")
proof -
  note ids = ws_invD(1) [OF inv]
  from sw have p: "pending = ws_pending s" and t: "t = s\<lparr>ws_pending := Map.empty\<rparr>" by (auto simp: ws_swap_def)
  from os p have os: "offers_of (ws_pending s) ErrClosed os" by simp
  have off: "f \<in> set os \<Longrightarrow> flight_value f = flush_result ErrClosed \<and> flight_addr f < length (ws_calls s)" for f
    using offers_set [OF os, of f] ws_pending_iff [OF ids] by auto
  have "ws_ids_ok ?t" using ids off by (auto simp: ws_ids_ok_def t)
  moreover have "ws_call_ok ?t b" if b: "b < length (ws_calls s)" for b
  proof -
    have "ws_tokens ?t b = ws_tokens s b"
      by (simp add: ws_tokens_def ws_buf_def t offers_count [OF os ws_pending_inj [OF ids]])
    then show ?thesis using ws_invD(2) [OF inv b] off
      by (auto simp: ws_call_ok_def ws_genuine_def ws_buf_def ws_expecting_def ws_at_def t)
  qed
  ultimately show ?thesis by (simp add: ws_inv_def t)
qed

lemma ws_inv_closed: "ws_inv s \<Longrightarrow> ws_inv (ws_close_done s)"
  by (auto simp: ws_inv_def ws_ids_ok_def ws_call_ok_def ws_genuine_def ws_buf_def ws_tokens_def ws_close_done_def)

lemma ws_inv_step: "ws_step s t \<Longrightarrow> ws_inv s \<Longrightarrow> ws_inv t"
  by (induction rule: ws_step.induct)
    (auto intro: ws_inv_call ws_inv_go ws_inv_received ws_inv_removed ws_inv_response ws_inv_put ws_inv_offer
      ws_inv_swapped ws_inv_closed)

lemma ws_inv_start: "ws_start s \<Longrightarrow> ws_inv s"
  by (simp add: ws_start_def ws_inv_def ws_ids_ok_def new_websocket_def ws.extend_def)

section \<open>The promises of the system\<close>

text \<open>A call is open while it is pending, and answered while its answer is in flight or in its channel.\<close>

definition ws_values :: "wsys \<Rightarrow> nat \<Rightarrow> call_result list" where
  "ws_values s a = map flight_value (filter (\<lambda>f. flight_addr f = a) (wy_flights s)) @ ws_buf s a"

definition ws_status :: "wsys \<Rightarrow> nat \<Rightarrow> call_result promise" where
  "ws_status s a =
     (case wc_pc (ws_calls s ! a) of
        Returned r \<Rightarrow> Delivered r
      | Aborted e \<Rightarrow> Lost
      | _ \<Rightarrow> if ws_pending s (wc_id (ws_calls s ! a)) = Some a then Open
          else (case ws_values s a of [] \<Rightarrow> Lost | r # rs \<Rightarrow> Answered r))"

definition ws_promises :: "wsys \<Rightarrow> (u64 \<times> call_result promise) list" where
  "ws_promises s = map (\<lambda>a. (wc_id (ws_calls s ! a), ws_status s a)) [0..<length (ws_calls s)]"

lemma ws_values_length: "length (ws_values s a) = in_flight (wy_flights s) a + length (ws_buf s a)"
  by (simp add: ws_values_def in_flight_def)

lemma ws_values_one:
  assumes "ws_inv s" and "a < length (ws_calls s)"
  shows "length (ws_values s a) \<le> 1"
    and "ws_pending s (wc_id (ws_calls s ! a)) = Some a \<Longrightarrow> ws_values s a = []"
    and "wc_pc (ws_calls s ! a) = Returned r \<Longrightarrow> ws_values s a = [] \<and> ws_pending s (wc_id (ws_calls s ! a)) \<noteq> Some a"
proof -
  have t: "of_bool (ws_pending s (wc_id (ws_calls s ! a)) = Some a) + length (ws_values s a)
      + of_bool (ws_returned (ws_calls s ! a) \<noteq> None) \<le> (1 :: nat)"
    using ws_invD(2) [OF assms] ws_pending_iff [OF ws_invD(1) [OF assms(1)], of a] assms(2)
    by (simp add: ws_call_ok_def ws_tokens_def ws_values_length)
  then show "length (ws_values s a) \<le> 1" by linarith
  show "ws_values s a = []" if "ws_pending s (wc_id (ws_calls s ! a)) = Some a" using t that by simp
  show "ws_values s a = [] \<and> ws_pending s (wc_id (ws_calls s ! a)) \<noteq> Some a" if "wc_pc (ws_calls s ! a) = Returned r"
    using t that by (auto simp: ws_returned_def split: if_splits)
qed

lemma ws_promises_evolve:
  assumes "length (ws_calls t) = length (ws_calls s)"
    and "\<And>a. a < length (ws_calls s) \<Longrightarrow> wc_id (ws_calls t ! a) = wc_id (ws_calls s ! a) \<and>
      (ws_status t a = ws_status s a \<or> evolves (ws_status s a) (ws_status t a))"
  shows "promise_step\<^sup>*\<^sup>* (ws_promises s) (ws_promises t)"
  by (rule promises_evolve) (use assms in \<open>auto simp: ws_promises_def\<close>)

lemma ws_status_cong:
  "wc_pc (ws_calls t ! a) = wc_pc (ws_calls s ! a) \<Longrightarrow>
     (ws_pending t (wc_id (ws_calls t ! a)) = Some a) = (ws_pending s (wc_id (ws_calls s ! a)) = Some a) \<Longrightarrow>
     ws_values t a = ws_values s a \<Longrightarrow> ws_status t a = ws_status s a"
  by (simp only: ws_status_def)

lemma status_go:
  assumes "ws_at s a pc" and "\<And>r. pc \<noteq> Returned r" and "\<And>e. pc \<noteq> Aborted e"
    and "\<And>r. pc' \<noteq> Returned r" and "\<And>e. pc' \<noteq> Aborted e" and "b < length (ws_calls s)"
  shows "ws_status (ws_go a pc' s) b = ws_status s b"
proof (cases "b = a")
  case True
  have "ws_values (ws_go a pc' s) a = ws_values s a"
    using assms(1) by (simp add: ws_go_def ws_at_def ws_values_def ws_buf_def)
  with assms show ?thesis by (auto simp: True ws_status_def ws_go_def ws_at_def split: call_pc.split)
next
  case False
  then show ?thesis
    by (intro ws_status_cong) (use assms(6) in \<open>simp_all add: ws_go_def ws_values_def ws_buf_def\<close>)
qed

lemma promises_go:
  assumes "ws_at s a pc" and "\<And>r. pc \<noteq> Returned r" and "\<And>e. pc \<noteq> Aborted e"
    and "\<And>r. pc' \<noteq> Returned r" and "\<And>e. pc' \<noteq> Aborted e"
  shows "promise_step\<^sup>*\<^sup>* (ws_promises s) (ws_promises (ws_go a pc' s))"
  by (rule ws_promises_evolve) (use status_go [OF assms] in \<open>auto simp: ws_go_def\<close>)

lemma promises_call:
  assumes inv: "ws_inv s" and n: "ws_next s \<noteq> - 1" and reg: "ws_register s = (ia, t)"
  shows "promise_step\<^sup>*\<^sup>* (ws_promises s) (ws_promises t)"
proof -
  let ?i = "ws_next s + 1" and ?n = "length (ws_calls s)"
  have t: "t = s\<lparr>ws_next := ?i, ws_pending := (ws_pending s)(?i \<mapsto> ?n),
      ws_calls := ws_calls s @ [\<lparr>wc_id = ?i, wc_chan = make_chan 1, wc_pc = Writing\<rparr>]\<rparr>"
    using reg by (simp add: ws_register_def Let_def)
  note ids = ws_invD(1) [OF inv]
  have fresh: "wc_id (ws_calls s ! a) \<noteq> ?i" if "a < ?n" for a
    using that ids u64_inc_fresh [OF n] by (auto simp: ws_ids_ok_def)
  have "ws_status t a = ws_status s a" if "a < ?n" for a
    by (rule ws_status_cong) (use that fresh [OF that] in \<open>simp_all add: t nth_append ws_values_def ws_buf_def\<close>)
  moreover have "ws_status t ?n = Open" by (simp add: ws_status_def t)
  ultimately have "ws_promises t = ws_promises s @ [(?i, Open)]"
    by (simp add: ws_promises_def) (simp add: t nth_append)
  moreover have "?i \<notin> fst ` set (ws_promises s)"
    using fresh by (auto simp: ws_promises_def) (metis fresh)
  ultimately show ?thesis by (simp add: promised r_into_rtranclp)
qed

lemma promises_received:
  assumes inv: "ws_inv s" and at: "ws_at s a Waiting" and recv: "chan_recv (wc_chan (ws_calls s ! a)) = RecvVal r ch"
  shows "promise_step\<^sup>*\<^sup>* (ws_promises s) (ws_promises (ws_set_call a (\<lambda>c. c\<lparr>wc_chan := ch, wc_pc := Returned r\<rparr>) s))"
    (is "promise_step\<^sup>*\<^sup>* _ (ws_promises ?t)")
proof (rule ws_promises_evolve)
  have a: "a < length (ws_calls s)" "wc_pc (ws_calls s ! a) = Waiting" using at by (simp_all add: ws_at_def)
  from recv have "r \<in> set (ws_buf s a)" by (auto simp: chan_recv_Val_iff ws_buf_def)
  then have "r \<in> set (ws_values s a)" by (simp add: ws_values_def)
  with ws_values_one(1) [OF inv a(1)] have v: "ws_values s a = [r]" by (cases "ws_values s a") auto
  with ws_values_one(2) [OF inv a(1)] have "ws_pending s (wc_id (ws_calls s ! a)) \<noteq> Some a" by auto
  with v a have "ws_status s a = Answered r" "ws_status ?t a = Delivered r" by (simp_all add: ws_status_def)
  moreover have "ws_status ?t b = ws_status s b" if "b \<noteq> a" "b < length (ws_calls s)" for b
    by (rule ws_status_cong) (use that in \<open>simp_all add: ws_values_def ws_buf_def\<close>)
  ultimately show "b < length (ws_calls s) \<Longrightarrow> wc_id (ws_calls ?t ! b) = wc_id (ws_calls s ! b) \<and>
      (ws_status ?t b = ws_status s b \<or> evolves (ws_status s b) (ws_status ?t b))" for b
    by (cases "b = a") (simp_all add: evolves_def)
qed simp

lemma promises_removed:
  assumes inv: "ws_inv s" and at: "ws_at s a (Removing e)"
  shows "promise_step\<^sup>*\<^sup>* (ws_promises s) (ws_promises (ws_go a (Aborted e) (ws_remove (wc_id (ws_calls s ! a)) s)))"
    (is "promise_step\<^sup>*\<^sup>* _ (ws_promises ?t)")
proof (rule ws_promises_evolve)
  note ids = ws_invD(1) [OF inv]
  have a: "a < length (ws_calls s)" "wc_pc (ws_calls s ! a) = Removing e" using at by (simp_all add: ws_at_def)
  fix b assume b: "b < length (ws_calls s)"
  show "wc_id (ws_calls ?t ! b) = wc_id (ws_calls s ! b) \<and>
      (ws_status ?t b = ws_status s b \<or> evolves (ws_status s b) (ws_status ?t b))"
  proof (cases "b = a")
    case True
    have "ws_status ?t a = Lost" using a by (simp add: ws_status_def ws_go_def)
    moreover have "ws_status s a = Lost \<or> evolves (ws_status s a) Lost"
      using a by (auto simp: ws_status_def evolves_def split: list.split)
    ultimately show ?thesis using a by (auto simp: True ws_go_def)
  next
    case False
    with ws_id_inj [OF ids b a(1)] have "wc_id (ws_calls s ! b) \<noteq> wc_id (ws_calls s ! a)" by blast
    then have "ws_status ?t b = ws_status s b"
      by (intro ws_status_cong) (use False b in \<open>simp_all add: ws_go_def ws_values_def ws_buf_def\<close>)
    with False b show ?thesis by (simp add: ws_go_def)
  qed
qed (simp add: ws_go_def)

lemma promises_response:
  assumes inv: "ws_inv s" and take: "ws_take i s = (Some a, t)"
  shows "promise_step\<^sup>*\<^sup>* (ws_promises s)
    (ws_promises (t\<lparr>wy_flights := Put a r # wy_flights s, wy_log := insert (i, r) (wy_log s)\<rparr>))"
    (is "promise_step\<^sup>*\<^sup>* _ (ws_promises ?t)")
proof (rule ws_promises_evolve)
  note ids = ws_invD(1) [OF inv]
  from take have p: "ws_pending s i = Some a" and t: "t = ws_remove i s"
    by (auto simp: ws_take_def split: option.splits)
  from ws_pendingD [OF ids p] have a: "a < length (ws_calls s)" "wc_id (ws_calls s ! a) = i" by blast+
  show "length (ws_calls ?t) = length (ws_calls s)" by (simp add: t)
  fix b assume b: "b < length (ws_calls s)"
  show "wc_id (ws_calls ?t ! b) = wc_id (ws_calls s ! b) \<and>
      (ws_status ?t b = ws_status s b \<or> evolves (ws_status s b) (ws_status ?t b))"
  proof (cases "b = a")
    case True
    have "ws_values s a = []" using ws_values_one(2) [OF inv a(1)] p a(2) by simp
    then have "ws_values ?t a = [r]" by (simp add: ws_values_def ws_buf_def t)
    then show ?thesis
      using ws_values_one(3) [OF inv a(1)] p a
      by (auto simp: True ws_status_def evolves_def t split: call_pc.split)
  next
    case False
    with ws_id_inj [OF ids b a(1)] have "wc_id (ws_calls s ! b) \<noteq> i" unfolding a(2) by blast
    then have "ws_status ?t b = ws_status s b"
      by (intro ws_status_cong) (use False in \<open>simp_all add: ws_values_def ws_buf_def t\<close>)
    then show ?thesis by (simp add: t)
  qed
qed

lemma promises_landed:
  assumes inv: "ws_inv s" and fl: "wy_flights s = fs @ f # gs" and a: "flight_addr f = a"
  shows "promise_step\<^sup>*\<^sup>* (ws_promises s) (ws_promises
    ((ws_set_call a (\<lambda>c. c\<lparr>wc_chan := (wc_chan c)\<lparr>chan_buf := [flight_value f]\<rparr>\<rparr>) s)\<lparr>wy_flights := fs @ gs\<rparr>))"
    (is "promise_step\<^sup>*\<^sup>* _ (ws_promises ?t)")
proof (rule ws_promises_evolve)
  show "length (ws_calls ?t) = length (ws_calls s)" by simp
  have f: "f \<in> set (wy_flights s)" using fl by simp
  from ws_flight_room [OF inv f] a have room: "a < length (ws_calls s)" "ws_buf s a = []" by auto
  have one: "length (ws_values s a) \<le> 1" by (rule ws_values_one(1) [OF inv room(1)])
  then have "filter (\<lambda>f. flight_addr f = a) (fs @ gs) = []" using a by (simp add: ws_values_def fl)
  then have v: "ws_values ?t a = ws_values s a" using room a by (simp add: ws_values_def ws_buf_def fl)
  fix b assume b: "b < length (ws_calls s)"
  have "ws_values ?t b = ws_values s b"
    using v b a by (cases "b = a") (simp_all add: ws_values_def ws_buf_def fl)
  then have "ws_status ?t b = ws_status s b" using b by (intro ws_status_cong) simp_all
  then show "wc_id (ws_calls ?t ! b) = wc_id (ws_calls s ! b) \<and>
      (ws_status ?t b = ws_status s b \<or> evolves (ws_status s b) (ws_status ?t b))" using b by simp
qed

lemma promises_dropped:
  assumes inv: "ws_inv s" and fl: "wy_flights s = fs @ f # gs"
  shows "promise_step\<^sup>*\<^sup>* (ws_promises s) (ws_promises (s\<lparr>wy_flights := fs @ gs\<rparr>))" (is "promise_step\<^sup>*\<^sup>* _ (ws_promises ?t)")
proof (rule ws_promises_evolve)
  show "length (ws_calls ?t) = length (ws_calls s)" by simp
  fix b assume b: "b < length (ws_calls s)"
  have "ws_values ?t b = ws_values s b \<or> ws_values ?t b = []"
    using ws_values_one(1) [OF inv b] by (auto simp: ws_values_def ws_buf_def fl)
  then have "ws_status ?t b = ws_status s b \<or> evolves (ws_status s b) (ws_status ?t b)"
    by (auto simp: ws_status_def evolves_def split: call_pc.split list.split)
  then show "wc_id (ws_calls ?t ! b) = wc_id (ws_calls s ! b) \<and>
      (ws_status ?t b = ws_status s b \<or> evolves (ws_status s b) (ws_status ?t b))" by simp
qed


lemma promises_put:
  assumes "ws_inv s" and "wy_flights s = fs @ Put a r # gs" and "ws_put d a r s = Some t"
  shows "promise_step\<^sup>*\<^sup>* (ws_promises s) (ws_promises (t\<lparr>wy_flights := fs @ gs\<rparr>))"
proof (cases "d \<and> ws_done s")
  case True
  with assms show ?thesis by (auto simp: ws_put_def intro: promises_dropped)
next
  case False
  have "Put a r \<in> set (wy_flights s)" using assms(2) by simp
  from ws_flight_room [OF assms(1) this, of r] False assms(3)
  have "t = ws_set_call a (\<lambda>c. c\<lparr>wc_chan := (wc_chan c)\<lparr>chan_buf := [r]\<rparr>\<rparr>) s"
    by (auto simp: ws_put_def ws_set_call_def)
  with promises_landed [OF assms(1,2)] show ?thesis by simp
qed

lemma promises_offer:
  assumes "ws_inv s" and "wy_flights s = fs @ Offer a r # gs"
  shows "promise_step\<^sup>*\<^sup>* (ws_promises s) (ws_promises ((ws_offer a r s)\<lparr>wy_flights := fs @ gs\<rparr>))"
proof -
  have "Offer a r \<in> set (wy_flights s)" using assms(2) by simp
  from ws_flight_room [OF assms(1) this, of r]
  have "ws_offer a r s = ws_set_call a (\<lambda>c. c\<lparr>wc_chan := (wc_chan c)\<lparr>chan_buf := [r]\<rparr>\<rparr>) s"
    by (auto simp: ws_offer_def ws_set_call_def)
  with promises_landed [OF assms] show ?thesis by simp
qed

lemma promises_swapped:
  assumes inv: "ws_inv s" and sw: "ws_swap s = (pending, t)" and os: "offers_of pending ErrClosed os"
  shows "promise_step\<^sup>*\<^sup>* (ws_promises s) (ws_promises (t\<lparr>wy_flights := os @ wy_flights s, wy_swapped := True\<rparr>))"
    (is "promise_step\<^sup>*\<^sup>* _ (ws_promises ?t)")
proof (rule ws_promises_evolve)
  note ids = ws_invD(1) [OF inv]
  from sw have p: "pending = ws_pending s" and t: "t = s\<lparr>ws_pending := Map.empty\<rparr>" by (auto simp: ws_swap_def)
  from os p have os: "offers_of (ws_pending s) ErrClosed os" by simp
  show "length (ws_calls ?t) = length (ws_calls s)" by (simp add: t)
  fix b assume b: "b < length (ws_calls s)"
  let ?fs = "filter (\<lambda>f. flight_addr f = b) os"
  have v: "ws_values ?t b = map flight_value ?fs @ ws_values s b" by (simp add: ws_values_def ws_buf_def t)
  have n: "length ?fs = of_bool (ws_pending s (wc_id (ws_calls s ! b)) = Some b)"
    using offers_count [OF os ws_pending_inj [OF ids], of b] ws_pending_iff [OF ids, of b] b
    by (simp add: in_flight_def)
  have "ws_status ?t b = ws_status s b \<or> evolves (ws_status s b) (ws_status ?t b)"
  proof (cases "ws_pending s (wc_id (ws_calls s ! b)) = Some b")
    case True
    with n obtain f where "?fs = [f]" by (auto simp: length_Suc_conv)
    with v ws_values_one(2) [OF inv b True] have "ws_values ?t b = [flight_value f]" by simp
    then show ?thesis using True by (auto simp: ws_status_def evolves_def t split: call_pc.split)
  next
    case False
    with n v have "ws_values ?t b = ws_values s b" by simp
    with False have "ws_status ?t b = ws_status s b" by (intro ws_status_cong) (simp_all add: t)
    then show ?thesis ..
  qed
  then show "wc_id (ws_calls ?t ! b) = wc_id (ws_calls s ! b) \<and>
      (ws_status ?t b = ws_status s b \<or> evolves (ws_status s b) (ws_status ?t b))" by (simp add: t)
qed

lemma promises_closed: "ws_promises (ws_close_done s) = ws_promises s"
proof -
  have "ws_status (ws_close_done s) a = ws_status s a" for a
    by (rule ws_status_cong) (simp_all add: ws_close_done_def ws_values_def ws_buf_def)
  then show ?thesis by (simp add: ws_promises_def) (simp add: ws_close_done_def)
qed

lemma ws_promises_step: "ws_step s t \<Longrightarrow> ws_inv s \<Longrightarrow> promise_step\<^sup>*\<^sup>* (ws_promises s) (ws_promises t)"
  by (induction rule: ws_step.induct)
    (auto simp: promises_closed intro: promises_call promises_go promises_received promises_removed
      promises_response promises_put promises_offer promises_swapped)

lemma ws_promises_start: "ws_start s \<Longrightarrow> ws_promises s = []"
  by (auto simp: ws_start_def ws_promises_def new_websocket_def ws.extend_def)

interpretation websocket: promise_keeper ws_start ws_step ws_inv ws_promises
  by unfold_locales (rule ws_inv_start ws_inv_step ws_promises_start ws_promises_step; assumption)+

end
