(* ===== verification/WebSocketCalls.thy ===== *)
theory WebSocketCalls imports WebSocketProps begin

text \<open>
  What a caller of the WebSocket transport gets: the transport keeps the promises of
  \<^verbatim>\<open>Promises\<close>, answers come from the right place, and a waiting call can always return.
\<close>

section \<open>A run\<close>

definition ws_demo_start :: wsys where
  "ws_demo_start = ws.extend new_websocket \<lparr>wy_flights = [], wy_log = {}, wy_swapped = False\<rparr>"

definition ws_demo_waiting :: wsys where
  "ws_demo_waiting = ws_go 0 Waiting (snd (ws_register ws_demo_start))"

definition ws_demo_result :: call_result where
  "ws_demo_result = \<lparr>cr_raw = Some (JNum ''7''), cr_err = None, cr_rpc = None\<rparr>"

definition ws_demo_answered :: wsys where
  "ws_demo_answered =
     (let t = snd (ws_take 1 ws_demo_waiting)
      in t\<lparr>wy_flights := [Put 0 ws_demo_result], wy_log := {(1, ws_demo_result)}\<rparr>)"

lemmas ws_demo_defs = ws_demo_start_def ws_demo_waiting_def ws_demo_answered_def ws_register_def ws_go_def
  ws_set_call_def new_websocket_def ws.extend_def ws_take_def ws_remove_def Let_def

lemma ws_demo_waiting_reachable: "reachable ws_start ws_step ws_demo_waiting"
proof -
  have "reachable ws_start ws_step ws_demo_start"
    by (rule reach_start) (simp add: ws_start_def ws_demo_start_def)
  moreover have "ws_step ws_demo_start (snd (ws_register ws_demo_start))"
    by (rule w_call [OF _ surjective_pairing]) (simp add: ws_demo_defs)
  moreover have "ws_step (snd (ws_register ws_demo_start)) ws_demo_waiting"
    unfolding ws_demo_waiting_def by (rule w_written) (simp add: ws_demo_defs ws_at_def)
  ultimately show ?thesis by (blast intro: reach_step)
qed

lemma ws_demo_answered_step: "ws_step ws_demo_waiting ws_demo_answered"
proof -
  have "ws_take 1 ws_demo_waiting = (Some 0, snd (ws_take 1 ws_demo_waiting))" by (simp add: ws_demo_defs)
  from w_response [OF this, of ws_demo_result] show ?thesis
    by (simp add: ws_demo_answered_def Let_def) (simp add: ws_demo_defs)
qed

section \<open>Promises are kept\<close>

text \<open>
  C11. The WebSocket transport refines a set of promises.  Whatever the interleaving of calls, reader and
  terminating goroutines, every run is a run of the specification: ids are never shared, a call goes
  from open to answered to delivered or is lost, and an answer once taken for a call is the answer it
  returns, if it returns one.
\<close>

theorem ws_refines_promises:
  assumes "reachable ws_start ws_step s" and "ws_step\<^sup>*\<^sup>* s t"
  shows "promise_step\<^sup>*\<^sup>* [] (ws_promises s) \<and> promise_step\<^sup>*\<^sup>* (ws_promises s) (ws_promises t) \<and>
    distinct (map wc_id (ws_calls t)) \<and>
    (\<forall>a < length (ws_calls s). \<forall>r. ws_status s a \<in> {Answered r, Delivered r} \<longrightarrow>
       wc_id (ws_calls t ! a) = wc_id (ws_calls s ! a) \<and> ws_status t a \<in> {Answered r, Delivered r, Lost})"
proof -
  have at: "a < length (ws_calls u) \<Longrightarrow> ws_promises u ! a = (wc_id (ws_calls u ! a), ws_status u a)" for a u
    by (simp add: ws_promises_def)
  have len: "length (ws_promises u) = length (ws_calls u)" for u by (simp add: ws_promises_def)
  have "wc_id (ws_calls t ! a) = wc_id (ws_calls s ! a) \<and> ws_status t a \<in> {Answered r, Delivered r, Lost}"
    if "a < length (ws_calls s)" and "ws_status s a \<in> {Answered r, Delivered r}" for a r
    using websocket.answer_final [OF assms, of a "wc_id (ws_calls s ! a)" r] that at [of a s] at [of a t]
    by (auto simp: len)
  moreover have "distinct (map wc_id (ws_calls t))"
    using ws_invD(1) [OF websocket.run_inv [OF websocket.reachable_inv [OF assms(1)] assms(2)]]
    by (simp add: ws_ids_ok_def)
  ultimately show ?thesis
    using websocket.promises_reachable [OF assms(1)]
      websocket.promises_run [OF websocket.reachable_inv [OF assms(1)] assms(2)] by blast
qed

theorem ws_refines_promises_witness:
  "promise_step\<^sup>*\<^sup>* [(1 :: u64, Open)] [(1, Answered ws_demo_result)]"
proof -
  have "ws_step\<^sup>*\<^sup>* ws_demo_waiting ws_demo_answered" using ws_demo_answered_step by blast
  from ws_refines_promises [OF ws_demo_waiting_reachable this]
  have "promise_step\<^sup>*\<^sup>* (ws_promises ws_demo_waiting) (ws_promises ws_demo_answered)" by blast
  then show ?thesis by (simp add: ws_promises_def ws_status_def ws_values_def ws_demo_defs)
qed

section \<open>A waiting call can return\<close>

lemma ws_buffered_returns:
  assumes "ws_at s a Waiting" and "ws_buf s a = r # rs"
  shows "\<exists>t. ws_step s t \<and> wc_pc (ws_calls t ! a) = Returned r"
proof -
  let ?ch = "(wc_chan (ws_calls s ! a))\<lparr>chan_buf := rs\<rparr>"
  have "chan_recv (wc_chan (ws_calls s ! a)) = RecvVal r ?ch"
    using assms(2) by (auto simp: chan_recv_Val_iff ws_buf_def)
  from w_received [OF assms(1) this]
  have "ws_step s (ws_set_call a (\<lambda>c. c\<lparr>wc_chan := ?ch, wc_pc := Returned r\<rparr>) s)" .
  moreover have "a < length (ws_calls s)" using assms(1) by (simp add: ws_at_def)
  ultimately show ?thesis by (intro exI conjI) (assumption, simp)
qed

lemma ws_flight_returns:
  assumes inv: "ws_inv s" and at: "ws_at s a Waiting" and f: "f \<in> set (wy_flights s)" and a: "flight_addr f = a"
  shows "\<exists>t. ws_step\<^sup>*\<^sup>* s t \<and> wc_pc (ws_calls t ! a) = Returned (flight_value f)"
proof -
  obtain fs gs where fl: "wy_flights s = fs @ f # gs" using f by (meson split_list)
  let ?u = "ws_set_call a (\<lambda>c. c\<lparr>wc_chan := (wc_chan c)\<lparr>chan_buf := [flight_value f]\<rparr>\<rparr>) s"
  note room = ws_flight_room [OF inv f, of "flight_value f", unfolded a]
  have step: "ws_step s (?u\<lparr>wy_flights := fs @ gs\<rparr>)"
  proof (cases f)
    case (Put b r)
    with a room have "ws_put False a r s = Some ?u" by (simp add: ws_put_def ws_set_call_def)
    with w_put [of s fs a r gs False ?u] fl Put a show ?thesis by simp
  next
    case (Offer b r)
    with a room have "ws_offer a r s = ?u" by (simp add: ws_offer_def ws_set_call_def)
    with w_offer [of s fs a r gs] fl Offer a show ?thesis by simp
  qed
  have "ws_at (?u\<lparr>wy_flights := fs @ gs\<rparr>) a Waiting" using at by (auto simp: ws_at_def ws_set_call_def)
  moreover have "ws_buf (?u\<lparr>wy_flights := fs @ gs\<rparr>) a = [flight_value f]"
    using room by (simp add: ws_buf_def)
  ultimately have "\<exists>t. ws_step (?u\<lparr>wy_flights := fs @ gs\<rparr>) t \<and> wc_pc (ws_calls t ! a) = Returned (flight_value f)"
    by (rule ws_buffered_returns)
  then obtain t where t: "ws_step (?u\<lparr>wy_flights := fs @ gs\<rparr>) t" "wc_pc (ws_calls t ! a) = Returned (flight_value f)"
    by blast
  have "ws_step\<^sup>*\<^sup>* s t" by (rule rtranclp_trans [of ws_step]) (rule r_into_rtranclp, rule step t(1))+
  with t(2) show ?thesis by (intro exI conjI)
qed

lemma ws_pending_returns:
  assumes inv: "ws_inv s" and at: "ws_at s a Waiting" and p: "ws_pending s (wc_id (ws_calls s ! a)) = Some a"
  shows "\<exists>t. ws_step\<^sup>*\<^sup>* s t \<and> wc_pc (ws_calls t ! a) = Returned r"
proof -
  let ?i = "wc_id (ws_calls s ! a)"
  let ?u = "(ws_remove ?i s)\<lparr>wy_flights := Put a r # wy_flights s, wy_log := insert (?i, r) (wy_log s)\<rparr>"
  have take: "ws_take ?i s = (Some a, ws_remove ?i s)" using p by (simp add: ws_take_def)
  have "ws_step s ?u" by (rule w_response [OF take])
  moreover have "\<exists>t. ws_step\<^sup>*\<^sup>* ?u t \<and> wc_pc (ws_calls t ! a) = Returned (flight_value (Put a r))"
    by (rule ws_flight_returns [OF ws_inv_response [OF inv take]]) (use at in \<open>auto simp: ws_at_def\<close>)
  ultimately show ?thesis by (auto intro: converse_rtranclp_into_rtranclp)
qed

text \<open>
  C12. Calls are answered.  A call that returned has the error of a terminated transport or a response
  the reader took for its id.  A call that waits is never stuck: on a transport that is not done, it
  is pending and any response with its id makes it return with it, or an answer is on its way and it
  can return; on one that is done, it can leave with \<^verbatim>\<open>ErrClosed\<close>.
\<close>

theorem ws_call_answered:
  assumes "reachable ws_start ws_step s" and "a < length (ws_calls s)"
  shows "(wc_pc (ws_calls s ! a) = Returned r \<longrightarrow>
            r = flush_result ErrClosed \<or> (wc_id (ws_calls s ! a), r) \<in> wy_log s) \<and>
    (wc_pc (ws_calls s ! a) = Waiting \<longrightarrow>
       (if ws_done s then ws_step s (ws_go a (Removing ErrClosed) s)
        else if ws_pending s (wc_id (ws_calls s ! a)) = Some a
        then \<exists>t. ws_step\<^sup>*\<^sup>* s t \<and> wc_pc (ws_calls t ! a) = Returned r
        else \<exists>t v. ws_step\<^sup>*\<^sup>* s t \<and> wc_pc (ws_calls t ! a) = Returned v))"
proof -
  note inv = websocket.reachable_inv [OF assms(1)]
  note ok = ws_invD(2) [OF inv assms(2)]
  have "\<exists>t v. ws_step\<^sup>*\<^sup>* s t \<and> wc_pc (ws_calls t ! a) = Returned v"
    if w: "ws_at s a Waiting" and nd: "\<not> ws_done s" and np: "a \<notin> ran (ws_pending s)"
  proof -
    from w have nr: "ws_returned (ws_calls s ! a) = None" by (simp add: ws_at_def ws_returned_def)
    from ok w nd have "ws_tokens s a = 1" by (simp add: ws_call_ok_def ws_expecting_def)
    with np nr have "in_flight (wy_flights s) a + length (ws_buf s a) = 1" by (simp add: ws_tokens_def)
    then have "ws_buf s a \<noteq> [] \<or> filter (\<lambda>f. flight_addr f = a) (wy_flights s) \<noteq> []"
      by (auto simp: in_flight_def)
    then consider v rs where "ws_buf s a = v # rs" | f where "f \<in> set (wy_flights s)" "flight_addr f = a"
      by (auto simp: neq_Nil_conv filter_empty_conv)
    then show ?thesis
    proof cases
      case 1
      then show ?thesis using ws_buffered_returns [OF w] by blast
    next
      case 2
      then show ?thesis using ws_flight_returns [OF inv w] by blast
    qed
  qed
  moreover have "wc_pc (ws_calls s ! a) = Returned r \<Longrightarrow> ws_genuine s a r"
    using ok by (auto simp: ws_call_ok_def ws_returned_def)
  moreover have "wc_pc (ws_calls s ! a) = Waiting \<Longrightarrow> ws_at s a Waiting" using assms(2) by (simp add: ws_at_def)
  ultimately show ?thesis
    using ws_pending_returns [OF inv] ws_pending_iff [OF ws_invD(1) [OF inv], of a] assms(2)
    by (auto simp: ws_genuine_def intro: w_saw_done)
qed

theorem ws_call_answered_witness:
  "\<exists>t. ws_step\<^sup>*\<^sup>* ws_demo_waiting t \<and> wc_pc (ws_calls t ! 0) = Returned ws_demo_result"
proof -
  have "0 < length (ws_calls ws_demo_waiting)" "wc_pc (ws_calls ws_demo_waiting ! 0) = Waiting"
    "\<not> ws_done ws_demo_waiting" "ws_pending ws_demo_waiting (wc_id (ws_calls ws_demo_waiting ! 0)) = Some 0"
    by (simp_all add: ws_demo_defs)
  with ws_call_answered [OF ws_demo_waiting_reachable, of 0 ws_demo_result] show ?thesis by simp
qed

end
