(* ===== verification/Process.thy ===== *)
theory Process imports GoErrors begin

text \<open>
  The child process of the client (\<^verbatim>\<open>internal/process/process.go\<close>): how it is started, the goroutine
  that waits for it, and \<^verbatim>\<open>Shutdown\<close>, any number of which may run at once.  The operating system
  lets the process end at any time; a timer may fire and a context may end at any time.
\<close>

section \<open>Starting\<close>

record command =
  cmd_path :: string
  cmd_args :: "string list"
  cmd_env :: "string list option"
  cmd_dir :: "string option"

text \<open>Without an environment or a directory of its own the process inherits those of the client.\<close>

definition start_command :: "string \<Rightarrow> string list \<Rightarrow> string list \<Rightarrow> string list \<Rightarrow> string \<Rightarrow> command" where
  "start_command binary_path args environ extra_env work_dir =
     \<lparr>cmd_path = binary_path, cmd_args = args,
      cmd_env = (if 0 < length extra_env then Some (environ @ extra_env) else None),
      cmd_dir = (if work_dir \<noteq> [] then Some work_dir else None)\<rparr>"

definition default_shutdown_grace :: int where
  "default_shutdown_grace = 5 * 10 ^ 9"

definition default_kill_grace :: int where
  "default_kill_grace = 2 * 10 ^ 9"

section \<open>State\<close>

datatype os_signal = SIGTERM | SIGKILL

text \<open>The goroutine of \<^verbatim>\<open>Start\<close>: it waits, stores the error, and closes the channel.\<close>

datatype reaper = Reaping | Storing "go_error option" | Stored | DoneClosed

text \<open>Where a \<^verbatim>\<open>Shutdown\<close> is.\<close>

datatype stage = EofStage | EofWait | TermStage | TermWait | KillStage | KillWait | ShutdownDone

record process =
  pr_stdin_open :: bool
  pr_exited :: "go_error option option"
  pr_reaper :: reaper
  pr_wait_err :: "go_error option"
  pr_signals :: "os_signal list"
  pr_shutdowns :: "stage list"

definition started_process :: process where
  "started_process =
     \<lparr>pr_stdin_open = True, pr_exited = None, pr_reaper = Reaping, pr_wait_err = None, pr_signals = [], pr_shutdowns = []\<rparr>"

text \<open>The pipes and the start, each of which may fail; with an error there is no process.\<close>

definition start_process ::
  "(command \<Rightarrow> go_error option) \<Rightarrow> go_error option \<Rightarrow> go_error option \<Rightarrow> command \<Rightarrow> go_error + process" where
  "start_process os_start stdin_err stdout_err cmd =
     (case stdin_err of
        Some e \<Rightarrow> Inl e
      | None \<Rightarrow>
          (case stdout_err of
             Some e \<Rightarrow> Inl e
           | None \<Rightarrow> (case os_start cmd of Some e \<Rightarrow> Inl e | None \<Rightarrow> Inr started_process)))"

section \<open>Operations\<close>

definition close_stdin :: "process \<Rightarrow> process" where
  "close_stdin p = p\<lparr>pr_stdin_open := False\<rparr>"

text \<open>A signal reaches a process that has not ended; the error of sending it to another is ignored.\<close>

definition send_signal :: "os_signal \<Rightarrow> process \<Rightarrow> process" where
  "send_signal sg p = (if pr_exited p = None then p\<lparr>pr_signals := pr_signals p @ [sg]\<rparr> else p)"

text \<open>
  The select of \<^verbatim>\<open>waitWithin\<close>: the channel can only be seen closed when it is; the timer and the
  context may end the wait at any time, even when the process has exited.
\<close>

datatype shutdown_wake = WakeDone | WakeTimer | WakeContext

definition can_wake :: "process \<Rightarrow> shutdown_wake \<Rightarrow> bool" where
  "can_wake p w \<longleftrightarrow> (w = WakeDone \<longrightarrow> pr_reaper p = DoneClosed)"

definition wait_within :: "shutdown_wake \<Rightarrow> bool" where
  "wait_within w = (w = WakeDone)"

text \<open>One move of \<^verbatim>\<open>Shutdown\<close>; \<^term>\<open>None\<close> when it blocks.\<close>

definition shutdown_move :: "shutdown_wake \<Rightarrow> stage \<Rightarrow> process \<Rightarrow> (stage \<times> process) option" where
  "shutdown_move w st p =
     (case st of
        EofStage \<Rightarrow> Some (EofWait, close_stdin p)
      | EofWait \<Rightarrow> if can_wake p w then Some (if wait_within w then ShutdownDone else TermStage, p) else None
      | TermStage \<Rightarrow> Some (TermWait, send_signal SIGTERM p)
      | TermWait \<Rightarrow> if can_wake p w then Some (if wait_within w then ShutdownDone else KillStage, p) else None
      | KillStage \<Rightarrow> Some (KillWait, send_signal SIGKILL p)
      | KillWait \<Rightarrow> if pr_reaper p = DoneClosed then Some (ShutdownDone, p) else None
      | ShutdownDone \<Rightarrow> None)"

text \<open>\<^verbatim>\<open>Wait\<close>: the stored error, once the channel is closed.\<close>

definition process_wait :: "process \<Rightarrow> go_error option option" where
  "process_wait p = (if pr_reaper p = DoneClosed then Some (pr_wait_err p) else None)"

inductive process_step :: "process \<Rightarrow> process \<Rightarrow> bool" where
  p_exits: "pr_exited p = None \<Longrightarrow> process_step p (p\<lparr>pr_exited := Some e\<rparr>)"
| p_reaped: "pr_reaper p = Reaping \<Longrightarrow> pr_exited p = Some e \<Longrightarrow> process_step p (p\<lparr>pr_reaper := Storing e\<rparr>)"
| p_stored: "pr_reaper p = Storing e \<Longrightarrow> process_step p (p\<lparr>pr_reaper := Stored, pr_wait_err := e\<rparr>)"
| p_done: "pr_reaper p = Stored \<Longrightarrow> process_step p (p\<lparr>pr_reaper := DoneClosed\<rparr>)"
| p_shutdown: "process_step p (p\<lparr>pr_shutdowns := pr_shutdowns p @ [EofStage]\<rparr>)"
| p_move: "k < length (pr_shutdowns p) \<Longrightarrow> shutdown_move w (pr_shutdowns p ! k) p = Some (st, q) \<Longrightarrow>
     process_step p (q\<lparr>pr_shutdowns := (pr_shutdowns p)[k := st]\<rparr>)"

inductive_cases process_stepE: "process_step p q"

section \<open>The order of the escalation\<close>

text \<open>What a \<^verbatim>\<open>Shutdown\<close> has done when it is at a stage, provided the process still runs.\<close>

fun stage_rank :: "stage \<Rightarrow> nat" where
  "stage_rank EofStage = 6"
| "stage_rank EofWait = 5"
| "stage_rank TermStage = 4"
| "stage_rank TermWait = 3"
| "stage_rank KillStage = 2"
| "stage_rank KillWait = 1"
| "stage_rank ShutdownDone = 0"

definition stage_ok :: "process \<Rightarrow> stage \<Rightarrow> bool" where
  "stage_ok p st \<longleftrightarrow>
     (st = ShutdownDone \<longrightarrow> pr_reaper p = DoneClosed) \<and>
     (stage_rank st < 6 \<longrightarrow> \<not> pr_stdin_open p) \<and>
     (st \<in> {TermWait, KillStage, KillWait} \<and> pr_exited p = None \<longrightarrow> SIGTERM \<in> set (pr_signals p)) \<and>
     (st = KillWait \<and> pr_exited p = None \<longrightarrow> SIGKILL \<in> set (pr_signals p))"

fun kills_after_term :: "os_signal list \<Rightarrow> bool" where
  "kills_after_term [] = True"
| "kills_after_term (SIGTERM # ss) = True"
| "kills_after_term (SIGKILL # ss) = False"

definition reaper_ok :: "process \<Rightarrow> bool" where
  "reaper_ok p \<longleftrightarrow>
     (case pr_reaper p of
        Reaping \<Rightarrow> True
      | Storing e \<Rightarrow> pr_exited p = Some e
      | _ \<Rightarrow> pr_exited p = Some (pr_wait_err p))"

definition process_inv :: "process \<Rightarrow> bool" where
  "process_inv p \<longleftrightarrow>
     (\<forall>k < length (pr_shutdowns p). stage_ok p (pr_shutdowns p ! k)) \<and>
     kills_after_term (pr_signals p) \<and> (pr_signals p \<noteq> [] \<longrightarrow> \<not> pr_stdin_open p) \<and> reaper_ok p"

lemma kills_after_term_append:
  "kills_after_term ss \<Longrightarrow> (s = SIGKILL \<Longrightarrow> SIGTERM \<in> set ss) \<Longrightarrow> kills_after_term (ss @ [s])"
  by (cases ss rule: kills_after_term.cases; cases s) auto

lemma process_inv_move:
  assumes inv: "process_inv p" and k: "k < length (pr_shutdowns p)"
    and move: "shutdown_move w (pr_shutdowns p ! k) p = Some (st, q)"
  shows "process_inv (q\<lparr>pr_shutdowns := (pr_shutdowns p)[k := st]\<rparr>)" (is "process_inv ?t")
proof -
  from inv k have ok: "stage_ok p (pr_shutdowns p ! k)" by (simp add: process_inv_def)
  have views: "pr_reaper q = pr_reaper p" "set (pr_signals p) \<subseteq> set (pr_signals q)" "pr_stdin_open q \<longrightarrow> pr_stdin_open p"
    "pr_exited q = pr_exited p" "pr_wait_err q = pr_wait_err p"
    using move by (auto simp: shutdown_move_def close_stdin_def send_signal_def split: stage.splits if_splits)
  note defs = shutdown_move_def close_stdin_def send_signal_def can_wake_def wait_within_def
  from inv have p: "kills_after_term (pr_signals p)" "pr_signals p \<noteq> [] \<longrightarrow> \<not> pr_stdin_open p"
    by (simp_all add: process_inv_def)
  have st: "stage_ok q st" using move ok
    by (cases "pr_shutdowns p ! k") (auto simp: defs stage_ok_def split: if_splits)
  moreover have sig: "kills_after_term (pr_signals q)"
  proof (cases "pr_shutdowns p ! k \<in> {TermStage, KillStage} \<and> pr_exited p = None")
    case True
    then consider "pr_shutdowns p ! k = TermStage" | "pr_shutdowns p ! k = KillStage" by blast
    then show ?thesis
    proof cases
      case 1
      with True move have "pr_signals q = pr_signals p @ [SIGTERM]" by (auto simp: defs)
      with kills_after_term_append [OF p(1), of SIGTERM] show ?thesis by simp
    next
      case 2
      with True ok have "SIGTERM \<in> set (pr_signals p)" by (simp add: stage_ok_def)
      moreover from 2 True move have "pr_signals q = pr_signals p @ [SIGKILL]" by (auto simp: defs)
      ultimately show ?thesis using kills_after_term_append [OF p(1), of SIGKILL] by simp
    qed
  next
    case False
    then have "pr_signals q = pr_signals p"
      using move by (cases "pr_shutdowns p ! k") (auto simp: defs split: if_splits)
    with p(1) show ?thesis by simp
  qed
  moreover have "\<not> pr_stdin_open q"
  proof (cases "pr_shutdowns p ! k = EofStage")
    case True
    with move have "q = close_stdin p" by (simp add: shutdown_move_def)
    then show ?thesis by (simp add: close_stdin_def)
  next
    case False
    then have "stage_rank (pr_shutdowns p ! k) < 6" by (cases "pr_shutdowns p ! k") simp_all
    with ok views(3) show ?thesis by (auto simp: stage_ok_def)
  qed
  moreover have "stage_ok q (pr_shutdowns p ! j)" if "j < length (pr_shutdowns p)" for j
    using inv that views by (auto simp: process_inv_def stage_ok_def)
  moreover have "stage_ok ?t x = stage_ok q x" for x by (simp add: stage_ok_def)
  ultimately have "\<forall>j < length (pr_shutdowns ?t). stage_ok ?t (pr_shutdowns ?t ! j)"
    using k by (simp add: nth_list_update)
  moreover have "reaper_ok ?t = reaper_ok p" by (cases "pr_reaper p") (simp_all add: reaper_ok_def views)
  ultimately show ?thesis using sig \<open>\<not> pr_stdin_open q\<close> inv by (simp add: process_inv_def)
qed

lemma process_inv_step: "process_step p q \<Longrightarrow> process_inv p \<Longrightarrow> process_inv q"
proof (induction rule: process_step.induct)
  case (p_move k p w st q)
  then show ?case by (rule process_inv_move [rotated])
qed (auto simp: process_inv_def stage_ok_def reaper_ok_def nth_append less_Suc_eq split: reaper.splits)

interpretation process: invariant_system "\<lambda>p. p = started_process" process_step process_inv
  by unfold_locales (simp add: started_process_def process_inv_def reaper_ok_def, rule process_inv_step)

section \<open>A shutdown ends\<close>

lemma move_rank: "shutdown_move w st p = Some (st', q) \<Longrightarrow> stage_rank st' < stage_rank st"
  by (cases st) (auto simp: shutdown_move_def split: if_splits)

lemma move_exists:
  assumes "st \<noteq> ShutdownDone" and "st = KillWait \<Longrightarrow> pr_reaper p = DoneClosed"
  shows "\<exists>w st' q. shutdown_move w st p = Some (st', q)"
  using assms by (cases st) (auto simp: shutdown_move_def can_wake_def intro: exI [of _ WakeTimer])

lemma move_views:
  "shutdown_move w st p = Some (st', q) \<Longrightarrow>
     pr_reaper q = pr_reaper p \<and> pr_exited q = pr_exited p \<and> pr_shutdowns q = pr_shutdowns p"
  by (cases st) (auto simp: shutdown_move_def close_stdin_def send_signal_def split: if_splits)

lemma shutdown_finishes:
  "pr_reaper p = DoneClosed \<Longrightarrow> k < length (pr_shutdowns p) \<Longrightarrow>
     \<exists>q. process_step\<^sup>*\<^sup>* p q \<and> pr_shutdowns q ! k = ShutdownDone"
proof (induction "stage_rank (pr_shutdowns p ! k)" arbitrary: p rule: less_induct)
  case less
  show ?case
  proof (cases "pr_shutdowns p ! k = ShutdownDone")
    case False
    with less.prems obtain w st q where m: "shutdown_move w (pr_shutdowns p ! k) p = Some (st, q)"
      using move_exists by blast
    let ?t = "q\<lparr>pr_shutdowns := (pr_shutdowns p)[k := st]\<rparr>"
    have "stage_rank (pr_shutdowns ?t ! k) < stage_rank (pr_shutdowns p ! k)"
      using move_rank [OF m] less.prems(2) by simp
    then obtain u where "process_step\<^sup>*\<^sup>* ?t u" "pr_shutdowns u ! k = ShutdownDone"
      using less.hyps [of ?t] less.prems move_views [OF m] by auto
    then show ?thesis using p_move [OF less.prems(2) m] by (meson converse_rtranclp_into_rtranclp)
  qed blast
qed

lemma step_shutdowns:
  "process_step p q \<Longrightarrow> k < length (pr_shutdowns p) \<Longrightarrow>
     k < length (pr_shutdowns q) \<and> stage_rank (pr_shutdowns q ! k) \<le> stage_rank (pr_shutdowns p ! k)"
  by (elim process_stepE) (auto simp: nth_append nth_list_update dest: move_rank)

text \<open>
  C17. A shutdown escalates in order and only comes back for a dead process.  However many run at once:
  standard input is closed before any signal is sent, the first signal is SIGTERM, and a shutdown
  that returned did so after the process ended and was waited for; \<^verbatim>\<open>Wait\<close> then gives its exit error.
\<close>

theorem shutdown_escalates:
  assumes "reachable (\<lambda>p. p = started_process) process_step p"
  shows "(pr_signals p \<noteq> [] \<longrightarrow> \<not> pr_stdin_open p \<and> hd (pr_signals p) = SIGTERM) \<and>
    (\<forall>k < length (pr_shutdowns p).
       (pr_shutdowns p ! k = ShutdownDone \<longrightarrow> (\<exists>e. pr_exited p = Some e \<and> process_wait p = Some e)) \<and>
       (pr_shutdowns p ! k = KillWait \<and> pr_exited p = None \<longrightarrow> SIGKILL \<in> set (pr_signals p)))"
proof -
  from process.reachable_inv [OF assms] have inv: "process_inv p" .
  then have "pr_signals p \<noteq> [] \<longrightarrow> hd (pr_signals p) = SIGTERM"
    by (cases "pr_signals p" rule: kills_after_term.cases) (auto simp: process_inv_def)
  moreover have "pr_reaper p = DoneClosed \<Longrightarrow> \<exists>e. pr_exited p = Some e \<and> process_wait p = Some e"
    using inv by (auto simp: process_inv_def reaper_ok_def process_wait_def)
  ultimately show ?thesis using inv by (auto simp: process_inv_def stage_ok_def)
qed

definition demo_killed :: process where
  "demo_killed = \<lparr>pr_stdin_open = False, pr_exited = None, pr_reaper = Reaping, pr_wait_err = None,
     pr_signals = [SIGTERM, SIGKILL], pr_shutdowns = [KillWait]\<rparr>"

lemma demo_killed_reachable: "reachable (\<lambda>p. p = started_process) process_step demo_killed"
proof -
  let ?at = "\<lambda>i ss st. \<lparr>pr_stdin_open = i, pr_exited = None, pr_reaper = Reaping, pr_wait_err = None,
     pr_signals = ss, pr_shutdowns = [st]\<rparr>"
  have m: "reachable (\<lambda>p. p = started_process) process_step (?at i ss st) \<Longrightarrow>
      shutdown_move WakeTimer st (?at i ss st) = Some (st', ?at i' ss' st) \<Longrightarrow>
      reachable (\<lambda>p. p = started_process) process_step (?at i' ss' st')" for i ss st i' ss' st'
    using p_move [of 0 "?at i ss st" WakeTimer st' "?at i' ss' st"] by (auto intro: reach_step)
  note defs = shutdown_move_def close_stdin_def can_wake_def wait_within_def send_signal_def
  have "reachable (\<lambda>p. p = started_process) process_step started_process" by (rule reach_start) simp
  then have "reachable (\<lambda>p. p = started_process) process_step (?at True [] EofStage)"
    using p_shutdown [of started_process] by (auto simp: started_process_def intro: reach_step)
  then have "reachable (\<lambda>p. p = started_process) process_step (?at False [] EofWait)" by (rule m) (simp add: defs)
  then have "reachable (\<lambda>p. p = started_process) process_step (?at False [] TermStage)" by (rule m) (simp add: defs)
  then have "reachable (\<lambda>p. p = started_process) process_step (?at False [SIGTERM] TermWait)" by (rule m) (simp add: defs)
  then have "reachable (\<lambda>p. p = started_process) process_step (?at False [SIGTERM] KillStage)" by (rule m) (simp add: defs)
  then have "reachable (\<lambda>p. p = started_process) process_step (?at False [SIGTERM, SIGKILL] KillWait)"
    by (rule m) (simp add: defs)
  then show ?thesis by (simp add: demo_killed_def)
qed

theorem shutdown_escalates_witness:
  "hd (pr_signals demo_killed) = SIGTERM \<and> SIGKILL \<in> set (pr_signals demo_killed)"
  using shutdown_escalates [OF demo_killed_reachable] by (auto simp: demo_killed_def)

text \<open>
  C18. A shutdown ends.  No step of anything takes it back; each of its own moves takes it forward, so
  there are at most six; it can always move unless it waits for a process it has killed to be waited
  for; and once the process has been waited for it can run to its end.
\<close>

theorem shutdown_terminates:
  assumes "reachable (\<lambda>p. p = started_process) process_step p" and "k < length (pr_shutdowns p)"
  shows "stage_rank (pr_shutdowns p ! k) \<le> 6 \<and>
    (\<forall>q. process_step p q \<longrightarrow> k < length (pr_shutdowns q) \<and>
       stage_rank (pr_shutdowns q ! k) \<le> stage_rank (pr_shutdowns p ! k)) \<and>
    (\<forall>w st q. shutdown_move w (pr_shutdowns p ! k) p = Some (st, q) \<longrightarrow>
       stage_rank st < stage_rank (pr_shutdowns p ! k)) \<and>
    (if pr_shutdowns p ! k \<in> {KillWait, ShutdownDone}
     then (pr_exited p = None \<longrightarrow> SIGKILL \<in> set (pr_signals p))
     else \<exists>w st q. shutdown_move w (pr_shutdowns p ! k) p = Some (st, q)) \<and>
    (pr_reaper p = DoneClosed \<longrightarrow> (\<exists>q. process_step\<^sup>*\<^sup>* p q \<and> pr_shutdowns q ! k = ShutdownDone))"
proof -
  from process.reachable_inv [OF assms(1)] have inv: "process_inv p" .
  then have "stage_ok p (pr_shutdowns p ! k)" "reaper_ok p" using assms(2) by (simp_all add: process_inv_def)
  then have "pr_shutdowns p ! k \<in> {KillWait, ShutdownDone} \<Longrightarrow> pr_exited p = None \<Longrightarrow> SIGKILL \<in> set (pr_signals p)"
    by (auto simp: stage_ok_def reaper_ok_def)
  moreover have "stage_rank st \<le> 6" for st by (cases st) simp_all
  ultimately show ?thesis
    using step_shutdowns [OF _ assms(2)] move_rank [of _ "pr_shutdowns p ! k" p]
      move_exists [of "pr_shutdowns p ! k" p] shutdown_finishes [OF _ assms(2)] by auto
qed

theorem shutdown_terminates_witness:
  "stage_rank (pr_shutdowns demo_killed ! 0) \<le> 6 \<and> SIGKILL \<in> set (pr_signals demo_killed)"
  using shutdown_terminates [OF demo_killed_reachable, of 0] by (simp add: demo_killed_def)

end
