(* ===== verification/Reconnect.thy ===== *)
theory Reconnect imports Prelude begin

text \<open>
  The reconnecting transports (\<^verbatim>\<open>reconnect_ws.go\<close> and \<^verbatim>\<open>reconnect_http.go\<close>): a loop that watches the
  current connection and replaces it when it drops, and \<^verbatim>\<open>Close\<close>, any number of which may run at once.
  Connections are numbered in the order they are made; one may drop at any time, and a dial may fail.
\<close>

section \<open>The back-off\<close>

text \<open>Durations are 64-bit nanoseconds: doubling wraps.\<close>

definition reconnect_initial_backoff :: int where
  "reconnect_initial_backoff = 10 ^ 9"

definition reconnect_max_backoff :: int where
  "reconnect_max_backoff = 30 * 10 ^ 9"

definition next_backoff :: "int \<Rightarrow> int" where
  "next_backoff b =
     (let d = signed_take_bit 63 (b * 2) in if reconnect_max_backoff < d then reconnect_max_backoff else d)"

section \<open>State\<close>

datatype watch_pc =
    ReadCurrent | Watch nat | Dropped | BackOff | CheckAgain | Dialling | Installing nat | Installed nat | WatchEnded

datatype close_pc = CloseStart | CloseMarked | CloseSignalled | CloseInner nat | CloseReturned

record recon =
  rc_current :: nat
  rc_inners :: nat
  rc_ended :: "nat set"
  rc_closed :: bool
  rc_done :: bool
  rc_backoff :: int
  rc_watch :: watch_pc
  rc_closes :: "close_pc list"

definition new_reconnecting :: recon where
  "new_reconnecting =
     \<lparr>rc_current = 0, rc_inners = 1, rc_ended = {}, rc_closed = False, rc_done = False,
      rc_backoff = reconnect_initial_backoff, rc_watch = ReadCurrent, rc_closes = []\<rparr>"

section \<open>The watch loop\<close>

text \<open>What a select of the loop may see: the end of the connection or of the transport, or the timer; and the dial.\<close>

datatype watch_event = SeesDrop | SeesDone | SeesTimer | DialOk | DialFails | Runs

definition watch_end :: "recon \<Rightarrow> recon" where
  "watch_end s = s\<lparr>rc_watch := WatchEnded\<rparr>"

definition watch_dial :: "recon \<Rightarrow> recon" where
  "watch_dial s = s\<lparr>rc_watch := Installing (rc_inners s), rc_inners := Suc (rc_inners s)\<rparr>"

fun ws_watch_move :: "watch_event \<Rightarrow> watch_pc \<Rightarrow> recon \<Rightarrow> recon option" where
  "ws_watch_move Runs ReadCurrent s = Some (s\<lparr>rc_watch := Watch (rc_current s)\<rparr>)"
| "ws_watch_move SeesDrop (Watch c) s = (if c \<in> rc_ended s then Some (s\<lparr>rc_watch := Dropped\<rparr>) else None)"
| "ws_watch_move SeesDone (Watch c) s = (if rc_done s then Some (watch_end s) else None)"
| "ws_watch_move Runs Dropped s = Some (if rc_closed s then watch_end s else s\<lparr>rc_watch := BackOff\<rparr>)"
| "ws_watch_move SeesTimer BackOff s = Some (s\<lparr>rc_watch := CheckAgain\<rparr>)"
| "ws_watch_move SeesDone BackOff s = (if rc_done s then Some (watch_end s) else None)"
| "ws_watch_move Runs CheckAgain s =
     Some (if rc_closed s then watch_end s
           else s\<lparr>rc_watch := Dialling, rc_backoff := next_backoff (rc_backoff s)\<rparr>)"
| "ws_watch_move DialOk Dialling s = Some (watch_dial s)"
| "ws_watch_move DialFails Dialling s = Some (s\<lparr>rc_watch := BackOff\<rparr>)"
| "ws_watch_move Runs (Installing n) s = Some (s\<lparr>rc_watch := Installed n, rc_current := n\<rparr>)"
| "ws_watch_move Runs (Installed n) s = Some (s\<lparr>rc_watch := ReadCurrent, rc_backoff := reconnect_initial_backoff\<rparr>)"
| "ws_watch_move _ _ s = None"

text \<open>The HTTP transport connects without failing, and does not start its back-off anew.\<close>

fun http_watch_move :: "watch_event \<Rightarrow> watch_pc \<Rightarrow> recon \<Rightarrow> recon option" where
  "http_watch_move Runs ReadCurrent s = Some (s\<lparr>rc_watch := Watch (rc_current s)\<rparr>)"
| "http_watch_move SeesDrop (Watch c) s = (if c \<in> rc_ended s then Some (s\<lparr>rc_watch := Dropped\<rparr>) else None)"
| "http_watch_move SeesDone (Watch c) s = (if rc_done s then Some (watch_end s) else None)"
| "http_watch_move Runs Dropped s = Some (if rc_closed s then watch_end s else s\<lparr>rc_watch := BackOff\<rparr>)"
| "http_watch_move SeesTimer BackOff s = Some (s\<lparr>rc_watch := CheckAgain\<rparr>)"
| "http_watch_move SeesDone BackOff s = (if rc_done s then Some (watch_end s) else None)"
| "http_watch_move Runs CheckAgain s = Some (if rc_closed s then watch_end s else s\<lparr>rc_watch := Dialling\<rparr>)"
| "http_watch_move DialOk Dialling s = Some (watch_dial s)"
| "http_watch_move Runs (Installing n) s = Some (s\<lparr>rc_watch := Installed n, rc_current := n\<rparr>)"
| "http_watch_move Runs (Installed n) s = Some (s\<lparr>rc_watch := ReadCurrent, rc_backoff := next_backoff (rc_backoff s)\<rparr>)"
| "http_watch_move _ _ s = None"

section \<open>Close\<close>

definition recon_close_move :: "close_pc \<Rightarrow> recon \<Rightarrow> (close_pc \<times> recon) option" where
  "recon_close_move pc s =
     (case pc of
        CloseStart \<Rightarrow> if rc_closed s then Some (CloseReturned, s) else Some (CloseMarked, s\<lparr>rc_closed := True\<rparr>)
      | CloseMarked \<Rightarrow> Some (CloseSignalled, s\<lparr>rc_done := True\<rparr>)
      | CloseSignalled \<Rightarrow> Some (CloseInner (rc_current s), s)
      | CloseInner c \<Rightarrow> Some (CloseReturned, s\<lparr>rc_ended := insert c (rc_ended s)\<rparr>)
      | CloseReturned \<Rightarrow> None)"

datatype transport_kind = KindWS | KindHTTP

definition watch_move :: "transport_kind \<Rightarrow> watch_event \<Rightarrow> recon \<Rightarrow> recon option" where
  "watch_move k ev s = (case k of KindWS \<Rightarrow> ws_watch_move ev (rc_watch s) s | KindHTTP \<Rightarrow> http_watch_move ev (rc_watch s) s)"

inductive recon_step :: "transport_kind \<Rightarrow> recon \<Rightarrow> recon \<Rightarrow> bool" for k :: transport_kind where
  r_watch: "watch_move k ev s = Some t \<Longrightarrow> recon_step k s t"
| r_drop: "i < rc_inners s \<Longrightarrow> recon_step k s (s\<lparr>rc_ended := insert i (rc_ended s)\<rparr>)"
| r_close: "recon_step k s (s\<lparr>rc_closes := rc_closes s @ [CloseStart]\<rparr>)"
| r_close_move: "n < length (rc_closes s) \<Longrightarrow> recon_close_move (rc_closes s ! n) s = Some (pc, t) \<Longrightarrow>
     recon_step k s (t\<lparr>rc_closes := (rc_closes s)[n := pc]\<rparr>)"

section \<open>At most one connection\<close>

lemma next_backoff_int: "0 \<le> b \<Longrightarrow> b \<le> reconnect_max_backoff \<Longrightarrow> next_backoff b = min (b * 2) reconnect_max_backoff"
  by (simp add: next_backoff_def reconnect_max_backoff_def signed_take_bit_int_eq_self min_def)

text \<open>What the loop knows at each of its places.\<close>

fun watch_ok :: "watch_pc \<Rightarrow> recon \<Rightarrow> bool" where
  "watch_ok ReadCurrent s = True"
| "watch_ok (Watch c) s = (c = rc_current s)"
| "watch_ok Dropped s = (rc_current s \<in> rc_ended s)"
| "watch_ok BackOff s = (rc_current s \<in> rc_ended s)"
| "watch_ok CheckAgain s = (rc_current s \<in> rc_ended s)"
| "watch_ok Dialling s = (rc_current s \<in> rc_ended s)"
| "watch_ok (Installing n) s = (rc_current s \<in> rc_ended s \<and> n < rc_inners s)"
| "watch_ok (Installed n) s = True"
| "watch_ok WatchEnded s = rc_closed s"

definition only_current :: "recon \<Rightarrow> bool" where
  "only_current s \<longleftrightarrow> rc_current s < rc_inners s \<and>
     (\<forall>i < rc_inners s. i \<notin> rc_ended s \<longrightarrow> i = rc_current s \<or> rc_watch s = Installing i)"

definition backoff_ok :: "int \<Rightarrow> bool" where
  "backoff_ok b \<longleftrightarrow> reconnect_initial_backoff \<le> b \<and> b \<le> reconnect_max_backoff"

definition closing_ok :: "recon \<Rightarrow> bool" where
  "closing_ok s \<longleftrightarrow> (rc_done s \<longrightarrow> rc_closed s) \<and> (CloseMarked \<in> set (rc_closes s) \<longrightarrow> rc_closed s)"

definition recon_inv :: "recon \<Rightarrow> bool" where
  "recon_inv s \<longleftrightarrow> only_current s \<and> watch_ok (rc_watch s) s \<and> backoff_ok (rc_backoff s) \<and> closing_ok s"

lemma next_backoff_ok: "backoff_ok b \<Longrightarrow> backoff_ok (next_backoff b)"
  using next_backoff_int [of b]
  by (simp add: backoff_ok_def reconnect_initial_backoff_def reconnect_max_backoff_def min_def)

lemma initial_backoff_ok: "backoff_ok reconnect_initial_backoff"
  by (simp add: backoff_ok_def reconnect_initial_backoff_def reconnect_max_backoff_def)

fun_cases ws_moveE: "ws_watch_move ev pc s = Some t"
fun_cases http_moveE: "http_watch_move ev pc s = Some t"

lemma recon_inv_dial:
  assumes "recon_inv s" and "rc_watch s = Dialling"
  shows "recon_inv (watch_dial s)"
proof -
  from assms have o: "only_current s" "rc_current s \<in> rc_ended s" by (auto simp: recon_inv_def)
  have "only_current (watch_dial s)"
    unfolding only_current_def
  proof (intro conjI allI impI)
    show "rc_current (watch_dial s) < rc_inners (watch_dial s)" using o(1) by (simp add: only_current_def watch_dial_def)
    fix i assume "i < rc_inners (watch_dial s)" "i \<notin> rc_ended (watch_dial s)"
    then have "i < Suc (rc_inners s)" "i \<notin> rc_ended s" by (simp_all add: watch_dial_def)
    moreover have "i < rc_inners s \<Longrightarrow> i \<notin> rc_ended s \<Longrightarrow> False"
      using o assms(2) by (auto simp: only_current_def)
    ultimately have "i = rc_inners s" by (metis less_Suc_eq)
    then show "i = rc_current (watch_dial s) \<or> rc_watch (watch_dial s) = Installing i" by (simp add: watch_dial_def)
  qed
  with assms show ?thesis by (simp add: recon_inv_def watch_dial_def closing_ok_def)
qed

text \<open>Moves that do not dial change no connection.\<close>

lemma recon_inv_backoff:
  assumes "recon_inv s" and "watch_ok pc s" and "\<And>i. rc_watch s \<noteq> Installing i" and "backoff_ok b"
  shows "recon_inv (s\<lparr>rc_watch := pc, rc_backoff := b\<rparr>)"
proof -
  have "watch_ok pc (s\<lparr>rc_watch := pc, rc_backoff := b\<rparr>) = watch_ok pc s" by (cases pc) simp_all
  with assms show ?thesis by (simp add: recon_inv_def only_current_def closing_ok_def)
qed

lemma recon_inv_pc:
  assumes "recon_inv s" and "watch_ok pc s" and "\<And>i. rc_watch s \<noteq> Installing i"
  shows "recon_inv (s\<lparr>rc_watch := pc\<rparr>)"
proof -
  have "s\<lparr>rc_watch := pc\<rparr> = s\<lparr>rc_watch := pc, rc_backoff := rc_backoff s\<rparr>" by simp
  moreover have "backoff_ok (rc_backoff s)" using assms(1) by (simp add: recon_inv_def)
  ultimately show ?thesis using recon_inv_backoff [OF assms] by metis
qed

lemma recon_inv_install:
  "recon_inv s \<Longrightarrow> rc_watch s = Installing n \<Longrightarrow> recon_inv (s\<lparr>rc_watch := Installed n, rc_current := n\<rparr>)"
  by (auto simp: recon_inv_def only_current_def closing_ok_def)

lemma recon_invD:
  "recon_inv s \<Longrightarrow> backoff_ok (rc_backoff s)" "recon_inv s \<Longrightarrow> rc_done s \<Longrightarrow> rc_closed s"
  "recon_inv s \<Longrightarrow> rc_watch s = pc \<Longrightarrow> watch_ok pc s"
  by (auto simp: recon_inv_def closing_ok_def)

lemmas watch_moves = recon_inv_pc recon_inv_backoff recon_inv_install recon_inv_dial
  next_backoff_ok initial_backoff_ok

lemma recon_inv_ws:
  assumes "ws_watch_move ev (rc_watch s) s = Some t" and inv: "recon_inv s"
  shows "recon_inv t"
  using assms(1) recon_invD [OF inv] inv
  by (elim ws_moveE) (simp_all add: watch_end_def watch_moves split: if_splits)

lemma recon_inv_http:
  assumes "http_watch_move ev (rc_watch s) s = Some t" and inv: "recon_inv s"
  shows "recon_inv t"
  using assms(1) recon_invD [OF inv] inv
  by (elim http_moveE) (simp_all add: watch_end_def watch_moves split: if_splits)

lemma recon_inv_end:
  assumes "recon_inv s"
  shows "recon_inv (s\<lparr>rc_ended := insert i (rc_ended s)\<rparr>)"
proof -
  have "watch_ok pc s \<Longrightarrow> watch_ok pc (s\<lparr>rc_ended := insert i (rc_ended s)\<rparr>)" for pc by (cases pc) simp_all
  with assms show ?thesis by (auto simp: recon_inv_def only_current_def closing_ok_def)
qed

lemma recon_inv_closes:
  assumes "recon_inv s" and "rc_closed s \<Longrightarrow> c" and "d \<Longrightarrow> c" and "CloseMarked \<in> set pcs \<Longrightarrow> c" and "rc_done s \<Longrightarrow> d"
  shows "recon_inv (s\<lparr>rc_closed := c, rc_done := d, rc_closes := pcs\<rparr>)"
proof -
  have "watch_ok pc s \<Longrightarrow> watch_ok pc (s\<lparr>rc_closed := c, rc_done := d, rc_closes := pcs\<rparr>)" for pc
    using assms(2) by (cases pc) simp_all
  with assms show ?thesis by (simp add: recon_inv_def only_current_def closing_ok_def)
qed

lemma recon_inv_close_move:
  assumes inv: "recon_inv s" and n: "n < length (rc_closes s)"
    and m: "recon_close_move (rc_closes s ! n) s = Some (pc, t)"
  shows "recon_inv (t\<lparr>rc_closes := (rc_closes s)[n := pc]\<rparr>)"
proof -
  have marked: "CloseMarked \<in> set ((rc_closes s)[n := pc]) \<Longrightarrow> pc = CloseMarked \<or> rc_closed s"
    using inv set_update_subset_insert [of "rc_closes s" n pc] by (auto simp: recon_inv_def closing_ok_def)
  have keep: "recon_inv (u\<lparr>rc_closes := (rc_closes s)[n := pc]\<rparr>)"
    if "recon_inv u" and "CloseMarked \<in> set ((rc_closes s)[n := pc]) \<Longrightarrow> rc_closed u" for u
    using recon_inv_closes [OF that(1), of "rc_closed u" "rc_done u" "(rc_closes s)[n := pc]"] that
      recon_invD(2) [OF that(1)] by simp
  from inv have up: "recon_inv (s\<lparr>rc_closed := True, rc_done := d, rc_closes := rc_closes s\<rparr>)" if "rc_done s \<Longrightarrow> d" for d
    using recon_inv_closes [OF inv, of True d "rc_closes s"] that by simp
  show ?thesis
  proof (cases "rc_closes s ! n")
    case CloseStart
    then show ?thesis
      using m marked keep [of s] keep [of "s\<lparr>rc_closed := True\<rparr>"] up [of "rc_done s"] inv
      by (auto simp: recon_close_move_def split: if_splits)
  next
    case CloseMarked
    with n have "CloseMarked \<in> set (rc_closes s)" by (metis nth_mem)
    with inv have c: "rc_closed s" by (simp add: recon_inv_def closing_ok_def)
    then have "s\<lparr>rc_closed := True, rc_done := True, rc_closes := rc_closes s\<rparr> = s\<lparr>rc_done := True\<rparr>" by simp
    with up [of True] have "recon_inv (s\<lparr>rc_done := True\<rparr>)" by simp
    from keep [OF this] c m CloseMarked show ?thesis by (auto simp: recon_close_move_def)
  next
    case CloseSignalled
    then show ?thesis using m marked keep [OF inv] by (auto simp: recon_close_move_def)
  next
    case (CloseInner c)
    then show ?thesis
      using m marked keep [OF recon_inv_end [OF inv, of c]] by (auto simp: recon_close_move_def)
  next
    case CloseReturned
    then show ?thesis using m by (simp add: recon_close_move_def)
  qed
qed

lemma recon_inv_step: "recon_step k s t \<Longrightarrow> recon_inv s \<Longrightarrow> recon_inv t"
proof (induction rule: recon_step.induct)
  case (r_watch ev s t)
  then show ?case using recon_inv_ws recon_inv_http by (cases k) (auto simp: watch_move_def)
next
  case (r_close s)
  then show ?case
    using recon_inv_closes [OF r_close, of "rc_closed s" "rc_done s" "rc_closes s @ [CloseStart]"] recon_invD(2) [OF r_close]
    by (auto simp: recon_inv_def closing_ok_def)
qed (auto intro: recon_inv_end recon_inv_close_move)

lemma recon_inv_start: "s = new_reconnecting \<Longrightarrow> recon_inv s"
  by (auto simp: new_reconnecting_def recon_inv_def only_current_def closing_ok_def initial_backoff_ok)

interpretation recon: invariant_system "\<lambda>s. s = new_reconnecting" "recon_step k" recon_inv
  by unfold_locales (rule recon_inv_start recon_inv_step; assumption)+

text \<open>
  C19. A reconnecting transport never has two live connections.  In every reachable state, with closes,
  drops and failing dials in any order and the loop anywhere: at most one connection is alive, the one
  that calls go to or the one the loop has just made and is about to install; the back-off is between one and
  thirty seconds, and the next one is its double or thirty seconds, without an overflow; and a loop
  that has ended ended because of a \<^verbatim>\<open>Close\<close>, never because a dial failed.
\<close>

theorem recon_one_connection:
  assumes "reachable (\<lambda>s. s = new_reconnecting) (recon_step k) s"
  shows "(\<forall>i < rc_inners s. i \<notin> rc_ended s \<longrightarrow>
       (i = rc_current s \<or> rc_watch s = Installing i) \<and> (\<forall>j < rc_inners s. j \<notin> rc_ended s \<longrightarrow> j = i)) \<and>
    10 ^ 9 \<le> rc_backoff s \<and> rc_backoff s \<le> 30 * 10 ^ 9 \<and>
    next_backoff (rc_backoff s) = min (rc_backoff s * 2) (30 * 10 ^ 9) \<and>
    (rc_watch s = WatchEnded \<longrightarrow> rc_closed s)"
proof -
  from recon.reachable_inv [OF assms] have inv: "recon_inv s" .
  then have o: "only_current s" and w: "watch_ok (rc_watch s) s" and b: "backoff_ok (rc_backoff s)"
    by (simp_all add: recon_inv_def)
  have "rc_watch s = Installing n \<Longrightarrow> rc_current s \<in> rc_ended s" for n using w by simp
  with o have one: "i = j" if "i < rc_inners s" "i \<notin> rc_ended s" "j < rc_inners s" "j \<notin> rc_ended s" for i j
    using that unfolding only_current_def by (metis watch_pc.inject(2))
  have "i = rc_current s \<or> rc_watch s = Installing i" if "i < rc_inners s" "i \<notin> rc_ended s" for i
    using o that by (simp add: only_current_def)
  moreover have "rc_watch s = WatchEnded \<longrightarrow> rc_closed s" using w by auto
  moreover have "next_backoff (rc_backoff s) = min (rc_backoff s * 2) (30 * 10 ^ 9)"
    using next_backoff_int [of "rc_backoff s"] b
    by (simp add: backoff_ok_def reconnect_initial_backoff_def reconnect_max_backoff_def)
  ultimately show ?thesis using one b
    by (auto simp: backoff_ok_def reconnect_initial_backoff_def reconnect_max_backoff_def)
qed

text \<open>
  \<^verbatim>\<open>Call\<close> and \<^verbatim>\<open>Notify\<close> read the current connection and run on it.  The live connection is the one they run on, unless
  the loop has made it and is about to install it.
\<close>

definition recon_delegate :: "(nat \<Rightarrow> 'r) \<Rightarrow> recon \<Rightarrow> 'r" where
  "recon_delegate call s = call (rc_current s)"

lemma recon_delegate_live:
  assumes "reachable (\<lambda>s. s = new_reconnecting) (recon_step k) s" and "i < rc_inners s" "i \<notin> rc_ended s" "rc_watch s \<noteq> Installing i"
  shows "recon_delegate call s = call i"
proof -
  from recon.reachable_inv [OF assms(1)] have "only_current s" by (simp add: recon_inv_def)
  with assms(2-4) show ?thesis by (auto simp: only_current_def recon_delegate_def)
qed

section \<open>The waits between two dials\<close>

text \<open>
  The back-off doubles from one second and stops at thirty: the wait after \<^verbatim>\<open>n\<close> doublings is the
  smaller of \<^verbatim>\<open>2^n\<close> and 30 seconds, for every \<^verbatim>\<open>n\<close>.
\<close>

lemma backoff_sequence:
  "(next_backoff ^^ n) reconnect_initial_backoff = min (10 ^ 9 * 2 ^ n) (30 * 10 ^ 9)"
proof (induction n)
  case (Suc n)
  have "0 \<le> min (10 ^ 9 * 2 ^ n) (30 * 10 ^ 9 :: int)" by simp
  with Suc show ?case
    using next_backoff_int [of "min (10 ^ 9 * 2 ^ n) (30 * 10 ^ 9)"]
    by (simp add: reconnect_max_backoff_def min_def) 
qed (simp add: reconnect_initial_backoff_def)

section \<open>Close while the loop dials\<close>

text \<open>The steps as a function of what happens, to run the system.\<close>

datatype recon_event = Watches watch_event | Drops nat | Closes | CloseMoves nat

fun recon_exec :: "transport_kind \<Rightarrow> recon_event \<Rightarrow> recon \<Rightarrow> recon option" where
  "recon_exec k (Watches ev) s = watch_move k ev s"
| "recon_exec k (Drops i) s = (if i < rc_inners s then Some (s\<lparr>rc_ended := insert i (rc_ended s)\<rparr>) else None)"
| "recon_exec k Closes s = Some (s\<lparr>rc_closes := rc_closes s @ [CloseStart]\<rparr>)"
| "recon_exec k (CloseMoves n) s =
     (if n < length (rc_closes s)
      then map_option (\<lambda>(pc, t). t\<lparr>rc_closes := (rc_closes s)[n := pc]\<rparr>) (recon_close_move (rc_closes s ! n) s)
      else None)"

fun recon_run :: "transport_kind \<Rightarrow> recon_event list \<Rightarrow> recon \<Rightarrow> recon option" where
  "recon_run k [] s = Some s"
| "recon_run k (ev # evs) s = Option.bind (recon_exec k ev s) (recon_run k evs)"

lemma recon_exec_step: "recon_exec k ev s = Some t \<Longrightarrow> recon_step k s t"
  by (cases ev) (auto split: if_splits intro: recon_step.intros)

lemma recon_run_reachable:
  "reachable start (recon_step k) s \<Longrightarrow> recon_run k evs s = Some t \<Longrightarrow> reachable start (recon_step k) t"
  by (induction evs arbitrary: s) (auto simp: bind_eq_Some_conv dest: recon_exec_step intro: reach_step)

text \<open>A connection that dropped, and a dial that failed: no connection is alive.\<close>

definition demo_backing_off :: recon where
  "demo_backing_off =
     \<lparr>rc_current = 0, rc_inners = 1, rc_ended = {0}, rc_closed = False, rc_done = False,
      rc_backoff = 2 * 10 ^ 9, rc_watch = BackOff, rc_closes = []\<rparr>"

lemma demo_backing_off_reachable: "reachable (\<lambda>s. s = new_reconnecting) (recon_step KindWS) demo_backing_off"
proof -
  have "recon_run KindWS [Watches Runs, Drops 0, Watches SeesDrop, Watches Runs, Watches SeesTimer, Watches Runs,
      Watches DialFails] new_reconnecting = Some demo_backing_off"
    by (simp add: new_reconnecting_def watch_move_def demo_backing_off_def next_backoff_int
        reconnect_initial_backoff_def reconnect_max_backoff_def)
  then show ?thesis by (rule recon_run_reachable [rotated]) (rule reach_start, simp)
qed

theorem recon_one_connection_witness:
  "rc_watch demo_backing_off = BackOff \<and> 10 ^ 9 \<le> rc_backoff demo_backing_off \<and>
     next_backoff (rc_backoff demo_backing_off) = 4 * 10 ^ 9"
  using recon_one_connection [OF demo_backing_off_reachable]
  by (simp add: demo_backing_off_def)

definition leak_events :: "recon_event list" where
  "leak_events =
     [Watches Runs, Drops 0, Watches SeesDrop, Watches Runs, Watches SeesTimer, Watches Runs,
      Closes, CloseMoves 0, CloseMoves 0, CloseMoves 0, CloseMoves 0,
      Watches DialOk, Watches Runs, Watches Runs, Watches Runs, Watches SeesDone]"

text \<open>
  Close can leave a connection behind.  When it comes while the loop dials, it closes the old
  connection and returns; the loop then installs the new one, sees that the transport is done and
  ends.  Nothing ever closes the new connection.
\<close>

theorem recon_close_leaks:
  "\<exists>s. reachable (\<lambda>s. s = new_reconnecting) (recon_step k) s \<and> rc_closes s = [CloseReturned] \<and>
     rc_closed s \<and> rc_done s \<and> rc_watch s = WatchEnded \<and> rc_current s \<notin> rc_ended s \<and>
     (\<forall>ev. watch_move k ev s = None)"
proof -
  have "\<exists>s. recon_run k leak_events new_reconnecting = Some s \<and> rc_closes s = [CloseReturned] \<and>
     rc_closed s \<and> rc_done s \<and> rc_watch s = WatchEnded \<and> rc_current s \<notin> rc_ended s"
    by (cases k) (simp_all add: leak_events_def new_reconnecting_def watch_move_def recon_close_move_def
        watch_dial_def watch_end_def)
  then obtain s where s: "recon_run k leak_events new_reconnecting = Some s" "rc_closes s = [CloseReturned]"
    "rc_closed s" "rc_done s" "rc_watch s = WatchEnded" "rc_current s \<notin> rc_ended s" by blast
  have "watch_move k ev s = None" for ev using s(5) by (cases k; cases ev) (simp_all add: watch_move_def)
  moreover have "reachable (\<lambda>s. s = new_reconnecting) (recon_step k) s"
    by (rule recon_run_reachable [OF _ s(1)]) (rule reach_start, simp)
  ultimately show ?thesis using s by blast
qed

end
