(* ===== verification/FanIn.thy ===== *)
theory FanIn imports GoChan begin

text \<open>
  The fan-in of a reconnecting transport (\<^verbatim>\<open>fanNotifications\<close> and \<^verbatim>\<open>fanRequests\<close> of
  \<^verbatim>\<open>reconnect_ws.go\<close>, the same code in \<^verbatim>\<open>reconnect_http.go\<close>): for each connection a goroutine moves
  values from its channel to the one channel the client reads.  A value carries the number of its
  connection, for the history only.
\<close>

datatype 'a fan_pc = FanOff | FanIdle | FanHolds 'a | FanEnded

text \<open>The outer select: a value, or a closed channel.\<close>

definition fan_receive :: "'a fan_pc \<Rightarrow> 'a gochan \<Rightarrow> ('a fan_pc \<times> 'a gochan) option" where
  "fan_receive pc src =
     (case pc of
        FanIdle \<Rightarrow>
          (case chan_recv src of
             RecvVal x ch \<Rightarrow> Some (FanHolds x, ch)
           | RecvClosed \<Rightarrow> Some (FanEnded, src)
           | RecvBlock \<Rightarrow> None)
      | _ \<Rightarrow> None)"

text \<open>The inner select: the value is sent on.\<close>

definition fan_forward :: "nat \<Rightarrow> 'a fan_pc \<Rightarrow> (nat \<times> 'a) gochan \<Rightarrow> ('a fan_pc \<times> (nat \<times> 'a) gochan) option" where
  "fan_forward i pc dst =
     (case pc of
        FanHolds x \<Rightarrow> (case chan_send dst (i, x) of SendOk ch \<Rightarrow> Some (FanIdle, ch) | _ \<Rightarrow> None)
      | _ \<Rightarrow> None)"

text \<open>The arms that end it: the connection or the transport is done; with a value in hand only the latter.\<close>

definition fan_stop :: "bool \<Rightarrow> bool \<Rightarrow> 'a fan_pc \<Rightarrow> 'a fan_pc option" where
  "fan_stop inner_done finished pc =
     (case pc of
        FanIdle \<Rightarrow> if inner_done \<or> finished then Some FanEnded else None
      | FanHolds x \<Rightarrow> if finished then Some FanEnded else None
      | _ \<Rightarrow> None)"

record 'a fan_in =
  fi_srcs :: "nat \<Rightarrow> 'a gochan"
  fi_fans :: "nat \<Rightarrow> 'a fan_pc"
  fi_dst :: "(nat \<times> 'a) gochan"
  fi_ended :: "nat set"
  fi_done :: bool
  fi_sent :: "nat \<Rightarrow> 'a list"
  fi_got :: "(nat \<times> 'a) list"

definition fan_start :: "'a fan_in" where
  "fan_start = \<lparr>fi_srcs = (\<lambda>i. make_chan 32), fi_fans = (\<lambda>i. FanOff), fi_dst = make_chan 32, fi_ended = {},
     fi_done = False, fi_sent = (\<lambda>i. []), fi_got = []\<rparr>"

inductive fan_step :: "'a fan_in \<Rightarrow> 'a fan_in \<Rightarrow> bool" where
  f_sent: "chan_send (fi_srcs s i) x = SendOk ch \<Longrightarrow>
     fan_step s (s\<lparr>fi_srcs := (fi_srcs s)(i := ch), fi_sent := (fi_sent s)(i := fi_sent s i @ [x])\<rparr>)"
| f_started: "fi_fans s i = FanOff \<Longrightarrow> fan_step s (s\<lparr>fi_fans := (fi_fans s)(i := FanIdle)\<rparr>)"
| f_received: "fan_receive (fi_fans s i) (fi_srcs s i) = Some (pc, ch) \<Longrightarrow>
     fan_step s (s\<lparr>fi_fans := (fi_fans s)(i := pc), fi_srcs := (fi_srcs s)(i := ch)\<rparr>)"
| f_forwarded: "fan_forward i (fi_fans s i) (fi_dst s) = Some (pc, ch) \<Longrightarrow>
     fan_step s (s\<lparr>fi_fans := (fi_fans s)(i := pc), fi_dst := ch\<rparr>)"
| f_stopped: "fan_stop (i \<in> fi_ended s) (fi_done s) (fi_fans s i) = Some pc \<Longrightarrow>
     fan_step s (s\<lparr>fi_fans := (fi_fans s)(i := pc)\<rparr>)"
| f_got: "chan_recv (fi_dst s) = RecvVal x ch \<Longrightarrow> fan_step s (s\<lparr>fi_dst := ch, fi_got := fi_got s @ [x]\<rparr>)"
| f_ended: "fan_step s (s\<lparr>fi_ended := insert i (fi_ended s)\<rparr>)"
| f_done: "fan_step s (s\<lparr>fi_done := True\<rparr>)"

section \<open>The order of each connection is kept\<close>

definition of_conn :: "nat \<Rightarrow> (nat \<times> 'a) list \<Rightarrow> 'a list" where
  "of_conn i xs = map snd (filter (\<lambda>p. fst p = i) xs)"

lemma of_conn_simps [simp]:
  "of_conn i [] = []" "of_conn i (p # xs) = (if fst p = i then snd p # of_conn i xs else of_conn i xs)"
  "of_conn i (xs @ ys) = of_conn i xs @ of_conn i ys"
  by (simp_all add: of_conn_def)

definition fan_holds :: "'a fan_pc \<Rightarrow> 'a list" where
  "fan_holds pc = (case pc of FanHolds x \<Rightarrow> [x] | _ \<Rightarrow> [])"

text \<open>What left a connection, what its goroutine holds and what is still in its channel is what it sent.\<close>

definition fan_conn_ok :: "'a fan_in \<Rightarrow> nat \<Rightarrow> bool" where
  "fan_conn_ok s i \<longleftrightarrow>
     (\<exists>lost. of_conn i (fi_got s @ chan_buf (fi_dst s)) @ lost @ fan_holds (fi_fans s i) @ chan_buf (fi_srcs s i) = fi_sent s i \<and>
        (fi_fans s i \<noteq> FanEnded \<longrightarrow> lost = []))"

definition fan_inv :: "'a fan_in \<Rightarrow> bool" where
  "fan_inv s \<longleftrightarrow> (\<forall>i. fan_conn_ok s i) \<and> chan_cap (fi_dst s) = 32 \<and> length (chan_buf (fi_dst s)) \<le> 32"

lemma fan_inv_start: "s = fan_start \<Longrightarrow> fan_inv s"
  by (simp add: fan_start_def fan_inv_def fan_conn_ok_def fan_holds_def)

lemma fan_receive_keeps:
  assumes "fan_receive pc src = Some (pc', ch)"
  shows "fan_holds pc' @ chan_buf ch = fan_holds pc @ chan_buf src" and "pc \<noteq> FanEnded"
  using assms by (auto simp: fan_receive_def fan_holds_def chan_recv_def split: fan_pc.splits list.splits if_splits)

lemma fan_forward_keeps:
  assumes "fan_forward i pc dst = Some (pc', ch)"
  obtains x where "pc = FanHolds x" "pc' = FanIdle" "chan_send dst (i, x) = SendOk ch"
  using assms by (auto simp: fan_forward_def split: fan_pc.splits send_res.splits)

lemma chan_send_buf:
  "chan_send ch x = SendOk ch' \<Longrightarrow>
     chan_buf ch' = chan_buf ch @ [x] \<and> chan_cap ch' = chan_cap ch \<and> length (chan_buf ch) < chan_cap ch"
  by (auto simp: chan_send_def split: if_splits)

lemma fan_inv_step: "fan_step s t \<Longrightarrow> fan_inv s \<Longrightarrow> fan_inv t"
proof (induction rule: fan_step.induct)
  case (f_sent s i x ch)
  have "fan_conn_ok s j \<Longrightarrow>
      fan_conn_ok (s\<lparr>fi_srcs := (fi_srcs s)(i := ch), fi_sent := (fi_sent s)(i := fi_sent s i @ [x])\<rparr>) j" for j
    using chan_send_buf [OF f_sent(1)] by (cases "j = i") (auto simp: fan_conn_ok_def) 
  with f_sent show ?case by (simp add: fan_inv_def)
next
  case (f_started s i)
  have "fan_conn_ok s j \<Longrightarrow> fan_conn_ok (s\<lparr>fi_fans := (fi_fans s)(i := FanIdle)\<rparr>) j" for j
    using f_started(1) by (cases "j = i") (auto simp: fan_conn_ok_def fan_holds_def)
  with f_started show ?case by (simp add: fan_inv_def)
next
  case (f_received s i pc ch)
  have "fan_conn_ok s j \<Longrightarrow>
      fan_conn_ok (s\<lparr>fi_fans := (fi_fans s)(i := pc), fi_srcs := (fi_srcs s)(i := ch)\<rparr>) j" for j
    using fan_receive_keeps [OF f_received(1)]
    by (cases "j = i") (auto simp: fan_conn_ok_def intro: exI [of _ "[]"])
  with f_received show ?case by (simp add: fan_inv_def)
next
  case (f_forwarded i s pc ch)
  obtain x where x: "fi_fans s i = FanHolds x" "pc = FanIdle" "chan_send (fi_dst s) (i, x) = SendOk ch"
    using fan_forward_keeps [OF f_forwarded(1)] .
  note ch = chan_send_buf [OF x(3)]
  have "fan_conn_ok s j \<Longrightarrow> fan_conn_ok (s\<lparr>fi_fans := (fi_fans s)(i := pc), fi_dst := ch\<rparr>) j" for j
    using x ch by (cases "j = i") (auto simp: fan_conn_ok_def fan_holds_def)
  with f_forwarded ch show ?case by (simp add: fan_inv_def)
next
  case (f_stopped i s pc)
  then have "pc = FanEnded" by (auto simp: fan_stop_def split: fan_pc.splits if_splits)
  then have "fan_conn_ok s j \<Longrightarrow> fan_conn_ok (s\<lparr>fi_fans := (fi_fans s)(i := pc)\<rparr>) j" for j
    by (cases "j = i") (auto simp: fan_conn_ok_def fan_holds_def)
  with f_stopped show ?case by (simp add: fan_inv_def)
next
  case (f_got s x ch)
  then obtain xs where "chan_buf (fi_dst s) = x # xs" "ch = (fi_dst s)\<lparr>chan_buf := xs\<rparr>"
    by (auto simp: chan_recv_Val_iff)
  with f_got show ?case by (auto simp: fan_inv_def fan_conn_ok_def)
qed (simp_all add: fan_inv_def fan_conn_ok_def)

interpretation fan: invariant_system "\<lambda>s. s = fan_start" fan_step fan_inv
  by unfold_locales (rule fan_inv_start fan_inv_step; assumption)+

lemma fan_inv_prefix:
  assumes "fan_inv s"
  shows "prefix (of_conn i (fi_got s)) (fi_sent s i)"
proof -
  from assms obtain lost where eq: "of_conn i (fi_got s @ chan_buf (fi_dst s)) @ lost @ fan_holds (fi_fans s i) @ chan_buf (fi_srcs s i)
      = fi_sent s i" by (auto simp: fan_inv_def fan_conn_ok_def)
  then have "of_conn i (fi_got s) @ (of_conn i (chan_buf (fi_dst s)) @ lost @ fan_holds (fi_fans s i)
      @ chan_buf (fi_srcs s i)) = fi_sent s i" by simp
  then show ?thesis by (metis prefixI)
qed

text \<open>
  Fanning in keeps order.  Whatever the goroutines of the connections do, the values the client
  received from one connection are the first ones that connection sent, in their order and each once;
  and while the goroutine of the connection runs, the rest is on its way: in the client's channel, in the
  goroutine's hand or in the connection's channel.
\<close>

theorem fan_in_order:
  assumes "reachable (\<lambda>s. s = fan_start) fan_step s"
  shows "prefix (of_conn i (fi_got s)) (fi_sent s i) \<and> length (chan_buf (fi_dst s)) \<le> 32 \<and>
    (fi_fans s i \<noteq> FanEnded \<longrightarrow>
       of_conn i (fi_got s) @ of_conn i (chan_buf (fi_dst s)) @ fan_holds (fi_fans s i) @ chan_buf (fi_srcs s i)
         = fi_sent s i)"
proof -
  from fan.reachable_inv [OF assms] have inv: "fan_inv s" .
  then have "fi_fans s i \<noteq> FanEnded \<longrightarrow>
      of_conn i (fi_got s) @ of_conn i (chan_buf (fi_dst s)) @ fan_holds (fi_fans s i) @ chan_buf (fi_srcs s i) = fi_sent s i"
    by (auto simp: fan_inv_def fan_conn_ok_def)
  with fan_inv_prefix [OF inv] inv show ?thesis by (auto simp: fan_inv_def)
qed

text \<open>One value sent by connection 0, whose goroutine runs.\<close>

definition demo_fan :: "bool fan_in" where
  "demo_fan = fan_start\<lparr>fi_srcs := (fi_srcs fan_start)(0 := \<lparr>chan_buf = [True], chan_cap = 32, chan_closed = False\<rparr>),
     fi_sent := (fi_sent fan_start)(0 := [True]), fi_fans := (fi_fans fan_start)(0 := FanIdle)\<rparr>"

lemma demo_fan_reachable: "reachable (\<lambda>s. s = fan_start) fan_step demo_fan"
proof -
  let ?ch = "\<lparr>chan_buf = [True], chan_cap = 32, chan_closed = False\<rparr>"
  let ?s = "fan_start\<lparr>fi_srcs := (fi_srcs fan_start)(0 := ?ch), fi_sent := (fi_sent fan_start)(0 := fi_sent fan_start 0 @ [True])\<rparr>"
  have "reachable (\<lambda>s. s = fan_start) fan_step (fan_start :: bool fan_in)" by (rule reach_start) simp
  moreover have "fan_step fan_start ?s"
    by (rule f_sent) (simp add: fan_start_def chan_send_def make_chan_def)
  moreover have "fan_step ?s (?s\<lparr>fi_fans := (fi_fans ?s)(0 := FanIdle)\<rparr>)"
    by (rule f_started) (simp add: fan_start_def)
  moreover have "?s\<lparr>fi_fans := (fi_fans ?s)(0 := FanIdle)\<rparr> = demo_fan" by (simp add: demo_fan_def fan_start_def)
  ultimately show ?thesis by (metis reach_step)
qed

theorem fan_in_order_witness:
  "prefix (of_conn 0 (fi_got demo_fan)) [True] \<and>
   of_conn 0 (fi_got demo_fan) @ of_conn 0 (chan_buf (fi_dst demo_fan)) @ [] @ [True] = [True]"
  using fan_in_order [OF demo_fan_reachable, of 0] by (simp add: demo_fan_def fan_start_def fan_holds_def)

text \<open>
  When the connection ends, the goroutine may leave values it was already given behind: both arms of
  its select are ready, and the one that ends it may run.
\<close>

lemma fan_leaves_values:
  "\<exists>s :: bool fan_in. reachable (\<lambda>s. s = fan_start) fan_step s \<and> \<not> fi_done s \<and> fi_fans s 0 = FanEnded \<and>
     fi_sent s 0 = [True] \<and> fi_got s = [] \<and> chan_buf (fi_dst s) = []"
proof -
  let ?e = "demo_fan\<lparr>fi_ended := insert 0 (fi_ended demo_fan)\<rparr>"
  let ?t = "?e\<lparr>fi_fans := (fi_fans ?e)(0 := FanEnded)\<rparr>"
  have "fan_step demo_fan ?e" by (rule f_ended)
  moreover have "fan_step ?e ?t" by (rule f_stopped) (simp add: fan_stop_def demo_fan_def)
  ultimately have "reachable (\<lambda>s. s = fan_start) fan_step ?t" using demo_fan_reachable by (blast intro: reach_step)
  then show ?thesis by (intro exI [of _ ?t] conjI) (assumption, simp_all add: demo_fan_def fan_start_def)
qed

end
