(* ===== verification/Streaming.thy ===== *)
theory Streaming imports GoChan Wait begin

text \<open>
  \<^verbatim>\<open>RunStreamed\<close> of \<^verbatim>\<open>thread.go\<close>: the goroutine that filters the events of a turn into the channel it
  returns, beside the broker that fills its subscription and the caller that reads.  It holds the
  mutex of the session, which serialises turns, until it ends.
\<close>

datatype stream_pc = Selecting | Sending thread_event | ClosingSub | ClosingOut | Unlocking | StreamEnded

record stream =
  sr_sub :: "event gochan"
  sr_out :: "thread_event gochan"
  sr_pc :: stream_pc
  sr_turn_locked :: bool
  sr_cancelled :: bool
  sr_consumed :: "event list"
  sr_got :: "thread_event list"

definition thread_event_of :: "event \<Rightarrow> thread_event" where
  "thread_event_of e = \<lparr>te_kind = ev_method e, te_raw = ev_value e\<rparr>"

definition ends_stream :: "thread_event \<Rightarrow> bool" where
  "ends_stream te \<longleftrightarrow> te_kind te = MethodTurnCompleted \<or> te_kind te = MethodError"

text \<open>The state after \<^verbatim>\<open>TurnStart\<close> succeeded, with a fresh subscription.\<close>

definition new_stream :: stream where
  "new_stream = \<lparr>sr_sub = make_chan 128, sr_out = make_chan 128, sr_pc = Selecting, sr_turn_locked = True,
     sr_cancelled = False, sr_consumed = [], sr_got = []\<rparr>"

text \<open>
  A return, and the three deferred calls, the last one first: the subscription is closed, which the broker may
  have done before, then the channel, then the mutex is released.  A second close of the channel would be
  \<^term>\<open>None\<close>.
\<close>

definition stream_end :: "stream \<Rightarrow> stream" where
  "stream_end s = s\<lparr>sr_pc := ClosingSub\<rparr>"

definition stream_defer :: "stream \<Rightarrow> stream option" where
  "stream_defer s =
     (case sr_pc s of
        ClosingSub \<Rightarrow> Some (s\<lparr>sr_sub := (sr_sub s)\<lparr>chan_closed := True\<rparr>, sr_pc := ClosingOut\<rparr>)
      | ClosingOut \<Rightarrow> map_option (\<lambda>ch. s\<lparr>sr_out := ch, sr_pc := Unlocking\<rparr>) (chan_close (sr_out s))
      | Unlocking \<Rightarrow> Some (s\<lparr>sr_turn_locked := False, sr_pc := StreamEnded\<rparr>)
      | _ \<Rightarrow> None)"

text \<open>The outer select: an event, which is skipped when it is of another turn, or a closed subscription.\<close>

definition stream_receive :: "string \<Rightarrow> string \<Rightarrow> stream \<Rightarrow> stream option" where
  "stream_receive threadID turnID s =
     (case sr_pc s of
        Selecting \<Rightarrow>
          (case chan_recv (sr_sub s) of
             RecvVal e ch \<Rightarrow>
               Some (s\<lparr>sr_sub := ch, sr_consumed := sr_consumed s @ [e],
                       sr_pc := (if event_matches_turn e threadID turnID then Sending (thread_event_of e) else Selecting)\<rparr>)
           | RecvClosed \<Rightarrow> Some (stream_end s)
           | RecvBlock \<Rightarrow> None)
      | _ \<Rightarrow> None)"

text \<open>The inner select: the event is sent, and the stream ends behind a terminal one.\<close>

definition stream_send :: "stream \<Rightarrow> stream option" where
  "stream_send s =
     (case sr_pc s of
        Sending te \<Rightarrow>
          (case chan_send (sr_out s) te of
             SendOk ch \<Rightarrow>
               Some (if ends_stream te then stream_end (s\<lparr>sr_out := ch\<rparr>) else s\<lparr>sr_out := ch, sr_pc := Selecting\<rparr>)
           | _ \<Rightarrow> None)
      | _ \<Rightarrow> None)"

text \<open>The context ends either select.\<close>

definition stream_cancel :: "stream \<Rightarrow> stream option" where
  "stream_cancel s =
     (case sr_pc s of
        Selecting \<Rightarrow> if sr_cancelled s then Some (stream_end s) else None
      | Sending te \<Rightarrow> if sr_cancelled s then Some (stream_end s) else None
      | _ \<Rightarrow> None)"

inductive stream_step :: "string \<Rightarrow> string \<Rightarrow> stream \<Rightarrow> stream \<Rightarrow> bool" for th tu :: string where
  s_event: "chan_send (sr_sub s) e = SendOk ch \<Longrightarrow> stream_step th tu s (s\<lparr>sr_sub := ch\<rparr>)"
| s_overflow: "stream_step th tu s (s\<lparr>sr_sub := (sr_sub s)\<lparr>chan_closed := True\<rparr>\<rparr>)"
| s_received: "stream_receive th tu s = Some t \<Longrightarrow> stream_step th tu s t"
| s_sent: "stream_send s = Some t \<Longrightarrow> stream_step th tu s t"
| s_context: "stream_step th tu s (s\<lparr>sr_cancelled := True\<rparr>)"
| s_cancelled: "stream_cancel s = Some t \<Longrightarrow> stream_step th tu s t"
| s_deferred: "stream_defer s = Some t \<Longrightarrow> stream_step th tu s t"
| s_read: "chan_recv (sr_out s) = RecvVal te ch \<Longrightarrow> stream_step th tu s (s\<lparr>sr_out := ch, sr_got := sr_got s @ [te]\<rparr>)"

section \<open>What a stream delivers\<close>

text \<open>
  Without a second select and a context, the goroutine is \<^term>\<open>stream_events\<close>, a function of the events
  of its subscription.  It gives the matching events as long as no but the last one is terminal.
\<close>

definition stream_spec :: "string \<Rightarrow> string \<Rightarrow> event list \<Rightarrow> thread_event list" where
  "stream_spec th tu es = map thread_event_of (filter (\<lambda>e. event_matches_turn e th tu) es)"

definition ends_at_last :: "thread_event list \<Rightarrow> bool" where
  "ends_at_last tes \<longleftrightarrow> (\<forall>te \<in> set (butlast tes). \<not> ends_stream te)"

lemma ends_at_last_simps:
  "\<forall>te \<in> set tes. \<not> ends_stream te \<Longrightarrow> ends_at_last tes" "ends_at_last (tes @ [te]) \<longleftrightarrow> (\<forall>x \<in> set tes. \<not> ends_stream x)"
  by (auto simp: ends_at_last_def dest: in_set_butlastD)

lemma ends_at_last_prefix: "ends_at_last ys \<Longrightarrow> prefix xs ys \<Longrightarrow> ends_at_last xs"
  unfolding ends_at_last_def prefix_def by (metis in_set_butlast_appendI)

lemma stream_events_spec:
  "ends_at_last (stream_spec th tu es) \<Longrightarrow> fst (stream_events th tu es) = stream_spec th tu es"
proof (induction es)
  case (Cons e es)
  show ?case
  proof (cases "event_matches_turn e th tu")
    case False
    with Cons show ?thesis by (simp add: stream_spec_def)
  next
    case True
    let ?te = "thread_event_of e" and ?r = "stream_spec th tu es"
    have s: "stream_spec th tu (e # es) = ?te # ?r" by (simp add: stream_spec_def True)
    with Cons.prems have ends: "ends_at_last ?r" "ends_stream ?te \<Longrightarrow> ?r = []"
      by (auto simp: ends_at_last_def split: if_splits)
    show ?thesis
    proof (cases "ends_stream ?te")
      case e: True
      with ends s True show ?thesis by (auto simp: ends_stream_def thread_event_of_def Let_def)
    next
      case False
      with Cons.IH [OF ends(1)] s True show ?thesis
        by (auto simp: ends_stream_def thread_event_of_def Let_def split: prod.splits)
    qed
  qed
qed (simp add: stream_spec_def)

definition stream_out :: "stream \<Rightarrow> thread_event list" where
  "stream_out s = sr_got s @ chan_buf (sr_out s)"

text \<open>What was put out is what was consumed, with at most one event in hand, and only its last may be terminal.\<close>

definition stream_inv :: "string \<Rightarrow> string \<Rightarrow> stream \<Rightarrow> bool" where
  "stream_inv th tu s \<longleftrightarrow>
     chan_cap (sr_out s) = 128 \<and>
     (sr_turn_locked s \<longleftrightarrow> sr_pc s \<noteq> StreamEnded) \<and>
     (chan_closed (sr_out s) \<longleftrightarrow> sr_pc s = Unlocking \<or> sr_pc s = StreamEnded) \<and>
     (sr_pc s = ClosingOut \<or> sr_pc s = Unlocking \<or> sr_pc s = StreamEnded \<longrightarrow> chan_closed (sr_sub s)) \<and>
     (case sr_pc s of
        Selecting \<Rightarrow> stream_out s = stream_spec th tu (sr_consumed s) \<and> (\<forall>te \<in> set (stream_out s). \<not> ends_stream te)
      | Sending te \<Rightarrow> stream_out s @ [te] = stream_spec th tu (sr_consumed s) \<and> (\<forall>te \<in> set (stream_out s). \<not> ends_stream te)
      | _ \<Rightarrow>
          (\<exists>lost. stream_out s @ lost = stream_spec th tu (sr_consumed s) \<and> (lost \<noteq> [] \<longrightarrow> sr_cancelled s)) \<and>
          ends_at_last (stream_spec th tu (sr_consumed s)))"

lemma stream_inv_start: "s = new_stream \<Longrightarrow> stream_inv th tu s"
  by (simp add: new_stream_def stream_inv_def stream_out_def stream_spec_def)

lemma stream_inv_same:
  assumes "stream_inv th tu s" and "stream_out t = stream_out s" and "sr_consumed t = sr_consumed s" and "sr_pc t = sr_pc s"
    and "sr_turn_locked t = sr_turn_locked s" and "chan_cap (sr_out t) = chan_cap (sr_out s)"
    and "chan_closed (sr_out t) = chan_closed (sr_out s)" and "chan_closed (sr_sub s) \<longrightarrow> chan_closed (sr_sub t)"
    and "sr_cancelled s \<longrightarrow> sr_cancelled t"
  shows "stream_inv th tu t"
  using assms by (cases "sr_pc s") (auto simp: stream_inv_def)

lemma stream_inv_Selecting:
  "sr_pc t = Selecting \<Longrightarrow> chan_cap (sr_out t) = 128 \<Longrightarrow> sr_turn_locked t \<Longrightarrow> \<not> chan_closed (sr_out t) \<Longrightarrow>
     stream_out t = stream_spec th tu (sr_consumed t) \<Longrightarrow> \<forall>te \<in> set (stream_out t). \<not> ends_stream te \<Longrightarrow> stream_inv th tu t"
  by (simp add: stream_inv_def)

lemma stream_inv_Sending:
  "sr_pc t = Sending te \<Longrightarrow> chan_cap (sr_out t) = 128 \<Longrightarrow> sr_turn_locked t \<Longrightarrow> \<not> chan_closed (sr_out t) \<Longrightarrow>
     stream_out t @ [te] = stream_spec th tu (sr_consumed t) \<Longrightarrow> \<forall>te \<in> set (stream_out t). \<not> ends_stream te \<Longrightarrow>
     stream_inv th tu t"
  by (simp add: stream_inv_def)

lemma stream_inv_end:
  assumes "stream_out s @ lost = stream_spec th tu (sr_consumed s)" and "lost \<noteq> [] \<longrightarrow> sr_cancelled s"
    and "ends_at_last (stream_spec th tu (sr_consumed s))" and "chan_cap (sr_out s) = 128"
    and "sr_turn_locked s" and "\<not> chan_closed (sr_out s)"
  shows "stream_inv th tu (stream_end s)"
  using assms by (auto simp: stream_inv_def stream_end_def stream_out_def)

lemma stream_inv_received:
  assumes inv: "stream_inv th tu s" and r: "stream_receive th tu s = Some t"
  shows "stream_inv th tu t"
proof -
  from r have pc: "sr_pc s = Selecting" by (auto simp: stream_receive_def split: stream_pc.splits)
  with inv have out: "stream_out s = stream_spec th tu (sr_consumed s)" "\<forall>te \<in> set (stream_out s). \<not> ends_stream te"
    "chan_cap (sr_out s) = 128" "sr_turn_locked s" "\<not> chan_closed (sr_out s)" by (simp_all add: stream_inv_def)
  show ?thesis
  proof (cases "chan_recv (sr_sub s)")
    case (RecvVal e ch)
    with r pc have t: "t = s\<lparr>sr_sub := ch, sr_consumed := sr_consumed s @ [e],
        sr_pc := (if event_matches_turn e th tu then Sending (thread_event_of e) else Selecting)\<rparr>"
      by (simp add: stream_receive_def)
    have o: "stream_out t = stream_out s" by (simp add: t stream_out_def)
    have c: "sr_turn_locked t" "\<not> chan_closed (sr_out t)" "chan_cap (sr_out t) = 128"
      using inv pc by (simp_all add: t stream_inv_def)
    show ?thesis
    proof (cases "event_matches_turn e th tu")
      case True
      have "stream_out t @ [thread_event_of e] = stream_spec th tu (sr_consumed t)"
        unfolding o out(1) by (simp add: t True stream_spec_def)
      then show ?thesis using c out(2) by (intro stream_inv_Sending [of t "thread_event_of e"]) (simp_all add: o, simp add: t True)
    next
      case False
      have "stream_out t = stream_spec th tu (sr_consumed t)"
        unfolding o out(1) by (simp add: t False stream_spec_def)
      then show ?thesis using c out(2) by (intro stream_inv_Selecting) (simp_all add: o, simp add: t False)
    qed
  next
    case RecvClosed
    with r pc have "t = stream_end s" by (simp add: stream_receive_def)
    with stream_inv_end [of s "[]"] out ends_at_last_simps(1) [OF out(2)] show ?thesis by simp
  next
    case RecvBlock
    with r pc show ?thesis by (simp add: stream_receive_def)
  qed
qed

lemma stream_inv_sent:
  assumes inv: "stream_inv th tu s" and r: "stream_send s = Some t"
  shows "stream_inv th tu t"
proof -
  from r obtain te ch where pc: "sr_pc s = Sending te" and ch: "chan_send (sr_out s) te = SendOk ch"
    and t: "t = (if ends_stream te then stream_end (s\<lparr>sr_out := ch\<rparr>) else s\<lparr>sr_out := ch, sr_pc := Selecting\<rparr>)"
    by (auto simp: stream_send_def split: stream_pc.splits send_res.splits)
  from ch have buf: "chan_buf ch = chan_buf (sr_out s) @ [te]" "chan_cap ch = chan_cap (sr_out s)"
    "chan_closed ch = chan_closed (sr_out s)" by (auto simp: chan_send_def split: if_splits)
  from inv pc have out: "stream_out s @ [te] = stream_spec th tu (sr_consumed s)"
    "\<forall>te \<in> set (stream_out s). \<not> ends_stream te" "chan_cap (sr_out s) = 128" "sr_turn_locked s" "\<not> chan_closed (sr_out s)"
    by (simp_all add: stream_inv_def)
  have o: "stream_out (s\<lparr>sr_out := ch\<rparr>) = stream_out s @ [te]" by (simp add: stream_out_def buf)
  show ?thesis
  proof (cases "ends_stream te")
    case True
    have "ends_at_last (stream_out s @ [te])" using out(2) by (simp add: ends_at_last_simps(2))
    with stream_inv_end [of "s\<lparr>sr_out := ch\<rparr>" "[]" th tu] o out(1,3-5) buf True show ?thesis by (simp add: t)
  next
    case False
    then have ot: "stream_out t = stream_out s @ [te]" and t': "t = s\<lparr>sr_out := ch, sr_pc := Selecting\<rparr>"
      using buf by (simp_all add: t stream_out_def)
    have "sr_turn_locked s" "\<not> chan_closed (sr_out s)" using inv pc by (simp_all add: stream_inv_def)
    moreover have "\<forall>x \<in> set (stream_out t). \<not> ends_stream x" using out(2) False by (simp add: ot)
    moreover have "stream_out t = stream_spec th tu (sr_consumed t)" using out(1) ot by (simp add: t')
    ultimately show ?thesis using buf out(3) by (intro stream_inv_Selecting) (simp_all, simp_all add: t')
  qed
qed

lemma stream_inv_ends:
  assumes "stream_inv th tu s"
  shows "ends_at_last (stream_spec th tu (sr_consumed s))"
proof (cases "sr_pc s")
  case (Sending te)
  with assms have "stream_out s @ [te] = stream_spec th tu (sr_consumed s)" "\<forall>te \<in> set (stream_out s). \<not> ends_stream te"
    by (simp_all add: stream_inv_def)
  then show ?thesis by (metis ends_at_last_simps(2))
qed (use assms in \<open>auto simp: stream_inv_def ends_at_last_simps(1)\<close>)

lemma stream_inv_cancel:
  assumes inv: "stream_inv th tu s" and r: "stream_cancel s = Some t"
  shows "stream_inv th tu t"
proof -
  from r have t: "t = stream_end s" "sr_cancelled s" and pc: "sr_pc s = Selecting \<or> (\<exists>te. sr_pc s = Sending te)"
    by (auto simp: stream_cancel_def split: stream_pc.splits if_splits)
  from inv pc have "\<exists>lost. stream_out s @ lost = stream_spec th tu (sr_consumed s)"
    "chan_cap (sr_out s) = 128" "sr_turn_locked s" "\<not> chan_closed (sr_out s)"
    by (auto simp: stream_inv_def)
  with stream_inv_end [of s _ th tu] stream_inv_ends [OF inv] t show ?thesis by auto
qed

lemma stream_inv_deferred:
  assumes inv: "stream_inv th tu s" and r: "stream_defer s = Some t"
  shows "stream_inv th tu t"
  using assms
  by (cases "sr_pc s") (auto simp: stream_defer_def stream_inv_def stream_out_def chan_close_def split: if_splits)

lemma stream_inv_step: "stream_step th tu s t \<Longrightarrow> stream_inv th tu s \<Longrightarrow> stream_inv th tu t"
proof (induction rule: stream_step.induct)
  case (s_event s e ch)
  then show ?case by (intro stream_inv_same [OF s_event(2)]) (auto simp: stream_out_def chan_send_def split: if_splits)
next
  case (s_overflow s)
  then show ?case by (intro stream_inv_same [OF s_overflow]) (auto simp: stream_out_def)
next
  case (s_context s)
  then show ?case by (intro stream_inv_same [OF s_context]) (auto simp: stream_out_def)
next
  case (s_read s te ch)
  then show ?case by (intro stream_inv_same [OF s_read(2)]) (auto simp: stream_out_def chan_recv_Val_iff)
qed (auto intro: stream_inv_received stream_inv_sent stream_inv_cancel stream_inv_deferred)

interpretation stream: invariant_system "\<lambda>s. s = new_stream" "stream_step th tu" "stream_inv th tu"
  by unfold_locales (rule stream_inv_start stream_inv_step; assumption)+

text \<open>
  C22. A stream is the turn's events.  At any moment what the caller has received, with what waits in
  the channel, is the first part of what \<^term>\<open>stream_events\<close> gives for the events taken from the
  subscription; an event that ends the stream is the last one; the channel is closed behind the subscription,
  and the mutex of the session is held until both are; when the channel is closed without a cancelled
  context nothing is missing; and a goroutine that has left its loop comes to its end in at most three
  moves, which nothing can hold up.
\<close>

theorem stream_delivers_turn:
  assumes "reachable (\<lambda>s. s = new_stream) (stream_step th tu) s"
  shows "prefix (sr_got s @ chan_buf (sr_out s)) (fst (stream_events th tu (sr_consumed s))) \<and>
    (\<forall>te \<in> set (butlast (sr_got s @ chan_buf (sr_out s))). \<not> ends_stream te) \<and>
    (\<not> sr_turn_locked s \<longrightarrow> chan_closed (sr_out s)) \<and> (chan_closed (sr_out s) \<longrightarrow> chan_closed (sr_sub s)) \<and>
    (chan_closed (sr_out s) \<and> \<not> sr_cancelled s \<longrightarrow>
       sr_got s @ chan_buf (sr_out s) = fst (stream_events th tu (sr_consumed s))) \<and>
    (case sr_pc s of
       ClosingSub \<Rightarrow> \<exists>t u v. stream_defer s = Some t \<and> stream_defer t = Some u \<and> stream_defer u = Some v \<and> \<not> sr_turn_locked v
     | ClosingOut \<Rightarrow> \<exists>t u. stream_defer s = Some t \<and> stream_defer t = Some u \<and> \<not> sr_turn_locked u
     | Unlocking \<Rightarrow> \<exists>t. stream_defer s = Some t \<and> \<not> sr_turn_locked t
     | StreamEnded \<Rightarrow> \<not> sr_turn_locked s
     | _ \<Rightarrow> sr_turn_locked s)"
proof -
  from stream.reachable_inv [OF assms] have inv: "stream_inv th tu s" .
  then have p: "prefix (stream_out s) (stream_spec th tu (sr_consumed s))"
    by (cases "sr_pc s") (auto simp: stream_inv_def intro: prefixI [OF sym])
  note e = stream_inv_ends [OF inv]
  have "chan_closed (sr_out s) \<Longrightarrow> \<not> sr_cancelled s \<Longrightarrow> stream_out s = stream_spec th tu (sr_consumed s)"
    using inv by (cases "sr_pc s") (auto simp: stream_inv_def)
  moreover have "ends_at_last (stream_out s)" by (rule ends_at_last_prefix [OF e p])
  moreover have "\<not> sr_turn_locked s \<longrightarrow> chan_closed (sr_out s)" "chan_closed (sr_out s) \<longrightarrow> chan_closed (sr_sub s)"
    using inv by (auto simp: stream_inv_def)
  moreover have "case sr_pc s of
       ClosingSub \<Rightarrow> \<exists>t u v. stream_defer s = Some t \<and> stream_defer t = Some u \<and> stream_defer u = Some v \<and> \<not> sr_turn_locked v
     | ClosingOut \<Rightarrow> \<exists>t u. stream_defer s = Some t \<and> stream_defer t = Some u \<and> \<not> sr_turn_locked u
     | Unlocking \<Rightarrow> \<exists>t. stream_defer s = Some t \<and> \<not> sr_turn_locked t
     | StreamEnded \<Rightarrow> \<not> sr_turn_locked s
     | _ \<Rightarrow> sr_turn_locked s"
    using inv by (cases "sr_pc s") (simp_all add: stream_inv_def stream_defer_def chan_close_def)
  ultimately show ?thesis
    using p stream_events_spec [OF e] by (simp add: stream_out_def ends_at_last_def)
qed

text \<open>An error notification that names no turn, and the run that streams it.\<close>

definition demo_error :: event where
  "demo_error = \<lparr>ev_method = MethodError, ev_raw = None, ev_value = Some (fst raw_event, zero (snd raw_event))\<rparr>"

lemma demo_error_matches: "event_matches_turn demo_error ''t'' ''u''"
  by code_simp

definition demo_stream :: stream where
  "demo_stream = \<lparr>sr_sub = \<lparr>chan_buf = [], chan_cap = 128, chan_closed = True\<rparr>,
     sr_out = \<lparr>chan_buf = [thread_event_of demo_error], chan_cap = 128, chan_closed = True\<rparr>,
     sr_pc = StreamEnded, sr_turn_locked = False, sr_cancelled = False, sr_consumed = [demo_error], sr_got = []\<rparr>"

lemma demo_stream_reachable: "reachable (\<lambda>s. s = new_stream) (stream_step ''t'' ''u'') demo_stream"
proof -
  let ?a = "new_stream\<lparr>sr_sub := \<lparr>chan_buf = [demo_error], chan_cap = 128, chan_closed = False\<rparr>\<rparr>"
  let ?b = "new_stream\<lparr>sr_consumed := [demo_error], sr_pc := Sending (thread_event_of demo_error)\<rparr>"
  let ?c = "?b\<lparr>sr_out := \<lparr>chan_buf = [thread_event_of demo_error], chan_cap = 128, chan_closed = False\<rparr>, sr_pc := ClosingSub\<rparr>"
  let ?d = "?c\<lparr>sr_sub := \<lparr>chan_buf = [], chan_cap = 128, chan_closed = True\<rparr>, sr_pc := ClosingOut\<rparr>"
  let ?e = "?d\<lparr>sr_out := \<lparr>chan_buf = [thread_event_of demo_error], chan_cap = 128, chan_closed = True\<rparr>, sr_pc := Unlocking\<rparr>"
  have "reachable (\<lambda>s. s = new_stream) (stream_step ''t'' ''u'') new_stream" by (rule reach_start) simp
  moreover have "stream_step ''t'' ''u'' new_stream ?a"
    by (rule s_event) (simp add: new_stream_def make_chan_def chan_send_def)
  moreover have "stream_step ''t'' ''u'' ?a ?b"
    by (rule s_received) (simp add: stream_receive_def new_stream_def make_chan_def chan_recv_def demo_error_matches)
  moreover have "stream_step ''t'' ''u'' ?b ?c"
    by (rule s_sent) (simp add: stream_send_def new_stream_def make_chan_def chan_send_def ends_stream_def
        thread_event_of_def demo_error_def stream_end_def)
  moreover have "stream_step ''t'' ''u'' ?c ?d" "stream_step ''t'' ''u'' ?d ?e" "stream_step ''t'' ''u'' ?e demo_stream"
    by (rule s_deferred; simp add: stream_defer_def new_stream_def make_chan_def chan_close_def demo_stream_def)+
  ultimately show ?thesis by (meson reach_step)
qed

theorem stream_delivers_turn_witness:
  "sr_got demo_stream @ chan_buf (sr_out demo_stream) = fst (stream_events ''t'' ''u'' (sr_consumed demo_stream)) \<and>
   \<not> sr_turn_locked demo_stream"
  using stream_delivers_turn [OF demo_stream_reachable] by (simp add: demo_stream_def)

end
