(* ===== verification/Http.thy ===== *)
theory Http imports Callback JsonLines "HOL-Library.AList" begin

text \<open>
  The HTTP transport (\<^verbatim>\<open>http.go\<close>): calls are POST requests, and one reader turns a stream of
  server-sent events into requests and notifications.  Sending a request is the work of
  \<^verbatim>\<open>net/http\<close>: it gives a response or an error, and is an argument.
\<close>

section \<open>Configuration\<close>

text \<open>The headers are a Go map; the list has one entry per key, in the order a range visits them.\<close>

record http =
  ht_base :: string
  ht_headers :: "(string \<times> string) list"
  ht_next :: u64
  ht_requests :: "chan_request gochan"
  ht_notes :: "notification gochan"
  ht_done :: bool
  ht_cancelled :: bool

definition with_http_header :: "string \<Rightarrow> string \<Rightarrow> ('z) http_scheme \<Rightarrow> ('z) http_scheme" where
  "with_http_header key value h = h\<lparr>ht_headers := AList.update key value (ht_headers h)\<rparr>"

definition with_http_bearer_token :: "string \<Rightarrow> ('z) http_scheme \<Rightarrow> ('z) http_scheme" where
  "with_http_bearer_token token = with_http_header ''Authorization'' (''Bearer '' @ token)"

definition with_http_api_key :: "string \<Rightarrow> ('z) http_scheme \<Rightarrow> ('z) http_scheme" where
  "with_http_api_key key = with_http_header ''X-API-Key'' key"

definition trim_slashes :: "string \<Rightarrow> string" where
  "trim_slashes s = rev (dropWhile (\<lambda>c. c = CHR ''/'') (rev s))"

definition new_http :: "string \<Rightarrow> (http \<Rightarrow> http) list \<Rightarrow> http" where
  "new_http base opts =
     fold (\<lambda>opt h. opt h) opts
       \<lparr>ht_base = trim_slashes base, ht_headers = [], ht_next = 0, ht_requests = make_chan 32,
        ht_notes = make_chan 32, ht_done = False, ht_cancelled = False\<rparr>"

section \<open>Requests of the HTTP protocol\<close>

text \<open>\<^verbatim>\<open>http.Header\<close> keeps its keys in canonical form; \<^verbatim>\<open>Set\<close> replaces the value of a key.\<close>

definition header_byte :: "char \<Rightarrow> bool" where
  "header_byte c \<longleftrightarrow>
     (let n = code c in 0x30 \<le> n \<and> n \<le> 0x39 \<or> 0x41 \<le> n \<and> n \<le> 0x5A \<or> 0x61 \<le> n \<and> n \<le> 0x7A)
     \<or> c \<in> set ''!#$%&*+-.^_|~'' \<or> c = CHR 0x27 \<or> c = CHR 0x60"

fun canonical_from :: "bool \<Rightarrow> string \<Rightarrow> string" where
  "canonical_from upper [] = []"
| "canonical_from upper (c # s) =
     (if upper \<and> 0x61 \<le> code c \<and> code c \<le> 0x7A then char_of (code c - 0x20)
      else if \<not> upper \<and> 0x41 \<le> code c \<and> code c \<le> 0x5A then char_of (code c + 0x20)
      else c) # canonical_from (c = CHR ''-'') s"

definition canonical_key :: "string \<Rightarrow> string" where
  "canonical_key k = (if list_all header_byte k then canonical_from True k else k)"

type_synonym http_headers = "string \<rightharpoonup> string"

definition header_set :: "string \<Rightarrow> string \<Rightarrow> http_headers \<Rightarrow> http_headers" where
  "header_set k v m = m(canonical_key k \<mapsto> v)"

definition apply_headers :: "('z) http_scheme \<Rightarrow> http_headers \<Rightarrow> http_headers" where
  "apply_headers h m = fold (\<lambda>(k, v). header_set k v) (ht_headers h) m"

record http_request =
  hr_method :: string
  hr_url :: string
  hr_headers :: http_headers
  hr_body :: string

record http_response =
  rs_status :: int
  rs_body :: "go_error + string"

type_synonym http_client = "http_request \<Rightarrow> go_error + http_response"

definition status_error :: "int \<Rightarrow> string \<Rightarrow> go_error" where
  "status_error status body =
     ErrText (''http transport: unexpected status '' @ show_int status @ '': '' @ trim_space body)"

definition post_request :: "json \<Rightarrow> ('z) http_scheme \<Rightarrow> http_request" where
  "post_request payload h =
     \<lparr>hr_method = ''POST'', hr_url = ht_base h @ ''/rpc'',
      hr_headers = apply_headers h (header_set ''Content-Type'' ''application/json'' Map.empty),
      hr_body = print_json True payload\<rparr>"

definition post :: "http_client \<Rightarrow> json \<Rightarrow> ('z) http_scheme \<Rightarrow> go_error + string" where
  "post send payload h =
     (case send (post_request payload h) of
        Inl e \<Rightarrow> Inl e
      | Inr resp \<Rightarrow>
          (case rs_body resp of
             Inl e \<Rightarrow> Inl e
           | Inr body \<Rightarrow>
               if rs_status resp < 200 \<or> 300 \<le> rs_status resp then Inl (status_error (rs_status resp) body)
               else Inr body))"

section \<open>Calls\<close>

text \<open>
  The select before a call or a notification; with both arms ready either may run.  A nil context is
  one that never ends.
\<close>

definition http_check :: "bool \<Rightarrow> bool \<Rightarrow> go_error option \<Rightarrow> go_error option" where
  "http_check prefer_ctx finished ctx_err =
     (case ctx_err of
        None \<Rightarrow> if finished then Some ErrClosed else None
      | Some e \<Rightarrow> if finished \<and> \<not> prefer_ctx then Some ErrClosed else Some e)"

definition http_envelope_type :: gotype where
  "http_envelope_type = TStruct [(''result'', False, TRaw), (''error'', False, TPtr rpc_error_type)]"

definition rpc_error_of :: "goval \<Rightarrow> rpc_error option" where
  "rpc_error_of v =
     (case v of
        VPtr (VStruct [VInt c, VStr m, VRaw d]) \<Rightarrow> Some \<lparr>rpc_code = c, rpc_message = m, rpc_data = Some d\<rparr>
      | VPtr (VStruct [VInt c, VStr m, VNil]) \<Rightarrow> Some \<lparr>rpc_code = c, rpc_message = m, rpc_data = None\<rparr>
      | _ \<Rightarrow> None)"

definition http_answer :: "string \<Rightarrow> go_error + raw" where
  "http_answer body =
     (case json_parse body of
        None \<Rightarrow> Inl unmarshal_error
      | Some j \<Rightarrow>
          (case json_unmarshal no_codecs http_envelope_type j of
             Some (VStruct [r, e]) \<Rightarrow>
               (case rpc_error_of e of
                  Some err \<Rightarrow> Inl (ErrRPC err)
                | None \<Rightarrow> Inr (case r of VRaw j' \<Rightarrow> Some j' | _ \<Rightarrow> None))
           | _ \<Rightarrow> Inl unmarshal_error))"

definition http_call :: "http_client \<Rightarrow> bool \<Rightarrow> go_error option \<Rightarrow> string \<Rightarrow> raw \<Rightarrow> ('z) http_scheme
    \<Rightarrow> (go_error + raw) \<times> ('z) http_scheme" where
  "http_call send prefer_ctx ctx_err method params h =
     (case http_check prefer_ctx (ht_done h) ctx_err of
        Some e \<Rightarrow> (Inl e, h)
      | None \<Rightarrow>
          let i = ht_next h + 1; h' = h\<lparr>ht_next := i\<rparr> in
          (case post send (enc_request (with_id (method, params) i)) h' of
             Inl e \<Rightarrow> (Inl e, h')
           | Inr body \<Rightarrow> (http_answer body, h')))"

definition http_notify :: "http_client \<Rightarrow> bool \<Rightarrow> go_error option \<Rightarrow> string \<Rightarrow> raw \<Rightarrow> ('z) http_scheme
    \<Rightarrow> go_error option" where
  "http_notify send prefer_ctx ctx_err method params h =
     (case http_check prefer_ctx (ht_done h) ctx_err of
        Some e \<Rightarrow> Some e
      | None \<Rightarrow> (case post send (enc_notification method params) h of Inl e \<Rightarrow> Some e | Inr _ \<Rightarrow> None))"

text \<open>
  The goroutine that posts the answer of a request: it takes the reply, or returns when the transport is done or
  its context has ended.  The result is the request it hands to \<^verbatim>\<open>net/http\<close>; what becomes of it is ignored.
\<close>

definition http_stopped :: "('z) http_scheme \<Rightarrow> bool" where
  "http_stopped h \<longleftrightarrow> ht_done h \<or> ht_cancelled h"

definition http_await_reply :: "bool \<Rightarrow> chan_request \<Rightarrow> ('z) http_scheme \<Rightarrow> http_request option \<times> chan_request" where
  "http_await_reply prefer_stop q h =
     (case await_reply (http_stopped h) prefer_stop q of
        (Wrote j, q') \<Rightarrow> (Some (post_request j h), q')
      | (_, q') \<Rightarrow> (None, q'))"

section \<open>Events\<close>

definition max_sse_line :: nat where
  "max_sse_line = 16 * 1024 * 1024"

definition sse_data :: "string \<Rightarrow> string option" where
  "sse_data line =
     (if has_prefix ''data:'' line then
        (let d = trim_space (trim_prefix ''data:'' line) in if d = [] then None else Some d)
      else None)"

definition sse_messages :: "string \<Rightarrow> string list" where
  "sse_messages s = List.map_filter sse_data (fst (scan_lines max_sse_line s))"

text \<open>A message without a method, or one that does not decode, is skipped.\<close>

definition event_frame :: "json \<Rightarrow> frame option" where
  "event_frame j =
     (case j of
        JObj ms \<Rightarrow>
          (case map_get ''method'' ms of
             Some (JStr m) \<Rightarrow> Some (call_frame m ms)
           | Some JNull \<Rightarrow> Some (call_frame [] ms)
           | _ \<Rightarrow> None)
      | _ \<Rightarrow> None)"

definition http_frame :: "string \<Rightarrow> frame option" where
  "http_frame data = Option.bind (json_parse data) event_frame"

text \<open>
  The selects of \<^verbatim>\<open>dispatch\<close>: the queue, or a context that has ended or a finished transport, which
  stop the reader; \<^term>\<open>None\<close> is a reader that blocks.
\<close>

definition http_deliver :: "bool \<Rightarrow> frame \<Rightarrow> ('z) http_scheme \<Rightarrow> (bool \<times> ('z) http_scheme) option" where
  "http_deliver prefer_stop f h =
     (let stop = ht_done h \<or> ht_cancelled h;
          stopped = (if stop then Some (False, h) else None) in
      if stop \<and> prefer_stop then stopped
      else (case f of
              FRequest i m p \<Rightarrow>
                (case chan_send (ht_requests h) (new_chan_request i m p) of
                   SendOk ch \<Rightarrow> Some (True, h\<lparr>ht_requests := ch\<rparr>) | _ \<Rightarrow> stopped)
            | FNotify n \<Rightarrow>
                (case chan_send (ht_notes h) n of
                   SendOk ch \<Rightarrow> Some (True, h\<lparr>ht_notes := ch\<rparr>) | _ \<Rightarrow> stopped)
            | _ \<Rightarrow> Some (True, h)))"

definition http_dispatch :: "bool \<Rightarrow> string \<Rightarrow> ('z) http_scheme \<Rightarrow> (bool \<times> ('z) http_scheme) option" where
  "http_dispatch prefer_stop data h =
     (case http_frame data of None \<Rightarrow> Some (True, h) | Some f \<Rightarrow> http_deliver prefer_stop f h)"

definition events_request :: "('z) http_scheme \<Rightarrow> http_request" where
  "events_request h =
     \<lparr>hr_method = ''GET'', hr_url = ht_base h @ ''/events'',
      hr_headers = apply_headers h (header_set ''Accept'' ''text/event-stream'' Map.empty), hr_body = []\<rparr>"

definition http_close_done :: "('z) http_scheme \<Rightarrow> ('z) http_scheme" where
  "http_close_done h = h\<lparr>ht_done := True\<rparr>"

definition http_cancel :: "('z) http_scheme \<Rightarrow> ('z) http_scheme" where
  "http_cancel h = h\<lparr>ht_cancelled := True\<rparr>"

section \<open>The reader and its consumers\<close>

text \<open>
  The messages still to be dispatched, and the frames that were dispatched and the values that were
  received as history.  The stream may break at any point; \<^verbatim>\<open>Close\<close> cancels it.
\<close>

record http_sys = http +
  hs_input :: "string list"
  hs_reading :: bool
  hs_frames :: "frame list"
  hs_got_requests :: "chan_request list"
  hs_got_notes :: "notification list"

definition http_start :: "string \<Rightarrow> http_sys \<Rightarrow> bool" where
  "http_start stream s \<longleftrightarrow>
     (\<exists>base opts. s = http.extend (new_http base opts)
        \<lparr>hs_input = sse_messages stream, hs_reading = True, hs_frames = [], hs_got_requests = [], hs_got_notes = []\<rparr> \<and>
      (\<forall>opt \<in> set opts. \<exists>k v. opt = with_http_header k v))"

inductive http_step :: "http_sys \<Rightarrow> http_sys \<Rightarrow> bool" where
  h_dispatched: "hs_reading s \<Longrightarrow> hs_input s = d # ds \<Longrightarrow> http_dispatch p d s = Some (True, t) \<Longrightarrow>
     http_step s (t\<lparr>hs_input := ds, hs_frames := hs_frames s @ (case http_frame d of None \<Rightarrow> [] | Some f \<Rightarrow> [f])\<rparr>)"
| h_stopped: "hs_reading s \<Longrightarrow> hs_input s = d # ds \<Longrightarrow> http_dispatch p d s = Some (False, t) \<Longrightarrow>
     http_step s ((http_close_done t)\<lparr>hs_reading := False\<rparr>)"
| h_ended: "hs_reading s \<Longrightarrow> http_step s ((http_close_done s)\<lparr>hs_reading := False\<rparr>)"
| h_got_request: "chan_recv (ht_requests s) = RecvVal q ch \<Longrightarrow>
     http_step s (s\<lparr>ht_requests := ch, hs_got_requests := hs_got_requests s @ [q]\<rparr>)"
| h_got_note: "chan_recv (ht_notes s) = RecvVal n ch \<Longrightarrow>
     http_step s (s\<lparr>ht_notes := ch, hs_got_notes := hs_got_notes s @ [n]\<rparr>)"
| h_called: "http_call send p e m ps s = (r, t) \<Longrightarrow> http_step s t"
| h_cancelled: "http_step s (http_cancel s)"

end
