(* ===== verification/HttpProps.thy ===== *)
theory HttpProps imports Http RpcProps begin

text \<open>
  The HTTP transport does what its callers rely on: a call is answered by the reply to its own POST,
  and the events of the stream reach the consumers in their order, without gaps.
\<close>

section \<open>The stream of events\<close>

definition sse_event :: "bool \<Rightarrow> json \<Rightarrow> string" where
  "sse_event h j = ''data: '' @ print_json h j @ [CHR 0x0A, CHR 0x0A]"

definition is_message :: "bool \<Rightarrow> json \<Rightarrow> bool" where
  "is_message h j \<longleftrightarrow> (\<exists>ms. j = JObj ms) \<and> json_ok max_depth j \<and> length (print_json h j) + 6 < max_sse_line"

lemma trim_leading_space:
  "code c < 128 \<Longrightarrow> \<not> space1 c \<Longrightarrow> trim_left (CHR '' '' # c # s) = c # s"
  by (cases s) (auto simp: trim_left_ascii space1_def [of "CHR '' ''"] code_def [of "CHR '' ''"])

lemma sse_data_message:
  assumes "is_message h j"
  shows "sse_data (''data: '' @ print_json h j) = Some (print_json h j)"
proof -
  from assms obtain ms where j: "j = JObj ms" by (auto simp: is_message_def)
  have "trim_space (CHR '' '' # print_json h j) = trim_space (print_json h j)"
    by (simp add: j trim_space_def trim_leading_space trim_left_ascii code_def space1_def)
  also have "\<dots> = print_json h j"
    using trim_space_ends [of "CHR ''{''" "CHR ''}''" "print_members h ms"] by (simp add: j code_def space1_def)
  finally have "trim_space (CHR '' '' # print_json h j) = print_json h j" .
  moreover have "print_json h j \<noteq> []" by (simp add: j)
  ultimately show ?thesis by (simp add: sse_data_def has_prefix_def trim_prefix_def Let_def)
qed

lemma sse_messages_event:
  assumes "is_message h j"
  shows "sse_messages (sse_event h j @ rest) = print_json h j # sse_messages rest"
proof -
  let ?l = "''data: '' @ print_json h j"
  have ok: "json_ok max_depth j" and len: "length ?l < max_sse_line" using assms by (auto simp: is_message_def)
  have g: "graphic_text ?l" using print_graphic(1) [OF ok, of h] by (simp add: graphic_def code_def)
  have "scan_lines max_sse_line (?l @ CHR 0x0A # [] @ CHR 0x0A # rest)
      = (?l # [] # fst (scan_lines max_sse_line rest), snd (scan_lines max_sse_line rest))"
    using scan_lines_line [OF g len] scan_lines_line [of "[]" max_sse_line rest]
    by (simp add: max_sse_line_def)
  then have "fst (scan_lines max_sse_line (sse_event h j @ rest)) = ?l # [] # fst (scan_lines max_sse_line rest)"
    by (simp add: sse_event_def)
  moreover have "sse_data [] = None" by (simp add: sse_data_def has_prefix_def)
  ultimately show ?thesis by (simp add: sse_messages_def map_filter_simps sse_data_message [OF assms, simplified])
qed

lemma sse_messages_stream:
  "\<forall>j \<in> set msgs. is_message h j \<Longrightarrow> sse_messages (concat (map (sse_event h) msgs)) = map (print_json h) msgs"
proof (induction msgs)
  case Nil
  show ?case by (simp add: sse_messages_def map_filter_simps)
qed (simp add: sse_messages_event)

lemma http_frame_message: "is_message h j \<Longrightarrow> http_frame (print_json h j) = event_frame j"
  by (auto simp: is_message_def http_frame_def json_parse_print simp del: print_json.simps)


section \<open>Events in their order\<close>

definition note_of :: "frame \<Rightarrow> notification option" where
  "note_of f = (case f of FNotify n \<Rightarrow> Some n | _ \<Rightarrow> None)"

definition request_of :: "frame \<Rightarrow> chan_request option" where
  "request_of f = (case f of FRequest i m p \<Rightarrow> Some (new_chan_request i m p) | _ \<Rightarrow> None)"

text \<open>
  Every message is dispatched or still to come; what was dispatched was received or is queued; the
  transport is done exactly when its reader has stopped.
\<close>

definition http_inv :: "string list \<Rightarrow> http_sys \<Rightarrow> bool" where
  "http_inv msgs s \<longleftrightarrow>
     (\<exists>k \<le> length msgs. hs_input s = drop k msgs \<and> hs_frames s = List.map_filter http_frame (take k msgs)) \<and>
     hs_got_notes s @ chan_buf (ht_notes s) = List.map_filter note_of (hs_frames s) \<and>
     hs_got_requests s @ chan_buf (ht_requests s) = List.map_filter request_of (hs_frames s) \<and>
     (ht_done s \<longleftrightarrow> \<not> hs_reading s) \<and>
     chan_cap (ht_notes s) = 32 \<and> \<not> chan_closed (ht_notes s) \<and> length (chan_buf (ht_notes s)) \<le> 32 \<and>
     chan_cap (ht_requests s) = 32 \<and> \<not> chan_closed (ht_requests s) \<and> length (chan_buf (ht_requests s)) \<le> 32"

lemma map_filter_append: "List.map_filter f (xs @ ys) = List.map_filter f xs @ List.map_filter f ys"
  by (simp add: List.map_filter_def)

lemma map_filter_next:
  assumes "k < length xs"
  shows "List.map_filter f (take (Suc k) xs)
    = List.map_filter f (take k xs) @ (case f (xs ! k) of None \<Rightarrow> [] | Some y \<Rightarrow> [y])"
  using assms by (simp add: take_Suc_conv_app_nth map_filter_append map_filter_simps split: option.split)

lemma new_http_fresh:
  assumes "\<forall>opt \<in> set opts. \<exists>k v. opt = with_http_header k v"
  shows "ht_notes (new_http base opts) = make_chan 32" "ht_requests (new_http base opts) = make_chan 32"
    "\<not> ht_done (new_http base opts)" "ht_next (new_http base opts) = 0"
proof -
  have "let h' = fold (\<lambda>opt h. opt h) opts h in
      ht_notes h' = ht_notes h \<and> ht_requests h' = ht_requests h \<and> ht_done h' = ht_done h \<and> ht_next h' = ht_next h" for h :: http
    using assms
  proof (induction opts arbitrary: h)
    case (Cons opt opts)
    then obtain k v where "opt = with_http_header k v" by auto
    with Cons show ?case by (simp add: with_http_header_def Let_def)
  qed simp
  then show "ht_notes (new_http base opts) = make_chan 32" "ht_requests (new_http base opts) = make_chan 32"
    "\<not> ht_done (new_http base opts)" "ht_next (new_http base opts) = 0"
    by (simp_all add: new_http_def Let_def)
qed

lemma http_inv_start:
  assumes "http_start stream s"
  shows "http_inv (sse_messages stream) s"
proof -
  from assms obtain base opts where
    s: "s = http.extend (new_http base opts)
      \<lparr>hs_input = sse_messages stream, hs_reading = True, hs_frames = [], hs_got_requests = [], hs_got_notes = []\<rparr>"
    and opts: "\<forall>opt \<in> set opts. \<exists>k v. opt = with_http_header k v" by (auto simp: http_start_def)
  with new_http_fresh [OF opts] show ?thesis
    by (auto simp: http_inv_def s http.extend_def map_filter_simps intro!: exI [of _ "0 :: nat"])
qed

text \<open>What a dispatched message does: nothing, or one value at the end of its queue.\<close>

lemma http_dispatch_cases:
  assumes "http_dispatch p d s = Some (True, t)"
  obtains "t = s" "\<And>f. http_frame d = Some f \<Longrightarrow> note_of f = None \<and> request_of f = None"
  | n ch where "http_frame d = Some (FNotify n)" "chan_send (ht_notes s) n = SendOk ch" "t = s\<lparr>ht_notes := ch\<rparr>"
  | i m q ch where "http_frame d = Some (FRequest i m q)"
      "chan_send (ht_requests s) (new_chan_request i m q) = SendOk ch" "t = s\<lparr>ht_requests := ch\<rparr>"
proof (cases "http_frame d")
  case None
  with assms that(1) show thesis by (simp add: http_dispatch_def)
next
  case (Some f)
  show thesis
  proof (cases f)
    case (FRequest i m q)
    with Some assms that(3) show thesis
      by (auto simp: http_dispatch_def http_deliver_def Let_def split: if_splits send_res.splits)
  next
    case (FNotify n)
    with Some assms that(2) show thesis
      by (auto simp: http_dispatch_def http_deliver_def Let_def split: if_splits send_res.splits)
  next
    case (FResponse i r)
    with Some assms that(1) show thesis
      by (auto simp: http_dispatch_def http_deliver_def Let_def note_of_def request_of_def split: if_splits)
  next
    case (FBad e)
    with Some assms that(1) show thesis
      by (auto simp: http_dispatch_def http_deliver_def Let_def note_of_def request_of_def split: if_splits)
  qed
qed

lemma chan_send_SendOk [chan_simps]:
  "chan_send ch x = SendOk ch' \<longleftrightarrow>
     \<not> chan_closed ch \<and> length (chan_buf ch) < chan_cap ch \<and> ch' = ch\<lparr>chan_buf := chan_buf ch @ [x]\<rparr>"
  by (auto simp: chan_send_def)

lemma http_inv_dispatched:
  assumes inv: "http_inv msgs s" and r: "hs_reading s" "hs_input s = d # ds"
    and disp: "http_dispatch p d s = Some (True, t)"
  shows "http_inv msgs (t\<lparr>hs_input := ds, hs_frames := hs_frames s @ (case http_frame d of None \<Rightarrow> [] | Some f \<Rightarrow> [f])\<rparr>)"
    (is "http_inv msgs ?t")
proof -
  from inv obtain k where k: "k \<le> length msgs" "hs_input s = drop k msgs"
    "hs_frames s = List.map_filter http_frame (take k msgs)" by (auto simp: http_inv_def)
  from k(2) r(2) have lt: "k < length msgs" by (cases "k < length msgs") auto
  with k(2) r(2) have d: "msgs ! k = d" "ds = drop (Suc k) msgs"
    by (simp_all add: Cons_nth_drop_Suc [symmetric])
  have "hs_input ?t = drop (Suc k) msgs \<and> hs_frames ?t = List.map_filter http_frame (take (Suc k) msgs)"
    using k(3) d map_filter_next [OF lt, of http_frame] by simp
  with lt have pos: "\<exists>k \<le> length msgs. hs_input ?t = drop k msgs \<and> hs_frames ?t = List.map_filter http_frame (take k msgs)"
    by (intro exI [of _ "Suc k"]) simp
  from disp show ?thesis
  proof (cases rule: http_dispatch_cases)
    case 1
    then have "List.map_filter note_of (hs_frames ?t) = List.map_filter note_of (hs_frames s)"
      "List.map_filter request_of (hs_frames ?t) = List.map_filter request_of (hs_frames s)"
      by (auto simp: map_filter_append map_filter_simps split: option.split)
    with pos inv 1(1) show ?thesis unfolding http_inv_def by simp
  next
    case (2 n ch)
    then show ?thesis using pos inv unfolding http_inv_def
      by (simp add: chan_send_SendOk map_filter_append map_filter_simps note_of_def request_of_def)
  next
    case (3 i m q ch)
    then show ?thesis using pos inv unfolding http_inv_def
      by (simp add: chan_send_SendOk map_filter_append map_filter_simps note_of_def request_of_def)
  qed
qed

lemma http_dispatch_stop: "http_dispatch p d s = Some (False, t) \<Longrightarrow> t = s \<and> (ht_done s \<or> ht_cancelled s)"
  by (auto simp: http_dispatch_def http_deliver_def Let_def split: option.splits frame.splits send_res.splits if_splits)

lemma http_inv_step: "http_step s t \<Longrightarrow> http_inv msgs s \<Longrightarrow> http_inv msgs t"
proof (induction rule: http_step.induct)
  case (h_dispatched s d ds p t)
  then show ?case using http_inv_dispatched by blast
next
  case (h_stopped s d ds p t)
  then have "t = s" using http_dispatch_stop by blast
  with h_stopped show ?case by (simp add: http_inv_def http_close_done_def)
next
  case (h_ended s)
  then show ?case by (simp add: http_inv_def http_close_done_def)
next
  case (h_called send p e m ps s r t)
  then have "\<exists>i. t = s\<lparr>ht_next := i\<rparr> \<or> t = s"
    by (auto simp: http_call_def Let_def split: option.splits sum.splits)
  with h_called show ?case by (auto simp: http_inv_def)
qed (auto simp: http_inv_def chan_recv_Val_iff http_cancel_def)

interpretation http: invariant_system "http_start stream" http_step "http_inv (sse_messages stream)"
  by unfold_locales (auto intro: http_inv_start http_inv_step)

lemma http_frames:
  assumes "reachable (http_start (concat (map (sse_event h) msgs))) http_step s"
    and "\<forall>j \<in> set msgs. is_message h j"
  obtains k where "k \<le> length msgs" "hs_input s = drop k (map (print_json h) msgs)"
    "hs_frames s = List.map_filter event_frame (take k msgs)" "http_inv (map (print_json h) msgs) s"
proof -
  let ?texts = "map (print_json h) msgs"
  note inv = http.reachable_inv [OF assms(1), unfolded sse_messages_stream [OF assms(2)]]
  have frames: "List.map_filter http_frame (take n ?texts) = List.map_filter event_frame (take n msgs)" for n
  proof -
    have "j \<in> set (take n msgs) \<Longrightarrow> http_frame (print_json h j) = event_frame j" for j
      using assms(2) http_frame_message in_set_takeD by metis
    then have "map (http_frame \<circ> print_json h) (take n msgs) = map event_frame (take n msgs)" by simp
    then show ?thesis by (simp add: List.map_filter_def take_map filter_map comp_def cong: filter_cong map_cong)
  qed
  from inv obtain k where "k \<le> length msgs" "hs_input s = drop k ?texts"
    "hs_frames s = List.map_filter event_frame (take k msgs)" by (auto simp: http_inv_def frames)
  with inv that show thesis by blast
qed

text \<open>
  C16. Events arrive in order and none is dropped.  When the stream of the server is a sequence of
  messages, one per event, then at any moment the notifications the client has received, followed by
  the ones in the queue, are those of some first part of the messages, and so are the requests, of
  the same part; the queues never hold more than 32, and while the connection is read and there is a
  message left and room in the queues, the next one can be dispatched.
\<close>

theorem http_events_in_order:
  assumes "reachable (http_start (concat (map (sse_event h) msgs))) http_step s"
    and "\<forall>j \<in> set msgs. is_message h j"
  shows "\<exists>k \<le> length msgs.
     hs_got_notes s @ chan_buf (ht_notes s) = List.map_filter note_of (List.map_filter event_frame (take k msgs)) \<and>
     hs_got_requests s @ chan_buf (ht_requests s)
       = List.map_filter request_of (List.map_filter event_frame (take k msgs)) \<and>
     length (chan_buf (ht_notes s)) \<le> 32 \<and> length (chan_buf (ht_requests s)) \<le> 32 \<and>
     (hs_reading s \<and> k < length msgs \<and> length (chan_buf (ht_notes s)) < 32 \<and> length (chan_buf (ht_requests s)) < 32 \<longrightarrow>
        (\<exists>t. http_step s t \<and> hs_frames t = List.map_filter event_frame (take (Suc k) msgs)))"
proof -
  obtain k where k: "k \<le> length msgs" "hs_input s = drop k (map (print_json h) msgs)"
    "hs_frames s = List.map_filter event_frame (take k msgs)" and inv: "http_inv (map (print_json h) msgs) s"
    using http_frames [OF assms] .
  have "\<exists>t. http_step s t \<and> hs_frames t = List.map_filter event_frame (take (Suc k) msgs)"
    if r: "hs_reading s" and lt: "k < length msgs" and room: "length (chan_buf (ht_notes s)) < 32"
      "length (chan_buf (ht_requests s)) < 32"
  proof -
    let ?d = "print_json h (msgs ! k)"
    have input: "hs_input s = ?d # drop (Suc k) (map (print_json h) msgs)" using k(2) lt by (simp add: Cons_nth_drop_Suc [symmetric])
    have "\<exists>t. http_dispatch False ?d s = Some (True, t)"
      using inv room by (auto simp: http_dispatch_def http_deliver_def Let_def http_inv_def chan_send_def
          split: option.split frame.split)
    then obtain t where t: "http_dispatch False ?d s = Some (True, t)" by blast
    have "http_frame ?d = event_frame (msgs ! k)" using assms(2) lt by (simp add: http_frame_message)
    with k(3) have "hs_frames s @ (case http_frame ?d of None \<Rightarrow> [] | Some f \<Rightarrow> [f])
        = List.map_filter event_frame (take (Suc k) msgs)" by (simp add: map_filter_next [OF lt])
    with h_dispatched [OF r input t] show ?thesis by (intro exI conjI) (assumption, simp)
  qed
  moreover have "hs_got_notes s @ chan_buf (ht_notes s) = List.map_filter note_of (hs_frames s)"
    "hs_got_requests s @ chan_buf (ht_requests s) = List.map_filter request_of (hs_frames s)"
    "length (chan_buf (ht_notes s)) \<le> 32" "length (chan_buf (ht_requests s)) \<le> 32"
    using inv by (simp_all add: http_inv_def)
  ultimately show ?thesis using k(1,3) by metis
qed

text \<open>A stream of one message, received.\<close>

lemma one_event_dispatched:
  assumes "is_message h j" and "event_frame j = Some f"
  obtains s where "reachable (http_start (concat (map (sse_event h) [j]))) http_step s"
    "hs_got_notes s = []" "chan_buf (ht_notes s) = List.map_filter note_of [f]"
    "hs_got_requests s = []" "chan_buf (ht_requests s) = List.map_filter request_of [f]"
proof -
  let ?stream = "concat (map (sse_event h) [j])"
  have ok: "\<forall>j \<in> set [j]. is_message h j" using assms(1) by simp
  let ?s = "http.extend (new_http ''http://h'' [])
      \<lparr>hs_input = [print_json h j], hs_reading = True, hs_frames = [], hs_got_requests = [], hs_got_notes = []\<rparr>"
  have "http_start ?stream ?s"
    unfolding http_start_def sse_messages_stream [OF ok] by (intro exI [of _ "''http://h''"] exI [of _ "[]"]) simp
  then have r: "reachable (http_start ?stream) http_step ?s" by (rule reach_start)
  obtain t where d: "http_dispatch False (print_json h j) ?s = Some (True, t)" and t: "hs_got_notes t = []"
    "chan_buf (ht_notes t) = List.map_filter note_of [f]" "hs_got_requests t = []"
    "chan_buf (ht_requests t) = List.map_filter request_of [f]"
    by (cases f) (simp_all add: http_dispatch_def http_frame_message [OF assms(1)] assms(2) http_deliver_def Let_def
        http.extend_def new_http_def chan_send_def make_chan_def note_of_def request_of_def map_filter_simps
        del: print_json.simps)
  let ?fs = "hs_frames ?s @ (case http_frame (print_json h j) of None \<Rightarrow> [] | Some f \<Rightarrow> [f])"
  have "http_step ?s (t\<lparr>hs_input := [], hs_frames := ?fs\<rparr>)"
    by (rule h_dispatched [of _ _ _ False, OF _ _ d]) (simp_all add: http.extend_def)
  with r have "reachable (http_start ?stream) http_step (t\<lparr>hs_input := [], hs_frames := ?fs\<rparr>)" by (rule reach_step)
  then show thesis by (rule that) (simp_all add: t)
qed

lemma one_note_received:
  assumes "is_message h j" and "event_frame j = Some (FNotify n)"
  shows "\<exists>s. reachable (http_start (concat (map (sse_event h) [j]))) http_step s \<and> hs_got_notes s = [n]"
proof -
  obtain s where s: "reachable (http_start (concat (map (sse_event h) [j]))) http_step s" "hs_got_notes s = []"
    "chan_buf (ht_notes s) = [n]"
    using one_event_dispatched [OF assms] by (auto simp: note_of_def map_filter_simps)
  then have "chan_recv (ht_notes s) = RecvVal n ((ht_notes s)\<lparr>chan_buf := []\<rparr>)" by (simp add: chan_recv_Val_iff)
  from reach_step [OF s(1) h_got_note [OF this]] s(2) show ?thesis by (intro exI conjI) (assumption, simp)
qed

lemma one_request_received:
  assumes "is_message h j" and "event_frame j = Some (FRequest i m p)"
  shows "\<exists>s. reachable (http_start (concat (map (sse_event h) [j]))) http_step s \<and> hs_got_requests s = [new_chan_request i m p]"
proof -
  obtain s where s: "reachable (http_start (concat (map (sse_event h) [j]))) http_step s" "hs_got_requests s = []"
    "chan_buf (ht_requests s) = [new_chan_request i m p]"
    using one_event_dispatched [OF assms] by (auto simp: request_of_def map_filter_simps)
  then have "chan_recv (ht_requests s) = RecvVal (new_chan_request i m p) ((ht_requests s)\<lparr>chan_buf := []\<rparr>)"
    by (simp add: chan_recv_Val_iff)
  from reach_step [OF s(1) h_got_request [OF this]] s(2) show ?thesis by (intro exI conjI) (assumption, simp)
qed

definition demo_event :: json where
  "demo_event = JObj [(''method'', JStr ''turn/started'')]"

lemma demo_event_message: "is_message False demo_event"
  by (simp add: is_message_def demo_event_def valid_utf8_ascii code_def print_members.simps quote_def esc_char_def
      max_sse_line_def max_depth_def)

theorem http_events_in_order_witness:
  "\<exists>s t. reachable (http_start (concat (map (sse_event False) [demo_event]))) http_step s \<and> hs_reading s \<and>
     (\<exists>k \<le> 1. hs_got_notes s @ chan_buf (ht_notes s)
        = List.map_filter note_of (List.map_filter event_frame (take k [demo_event])))"
proof -
  let ?stream = "concat (map (sse_event False) [demo_event])"
  let ?s = "http.extend (new_http ''http://h'' [])
      \<lparr>hs_input = sse_messages ?stream, hs_reading = True, hs_frames = [], hs_got_requests = [], hs_got_notes = []\<rparr>"
  have "http_start ?stream ?s" unfolding http_start_def by (intro exI [of _ "''http://h''"] exI [of _ "[]"]) simp
  then have r: "reachable (http_start ?stream) http_step ?s" by (rule reach_start)
  from http_events_in_order [OF r] demo_event_message
  have "\<exists>k \<le> 1. hs_got_notes ?s @ chan_buf (ht_notes ?s)
        = List.map_filter note_of (List.map_filter event_frame (take k [demo_event]))" by auto
  moreover have "hs_reading ?s" by (simp add: http.extend_def)
  ultimately show ?thesis using r by blast
qed

section \<open>A call and its answer\<close>

definition error_in_range :: "rpc_error option \<Rightarrow> bool" where
  "error_in_range err \<longleftrightarrow>
     (case err of None \<Rightarrow> True
      | Some e \<Rightarrow> valid_utf8 (rpc_message e) \<and> - (2 ^ 63) \<le> rpc_code e \<and> rpc_code e < 2 ^ 63)"

lemma godec_rpc_error:
  assumes "error_in_range (Some e)"
  shows "godec no_codecs rpc_error_type (zero rpc_error_type) (enc_rpc_error e) = Some (rpc_error_val e)"
  using unmarshal_marshal [OF rpc_error_type_ok wt_rpc_error, of e] assms
  by (simp add: json_unmarshal_def enc_rpc_error_eq error_in_range_def)

lemma enc_rpc_error_not_null: "enc_rpc_error e \<noteq> JNull"
  by (simp add: enc_rpc_error_def)

lemma match_envelope:
  "match_name [''result'', ''error''] ''jsonrpc'' = None" "match_name [''result'', ''error''] ''id'' = None"
  "match_name [''result'', ''error''] ''result'' = Some 0" "match_name [''result'', ''error''] ''error'' = Some 1"
  by code_simp+

lemma http_answer_reply:
  assumes "json_ok max_depth (enc_reply i result err)" and "error_in_range err"
  shows "http_answer (print_json h (enc_reply i result err))
    = (case err of None \<Rightarrow> Inr (Some result) | Some e \<Rightarrow> Inl (ErrRPC e))"
proof (cases err)
  case None
  then show ?thesis
    using json_parse_print [OF assms(1), of h]
    by (simp add: http_answer_def enc_reply_def opt_member_def json_unmarshal_def http_envelope_type_def match_envelope
        rpc_error_of_def del: print_json.simps)
next
  case (Some e)
  have "rpc_error_of (VPtr (rpc_error_val e)) = Some e"
    by (cases "rpc_data e") (simp_all add: rpc_error_of_def rpc_error_val_def)
  then show ?thesis
    using json_parse_print [OF assms(1), of h] godec_rpc_error [of e] assms(2) enc_rpc_error_not_null [of e]
    by (simp add: Some http_answer_def enc_reply_def opt_member_def json_unmarshal_def http_envelope_type_def match_envelope
        del: print_json.simps)
qed

text \<open>What an exchange means: its own error, that of reading the body, the status, or the reply.\<close>

definition exchange_outcome :: "go_error + http_response \<Rightarrow> go_error + raw" where
  "exchange_outcome x =
     (case x of
        Inl e \<Rightarrow> Inl e
      | Inr resp \<Rightarrow>
          (case rs_body resp of
             Inl e \<Rightarrow> Inl e
           | Inr body \<Rightarrow>
               if 200 \<le> rs_status resp \<and> rs_status resp < 300 then http_answer body
               else Inl (status_error (rs_status resp) body)))"

lemma exchange_reply:
  "json_ok max_depth (enc_reply i result err) \<Longrightarrow> error_in_range err \<Longrightarrow>
     exchange_outcome (Inr \<lparr>rs_status = 200, rs_body = Inr (print_json html (enc_reply i result err))\<rparr>)
       = (case err of None \<Rightarrow> Inr (Some result) | Some e \<Rightarrow> Inl (ErrRPC e))"
  by (simp add: exchange_outcome_def http_answer_reply)

lemma http_call_open:
  assumes "http_check p (ht_done h) ctx_err = None"
  shows "http_call send p ctx_err method params h =
     (exchange_outcome (send (post_request (enc_request (with_id (method, params) (ht_next h + 1)))
        (h\<lparr>ht_next := ht_next h + 1\<rparr>))), h\<lparr>ht_next := ht_next h + 1\<rparr>)"
  using assms by (auto simp: http_call_def post_def exchange_outcome_def Let_def split: sum.split)

text \<open>
  C15. A call over HTTP has the outcome of its own exchange.  On an open transport it sends one POST to
  the \<^verbatim>\<open>/rpc\<close> of the server, whose body a server reads as the request with a fresh id, and returns what
  the exchange means; when the server answers with a reply to that id, this is the result or the error
  of the reply.  On a finished transport, or after its context, it fails and nothing is sent.
\<close>

theorem http_call_outcome:
  assumes "valid_utf8 method" and "raw_ok params"
  shows "case http_check p (ht_done h) ctx_err of
      Some e \<Rightarrow> http_call send p ctx_err method params h = (Inl e, h)
    | None \<Rightarrow>
        (\<exists>req j. hr_method req = ''POST'' \<and> hr_url req = ht_base h @ ''/rpc'' \<and> json_parse (hr_body req) = Some j \<and>
           read_frame j = FRequest (JNum (show_nat (unat (ht_next h + 1)))) method params \<and>
           http_call send p ctx_err method params h
             = (exchange_outcome (send req), h\<lparr>ht_next := ht_next h + 1\<rparr>) \<and>
           (\<forall>result err html. json_ok max_depth (enc_reply (JNum (show_nat (unat (ht_next h + 1)))) result err) \<and>
               error_in_range err \<and>
               send req = Inr \<lparr>rs_status = 200,
                 rs_body = Inr (print_json html (enc_reply (JNum (show_nat (unat (ht_next h + 1)))) result err))\<rparr> \<longrightarrow>
             fst (http_call send p ctx_err method params h)
               = (case err of None \<Rightarrow> Inr (Some result) | Some e \<Rightarrow> Inl (ErrRPC e))))"
proof (cases "http_check p (ht_done h) ctx_err")
  case (Some e)
  then show ?thesis by (simp add: http_call_def)
next
  case None
  let ?j = "enc_request (with_id (method, params) (ht_next h + 1))"
  let ?req = "post_request ?j (h\<lparr>ht_next := ht_next h + 1\<rparr>)"
  have req: "hr_method ?req = ''POST''" "hr_url ?req = ht_base h @ ''/rpc''" "json_parse (hr_body ?req) = Some ?j"
    using json_parse_print [OF enc_request_ok [OF assms, of "ht_next h + 1"], of True]
    by (simp_all add: post_request_def del: print_json.simps)
  show ?thesis
    unfolding None option.case
    by (rule exI [of _ ?req], rule exI [of _ ?j])
      (simp add: req read_request_frame [OF assms(1)] http_call_open [OF None] exchange_reply del: print_json.simps)
qed

text \<open>The first call of a transport, answered with true and status 200.\<close>

definition demo_http_client :: http_client where
  "demo_http_client req = Inr \<lparr>rs_status = 200, rs_body = Inr (print_json False (enc_reply (JNum (show_nat 1)) (JBool True) None))\<rparr>"

theorem http_call_outcome_witness:
  "fst (http_call demo_http_client False None ''ping'' None (new_http ''http://h'' [])) = Inr (Some (JBool True))"
proof -
  have m: "valid_utf8 ''ping''" "raw_ok None" by (simp_all add: valid_utf8_ascii code_def raw_ok_def)
  have ok: "json_ok max_depth (enc_reply (JNum (show_nat 1)) (JBool True) None)"
    by (simp add: enc_reply_def opt_member_def max_depth_def num_ok_show_nat valid_utf8_ascii code_def)
  have h: "http_check False (ht_done (new_http ''http://h'' [])) None = None" "ht_next (new_http ''http://h'' []) = 0"
    by (simp_all add: new_http_def http_check_def)
  from http_call_outcome [OF m, where p = False and h = "new_http ''http://h'' []" and ctx_err = None
      and send = demo_http_client] ok
  obtain req where "\<forall>result err html. json_ok max_depth (enc_reply (JNum (show_nat (unat (0 + 1 :: u64)))) result err) \<and>
      error_in_range err \<and> demo_http_client req = Inr \<lparr>rs_status = 200,
        rs_body = Inr (print_json html (enc_reply (JNum (show_nat (unat (0 + 1 :: u64)))) result err))\<rparr> \<longrightarrow>
      fst (http_call demo_http_client False None ''ping'' None (new_http ''http://h'' []))
        = (case err of None \<Rightarrow> Inr (Some result) | Some e \<Rightarrow> Inl (ErrRPC e))"
    unfolding h option.case by blast
  from this [rule_format, of "JBool True" None False] ok show ?thesis
    by (simp add: demo_http_client_def error_in_range_def del: print_json.simps)
qed

end
