(* ===== verification/Delivery.thy ===== *)
theory Delivery imports BrokerSystem Events HttpProps begin

text \<open>
  From the connection to a subscriber: the notification loop of the client (\<^verbatim>\<open>notificationLoop\<close> in
  \<^verbatim>\<open>client.go\<close>) between the HTTP transport and the event broker, as one system with the reader of the
  connection, the loop, and everything else that happens to the transport and to the broker.
\<close>

section \<open>The notification loop\<close>

text \<open>
  The loop waits for its channel, has a notification in hand, or has seen the channel closed; then it
  closes the broker.  The order in which the broker visits its subscriptions is an argument.
\<close>

datatype loop_pc = LoopWaits | LoopHolds notification | LoopCloses | LoopEnded

definition note_event :: "timelib \<Rightarrow> notification \<Rightarrow> event" where
  "note_event lib n = decode_event lib (nt_method n) (nt_params n)"

definition loop_receive :: "notification gochan \<Rightarrow> loop_pc \<Rightarrow> (loop_pc \<times> notification gochan) option" where
  "loop_receive ch pc =
     (case pc of
        LoopWaits \<Rightarrow>
          (case chan_recv ch of
             RecvVal n ch' \<Rightarrow> Some (LoopHolds n, ch')
           | RecvClosed \<Rightarrow> Some (LoopCloses, ch)
           | RecvBlock \<Rightarrow> None)
      | _ \<Rightarrow> None)"

definition loop_broker :: "timelib \<Rightarrow> u64 list \<Rightarrow> loop_pc \<Rightarrow> (event, 'z) bworld_scheme \<Rightarrow>
    (loop_pc \<times> (event, 'z) bworld_scheme) option" where
  "loop_broker lib visit pc w =
     (case pc of
        LoopHolds n \<Rightarrow> map_option (Pair LoopWaits) (br_publish visit (note_event lib n) w)
      | LoopCloses \<Rightarrow> map_option (Pair LoopEnded) (br_close visit w)
      | _ \<Rightarrow> None)"

section \<open>The system\<close>

text \<open>
  History: the notifications whose publication is over, and for each channel of a subscription how many there
  were when it was made.
\<close>

record delivery =
  dl_http :: http_sys
  dl_broker :: "event bsys"
  dl_loop :: loop_pc
  dl_published :: "notification list"
  dl_from :: "addr \<Rightarrow> nat"

definition delivery_start :: "string \<Rightarrow> delivery \<Rightarrow> bool" where
  "delivery_start stream s \<longleftrightarrow> http_start stream (dl_http s) \<and> broker_start (dl_broker s) \<and>
     dl_loop s = LoopWaits \<and> dl_published s = [] \<and> dl_from s = (\<lambda>_. 0)"

definition note_from :: "delivery \<Rightarrow> addr \<Rightarrow> nat" where
  "note_from s a = (if bw_brk (dl_broker s) \<le> a then length (dl_published s) else dl_from s a)"

text \<open>
  The loop is the only one that receives from the notifications of the transport and the only one that
  publishes.  Subscribers come, read and go, and \<^verbatim>\<open>Close\<close> of the client closes the broker at any time.
\<close>

inductive delivery_step :: "timelib \<Rightarrow> delivery \<Rightarrow> delivery \<Rightarrow> bool" for lib :: timelib where
  d_transport: "http_step (dl_http s) h \<Longrightarrow> hs_got_notes h = hs_got_notes (dl_http s) \<Longrightarrow>
     delivery_step lib s (s\<lparr>dl_http := h\<rparr>)"
| d_received: "loop_receive (ht_notes (dl_http s)) (dl_loop s) = Some (LoopHolds n, ch) \<Longrightarrow>
     delivery_step lib s (s\<lparr>dl_http := (dl_http s)\<lparr>ht_notes := ch, hs_got_notes := hs_got_notes (dl_http s) @ [n]\<rparr>,
       dl_loop := LoopHolds n\<rparr>)"
| d_saw_closed: "loop_receive (ht_notes (dl_http s)) (dl_loop s) = Some (LoopCloses, ch) \<Longrightarrow>
     delivery_step lib s (s\<lparr>dl_loop := LoopCloses\<rparr>)"
| d_published: "dl_loop s = LoopHolds n \<Longrightarrow> enumerates visit (br_subs (bw_broker (dl_broker s))) \<Longrightarrow>
     loop_broker lib visit (dl_loop s) (dl_broker s) = Some (pc, w) \<Longrightarrow>
     delivery_step lib s (s\<lparr>dl_loop := pc, dl_broker := w\<lparr>bs_pub := note_publish (note_event lib n) (dl_broker s)\<rparr>,
       dl_published := dl_published s @ [n]\<rparr>)"
| d_closed: "dl_loop s = LoopCloses \<Longrightarrow> enumerates visit (br_subs (bw_broker (dl_broker s))) \<Longrightarrow>
     loop_broker lib visit (dl_loop s) (dl_broker s) = Some (pc, w) \<Longrightarrow>
     delivery_step lib s (s\<lparr>dl_loop := pc, dl_broker := w\<rparr>)"
| d_broker: "broker_step (dl_broker s) w \<Longrightarrow> bs_pub w = bs_pub (dl_broker s) \<Longrightarrow>
     delivery_step lib s (s\<lparr>dl_broker := w, dl_from := note_from s\<rparr>)"

section \<open>The invariant\<close>

definition in_hand :: "loop_pc \<Rightarrow> notification list" where
  "in_hand pc = (case pc of LoopHolds n \<Rightarrow> [n] | _ \<Rightarrow> [])"

text \<open>
  What the loop received it has published or holds.  Each channel was offered what was published since it was
  made, until the broker was closed.
\<close>

definition loop_inv :: "timelib \<Rightarrow> delivery \<Rightarrow> bool" where
  "loop_inv lib s \<longleftrightarrow>
     dl_published s @ in_hand (dl_loop s) = hs_got_notes (dl_http s) \<and>
     (dl_loop s = LoopWaits \<or> (\<exists>n. dl_loop s = LoopHolds n)) \<and>
     (\<forall>a. dl_from s a \<le> length (dl_published s)) \<and>
     (\<forall>a < bw_brk (dl_broker s).
        prefix (bs_pub (dl_broker s) a) (drop (dl_from s a) (map (note_event lib) (dl_published s))) \<and>
        (\<not> br_closed (bw_broker (dl_broker s)) \<longrightarrow>
           bs_pub (dl_broker s) a = drop (dl_from s a) (map (note_event lib) (dl_published s))))"

definition delivery_inv :: "timelib \<Rightarrow> string list \<Rightarrow> delivery \<Rightarrow> bool" where
  "delivery_inv lib texts s \<longleftrightarrow> http_inv texts (dl_http s) \<and> broker_inv (dl_broker s) \<and> loop_inv lib s"

lemma delivery_inv_start: "delivery_start stream s \<Longrightarrow> delivery_inv lib (sse_messages stream) s"
proof -
  assume s: "delivery_start stream s"
  then have "hs_got_notes (dl_http s) = []" by (auto simp: delivery_start_def http_start_def http.extend_def)
  with s http_inv_start [of stream "dl_http s"] broker_inv_start [of "dl_broker s"] show ?thesis
    by (auto simp: delivery_inv_def delivery_start_def loop_inv_def in_hand_def broker_start_def)
qed

text \<open>A step of the broker never opens it again, and addresses are never given back.\<close>

lemma broker_step_mono: "broker_step s t \<Longrightarrow> broker_inv s \<Longrightarrow>
    (br_closed (bw_broker s) \<longrightarrow> br_closed (bw_broker t)) \<and> bw_brk s \<le> bw_brk t"
proof (induction rule: broker_step.induct)
  case (subscribe s sub t)
  then show ?case
    by (auto simp: br_subscribe_def alloc_chan_def close_addr_def chan_simps Let_def split: if_splits)
next
  case (publish "is" s e t)
  then have "t = s \<or> t = pass (offer e) (has_room s) (dom (br_subs (bw_broker s))) s"
    using publish_loop_eq [OF broker_invD(1) [OF publish(3)]] by (auto simp: br_publish_def enumerates_def split: if_splits)
  then show ?case by auto
next
  case (unsubscribe k s sub t)
  then show ?case by (auto simp: sub_close_eq)
next
  case (close "is" s t)
  then show ?case using br_close_eq [OF close(3,1)] by (cases "br_closed (bw_broker s)") (auto simp: br_close_def)
qed simp

lemma loop_receive_Some:
  "loop_receive ch pc = Some (pc', ch') \<longleftrightarrow> pc = LoopWaits \<and>
     ((\<exists>n. chan_recv ch = RecvVal n ch' \<and> pc' = LoopHolds n) \<or> chan_recv ch = RecvClosed \<and> pc' = LoopCloses \<and> ch' = ch)"
  by (auto simp: loop_receive_def split: loop_pc.splits recv_res.splits)

lemma loop_broker_Some:
  "loop_broker lib visit (LoopHolds n) w = Some (pc, v) \<longleftrightarrow> pc = LoopWaits \<and> br_publish visit (note_event lib n) w = Some v"
  "loop_broker lib visit LoopCloses w = Some (pc, v) \<longleftrightarrow> pc = LoopEnded \<and> br_close visit w = Some v"
  by (auto simp: loop_broker_def)

lemma received_step:
  assumes "loop_receive (ht_notes h) pc = Some (LoopHolds n, ch)"
  shows "http_step h (h\<lparr>ht_notes := ch, hs_got_notes := hs_got_notes h @ [n]\<rparr>)"
  using assms by (intro h_got_note) (simp add: loop_receive_Some)

lemma loop_inv_published:
  assumes inv: "loop_inv lib s" "broker_inv (dl_broker s)" and h: "dl_loop s = LoopHolds n"
    and e: "enumerates visit (br_subs (bw_broker (dl_broker s)))"
    and p: "br_publish visit (note_event lib n) (dl_broker s) = Some w"
  shows "loop_inv lib (s\<lparr>dl_loop := LoopWaits, dl_broker := w\<lparr>bs_pub := note_publish (note_event lib n) (dl_broker s)\<rparr>,
       dl_published := dl_published s @ [n]\<rparr>)"
proof -
  from p e have w: "w = dl_broker s \<or> w = pass (offer (note_event lib n)) (has_room (dl_broker s)) (dom (br_subs (bw_broker (dl_broker s)))) (dl_broker s)"
    using publish_loop_eq [OF broker_invD(1) [OF inv(2)]] by (auto simp: br_publish_def enumerates_def split: if_splits)
  then have sel: "bw_brk w = bw_brk (dl_broker s)" "br_closed (bw_broker w) = br_closed (bw_broker (dl_broker s))" by auto
  let ?ev = "note_event lib" and ?ns = "dl_published s" and ?b = "dl_broker s"
  from inv(1) have from_le: "dl_from s a \<le> length ?ns" for a by (simp add: loop_inv_def)
  then have ext: "drop (dl_from s a) (map ?ev (?ns @ [n])) = drop (dl_from s a) (map ?ev ?ns) @ [?ev n]" for a by simp
  have "prefix (note_publish (?ev n) ?b a) (drop (dl_from s a) (map ?ev (?ns @ [n]))) \<and>
      (\<not> br_closed (bw_broker ?b) \<longrightarrow> note_publish (?ev n) ?b a = drop (dl_from s a) (map ?ev (?ns @ [n])))" if "a < bw_brk ?b" for a
  proof -
    from that inv(1) have "prefix (bs_pub ?b a) (drop (dl_from s a) (map ?ev ?ns))"
      "\<not> br_closed (bw_broker ?b) \<Longrightarrow> bs_pub ?b a = drop (dl_from s a) (map ?ev ?ns)"
      by (auto simp: loop_inv_def not_le)
    then show ?thesis unfolding ext by (cases "br_closed (bw_broker ?b)") (simp_all add: note_publish_def that prefix_prefix)
  qed
  with sel have "\<forall>a < bw_brk w. prefix (note_publish (?ev n) ?b a) (drop (dl_from s a) (map ?ev (?ns @ [n]))) \<and>
      (\<not> br_closed (bw_broker w) \<longrightarrow> note_publish (?ev n) ?b a = drop (dl_from s a) (map ?ev (?ns @ [n])))"
    by simp
  moreover have "?ns @ [n] = hs_got_notes (dl_http s)" using inv(1) h by (simp add: loop_inv_def in_hand_def)
  moreover have "dl_from s a \<le> length (?ns @ [n])" for a using from_le [of a] by simp
  ultimately show ?thesis by (simp add: loop_inv_def in_hand_def del: map_append length_append)
qed

lemma loop_inv_broker:
  assumes inv: "loop_inv lib s" "broker_inv (dl_broker s)" and st: "broker_step (dl_broker s) w" "bs_pub w = bs_pub (dl_broker s)"
  shows "loop_inv lib (s\<lparr>dl_broker := w, dl_from := note_from s\<rparr>)"
proof -
  note mono = broker_step_mono [OF st(1) inv(2)]
  have new: "bw_brk (dl_broker s) \<le> a \<Longrightarrow> bs_pub (dl_broker s) a = []" for a using broker_invD(5) [OF inv(2)] by blast
  have "bs_pub w a = drop (note_from s a) (map (note_event lib) (dl_published s))" if "bw_brk (dl_broker s) \<le> a" for a
    using that new st(2) by (simp add: note_from_def)
  with inv(1) mono st(2) show ?thesis by (auto simp: loop_inv_def note_from_def not_le)
qed

lemma delivery_inv_step: "delivery_step lib s t \<Longrightarrow> delivery_inv lib texts s \<Longrightarrow> delivery_inv lib texts t"
proof (induction rule: delivery_step.induct)
  case (d_transport s h)
  then show ?case using http_inv_step by (auto simp: delivery_inv_def loop_inv_def)
next
  case (d_received s n ch)
  then have "dl_loop s = LoopWaits" by (simp add: loop_receive_Some)
  with d_received show ?case
    using http_inv_step [OF received_step [OF d_received(1)]] by (auto simp: delivery_inv_def loop_inv_def in_hand_def)
next
  case (d_saw_closed s ch)
  then have "chan_closed (ht_notes (dl_http s))"
    by (auto simp: loop_receive_Some chan_recv_def split: list.splits if_splits)
  with d_saw_closed show ?case by (simp add: delivery_inv_def http_inv_def)
next
  case (d_published s n visit pc w)
  then have p: "pc = LoopWaits" "br_publish visit (note_event lib n) (dl_broker s) = Some w" by (simp_all add: loop_broker_Some)
  from d_published have inv: "http_inv texts (dl_http s)" "broker_inv (dl_broker s)" "loop_inv lib s" by (simp_all add: delivery_inv_def)
  from inv_publish [OF inv(2) d_published(2) p(2)] loop_inv_published [OF inv(3,2) d_published(1,2) p(2)] inv(1) p(1)
  show ?case by (simp add: delivery_inv_def)
next
  case (d_closed s visit pc w)
  then show ?case by (auto simp: delivery_inv_def loop_inv_def)
next
  case (d_broker s w)
  then show ?case using broker_inv_step loop_inv_broker by (auto simp: delivery_inv_def)
qed

interpretation delivery: invariant_system "delivery_start stream" "delivery_step lib" "delivery_inv lib (sse_messages stream)"
  by unfold_locales (auto intro: delivery_inv_start delivery_inv_step)

lemma delivery_http: "reachable (delivery_start stream) (delivery_step lib) s \<Longrightarrow> reachable (http_start stream) http_step (dl_http s)"
proof (induction rule: reachable.induct)
  case (reach_start s)
  then show ?case by (auto simp: delivery_start_def intro: reachable.reach_start)
next
  case (reach_step s t)
  from reach_step(2) have "dl_http t = dl_http s \<or> http_step (dl_http s) (dl_http t)"
    by cases (auto intro: received_step)
  with reach_step(3) show ?case by (auto intro: reachable.reach_step)
qed

text \<open>
  Over HTTP the loop never ends: the transport closes no channel of notifications, so nothing but
  \<^verbatim>\<open>Close\<close> of the client tells the subscribers that the connection is gone.
\<close>

lemma loop_never_ends:
  assumes "reachable (delivery_start stream) (delivery_step lib) s"
  shows "dl_loop s \<noteq> LoopCloses \<and> dl_loop s \<noteq> LoopEnded"
  using delivery.reachable_inv [OF assms] by (auto simp: delivery_inv_def loop_inv_def)

section \<open>From the wire to a subscriber\<close>

lemma publish_with_room:
  assumes "open_at w" and "\<not> br_closed (bw_broker w)" and "enumerates is (br_subs (bw_broker w))"
    and "br_subs (bw_broker w) i = Some a" and "bw_heap w a = Some ch" and "length (chan_buf ch) < chan_cap ch"
  shows "\<exists>t. br_publish is e w = Some t \<and> open_at t \<and> \<not> br_closed (bw_broker t) \<and>
     br_subs (bw_broker t) i = Some a \<and> bw_heap t a = Some (ch\<lparr>chan_buf := chan_buf ch @ [e]\<rparr>)"
proof -
  let ?t = "pass (offer e) (has_room w) (dom (br_subs (bw_broker w))) w"
  have "br_publish is e w = Some ?t"
    using publish_loop_eq [OF assms(1), of "is" e] assms(2,3) by (simp add: br_publish_def enumerates_def)
  moreover have "open_at ?t"
    by (rule pass_open_at [OF assms(1)]) (auto simp: has_room_def offer_def split: option.splits)
  moreover have "br_subs (bw_broker ?t) i = Some a" using assms(4-6) by (simp add: pass_subs has_room_def)
  moreover have "bw_heap ?t a = Some (ch\<lparr>chan_buf := chan_buf ch @ [e]\<rparr>)"
    using assms(4-6) served_dom [of w a] by (auto simp: pass_heap offer_def)
  ultimately show ?thesis using assms(2) by auto
qed

text \<open>What the loop can do next.\<close>

lemma loop_can_receive:
  assumes "dl_loop s = LoopWaits" and "chan_buf (ht_notes (dl_http s)) = n # ns"
  shows "\<exists>t. delivery_step lib s t \<and> dl_loop t = LoopHolds n \<and> chan_buf (ht_notes (dl_http t)) = ns"
proof -
  have "loop_receive (ht_notes (dl_http s)) (dl_loop s) = Some (LoopHolds n, (ht_notes (dl_http s))\<lparr>chan_buf := ns\<rparr>)"
    using assms by (simp add: loop_receive_def chan_recv_def)
  from d_received [OF this] show ?thesis by (intro exI conjI) (assumption, simp_all)
qed

lemma loop_can_publish:
  assumes inv: "broker_inv (dl_broker s)" and h: "dl_loop s = LoopHolds n" and ch: "bw_heap (dl_broker s) a = Some ch"
    and room: "\<not> chan_closed ch" "length (chan_buf ch) < 128"
  shows "\<exists>t. delivery_step lib s t \<and> dl_loop t = LoopWaits \<and>
     bw_heap (dl_broker t) a = Some (ch\<lparr>chan_buf := chan_buf ch @ [note_event lib n]\<rparr>)"
proof -
  let ?w = "dl_broker s"
  from broker_invD(6) [OF inv ch] room obtain i where i: "br_subs (bw_broker ?w) i = Some a" and cap: "chan_cap ch = 128"
    by (auto simp: chan_ok_def sub_buffer_def)
  with broker_invD(2) [OF inv] have "\<not> br_closed (bw_broker ?w)" by auto
  moreover obtain visit where v: "enumerates visit (br_subs (bw_broker ?w))"
    using finite_distinct_list [of "dom (br_subs (bw_broker ?w))"] by (auto simp: enumerates_def)
  ultimately obtain t where t: "br_publish visit (note_event lib n) ?w = Some t"
    "bw_heap t a = Some (ch\<lparr>chan_buf := chan_buf ch @ [note_event lib n]\<rparr>)"
    using publish_with_room [OF broker_invD(1) [OF inv] _ v i ch, of "note_event lib n"] room cap by auto
  have "loop_broker lib visit (dl_loop s) ?w = Some (LoopWaits, t)" using t(1) by (simp add: h loop_broker_Some)
  from d_published [OF h v this] t(2) show ?thesis by (intro exI conjI) (assumption, simp_all)
qed

text \<open>
  C3. An event on the wire reaches the subscribers.  The server streams messages over HTTP while the client's
  loop runs and anything else happens to the transport, the broker and its subscriptions.  In every state
  and for every channel a subscriber was given, what it has read and can read are decoded notifications of the
  messages, those that were published since it subscribed, in their order and without a gap; as long as its channel
  is open all of them are there, but the one the loop has in hand and those in the transport's queue.  The
  loop takes the next one from the queue, and puts the one in hand into the channel if there is room.
\<close>

theorem wire_to_subscriber:
  assumes "reachable (delivery_start (concat (map (sse_event h) msgs))) (delivery_step lib) s"
    and "\<forall>j \<in> set msgs. is_message h j" and "bw_heap (dl_broker s) a = Some ch"
  shows "(\<exists>k \<le> length msgs. let wire = map (note_event lib) (List.map_filter note_of (List.map_filter event_frame (take k msgs))) in
       prefix (bs_got (dl_broker s) a @ chan_buf ch) (drop (dl_from s a) wire) \<and>
       (\<not> chan_closed ch \<longrightarrow>
          bs_got (dl_broker s) a @ chan_buf ch @ map (note_event lib) (in_hand (dl_loop s) @ chan_buf (ht_notes (dl_http s)))
            = drop (dl_from s a) wire)) \<and>
     (dl_loop s = LoopWaits \<and> chan_buf (ht_notes (dl_http s)) \<noteq> [] \<longrightarrow>
        (\<exists>t. delivery_step lib s t \<and> dl_loop t = LoopHolds (hd (chan_buf (ht_notes (dl_http s)))))) \<and>
     (\<forall>n. dl_loop s = LoopHolds n \<and> \<not> chan_closed ch \<and> length (chan_buf ch) < 128 \<longrightarrow>
        (\<exists>t. delivery_step lib s t \<and> dl_loop t = LoopWaits \<and>
           bw_heap (dl_broker t) a = Some (ch\<lparr>chan_buf := chan_buf ch @ [note_event lib n]\<rparr>)))"
proof -
  let ?b = "dl_broker s" and ?h = "dl_http s" and ?ev = "map (note_event lib)"
  from delivery.reachable_inv [OF assms(1)] have inv: "broker_inv ?b" and link: "loop_inv lib s"
    by (simp_all add: delivery_inv_def)
  obtain k where k: "k \<le> length msgs" "hs_frames ?h = List.map_filter event_frame (take k msgs)"
    "http_inv (map (print_json h) msgs) ?h" using http_frames [OF delivery_http [OF assms(1)] assms(2)] .
  let ?rest = "in_hand (dl_loop s) @ chan_buf (ht_notes ?h)"
  from k have "hs_got_notes ?h @ chan_buf (ht_notes ?h) = List.map_filter note_of (List.map_filter event_frame (take k msgs))"
    by (simp add: http_inv_def)
  with link have wire: "?ev (List.map_filter note_of (List.map_filter event_frame (take k msgs))) = ?ev (dl_published s) @ ?ev ?rest"
    by (simp add: loop_inv_def) (metis append.assoc map_append)
  have "dl_from s a \<le> length (dl_published s)" using link by (simp add: loop_inv_def)
  then have dropped: "drop (dl_from s a) (?ev (dl_published s) @ ?ev ?rest) = drop (dl_from s a) (?ev (dl_published s)) @ ?ev ?rest"
    by simp
  have "a < bw_brk ?b" using broker_invD(4) [OF inv, of a] assms(3) by simp
  with link have pub: "prefix (bs_pub ?b a) (drop (dl_from s a) (?ev (dl_published s)))"
    "\<not> br_closed (bw_broker ?b) \<Longrightarrow> bs_pub ?b a = drop (dl_from s a) (?ev (dl_published s))"
    by (auto simp: loop_inv_def not_le)
  from broker_invD(6) [OF inv assms(3)] have ch: "prefix (bs_got ?b a @ chan_buf ch) (bs_pub ?b a)"
    "\<not> chan_closed ch \<Longrightarrow> bs_got ?b a @ chan_buf ch = bs_pub ?b a \<and> \<not> br_closed (bw_broker ?b)"
    using broker_invD(2) [OF inv] by (auto simp: chan_ok_def)
  have "prefix (bs_got ?b a @ chan_buf ch) (drop (dl_from s a) (?ev (dl_published s) @ ?ev ?rest))"
    unfolding dropped using ch(1) pub(1) by (meson prefix_order.trans prefixI)
  moreover have "bs_got ?b a @ chan_buf ch @ ?ev ?rest = drop (dl_from s a) (?ev (dl_published s) @ ?ev ?rest)" if "\<not> chan_closed ch"
    unfolding dropped using ch(2) [OF that] pub(2) by (metis append.assoc)
  moreover have "\<exists>t. delivery_step lib s t \<and> dl_loop t = LoopHolds (hd (chan_buf (ht_notes ?h)))"
    if "dl_loop s = LoopWaits" "chan_buf (ht_notes ?h) \<noteq> []"
    using loop_can_receive [OF that(1), of "hd (chan_buf (ht_notes ?h))" "tl (chan_buf (ht_notes ?h))" lib] that(2) by auto
  ultimately show ?thesis
  proof (intro conjI)
    assume p: "prefix (bs_got ?b a @ chan_buf ch) (drop (dl_from s a) (?ev (dl_published s) @ ?ev ?rest))"
      and q: "\<not> chan_closed ch \<Longrightarrow> bs_got ?b a @ chan_buf ch @ ?ev ?rest = drop (dl_from s a) (?ev (dl_published s) @ ?ev ?rest)"
    show "\<exists>k \<le> length msgs. let wire = ?ev (List.map_filter note_of (List.map_filter event_frame (take k msgs))) in
       prefix (bs_got ?b a @ chan_buf ch) (drop (dl_from s a) wire) \<and>
       (\<not> chan_closed ch \<longrightarrow> bs_got ?b a @ chan_buf ch @ ?ev ?rest = drop (dl_from s a) wire)"
      unfolding Let_def by (rule exI [of _ k]) (use k(1) p in \<open>simp only: wire\<close>, use q in blast)
  qed (use loop_can_publish [OF inv _ assms(3)] in blast)+
qed

text \<open>A subscriber that came before the first notification, and the loop with that notification in hand.\<close>

definition demo_note :: notification where
  "demo_note = \<lparr>nt_method = ''turn/started'', nt_params = None\<rparr>"

definition idle_broker :: "event bsys" where
  "idle_broker = \<lparr>bw_broker = new_event_broker, bw_heap = Map.empty, bw_brk = 0,
      bs_pub = (\<lambda>_. []), bs_got = (\<lambda>_. []), bs_handles = []\<rparr>"

definition demo_subscriber :: "event bsys" where
  "demo_subscriber =
     \<lparr>bw_broker = \<lparr>br_next = 1, br_subs = [1 \<mapsto> 0], br_closed = False\<rparr>, bw_heap = [0 \<mapsto> make_chan 128], bw_brk = 1,
      bs_pub = (\<lambda>_. []), bs_got = (\<lambda>_. []), bs_handles = [\<lparr>sub_ch = 0, sub_cancel = Some 1\<rparr>]\<rparr>"

lemma demo_subscribes: "broker_step idle_broker demo_subscriber"
proof -
  let ?t = "demo_subscriber\<lparr>bs_handles := []\<rparr>" and ?h = "\<lparr>sub_ch = 0, sub_cancel = Some 1\<rparr>"
  have "br_subscribe idle_broker = Some (?h, ?t)"
    by (simp add: br_subscribe_def alloc_chan_def new_event_broker_def demo_subscriber_def idle_broker_def sub_buffer_def fun_upd_def)
  then have "broker_step idle_broker (?t\<lparr>bs_handles := bs_handles idle_broker @ [?h]\<rparr>)"
    by (intro broker_step.subscribe) (simp_all add: new_event_broker_def idle_broker_def)
  moreover have "?t\<lparr>bs_handles := bs_handles idle_broker @ [?h]\<rparr> = demo_subscriber"
    by (simp add: demo_subscriber_def idle_broker_def)
  ultimately show ?thesis by metis
qed

definition delivery_with :: "http_sys \<Rightarrow> event bsys \<Rightarrow> loop_pc \<Rightarrow> delivery" where
  "delivery_with h w pc = \<lparr>dl_http = h, dl_broker = w, dl_loop = pc, dl_published = [], dl_from = (\<lambda>_. 0)\<rparr>"

lemma transport_alone:
  "reachable (http_start stream) http_step h \<Longrightarrow> hs_got_notes h = [] \<Longrightarrow>
     reachable (delivery_start stream) (delivery_step lib) (delivery_with h idle_broker LoopWaits)"
proof (induction rule: reachable.induct)
  case (reach_start h)
  then show ?case
    by (intro reachable.reach_start) (simp add: delivery_start_def delivery_with_def broker_start_def idle_broker_def)
next
  case (reach_step h h')
  have "\<exists>ns. hs_got_notes h' = hs_got_notes h @ ns" using reach_step(2)
  proof cases
    case (h_dispatched d ds p t)
    from h_dispatched(4) show ?thesis by (cases rule: http_dispatch_cases) (simp_all add: h_dispatched(1))
  next
    case (h_stopped d ds p t)
    with http_dispatch_stop show ?thesis by (fastforce simp: http_close_done_def)
  next
    case (h_called send p e m ps r)
    then have "\<exists>i. h' = h\<lparr>ht_next := i\<rparr> \<or> h' = h" by (auto simp: http_call_def Let_def split: option.splits sum.splits)
    then show ?thesis by auto
  qed (auto simp: http_close_done_def http_cancel_def)
  with reach_step(4) have none: "hs_got_notes h = []" by simp
  let ?s = "delivery_with h idle_broker LoopWaits"
  have "delivery_step lib ?s (?s\<lparr>dl_http := h'\<rparr>)"
    using reach_step(2,4) none by (intro d_transport) (simp_all add: delivery_with_def)
  moreover have "?s\<lparr>dl_http := h'\<rparr> = delivery_with h' idle_broker LoopWaits" by (simp add: delivery_with_def)
  ultimately show ?case using reach_step(3) [OF none] by (metis reachable.reach_step)
qed

lemma demo_delivery:
  "\<exists>s. reachable (delivery_start (concat (map (sse_event False) [demo_event]))) (delivery_step lib) s \<and>
     dl_broker s = demo_subscriber \<and> dl_loop s = LoopHolds demo_note"
proof -
  let ?reach = "reachable (delivery_start (concat (map (sse_event False) [demo_event]))) (delivery_step lib)"
  have "event_frame demo_event = Some (FNotify demo_note)"
    by (simp add: event_frame_def demo_event_def map_get_def call_frame_def demo_note_def)
  from one_event_dispatched [OF demo_event_message this]
  obtain h where h: "reachable (http_start (concat (map (sse_event False) [demo_event]))) http_step h"
    "hs_got_notes h = []" "chan_buf (ht_notes h) = [demo_note]" by (auto simp: note_of_def List.map_filter_def)
  let ?s = "delivery_with h idle_broker LoopWaits" and ?t = "delivery_with h demo_subscriber LoopWaits"
  have "delivery_step lib ?s (?s\<lparr>dl_broker := demo_subscriber, dl_from := note_from ?s\<rparr>)"
    by (rule d_broker) (simp_all add: delivery_with_def demo_subscribes, simp add: demo_subscriber_def idle_broker_def)
  moreover have "?s\<lparr>dl_broker := demo_subscriber, dl_from := note_from ?s\<rparr> = ?t"
    by (simp add: delivery_with_def note_from_def [abs_def] idle_broker_def)
  ultimately have t: "?reach ?t" using transport_alone [OF h(1,2)] by (metis reachable.reach_step)
  have "loop_receive (ht_notes (dl_http ?t)) (dl_loop ?t) = Some (LoopHolds demo_note, (ht_notes h)\<lparr>chan_buf := []\<rparr>)"
    using h(3) by (simp add: loop_receive_def chan_recv_def delivery_with_def)
  from reachable.reach_step [OF t d_received [OF this]] show ?thesis
    by (intro exI conjI) (assumption, simp_all add: delivery_with_def)
qed

theorem wire_to_subscriber_witness:
  "\<forall>lib. \<exists>s t. dl_loop s = LoopHolds demo_note \<and> bw_heap (dl_broker s) 0 = Some (make_chan 128) \<and> delivery_step lib s t \<and>
     bw_heap (dl_broker t) 0 = Some ((make_chan 128)\<lparr>chan_buf := [note_event lib demo_note]\<rparr>)"
proof
  fix lib
  obtain s where s: "reachable (delivery_start (concat (map (sse_event False) [demo_event]))) (delivery_step lib) s"
    "dl_broker s = demo_subscriber" "dl_loop s = LoopHolds demo_note" using demo_delivery by blast
  have "\<forall>j \<in> set [demo_event]. is_message False j" using demo_event_message by simp
  moreover have ch: "bw_heap (dl_broker s) 0 = Some (make_chan 128)" by (simp add: s(2) demo_subscriber_def)
  ultimately show "\<exists>s t. dl_loop s = LoopHolds demo_note \<and> bw_heap (dl_broker s) 0 = Some (make_chan 128) \<and> delivery_step lib s t \<and>
     bw_heap (dl_broker t) 0 = Some ((make_chan 128)\<lparr>chan_buf := [note_event lib demo_note]\<rparr>)"
    using wire_to_subscriber [OF s(1), of 0 "make_chan 128"] s(3) by auto
qed

end
