(* ===== verification/TypedHttp.thy ===== *)
theory TypedHttp imports HttpProps ClientProps begin

text \<open>
  The methods of the client over the HTTP transport: the transport as a connection of \<open>ClientApi\<close>, and
  a typed method together with a server that sees nothing but the text of the requests.
\<close>

section \<open>The transport as a connection\<close>

text \<open>
  Calls have a context that does not end.  Parameters that cannot be encoded make the call fail after
  its id was taken.
\<close>

definition encode_error :: go_error where
  "encode_error = ErrText ''json: error calling MarshalJSON''"

definition http_conn_call :: "http_client \<Rightarrow> string \<Rightarrow> payload \<Rightarrow> http \<Rightarrow> (go_error + raw) \<times> http" where
  "http_conn_call send method p h =
     (case p of
        NoParams \<Rightarrow> http_call send False None method None h
      | Params j \<Rightarrow> http_call send False None method (Some j) h
      | BadParams \<Rightarrow>
          (case http_check False (ht_done h) None of
             Some e \<Rightarrow> (Inl e, h)
           | None \<Rightarrow> (Inl encode_error, h\<lparr>ht_next := ht_next h + 1\<rparr>)))"

definition http_conn_notify :: "http_client \<Rightarrow> string \<Rightarrow> payload \<Rightarrow> http \<Rightarrow> go_error option \<times> http" where
  "http_conn_notify send method p h =
     (case p of
        NoParams \<Rightarrow> (http_notify send False None method None h, h)
      | Params j \<Rightarrow> (http_notify send False None method (Some j) h, h)
      | BadParams \<Rightarrow>
          (case http_check False (ht_done h) None of Some e \<Rightarrow> (Some e, h) | None \<Rightarrow> (Some encode_error, h)))"

definition http_connection :: "http_client \<Rightarrow> http connection" where
  "http_connection send =
     \<lparr>conn_call = http_conn_call send, conn_notify = http_conn_notify send,
      conn_close = (\<lambda>h. (None, http_close_done (http_cancel h)))\<rparr>"

section \<open>A server of text\<close>

text \<open>
  What a server does with the POSTs of a method: it parses the body, reads it as a request, decodes the
  parameters, and answers with the reply to the request's id.  What it does with others is free.
\<close>

definition answers_method :: "http_client \<Rightarrow> string \<Rightarrow> gotype \<Rightarrow> gotype \<Rightarrow> (goval \<Rightarrow> goval) \<Rightarrow> bool" where
  "answers_method send method req_t res_t f \<longleftrightarrow>
     (\<forall>r j i p v. hr_method r = ''POST'' \<and> json_parse (hr_body r) = Some j \<and>
        read_frame j = FRequest i method (Some p) \<and> json_unmarshal no_codecs req_t p = Some v \<longrightarrow>
        (\<exists>html. send r = Inr \<lparr>rs_status = 200,
           rs_body = Inr (print_json html (enc_reply i (goenc no_codecs res_t (f v)) None))\<rparr>))"

lemma http_call_to_server:
  assumes "answers_method send method req_t res_t f" and "\<not> ht_done h" and "valid_utf8 method" and "raw_ok (Some p)"
    and "json_unmarshal no_codecs req_t p = Some v"
    and "json_ok (max_depth - 1) (goenc no_codecs res_t (f v))"
  shows "http_conn_call send method (Params p) h
    = (Inr (Some (goenc no_codecs res_t (f v))), h\<lparr>ht_next := ht_next h + 1\<rparr>)"
proof -
  let ?i = "ht_next h + 1" and ?r = "goenc no_codecs res_t (f v)"
  let ?j = "enc_request (with_id (method, Some p) ?i)" and ?h = "h\<lparr>ht_next := ht_next h + 1\<rparr>"
  have parse: "json_parse (hr_body (post_request ?j ?h)) = Some ?j" "hr_method (post_request ?j ?h) = ''POST''"
    using json_parse_print [OF enc_request_ok [OF assms(3,4), of ?i], of True]
    by (simp_all add: post_request_def del: print_json.simps)
  have reply: "json_ok max_depth (enc_reply (JNum (show_nat (unat ?i))) ?r None)"
    using assms(6) by (simp add: enc_reply_def opt_member_def max_depth_def num_ok_show_nat valid_utf8_ascii code_def)
  obtain html where "send (post_request ?j ?h)
      = Inr \<lparr>rs_status = 200, rs_body = Inr (print_json html (enc_reply (JNum (show_nat (unat ?i))) ?r None))\<rparr>"
    using assms(1,5) parse read_request_frame [OF assms(3), of "Some p" ?i] unfolding answers_method_def by blast
  moreover have "http_check False (ht_done h) None = None" using assms(2) by (simp add: http_check_def)
  ultimately show ?thesis
    using exchange_reply [OF reply, of html]
    by (simp add: http_conn_call_def http_call_open error_in_range_def del: print_json.simps)
qed

lemma typed_api_method: "(op, method, req_t, res_t) \<in> set (typed_api c) \<Longrightarrow> valid_utf8 method"
  by (auto simp: typed_api_def valid_utf8_ascii code_def)

text \<open>
  C30. A typed method over HTTP is the server's function.  A server parses the text of the POST, decodes
  the parameters, and prints its reply; the caller gets the value the server computed from the value
  the caller passed, and the transport has used one id.  This holds for every typed method, every
  such server and every value the wire can carry.
\<close>

theorem typed_call_over_http:
  assumes "(op, method, req_t, res_t) \<in> set (typed_api (http_connection send))"
    and "answers_method send method req_t res_t f" and "\<not> ht_done h"
    and "wt no_codecs req_t req" and "json_ok (max_depth - 1) (goenc no_codecs req_t req)"
    and "wt no_codecs res_t (f req)" and "json_ok (max_depth - 1) (goenc no_codecs res_t (f req))"
  shows "op req h = (Inr (f req), h\<lparr>ht_next := ht_next h + 1\<rparr>)"
proof -
  have "req_t \<in> set wire_types" using typed_api_types [OF assms(1)] by blast
  then have "json_unmarshal no_codecs req_t (goenc no_codecs req_t req) = Some req"
    using assms(4) by (auto intro!: unmarshal_marshal wire_types_ok)
  moreover have "raw_ok (Some (goenc no_codecs req_t req))" using assms(5) by (simp add: raw_ok_def)
  ultimately have "http_conn_call send method (Params (goenc no_codecs req_t req)) h
      = (Inr (Some (goenc no_codecs res_t (f req))), h\<lparr>ht_next := ht_next h + 1\<rparr>)"
    using typed_api_method [OF assms(1)] assms(2,3,7) by (intro http_call_to_server)
  then show ?thesis
    by (intro typed_call [OF assms(1) _ assms(6)]) (simp add: http_connection_def enc_def)
qed

text \<open>A server of the diff method that quotes the turn it was asked for.\<close>

definition demo_diff :: "goval \<Rightarrow> goval" where
  "demo_diff v = VStruct [VStr (vstr (hd (vfields v)))]"

definition demo_diff_server :: http_client where
  "demo_diff_server r =
     (case json_parse (hr_body r) of
        Some j \<Rightarrow>
          (case read_frame j of
             FRequest i m (Some p) \<Rightarrow>
               (case json_unmarshal no_codecs TurnDiffRequest_t p of
                  Some v \<Rightarrow> Inr \<lparr>rs_status = 200,
                    rs_body = Inr (print_json False (enc_reply i (goenc no_codecs TurnDiffResult_t (demo_diff v)) None))\<rparr>
                | None \<Rightarrow> Inr \<lparr>rs_status = 400, rs_body = Inr ''bad parameters''\<rparr>)
           | _ \<Rightarrow> Inr \<lparr>rs_status = 400, rs_body = Inr ''bad request''\<rparr>)
      | None \<Rightarrow> Inr \<lparr>rs_status = 400, rs_body = Inr ''bad request''\<rparr>)"

lemma demo_diff_server: "answers_method demo_diff_server MethodTurnDiff TurnDiffRequest_t TurnDiffResult_t demo_diff"
  unfolding answers_method_def demo_diff_server_def
  by (intro allI impI exI [of _ False]) (simp del: print_json.simps)

theorem typed_call_over_http_witness:
  "TurnDiff (http_connection demo_diff_server)
     (VStruct [VStr ''t'', VStr []]) (new_http ''http://h'' [])
   = (Inr (VStruct [VStr ''t'']), (new_http ''http://h'' [])\<lparr>ht_next := 1\<rparr>)"
proof -
  let ?c = "http_connection demo_diff_server"
  let ?q = "VStruct [VStr ''t'', VStr []]"
  have "(TurnDiff ?c, MethodTurnDiff, TurnDiffRequest_t, TurnDiffResult_t) \<in> set (typed_api ?c)"
    by (simp add: typed_api_def)
  moreover have "wt no_codecs TurnDiffRequest_t ?q" "wt no_codecs TurnDiffResult_t (demo_diff ?q)"
    by (simp_all add: TurnDiffRequest_t_def TurnDiffResult_t_def demo_diff_def valid_utf8_ascii code_def)
  moreover have "json_ok (max_depth - 1) (goenc no_codecs TurnDiffRequest_t ?q)"
    "json_ok (max_depth - 1) (goenc no_codecs TurnDiffResult_t (demo_diff ?q))"
    by (simp_all add: TurnDiffRequest_t_def TurnDiffResult_t_def demo_diff_def valid_utf8_ascii code_def max_depth_def
        coerce_ascii del: coerce_utf8.simps)
  ultimately show ?thesis
    using typed_call_over_http [OF _ demo_diff_server, of "TurnDiff ?c" "new_http ''http://h'' []" ?q]
    by (simp add: new_http_def demo_diff_def)
qed

end
