(* ===== verification/RpcPromises.thy ===== *)
theory RpcPromises imports RpcProps Promises begin

text \<open>
  The JSON-RPC transport keeps promises too: the system of \<open>RpcSystem\<close>, reconnects included, refines
  the specification of \<open>Promises\<close>.  A call is named by its session and its id, since a reconnect
  starts the ids anew.
\<close>

section \<open>The promise of a call\<close>

text \<open>
  A call is open while its channel is in the pending map, and answered when a value for it is in
  flight or in its channel.
\<close>

definition call_status :: "call_pc \<Rightarrow> bool \<Rightarrow> call_result list \<Rightarrow> call_result promise" where
  "call_status pc pending vs =
     (case pc of
        Returned r \<Rightarrow> Delivered r
      | Aborted e \<Rightarrow> Lost
      | _ \<Rightarrow> if pending then Open else (case vs of [] \<Rightarrow> Lost | r # rs \<Rightarrow> Answered r))"

definition rpc_values :: "jsys \<Rightarrow> addr \<Rightarrow> call_result list" where
  "rpc_values s a = map flight_value (filter (\<lambda>f. flight_addr f = a) (js_flights s)) @ buffered (jt_heap s) a"

definition rpc_status :: "jsys \<Rightarrow> call_thread \<Rightarrow> call_result promise" where
  "rpc_status s c = call_status (ct_pc c) (ct_ch c \<in> ran (jt_pending s)) (rpc_values s (ct_ch c))"

definition rpc_promises :: "jsys \<Rightarrow> ((u64 \<times> u64) \<times> call_result promise) list" where
  "rpc_promises s = map (\<lambda>c. ((ct_session c, ct_id c), rpc_status s c)) (js_calls s)"

text \<open>How the places of a value may change: nothing, or it leaves the map, or it is dropped.\<close>

definition place_moves :: "bool \<Rightarrow> 'r list \<Rightarrow> bool \<Rightarrow> 'r list \<Rightarrow> bool" where
  "place_moves p v p' v' \<longleftrightarrow> p' = p \<and> v' = v \<or> p \<and> \<not> p' \<or> \<not> p \<and> \<not> p' \<and> v' = []"

definition may_become :: "'r promise \<Rightarrow> 'r promise \<Rightarrow> bool" where
  "may_become p q \<longleftrightarrow> q = p \<or> evolves p q"

lemma call_status_moves:
  "place_moves p v p' v' \<Longrightarrow> may_become (call_status pc p v) (call_status pc p' v')"
  by (cases pc; cases v; cases v') (auto simp: place_moves_def may_become_def call_status_def evolves_def)

lemma rpc_values_one:
  assumes "rpc_inv s"
  shows "of_bool (a \<in> ran (jt_pending s)) + length (rpc_values s a) + of_bool (a \<in> fst ` returned s) \<le> (1 :: nat)"
  using rpc_invD(5) [OF assms, of a] by (simp add: tokens_def rpc_values_def in_flight_def)

lemma call_channel_inj:
  assumes "rpc_inv s" and "k < length (js_calls s)" and "l < length (js_calls s)"
    and "ct_ch (js_calls s ! k) = ct_ch (js_calls s ! l)"
  shows "k = l"
proof -
  have "map (\<lambda>(i, a, sid). a) (keys s) = map ct_ch (js_calls s)" by (simp add: keys_def call_key_def)
  with rpc_invD(1) [OF assms(1)] have "distinct (map ct_ch (js_calls s))" by (simp add: calls_ok_def)
  with assms(2-4) show ?thesis by (simp add: distinct_conv_nth) (metis length_map nth_map)
qed

section \<open>Steps and promises\<close>

lemma rpc_become_promises:
  assumes "length (js_calls t) = length (js_calls s)"
    and "\<And>k. k < length (js_calls s) \<Longrightarrow> call_key (js_calls t ! k) = call_key (js_calls s ! k) \<and>
      may_become (rpc_status s (js_calls s ! k)) (rpc_status t (js_calls t ! k))"
  shows "promise_step\<^sup>*\<^sup>* (rpc_promises s) (rpc_promises t)"
  by (rule promises_evolve) (use assms in \<open>auto simp: rpc_promises_def call_key_def may_become_def\<close>)

text \<open>Steps that move values and no program counter.\<close>

lemma rpc_moved_promises:
  assumes "js_calls t = js_calls s"
    and "\<And>a. place_moves (a \<in> ran (jt_pending s)) (rpc_values s a) (a \<in> ran (jt_pending t)) (rpc_values t a)"
  shows "promise_step\<^sup>*\<^sup>* (rpc_promises s) (rpc_promises t)"
  by (rule rpc_become_promises) (simp_all add: assms rpc_status_def call_status_moves)

text \<open>Steps of one call.\<close>

lemma rpc_of_call_promises:
  assumes "k < length (js_calls s)" and calls: "js_calls t = (js_calls s)[k := (js_calls s ! k)\<lparr>ct_pc := pc\<rparr>]"
    and own: "may_become (rpc_status s (js_calls s ! k))
      (call_status pc (ct_ch (js_calls s ! k) \<in> ran (jt_pending t)) (rpc_values t (ct_ch (js_calls s ! k))))"
    and others: "\<And>l. l < length (js_calls s) \<Longrightarrow> l \<noteq> k \<Longrightarrow>
      place_moves (ct_ch (js_calls s ! l) \<in> ran (jt_pending s)) (rpc_values s (ct_ch (js_calls s ! l)))
        (ct_ch (js_calls s ! l) \<in> ran (jt_pending t)) (rpc_values t (ct_ch (js_calls s ! l)))"
  shows "promise_step\<^sup>*\<^sup>* (rpc_promises s) (rpc_promises t)"
proof (rule rpc_become_promises)
  fix l assume l: "l < length (js_calls s)"
  show "call_key (js_calls t ! l) = call_key (js_calls s ! l) \<and>
      may_become (rpc_status s (js_calls s ! l)) (rpc_status t (js_calls t ! l))"
  proof (cases "l = k")
    case True
    with assms(1) own show ?thesis by (simp add: calls call_key_def rpc_status_def)
  next
    case False
    with l others [OF l] show ?thesis by (simp add: calls rpc_status_def call_status_moves)
  qed
qed (simp add: calls)

lemma rpc_set_pc_promises:
  assumes "at_pc s k pc" and "pc \<in> {Writing, Waiting}" and "pc' = Waiting \<or> (\<exists>e. pc' = Removing e)"
  shows "promise_step\<^sup>*\<^sup>* (rpc_promises s) (rpc_promises (set_pc k pc' s))"
proof (rule rpc_of_call_promises [of k])
  have v: "rpc_values (set_pc k pc' s) a = rpc_values s a" for a by (simp add: rpc_values_def)
  show "k < length (js_calls s)" "js_calls (set_pc k pc' s) = (js_calls s)[k := (js_calls s ! k)\<lparr>ct_pc := pc'\<rparr>]"
    using assms(1) by (simp_all add: at_pc_def set_pc_def)
  show "may_become (rpc_status s (js_calls s ! k)) (call_status pc' (ct_ch (js_calls s ! k) \<in> ran (jt_pending (set_pc k pc' s)))
      (rpc_values (set_pc k pc' s) (ct_ch (js_calls s ! k))))"
    using assms by (auto simp: at_pc_def rpc_status_def call_status_def may_become_def v)
  show "place_moves (ct_ch (js_calls s ! l) \<in> ran (jt_pending s)) (rpc_values s (ct_ch (js_calls s ! l)))
        (ct_ch (js_calls s ! l) \<in> ran (jt_pending (set_pc k pc' s))) (rpc_values (set_pc k pc' s) (ct_ch (js_calls s ! l)))" for l
    by (simp add: place_moves_def v)
qed

lemma rpc_registered_promises:
  assumes inv: "rpc_inv s" and n: "jt_next s \<noteq> - 1" and reg: "call_register s = (Inr (i, a, c), t)"
  shows "promise_step\<^sup>*\<^sup>* (rpc_promises s) (rpc_promises (t\<lparr>js_calls := js_calls s @
    [\<lparr>ct_id = i, ct_ch = a, ct_conn = c, ct_session = jt_session s, ct_pc = Writing\<rparr>]\<rparr>))"
    (is "promise_step\<^sup>*\<^sup>* _ (rpc_promises ?t)")
proof -
  let ?c = "\<lparr>ct_id = i, ct_ch = a, ct_conn = c, ct_session = jt_session s, ct_pc = Writing\<rparr>"
  from reg have i: "i = jt_next s + 1" "a = jt_brk s"
    and t: "t = s\<lparr>jt_next := i, jt_heap := (jt_heap s)(a \<mapsto> make_chan 1), jt_brk := Suc a,
              jt_pending := (jt_pending s)(i \<mapsto> a)\<rparr>"
    by (auto simp: call_register_def Let_def split: if_splits option.splits)
  note parts = rpc_invD [OF inv]
  have keys: "keys ?t = keys s @ [(i, a, jt_session s)]" by (simp add: keys_def call_key_def)
  have "a \<notin> (\<lambda>(i, a, sid). a) ` set (keys s)" "(jt_session s, i) \<notin> (\<lambda>(i, a, sid). (sid, i)) ` set (keys s)"
    using rpc_invD(1) [OF inv_register [OF inv n reg]] unfolding calls_ok_def keys by simp_all
  then have fresh: "(j, b, sid) \<in> set (keys s) \<Longrightarrow> b \<noteq> a \<and> (sid, j) \<noteq> (jt_session s, i)" for j b sid
    by (force simp: image_iff)
  then have free: "i \<notin> dom (jt_pending s)" using parts(2) unfolding pending_ok_def by blast
  have heap: "jt_heap s a = None" using parts(3) i by (auto simp: heap_ok_def)
  have same: "rpc_status ?t d = rpc_status s d" if "d \<in> set (js_calls s)" for d
  proof -
    from that have "call_key d \<in> set (keys s)" by (simp add: keys_def)
    with fresh have "ct_ch d \<noteq> a" by (auto simp: call_key_def)
    then show ?thesis using free by (simp add: rpc_status_def rpc_values_def t buffered_def ran_map_upd domIff)
  qed
  have "rpc_status ?t ?c = Open" using free by (simp add: rpc_status_def call_status_def t ran_map_upd domIff)
  with same have eq: "rpc_promises ?t = rpc_promises s @ [((jt_session s, i), Open)]"
    by (simp add: rpc_promises_def)
  have "(jt_session s, i) \<notin> fst ` set (rpc_promises s)"
  proof
    assume "(jt_session s, i) \<in> fst ` set (rpc_promises s)"
    then obtain d where "d \<in> set (js_calls s)" "ct_session d = jt_session s" "ct_id d = i" by (auto simp: rpc_promises_def)
    moreover from this(1) have "(ct_id d, ct_ch d, ct_session d) \<in> set (keys s)" by (auto simp: keys_def call_key_def)
    ultimately show False using fresh by blast
  qed
  then show ?thesis unfolding eq by (simp add: promised r_into_rtranclp)
qed

lemma rpc_received_promises:
  assumes inv: "rpc_inv s" and k: "at_pc s k Waiting" and a: "a = ct_ch (js_calls s ! k)"
    and heap: "jt_heap s a = Some ch" and recv: "chan_recv ch = RecvVal r ch'"
  shows "promise_step\<^sup>*\<^sup>* (rpc_promises s) (rpc_promises ((set_pc k (Returned r) s)\<lparr>jt_heap := (jt_heap s)(a \<mapsto> ch')\<rparr>))"
    (is "promise_step\<^sup>*\<^sup>* _ (rpc_promises ?t)")
proof (rule rpc_of_call_promises [of k])
  from k show n: "k < length (js_calls s)" by (simp add: at_pc_def)
  show "js_calls ?t = (js_calls s)[k := (js_calls s ! k)\<lparr>ct_pc := Returned r\<rparr>]" by (simp add: set_pc_def)
  from recv obtain xs where "chan_buf ch = r # xs" by (auto simp: chan_recv_Val_iff)
  then have "rpc_values s a = map flight_value (filter (\<lambda>f. flight_addr f = a) (js_flights s)) @ r # xs"
    using heap by (simp add: rpc_values_def buffered_def)
  with rpc_values_one [OF inv, of a] have "rpc_values s a = [r]" "a \<notin> ran (jt_pending s)" by auto
  then have "rpc_status s (js_calls s ! k) = Answered r"
    using k a by (simp add: rpc_status_def call_status_def at_pc_def)
  then show "may_become (rpc_status s (js_calls s ! k))
      (call_status (Returned r) (ct_ch (js_calls s ! k) \<in> ran (jt_pending ?t)) (rpc_values ?t (ct_ch (js_calls s ! k))))"
    by (simp add: may_become_def evolves_def call_status_def)
  fix l assume "l < length (js_calls s)" "l \<noteq> k"
  with call_channel_inj [OF inv _ n] a have "ct_ch (js_calls s ! l) \<noteq> a" by metis
  then show "place_moves (ct_ch (js_calls s ! l) \<in> ran (jt_pending s)) (rpc_values s (ct_ch (js_calls s ! l)))
      (ct_ch (js_calls s ! l) \<in> ran (jt_pending ?t)) (rpc_values ?t (ct_ch (js_calls s ! l)))"
    by (simp add: place_moves_def rpc_values_def buffered_def)
qed

text \<open>Removing an id takes at most one channel out of the map; that of another call is then lost.\<close>

lemma place_moves_removed:
  assumes "rpc_inv s"
  shows "place_moves (a \<in> ran (jt_pending s)) (rpc_values s a)
    (a \<in> ran (jt_pending (remove_pending i s))) (rpc_values (remove_pending i s) a)"
proof -
  have "ran (jt_pending (remove_pending i s)) \<subseteq> ran (jt_pending s)" by (auto simp: remove_pending_def ran_def)
  moreover have "rpc_values (remove_pending i s) a = rpc_values s a" by (simp add: rpc_values_def remove_pending_def)
  ultimately show ?thesis by (auto simp: place_moves_def)
qed

lemma rpc_removed_promises:
  assumes inv: "rpc_inv s" and k: "at_pc s k (Removing e)"
  shows "promise_step\<^sup>*\<^sup>* (rpc_promises s) (rpc_promises (set_pc k (Aborted e) (remove_pending i s)))"
    (is "promise_step\<^sup>*\<^sup>* _ (rpc_promises ?t)")
proof (rule rpc_of_call_promises [of k])
  show "k < length (js_calls s)" "js_calls ?t = (js_calls s)[k := (js_calls s ! k)\<lparr>ct_pc := Aborted e\<rparr>]"
    using k by (simp_all add: at_pc_def set_pc_def remove_pending_def)
  show "may_become (rpc_status s (js_calls s ! k))
      (call_status (Aborted e) (ct_ch (js_calls s ! k) \<in> ran (jt_pending ?t)) (rpc_values ?t (ct_ch (js_calls s ! k))))"
    using k by (auto simp: may_become_def evolves_def rpc_status_def call_status_def at_pc_def split: list.split)
  show "place_moves (ct_ch (js_calls s ! l) \<in> ran (jt_pending s)) (rpc_values s (ct_ch (js_calls s ! l)))
      (ct_ch (js_calls s ! l) \<in> ran (jt_pending ?t)) (rpc_values ?t (ct_ch (js_calls s ! l)))" for l
    using place_moves_removed [OF inv, of "ct_ch (js_calls s ! l)" i] by (simp add: rpc_values_def)
qed

lemma rpc_response_promises:
  assumes inv: "rpc_inv s" and take: "take_pending sid i s = (TakeSend a, t)"
  shows "promise_step\<^sup>*\<^sup>* (rpc_promises s)
    (rpc_promises (t\<lparr>js_flights := Put a r # js_flights s, js_log := insert (sid, i, r) (js_log s)\<rparr>))"
    (is "promise_step\<^sup>*\<^sup>* _ (rpc_promises ?t)")
proof (rule rpc_moved_promises)
  from take have p: "jt_pending s i = Some a" and t: "t = remove_pending i s"
    by (auto simp: take_pending_def split: if_splits option.splits)
  show "js_calls ?t = js_calls s" by (simp add: t remove_pending_def)
  note ran = ran_del [OF pending_inj [OF rpc_invD(1,2) [OF inv]] p]
  have "a \<in> ran (jt_pending s)" using p by (rule ranI)
  then show "place_moves (b \<in> ran (jt_pending s)) (rpc_values s b) (b \<in> ran (jt_pending ?t)) (rpc_values ?t b)" for b
    using ran [of b] by (cases "b = a") (simp_all add: place_moves_def t remove_pending_def rpc_values_def)
qed

lemma rpc_landed_promises:
  assumes inv: "rpc_inv s" and fl: "js_flights s = fs @ f # gs" and a: "flight_addr f = a"
    and t: "t = s\<lparr>js_flights := fs @ gs\<rparr> \<or>
      (\<exists>ch ch'. jt_heap s a = Some ch \<and> chan_send ch (flight_value f) = SendOk ch' \<and>
         t = s\<lparr>jt_heap := (jt_heap s)(a \<mapsto> ch'), js_flights := fs @ gs\<rparr>)"
  shows "promise_step\<^sup>*\<^sup>* (rpc_promises s) (rpc_promises t)"
proof (rule rpc_moved_promises)
  show "js_calls t = js_calls s" using t by auto
  have pend: "jt_pending t = jt_pending s" using t by auto
  have one: "length (rpc_values s a) \<le> 1" "a \<notin> ran (jt_pending s)"
    using rpc_values_one [OF inv, of a] a by (auto simp: rpc_values_def fl)
  then have none: "filter (\<lambda>f. flight_addr f = a) (fs @ gs) = []" "buffered (jt_heap s) a = []"
    using a by (simp_all add: rpc_values_def fl)
  have v: "rpc_values s a = [flight_value f]" using none a by (simp add: rpc_values_def fl)
  have other: "b \<noteq> a \<Longrightarrow> rpc_values t b = rpc_values s b" for b
    using t a by (auto simp: rpc_values_def fl buffered_def)
  have "rpc_values t a = [] \<or> rpc_values t a = [flight_value f]"
    using t none by (auto simp: rpc_values_def buffered_def chan_send_def split: if_splits)
  then show "place_moves (b \<in> ran (jt_pending s)) (rpc_values s b) (b \<in> ran (jt_pending t)) (rpc_values t b)" for b
    using one(2) v other [of b] by (cases "b = a") (auto simp: place_moves_def pend)
qed

lemma rpc_flush_promises:
  assumes inv: "rpc_inv s" and os: "offers_of (jt_pending s) e os"
    and views: "js_calls t = js_calls s" "jt_heap t = jt_heap s" "jt_pending t = Map.empty" "js_flights t = os @ js_flights s"
  shows "promise_step\<^sup>*\<^sup>* (rpc_promises s) (rpc_promises t)"
proof (rule rpc_moved_promises [OF views(1)])
  fix a
  have "length (filter (\<lambda>f. flight_addr f = a) os) = of_bool (a \<in> ran (jt_pending s))"
    using offers_count [OF os pending_inj [OF rpc_invD(1,2) [OF inv]], of a] by (simp add: in_flight_def)
  then have "a \<notin> ran (jt_pending s) \<Longrightarrow> rpc_values t a = rpc_values s a" by (simp add: rpc_values_def views)
  then show "place_moves (a \<in> ran (jt_pending s)) (rpc_values s a) (a \<in> ran (jt_pending t)) (rpc_values t a)"
    by (auto simp: place_moves_def views)
qed

text \<open>The end of a session, closing and a reconnect all flush the pending calls.\<close>

lemma flushes:
  "session_end sid s = (Some pending, t) \<Longrightarrow> pending = jt_pending s \<and> js_calls t = js_calls s \<and> jt_heap t = jt_heap s \<and> jt_pending t = Map.empty"
  "close_lock s = (Some pending, t) \<Longrightarrow> pending = jt_pending s \<and> js_calls t = js_calls s \<and> jt_heap t = jt_heap s \<and> jt_pending t = Map.empty"
  "reconnect_install conn s = (Inr pending, t) \<Longrightarrow> pending = jt_pending s \<and> js_calls t = js_calls s \<and> jt_heap t = jt_heap s \<and> jt_pending t = Map.empty"
  by (auto simp: session_end_def close_lock_def reconnect_install_def flush_pending_def with_cancel_def Let_def split: if_splits)

lemma rpc_promises_step: "rpc_step s t \<Longrightarrow> rpc_inv s \<Longrightarrow> promise_step\<^sup>*\<^sup>* (rpc_promises s) (rpc_promises t)"
proof (induction rule: rpc_step.induct)
  case (call_registered s i a c t)
  then show ?case by (blast intro: rpc_registered_promises)
next
  case (received s k a ch r ch')
  then show ?case by (blast intro: rpc_received_promises)
next
  case (removed s k e)
  then show ?case by (blast intro: rpc_removed_promises)
next
  case (response sid i s a t r)
  then show ?case by (blast intro: rpc_response_promises)
next
  case (put s fs a r gs d b t)
  show ?case
    by (rule rpc_landed_promises [OF put(3,1) flight_sel(1)]) (use put_result_cases [OF put(2)] in auto)
next
  case (offer s fs a r gs)
  show ?case
    by (rule rpc_landed_promises [OF offer(2,1) flight_sel(2)]) (use offer_result_cases [of a r s] in auto)
next
  case (ended sid s pending t os)
  then show ?case using flushes(1) [OF ended(1)] by (intro rpc_flush_promises [of s ErrDisconnected os]) simp_all
next
  case (closing s pending t os)
  then show ?case using flushes(2) [OF closing(1)] by (intro rpc_flush_promises [of s ErrClosed os]) simp_all
next
  case (reconnected s conn pending t os)
  then show ?case using flushes(3) [OF reconnected(3)] by (intro rpc_flush_promises [of s ErrDisconnected os]) simp_all
next
  case (closed s)
  show ?case by (rule rpc_moved_promises) (simp_all add: close_done_def place_moves_def rpc_values_def)
qed (blast intro: rpc_set_pc_promises)+

lemma rpc_promises_start: "rpc_start opener s \<Longrightarrow> rpc_promises s = []"
  by (auto simp: rpc_start_def rpc_promises_def new_transport_def start_session_def with_cancel_def jrpc.extend_def Let_def)

interpretation jsonrpc: promise_keeper "rpc_start opener" rpc_step rpc_inv rpc_promises
  by unfold_locales (rule rpc_promises_start rpc_promises_step; assumption)+

section \<open>Promises are kept\<close>

text \<open>
  C2. The JSON-RPC transport refines a set of promises.  Whatever the interleaving of calls, readers,
  ends of sessions, closes and reconnects, every run is a run of the specification: no two calls share
  a session and an id, a call goes from open to answered to delivered or is lost, and an answer once
  given to a call is the answer it returns, if it returns one.
\<close>

theorem rpc_refines_promises:
  assumes "reachable (rpc_start opener) rpc_step s" and "rpc_step\<^sup>*\<^sup>* s t"
  shows "promise_step\<^sup>*\<^sup>* [] (rpc_promises s) \<and> promise_step\<^sup>*\<^sup>* (rpc_promises s) (rpc_promises t) \<and>
    distinct (map fst (rpc_promises t)) \<and>
    (\<forall>k < length (js_calls s). \<forall>r. rpc_status s (js_calls s ! k) \<in> {Answered r, Delivered r} \<longrightarrow>
       fst (rpc_promises t ! k) = fst (rpc_promises s ! k) \<and>
       rpc_status t (js_calls t ! k) \<in> {Answered r, Delivered r, Lost})"
proof -
  have at: "k < length (js_calls u) \<Longrightarrow> rpc_promises u ! k
      = ((ct_session (js_calls u ! k), ct_id (js_calls u ! k)), rpc_status u (js_calls u ! k))" for k u
    by (simp add: rpc_promises_def)
  have len: "length (rpc_promises u) = length (js_calls u)" for u by (simp add: rpc_promises_def)
  have "fst (rpc_promises t ! k) = fst (rpc_promises s ! k) \<and> rpc_status t (js_calls t ! k) \<in> {Answered r, Delivered r, Lost}"
    if "k < length (js_calls s)" and "rpc_status s (js_calls s ! k) \<in> {Answered r, Delivered r}" for k r
    using jsonrpc.answer_final [OF assms, of k "(ct_session (js_calls s ! k), ct_id (js_calls s ! k))" r] that at [of k s] at [of k t]
    by (auto simp: len)
  moreover have "map fst (rpc_promises t) = map (\<lambda>(i, a, sid). (sid, i)) (keys t)"
    by (simp add: rpc_promises_def keys_def call_key_def)
  then have "distinct (map fst (rpc_promises t))"
    using rpc_invD(1) [OF rpc.run_inv [OF rpc.reachable_inv [OF assms(1)] assms(2)]] by (simp add: calls_ok_def)
  ultimately show ?thesis
    using jsonrpc.promises_reachable [OF assms(1)]
      jsonrpc.promises_run [OF rpc.reachable_inv [OF assms(1)] assms(2)] by blast
qed

theorem rpc_refines_promises_witness:
  "promise_step\<^sup>*\<^sup>* [((1 :: u64, 1 :: u64), Open)] [((1, 1), Answered demo_result)]"
proof -
  have "rpc_step (demo_waiting False) (demo_answered False)"
    unfolding demo_answered_def by (rule step_do_response [of _ _ _ 0]) (simp_all add: demo_waiting_def run_defs)
  then have "rpc_step\<^sup>*\<^sup>* (demo_waiting False) (demo_answered False)" by blast
  from rpc_refines_promises [OF demo_waiting_reachable this]
  have "promise_step\<^sup>*\<^sup>* (rpc_promises (demo_waiting False)) (rpc_promises (demo_answered False))" by blast
  then show ?thesis
    by (simp add: rpc_promises_def rpc_status_def call_status_def rpc_values_def buffered_def demo_answered_def
        demo_waiting_def run_defs make_chan_def)
qed

end
