(* ===== verification/OpenThread.thy ===== *)
theory OpenThread imports Sessions ClientProps begin

text \<open>
  Opening a thread: \<^verbatim>\<open>StartThread\<close> and \<^verbatim>\<open>ResumeThread\<close> of \<^verbatim>\<open>client.go\<close> and \<^verbatim>\<open>Fork\<close> of \<^verbatim>\<open>thread.go\<close>, which take a
  slot of the semaphore, make the calls of \<open>ClientOps\<close>, and give the slot back when one fails.
\<close>

section \<open>The operations\<close>

text \<open>A handle knows its thread and the slot its \<^verbatim>\<open>release\<close> gives back.\<close>

record session_thread =
  sth_id :: string
  sth_slot :: nat

text \<open>
  The select for a slot; with room and an ended context either arm may run, without room and with a
  context that goes on it blocks.  A client without a limit does not look at its context.
\<close>

definition acquire :: "bool \<Rightarrow> go_error option \<Rightarrow> sessions \<Rightarrow> (go_error + sessions) option" where
  "acquire prefer_ctx ctx_err ss =
     (case (ss_cap ss, ctx_err) of
        (Some cap, Some e) \<Rightarrow>
          if prefer_ctx then Some (Inl e)
          else (case begin_open ss of Some ss' \<Rightarrow> Some (Inr ss') | None \<Rightarrow> Some (Inl e))
      | _ \<Rightarrow> map_option Inr (begin_open ss))"

type_synonym ('s, 'a) slot_api = "(go_error + 'a) option \<times> 's \<times> sessions"

text \<open>The initial prompt; \<^term>\<open>None\<close> while its turn has not ended.\<close>

definition run_initial :: "(string \<Rightarrow> string \<Rightarrow> 's \<Rightarrow> (go_error + 'r) option \<times> 's) \<Rightarrow> string \<Rightarrow> nat \<Rightarrow> string
    \<Rightarrow> 's \<Rightarrow> sessions \<Rightarrow> ('s, session_thread) slot_api" where
  "run_initial run input i threadID s ss =
     (if input = [] then (Some (Inr \<lparr>sth_id = threadID, sth_slot = i\<rparr>), s, opened True False i ss)
      else
        (case run threadID input s of
           (None, s') \<Rightarrow> (None, s', opened True True i ss)
         | (Some (Inl e), s') \<Rightarrow> (Some (Inl e), s', prompted False i (opened True True i ss))
         | (Some (Inr r), s') \<Rightarrow>
             (Some (Inr \<lparr>sth_id = threadID, sth_slot = i\<rparr>), s', prompted True i (opened True True i ss))))"

definition with_slot :: "bool \<Rightarrow> go_error option \<Rightarrow> (nat \<Rightarrow> 's \<Rightarrow> sessions \<Rightarrow> ('s, 'a) slot_api) \<Rightarrow> 's \<Rightarrow> sessions
    \<Rightarrow> ('s, 'a) slot_api" where
  "with_slot prefer_ctx ctx_err f s ss =
     (case acquire prefer_ctx ctx_err ss of
        None \<Rightarrow> (None, s, ss)
      | Some (Inl e) \<Rightarrow> (Some (Inl e), s, ss)
      | Some (Inr ss') \<Rightarrow> f (ss_next ss) s ss')"

definition StartThread :: "timelib \<Rightarrow> anylib \<Rightarrow> 's connection \<Rightarrow> bool \<Rightarrow> go_error option \<Rightarrow> thread_option list \<Rightarrow>
    output_round list \<Rightarrow> 's \<Rightarrow> sessions \<Rightarrow> ('s, session_thread) slot_api" where
  "StartThread tlib alib c prefer_ctx ctx_err opts rounds =
     with_slot prefer_ctx ctx_err (\<lambda>i s ss.
       let cfg = apply_thread_options opts in
       (case ThreadStart tlib c (tc_req cfg) s of
          (Inl e, s') \<Rightarrow> (Some (Inl e), s', opened False False i ss)
        | (Inr t, s') \<Rightarrow>
            run_initial (\<lambda>th input. run_turn tlib alib c th input [] rounds) (tc_initial_input cfg) i (thread_id t) s' ss))"

text \<open>The other fields of the request are empty.\<close>

definition thread_resume_req :: "string \<Rightarrow> goval" where
  "thread_resume_req threadID = VStruct [VStr threadID, VNil, VStr [], VNil, VInt 0]"

definition ResumeThread :: "timelib \<Rightarrow> anylib \<Rightarrow> 's connection \<Rightarrow> bool \<Rightarrow> go_error option \<Rightarrow> string \<Rightarrow>
    thread_option list \<Rightarrow> output_round list \<Rightarrow> 's \<Rightarrow> sessions \<Rightarrow> ('s, session_thread) slot_api" where
  "ResumeThread tlib alib c prefer_ctx ctx_err threadID opts rounds =
     with_slot prefer_ctx ctx_err (\<lambda>i s ss.
       (case ThreadResume tlib c (thread_resume_req threadID) s of
          (Inl e, s') \<Rightarrow> (Some (Inl e), s', opened False False i ss)
        | (Inr t, s') \<Rightarrow>
            run_initial (\<lambda>th input. run_turn tlib alib c th input [] rounds)
              (tc_initial_input (apply_thread_options opts)) i threadID s' ss))"

definition Fork :: "timelib \<Rightarrow> 's connection \<Rightarrow> bool \<Rightarrow> go_error option \<Rightarrow> string \<Rightarrow> string \<Rightarrow> 's \<Rightarrow> sessions
    \<Rightarrow> ('s, session_thread) slot_api" where
  "Fork tlib c prefer_ctx ctx_err threadID turnID =
     with_slot prefer_ctx ctx_err (\<lambda>i s ss.
       (case ThreadFork tlib c (VStruct [VStr threadID, VStr turnID]) s of
          (Inl e, s') \<Rightarrow> (Some (Inl e), s', opened False False i ss)
        | (Inr t, s') \<Rightarrow> (Some (Inr \<lparr>sth_id = thread_id t, sth_slot = i\<rparr>), s', opened True False i ss)))"

section \<open>Every slot is accounted for\<close>

text \<open>
  What an opening may do to the sessions: steps of their system, and when it has returned, either
  nothing is left of it or exactly one more session is live, that of its handle.
\<close>

definition opening_ok :: "sessions \<Rightarrow> (go_error + session_thread) option \<Rightarrow> sessions \<Rightarrow> bool" where
  "opening_ok ss r ss' \<longleftrightarrow> session_step\<^sup>*\<^sup>* ss ss' \<and>
     (case r of
        None \<Rightarrow> True
      | Some (Inl e) \<Rightarrow> holders ss' = holders ss
      | Some (Inr st) \<Rightarrow> sth_slot st \<notin> holders ss \<and> holders ss' = insert (sth_slot st) (holders ss) \<and>
          ss_phase ss' (sth_slot st) = Some Live)"

lemma begun:
  assumes "session_inv m ss" and "begin_open ss = Some ss1"
  shows "session_step\<^sup>*\<^sup>* ss ss1" and "ss_phase ss1 (ss_next ss) = Some Opening"
    and "ss_next ss \<notin> holders ss" and "holders ss1 = insert (ss_next ss) (holders ss)"
proof -
  have "ss_phase ss (ss_next ss) = None" using assms(1) by (auto simp: session_inv_def)
  then show "ss_phase ss1 (ss_next ss) = Some Opening" "ss_next ss \<notin> holders ss"
    "holders ss1 = insert (ss_next ss) (holders ss)"
    using assms(2) by (auto simp: begin_open_def holders_def split: option.splits if_splits)
qed (use assms(2) in \<open>blast intro: step_begin\<close>)

lemma refused_ok:
  assumes "session_inv m ss" and "begin_open ss = Some ss1"
  shows "opening_ok ss (Some (Inl e)) (opened False p (ss_next ss) ss1)"
proof -
  note b = begun [OF assms]
  have "holders (opened False p (ss_next ss) ss1) = holders ss1 - {ss_next ss}"
    by (auto simp: opened_def holders_def release_def set_phase_def)
  with b show ?thesis unfolding opening_ok_def by (auto intro: rtranclp.rtrancl_into_rtrancl step_opened)
qed

lemma live_ok:
  assumes "session_inv m ss" and "begin_open ss = Some ss1"
  shows "opening_ok ss (Some (Inr \<lparr>sth_id = th, sth_slot = ss_next ss\<rparr>)) (opened True False (ss_next ss) ss1)"
proof -
  note b = begun [OF assms]
  have "holders (opened True False (ss_next ss) ss1) = insert (ss_next ss) (holders ss1)"
    by (auto simp: opened_def holders_def set_phase_def)
  moreover have "ss_phase (opened True False (ss_next ss) ss1) (ss_next ss) = Some Live"
    by (simp add: opened_def set_phase_def)
  ultimately show ?thesis using b unfolding opening_ok_def by (auto intro: rtranclp.rtrancl_into_rtrancl step_opened)
qed

lemma prompted_ok:
  assumes "session_inv m ss" and "begin_open ss = Some ss1"
  defines "i \<equiv> ss_next ss"
  shows "opening_ok ss None (opened True True i ss1)"
    and "opening_ok ss (Some (Inl e)) (prompted False i (opened True True i ss1))"
    and "opening_ok ss (Some (Inr \<lparr>sth_id = th, sth_slot = i\<rparr>)) (prompted True i (opened True True i ss1))"
proof -
  note b = begun [OF assms(1,2), folded i_def]
  let ?t = "opened True True i ss1"
  have run: "session_step\<^sup>*\<^sup>* ss ?t" using b by (blast intro: rtranclp.rtrancl_into_rtrancl step_opened)
  have at: "ss_phase ?t i = Some Prompting" by (simp add: opened_def set_phase_def)
  have h: "holders ?t = insert i (holders ss)" using b(4) by (auto simp: opened_def holders_def set_phase_def)
  have step: "session_step\<^sup>*\<^sup>* ss (prompted ok i ?t)" for ok
    using run step_prompted [OF at] by (rule rtranclp.rtrancl_into_rtrancl)
  show "opening_ok ss None ?t" using run by (simp add: opening_ok_def)
  have "holders (prompted False i ?t) = holders ?t - {i}"
    using at by (auto simp: prompted_def close_session_def holders_def release_def set_phase_def)
  with h b(3) step show "opening_ok ss (Some (Inl e)) (prompted False i ?t)" by (auto simp: opening_ok_def)
  have "holders (prompted True i ?t) = insert i (holders ?t)" "ss_phase (prompted True i ?t) i = Some Live"
    by (auto simp: prompted_def holders_def set_phase_def)
  with h b(3) step show "opening_ok ss (Some (Inr \<lparr>sth_id = th, sth_slot = i\<rparr>)) (prompted True i ?t)"
    by (auto simp: opening_ok_def)
qed

lemma run_initial_ok:
  assumes "session_inv m ss" and "begin_open ss = Some ss1" and "run_initial run input (ss_next ss) th s ss1 = (r, s', ss')"
  shows "opening_ok ss r ss'"
  using assms(3) live_ok [OF assms(1,2)] prompted_ok [OF assms(1,2)]
  by (auto simp: run_initial_def split: if_splits prod.splits option.splits sum.splits)

lemma with_slot_ok:
  assumes "session_inv m ss" and "with_slot p ctx f s ss = (r, s', ss')"
    and "\<And>ss1 s r s' ss'. begin_open ss = Some ss1 \<Longrightarrow> f (ss_next ss) s ss1 = (r, s', ss') \<Longrightarrow> opening_ok ss r ss'"
  shows "opening_ok ss r ss'"
proof -
  consider "ss' = ss" "r = None \<or> (\<exists>e. r = Some (Inl e))"
    | ss1 where "begin_open ss = Some ss1" "f (ss_next ss) s ss1 = (r, s', ss')"
    using assms(2) by (auto simp: with_slot_def acquire_def split: option.splits if_splits)
  then show ?thesis
  proof cases
    case 1
    then show ?thesis by (auto simp: opening_ok_def)
  next
    case 2
    then show ?thesis by (rule assms(3))
  qed
qed

lemma StartThread_ok:
  assumes inv: "session_inv m ss" and op: "StartThread tlib alib c p ctx opts rounds s ss = (r, s', ss')"
  shows "opening_ok ss r ss'"
  by (rule with_slot_ok [OF inv op [unfolded StartThread_def]])
    (auto simp: Let_def split: prod.splits sum.splits intro: refused_ok [OF inv] run_initial_ok [OF inv])

lemma ResumeThread_ok:
  assumes inv: "session_inv m ss" and op: "ResumeThread tlib alib c p ctx th opts rounds s ss = (r, s', ss')"
  shows "opening_ok ss r ss'"
  by (rule with_slot_ok [OF inv op [unfolded ResumeThread_def]])
    (auto split: prod.splits sum.splits intro: refused_ok [OF inv] run_initial_ok [OF inv])

lemma Fork_ok:
  assumes inv: "session_inv m ss" and op: "Fork tlib c p ctx th tu s ss = (r, s', ss')"
  shows "opening_ok ss r ss'"
  by (rule with_slot_ok [OF inv op [unfolded Fork_def]])
    (auto split: prod.splits sum.splits intro: refused_ok [OF inv] live_ok [OF inv])

lemma held_holders: "session_inv m s \<Longrightarrow> session_inv m t \<Longrightarrow> holders t = holders s \<Longrightarrow> ss_held t = ss_held s"
  by (auto simp: session_inv_def)

lemma close_live:
  assumes "ss_phase s i = Some Live" and "i \<notin> H" and "holders s = insert i H"
  shows "holders (close_session i s) = H" and "close_session i (close_session i s) = close_session i s"
proof -
  have "holders (close_session i s) = holders s - {i}"
    using assms(1) by (auto simp: close_session_def holders_def release_def set_phase_def)
  with assms(2,3) show "holders (close_session i s) = H" by auto
qed (use assms(1) in \<open>simp add: close_session_def release_def set_phase_def\<close>)

text \<open>
  C31. Opening a thread never leaks a slot.  Whatever the server answers, an opening that fails, at its
  request or at its first prompt, leaves the sessions as they were; one that succeeds holds one slot,
  which its handle gives back when it is closed, once however often that is; and an opening is a run of
  the sessions' system, so the limit is kept.
\<close>

theorem open_thread_slots:
  assumes "reachable (session_start m) session_step ss"
    and "(r, s', ss') \<in> {StartThread tlib alib c p ctx opts rounds s ss,
      ResumeThread tlib alib c p ctx th opts rounds s ss, Fork tlib c p ctx th tu s ss}"
  shows "reachable (session_start m) session_step ss' \<and>
    (case r of
       None \<Rightarrow> True
     | Some (Inl e) \<Rightarrow> holders ss' = holders ss \<and> ss_held ss' = ss_held ss
     | Some (Inr st) \<Rightarrow>
         sth_slot st \<notin> holders ss \<and> holders ss' = insert (sth_slot st) (holders ss) \<and>
         holders (close_session (sth_slot st) ss') = holders ss \<and>
         ss_held (close_session (sth_slot st) ss') = ss_held ss \<and>
         close_session (sth_slot st) (close_session (sth_slot st) ss') = close_session (sth_slot st) ss')"
proof -
  note inv = slots.reachable_inv [OF assms(1)]
  have ok: "opening_ok ss r ss'"
    using assms(2) StartThread_ok [OF inv] ResumeThread_ok [OF inv] Fork_ok [OF inv] by (metis empty_iff insert_iff)
  then have inv': "session_inv m ss'" using slots.run_inv [OF inv] by (simp add: opening_ok_def)
  have "reachable (session_start m) session_step ss'"
    using ok assms(1) reachable_run by (auto simp: opening_ok_def)
  moreover have "case r of None \<Rightarrow> True | Some (Inl e) \<Rightarrow> holders ss' = holders ss \<and> ss_held ss' = ss_held ss
     | Some (Inr st) \<Rightarrow>
         sth_slot st \<notin> holders ss \<and> holders ss' = insert (sth_slot st) (holders ss) \<and>
         holders (close_session (sth_slot st) ss') = holders ss \<and>
         ss_held (close_session (sth_slot st) ss') = ss_held ss \<and>
         close_session (sth_slot st) (close_session (sth_slot st) ss') = close_session (sth_slot st) ss'"
  proof (cases r)
    case (Some x)
    show ?thesis
    proof (cases x)
      case (Inl e)
      with Some ok held_holders [OF inv inv'] show ?thesis by (simp add: opening_ok_def)
    next
      case (Inr st)
      let ?i = "sth_slot st"
      from Some Inr ok have h: "ss_phase ss' ?i = Some Live" "?i \<notin> holders ss" "holders ss' = insert ?i (holders ss)"
        by (simp_all add: opening_ok_def)
      have "session_inv m (close_session ?i ss')" by (rule close_inv [OF inv']) (simp add: h)
      with close_live [OF h] held_holders [OF inv] h Some Inr show ?thesis by simp
    qed
  qed simp
  ultimately show ?thesis ..
qed

text \<open>A thread is resumed on a client with one slot.\<close>

theorem open_thread_slots_witness:
  "\<forall>tlib alib. \<exists>ss'. ResumeThread tlib alib (demo_conn None) False None ''t'' [] [] 0 (new_sessions 1)
       = (Some (Inr \<lparr>sth_id = ''t'', sth_slot = 0\<rparr>), 1, ss') \<and> holders ss' = {0} \<and> holders (close_session 0 ss') = {}"
proof (intro allI)
  fix tlib alib
  let ?op = "ResumeThread tlib alib (demo_conn None) False None ''t'' [] [] 0 (new_sessions 1)"
  have r: "reachable (session_start 1) session_step (new_sessions 1)" by (rule reach_start) (simp add: session_start_def)
  obtain ss' where eq: "?op = (Some (Inr \<lparr>sth_id = ''t'', sth_slot = 0\<rparr>), 1, ss')"
    by (simp add: ResumeThread_def with_slot_def acquire_def begin_open_def new_sessions_def sem_capacity_def
        acquire_thread_slot_def ThreadResume_def thread_call_def call_for_def then_do_def demo_conn_def
        decode_answer_def giving_def apply_thread_options_def run_initial_def)
  moreover have "holders (new_sessions 1) = {}" by (simp add: holders_def new_sessions_def)
  ultimately show "\<exists>ss'. ?op = (Some (Inr \<lparr>sth_id = ''t'', sth_slot = 0\<rparr>), 1, ss') \<and> holders ss' = {0} \<and>
      holders (close_session 0 ss') = {}"
    using open_thread_slots [OF r, of "Some (Inr \<lparr>sth_id = ''t'', sth_slot = 0\<rparr>)" 1 ss' tlib alib "demo_conn None"
        False None "[]" "[]" 0 "''t''"] by simp
qed

end
