(* ===== verification/Serving.thy ===== *)
theory Serving imports HttpProps Interaction begin

text \<open>
  The adapter of \<^verbatim>\<open>client.go\<close> between a transport with channels and the client's request handler
  (\<^verbatim>\<open>stdioTransport\<close>): the body of its request loop for requests that are answered over a channel, and
  its \<^verbatim>\<open>Close\<close>, which several goroutines may call.
\<close>

section \<open>The request loop\<close>

definition serve_chan_request :: "request_handler option \<Rightarrow> chan_request \<Rightarrow> (go_error option \<times> chan_request) option" where
  "serve_chan_request handler q =
     (case handler of
        None \<Rightarrow> chan_reply_error (- 32601) ''request handler not configured'' None q
      | Some h \<Rightarrow>
          (case h (cq_method q) (cq_params q) of
             Inl e \<Rightarrow> chan_reply_error (- 32603) (error_text e) None q
           | Inr result \<Rightarrow> chan_reply (case result of None \<Rightarrow> JNull | Some j \<Rightarrow> j) q))"

text \<open>
  The loop on the requests it takes from the channel, each with the handler that is set at that moment;
  the error of a reply is ignored, and a reply that blocks is \<^term>\<open>None\<close>.
\<close>

fun request_loop :: "(request_handler option \<times> chan_request) list \<Rightarrow> chan_request list option" where
  "request_loop [] = Some []"
| "request_loop ((handler, q) # rest) =
     Option.bind (serve_chan_request handler q) (\<lambda>(e, q'). map_option ((#) q') (request_loop rest))"

section \<open>Close\<close>

datatype adapter_pc = AtSelect | AtClose | AtInner | CloseEnded | ClosePanicked

record adapter =
  ad_closed :: bool
  ad_inner_closes :: nat
  ad_closers :: "adapter_pc list"

definition new_adapter :: adapter where
  "new_adapter = \<lparr>ad_closed = False, ad_inner_closes = 0, ad_closers = []\<rparr>"

text \<open>The select, the close of the channel, and the close of the transport below.\<close>

fun adapter_close_move :: "adapter_pc \<Rightarrow> adapter \<Rightarrow> (adapter_pc \<times> adapter) option" where
  "adapter_close_move AtSelect a = Some (if ad_closed a then CloseEnded else AtClose, a)"
| "adapter_close_move AtClose a =
     Some (if ad_closed a then (ClosePanicked, a) else (AtInner, a\<lparr>ad_closed := True\<rparr>))"
| "adapter_close_move AtInner a = Some (CloseEnded, a\<lparr>ad_inner_closes := Suc (ad_inner_closes a)\<rparr>)"
| "adapter_close_move _ a = None"

inductive adapter_step :: "adapter \<Rightarrow> adapter \<Rightarrow> bool" where
  a_close: "adapter_step a (a\<lparr>ad_closers := ad_closers a @ [AtSelect]\<rparr>)"
| a_move: "n < length (ad_closers a) \<Longrightarrow> adapter_close_move (ad_closers a ! n) a = Some (pc, b) \<Longrightarrow>
     adapter_step a (b\<lparr>ad_closers := (ad_closers a)[n := pc]\<rparr>)"

text \<open>Two goroutines that both find the channel open: the second close of it panics.\<close>

lemma adapter_close_panics:
  "\<exists>a. reachable (\<lambda>a. a = new_adapter) adapter_step a \<and> ad_closers a = [AtInner, ClosePanicked]"
proof -
  let ?at = "\<lambda>c pcs. \<lparr>ad_closed = c, ad_inner_closes = 0, ad_closers = pcs\<rparr>"
  have go: "reachable (\<lambda>a. a = new_adapter) adapter_step (?at c pcs) \<Longrightarrow> n < length pcs \<Longrightarrow>
      adapter_close_move (pcs ! n) (?at c pcs) = Some (pc, ?at c' pcs) \<Longrightarrow>
      reachable (\<lambda>a. a = new_adapter) adapter_step (?at c' (pcs[n := pc]))" for c pcs n pc c'
    using a_move [of n "?at c pcs" pc "?at c' pcs"] by (auto intro: reach_step)
  have "reachable (\<lambda>a. a = new_adapter) adapter_step (?at False [])" by (rule reach_start) (simp add: new_adapter_def)
  then have "reachable (\<lambda>a. a = new_adapter) adapter_step (?at False [AtSelect])"
    using a_close [of "?at False []"] by (auto intro: reach_step)
  then have "reachable (\<lambda>a. a = new_adapter) adapter_step (?at False [AtSelect, AtSelect])"
    using a_close [of "?at False [AtSelect]"] by (auto intro: reach_step)
  from go [OF this, of 0 AtClose False] have "reachable (\<lambda>a. a = new_adapter) adapter_step (?at False [AtClose, AtSelect])" by simp
  from go [OF this, of 1 AtClose False] have "reachable (\<lambda>a. a = new_adapter) adapter_step (?at False [AtClose, AtClose])" by simp
  from go [OF this, of 0 AtInner True] have "reachable (\<lambda>a. a = new_adapter) adapter_step (?at True [AtInner, AtClose])" by simp
  from go [OF this, of 1 ClosePanicked True]
  have "reachable (\<lambda>a. a = new_adapter) adapter_step (?at True [AtInner, ClosePanicked])" by simp
  then show ?thesis by (intro exI conjI) (assumption, simp)
qed

section \<open>A request over HTTP and its answer\<close>

text \<open>What the server is told for a request: the handler's result, or an error.\<close>

definition answer_to :: "request_handler option \<Rightarrow> json \<Rightarrow> string \<Rightarrow> raw \<Rightarrow> json" where
  "answer_to handler i m p =
     (case handler of
        None \<Rightarrow> enc_reply i JNull (Some \<lparr>rpc_code = - 32601, rpc_message = ''request handler not configured'', rpc_data = None\<rparr>)
      | Some h \<Rightarrow>
          (case h m p of
             Inl e \<Rightarrow> enc_reply i JNull (Some \<lparr>rpc_code = - 32603, rpc_message = error_text e, rpc_data = None\<rparr>)
           | Inr result \<Rightarrow> enc_reply i (case result of None \<Rightarrow> JNull | Some j \<Rightarrow> j) None))"

lemma serve_new_request:
  "\<exists>rr q. serve_chan_request handler (new_chan_request i m p) = Some (None, q) \<and>
     q = (new_chan_request i m p)\<lparr>cq_replied := True, cq_chan := \<lparr>chan_buf = [rr], chan_cap = 1, chan_closed = False\<rparr>\<rparr> \<and>
     reply_message i rr = answer_to handler i m p"
  by (auto simp: serve_chan_request_def new_chan_request_def chan_reply_def chan_reply_error_def put_reply_def
      chan_send_def make_chan_def reply_message_def answer_to_def split: option.split sum.split)

lemma http_requests_streamed:
  assumes "reachable (http_start (concat (map (sse_event h) msgs))) http_step s"
    and "\<forall>j \<in> set msgs. is_message h j" and "q \<in> set (hs_got_requests s)"
  obtains j i m p where "j \<in> set msgs" "event_frame j = Some (FRequest i m p)" "q = new_chan_request i m p"
proof -
  obtain k where k: "hs_frames s = List.map_filter event_frame (take k msgs)" and inv: "http_inv (map (print_json h) msgs) s"
    using http_frames [OF assms(1,2)] by metis
  have "q \<in> set (List.map_filter request_of (hs_frames s))"
    using inv assms(3) unfolding http_inv_def by (metis Un_iff set_append)
  then obtain f where f: "f \<in> set (hs_frames s)" "request_of f = Some q"
    by (auto simp: List.map_filter_def)
  then obtain i m p where "f = FRequest i m p" "q = new_chan_request i m p"
    by (auto simp: request_of_def split: frame.splits)
  moreover from f(1) k obtain j where "j \<in> set (take k msgs)" "event_frame j = Some f"
    by (auto simp: List.map_filter_def)
  ultimately show thesis using that in_set_takeD by metis
qed

text \<open>
  C4. A request of the server is answered.  A request the client took from the HTTP transport is one the
  server streamed; the loop hands its method and parameters to the handler without blocking.  The
  goroutine of the transport then posts one message, which the server reads as the answer of the handler
  under the request's id, or as the error that there is none, in every state of the transport but one: when it
  is done or cancelled by then, the goroutine may return without a post.  A later reply is refused, and
  nothing is left to be posted a second time.
\<close>

theorem server_request_over_http:
  assumes "reachable (http_start (concat (map (sse_event h) msgs))) http_step s"
    and "\<forall>j \<in> set msgs. is_message h j" and "q \<in> set (hs_got_requests s)"
    and "json_ok max_depth (answer_to handler (cq_id q) (cq_method q) (cq_params q))"
  shows "\<exists>j \<in> set msgs. \<exists>i m p q' q'' post. event_frame j = Some (FRequest i m p) \<and>
     serve_chan_request handler q = Some (None, q') \<and>
     http_await_reply prefer_stop q' s =
       (if (ht_done s \<or> ht_cancelled s) \<and> prefer_stop then (None, q') else (Some post, q'')) \<and>
     hr_method post = ''POST'' \<and> hr_url post = ht_base s @ ''/rpc'' \<and>
     json_parse (hr_body post) = Some (answer_to handler i m p) \<and>
     (\<forall>rr. put_reply rr q' = Some (Some ErrAlreadyReplied, q') \<and> put_reply rr q'' = Some (Some ErrAlreadyReplied, q'')) \<and>
     fst (http_await_reply prefer_stop q'' s) = None"
proof -
  obtain j i m p where j: "j \<in> set msgs" "event_frame j = Some (FRequest i m p)" and q: "q = new_chan_request i m p"
    using http_requests_streamed [OF assms(1-3)] .
  then have sel: "cq_id q = i" "cq_method q = m" "cq_params q = p" by (simp_all add: new_chan_request_def)
  obtain rr where serve: "serve_chan_request handler q
      = Some (None, q\<lparr>cq_replied := True, cq_chan := \<lparr>chan_buf = [rr], chan_cap = 1, chan_closed = False\<rparr>\<rparr>)" (is "_ = Some (None, ?q')")
    and rr: "reply_message i rr = answer_to handler i m p"
    using serve_new_request [of handler i m p] q by blast
  let ?q'' = "?q'\<lparr>cq_chan := \<lparr>chan_buf = [], chan_cap = 1, chan_closed = False\<rparr>\<rparr>"
  have "http_await_reply prefer_stop ?q' s =
      (if (ht_done s \<or> ht_cancelled s) \<and> prefer_stop then (None, ?q')
       else (Some (post_request (answer_to handler i m p) s), ?q''))"
    by (simp add: http_await_reply_def http_stopped_def await_reply_def chan_recv_def rr sel)
  moreover have "json_parse (hr_body (post_request (answer_to handler i m p) s)) = Some (answer_to handler i m p)"
    using json_parse_print [of "answer_to handler i m p" True] assms(4) sel
    by (simp add: post_request_def del: print_json.simps)
  moreover have "put_reply x ?q' = Some (Some ErrAlreadyReplied, ?q')" "put_reply x ?q'' = Some (Some ErrAlreadyReplied, ?q'')" for x
    by (simp_all add: put_reply_def)
  moreover have "hr_method (post_request x s) = ''POST''" "hr_url (post_request x s) = ht_base s @ ''/rpc''" for x
    by (simp_all add: post_request_def)
  moreover have "fst (http_await_reply prefer_stop ?q'' s) = None"
    by (simp add: http_await_reply_def await_reply_def chan_recv_def)
  ultimately show ?thesis using j serve by blast
qed

text \<open>A request the server streamed, and a handler with an empty result.\<close>

definition demo_asked :: json where
  "demo_asked = JObj [(''method'', JStr ''ask''), (''id'', JStr ''r'')]"

lemma demo_asked_message: "is_message False demo_asked" "event_frame demo_asked = Some (FRequest (JStr ''r'') ''ask'' None)"
  by (simp_all add: is_message_def demo_asked_def valid_utf8_ascii code_def print_members.simps quote_def esc_char_def
      max_sse_line_def max_depth_def event_frame_def map_get_def call_frame_def)

theorem server_request_over_http_witness:
  "\<exists>(s :: http_sys) q q' q'' post. hs_got_requests s = [q] \<and> serve_chan_request (Some (\<lambda>m p. Inr None)) q = Some (None, q') \<and>
     http_await_reply False q' s = (Some post, q'') \<and>
     json_parse (hr_body post) = Some (enc_reply (JStr ''r'') JNull None)"
proof -
  let ?q = "new_chan_request (JStr ''r'') ''ask'' None"
  obtain s where s: "reachable (http_start (concat (map (sse_event False) [demo_asked]))) http_step s" "hs_got_requests s = [?q]"
    using one_request_received [OF demo_asked_message] by blast
  have msg: "\<forall>j \<in> set [demo_asked]. is_message False j" using demo_asked_message by simp
  have q: "cq_id ?q = JStr ''r''" "cq_method ?q = ''ask''" "cq_params ?q = None" by (simp_all add: new_chan_request_def)
  have answer: "answer_to (Some (\<lambda>m p. Inr None)) i m p = enc_reply i JNull None" for i m p by (simp add: answer_to_def)
  have ok: "json_ok max_depth (answer_to (Some (\<lambda>m p. Inr None)) (cq_id ?q) (cq_method ?q) (cq_params ?q))"
    unfolding answer q by (simp add: enc_reply_def opt_member_def valid_utf8_ascii code_def max_depth_def)
  have "?q \<in> set (hs_got_requests s)" by (simp add: s(2))
  from server_request_over_http [OF s(1) msg this ok, of False]
  obtain j i m p q' q'' post where r: "j \<in> set [demo_asked]" "event_frame j = Some (FRequest i m p)"
    "serve_chan_request (Some (\<lambda>m p. Inr None)) ?q = Some (None, q')"
    "http_await_reply False q' s = (Some post, q'')"
    "json_parse (hr_body post) = Some (answer_to (Some (\<lambda>m p. Inr None)) i m p)" by auto
  from r(1) have "j = demo_asked" by simp
  with r(2) have "i = JStr ''r''" using demo_asked_message(2) by simp
  with r(5) have "json_parse (hr_body post) = Some (enc_reply (JStr ''r'') JNull None)" by (simp only: answer)
  with s(2) r(3,4) show ?thesis by blast
qed

end
