(* ===== verification/FileInput.thy ===== *)
theory FileInput imports Interaction begin

text \<open>
  An image read from a file (\<^verbatim>\<open>LocalImageInput\<close> of \<^verbatim>\<open>interaction.go\<close>): the base64 encoding of its bytes in a
  data URI.  Reading the file and the two guesses of its media type are those of the system and
  \<^verbatim>\<open>net/http\<close>, and are arguments.
\<close>

section \<open>Base64\<close>

definition b64_alphabet :: string where
  "b64_alphabet = ''ABCDEFGHIJKLMNOPQRSTUVWXYZabcdefghijklmnopqrstuvwxyz0123456789+/''"

definition b64_char :: "nat \<Rightarrow> char" where
  "b64_char n = b64_alphabet ! (n mod 64)"

text \<open>\<^verbatim>\<open>base64.StdEncoding\<close>: three bytes are four digits; the last group is padded.\<close>

fun b64_encode :: "string \<Rightarrow> string" where
  "b64_encode [] = []"
| "b64_encode [a] = [b64_char (code a div 4), b64_char (code a * 16), CHR ''='', CHR ''='']"
| "b64_encode [a, b] =
     [b64_char (code a div 4), b64_char (code a * 16 + code b div 16), b64_char (code b * 4), CHR ''='']"
| "b64_encode (a # b # c # s) =
     [b64_char (code a div 4), b64_char (code a * 16 + code b div 16),
      b64_char (code b * 4 + code c div 64), b64_char (code c)] @ b64_encode s"

text \<open>\<^verbatim>\<open>filepath.Ext\<close>: from the last dot of the last element of the path.\<close>

fun ext_back :: "string \<Rightarrow> string \<Rightarrow> string" where
  "ext_back acc [] = []"
| "ext_back acc (c # s) =
     (if c = CHR ''/'' then [] else if c = CHR ''.'' then c # acc else ext_back (c # acc) s)"

definition path_ext :: "string \<Rightarrow> string" where
  "path_ext path = ext_back [] (rev path)"

definition base64_data_uri :: "string \<Rightarrow> string \<Rightarrow> string" where
  "base64_data_uri mediaType data = ''data:'' @ mediaType @ '';base64,'' @ b64_encode data"

record file_lib =
  fl_read :: "string \<Rightarrow> go_error + string"
  fl_type_by_ext :: "string \<Rightarrow> string"
  fl_detect :: "string \<Rightarrow> string"

definition LocalImageInput :: "file_lib \<Rightarrow> string \<Rightarrow> go_error + json" where
  "LocalImageInput lib path =
     (case fl_read lib path of
        Inl e \<Rightarrow> Inl (ErrWrap ''local image input: '' e [])
      | Inr data \<Rightarrow>
          let guess = fl_type_by_ext lib (path_ext path);
              mediaType = (if guess = [] then fl_detect lib data else guess) in
          Inr (JObj [(''mediaType'', JStr (coerce_utf8 0 mediaType)), (''type'', JStr ''image''),
            (''url'', JStr (coerce_utf8 0 (base64_data_uri mediaType data)))]))"

section \<open>Decoding\<close>

text \<open>A reader of the encoding, for the statement: digits by their place in the alphabet.\<close>

definition b64_digit :: "char \<Rightarrow> nat" where
  "b64_digit c = length (takeWhile (\<lambda>d. d \<noteq> c) b64_alphabet)"

definition b64_bytes :: "nat \<Rightarrow> nat \<Rightarrow> nat \<Rightarrow> nat \<Rightarrow> string" where
  "b64_bytes p q r t =
     [char_of (p * 4 + q div 16), char_of (q * 16 + r div 4), char_of (r * 64 + t)]"

fun b64_decode :: "string \<Rightarrow> string" where
  "b64_decode (p # q # r # t # s) =
     (if r = CHR ''='' then take 1 (b64_bytes (b64_digit p) (b64_digit q) 0 0)
      else if t = CHR ''='' then take 2 (b64_bytes (b64_digit p) (b64_digit q) (b64_digit r) 0)
      else b64_bytes (b64_digit p) (b64_digit q) (b64_digit r) (b64_digit t) @ b64_decode s)"
| "b64_decode s = []"

lemma b64_alphabet: "length b64_alphabet = 64" "distinct b64_alphabet" "CHR ''='' \<notin> set b64_alphabet"
  "list_all (\<lambda>c. 32 < code c \<and> code c < 128) b64_alphabet"
  by code_simp+

lemma takeWhile_nth: "distinct xs \<Longrightarrow> n < length xs \<Longrightarrow> length (takeWhile (\<lambda>d. d \<noteq> xs ! n) xs) = n"
proof (induction xs arbitrary: n)
  case (Cons x xs)
  then show ?case by (cases n) auto
qed simp

lemma b64_digit_char [simp]: "b64_digit (b64_char n) = n mod 64"
  by (simp add: b64_digit_def b64_char_def takeWhile_nth b64_alphabet)

lemma b64_char_member: "b64_char n \<in> set b64_alphabet"
  by (simp add: b64_char_def b64_alphabet(1))

lemma b64_char_pad [simp]: "b64_char n \<noteq> CHR ''=''"
  using b64_char_member [of n] b64_alphabet(3) by metis

lemma mod_split:
  fixes a d k m :: nat
  assumes "d < k"
  shows "(a * k + d) mod (k * m) = a mod m * k + d"
  using assms by (simp add: mod_mult2_eq)

lemma div_small: "b < 256 \<Longrightarrow> b div 16 < (16 :: nat)" "c < 256 \<Longrightarrow> c div 64 < (4 :: nat)" "a < 256 \<Longrightarrow> a div 4 < (64 :: nat)"
  by (simp_all add: less_mult_imp_div_less)

lemma b64_split:
  "b < 256 \<Longrightarrow> (a * 16 + b div 16) mod 64 = a mod 4 * 16 + b div (16 :: nat)"
  "c < 256 \<Longrightarrow> (b * 4 + c div 64) mod 64 = b mod 16 * 4 + c div (64 :: nat)"
  "(a * 16) mod 64 = a mod 4 * (16 :: nat)" "(b * 4) mod 64 = b mod 16 * (4 :: nat)"
  "c < 256 \<Longrightarrow> c div 4 mod 64 = c div (4 :: nat)"
  using mod_split [of "b div 16" 16 a 4] mod_split [of "c div 64" 4 b 16] mod_split [of 0 16 a 4] mod_split [of 0 4 b 16]
  by (simp_all add: div_small)

lemma b64_join:
  fixes a b c :: nat
  shows "b < 256 \<Longrightarrow> a div 4 * 4 + (a mod 4 * 16 + b div 16) div 16 = a"
    and "a div 4 * 4 + a mod 4 = a"
    and "c < 256 \<Longrightarrow> (a mod 4 * 16 + b div 16) * 16 + (b mod 16 * 4 + c div 64) div 4 = 256 * (a mod 4) + b"
    and "(a mod 4 * 16 + b div 16) * 16 + b mod 16 = 256 * (a mod 4) + b"
    and "(b mod 16 * 4 + c div 64) * 64 + c mod 64 = 256 * (b mod 16) + c"
proof -
  have d: "x div n * n + x mod n = x" for x n :: nat by (rule div_mult_mod_eq)
  show "a div 4 * 4 + (a mod 4 * 16 + b div 16) div 16 = a" if "b < 256" using d [of a 4] that by (simp add: div_small)
  show "a div 4 * 4 + a mod 4 = a" by (rule d)
  show four: "(a mod 4 * 16 + b div 16) * 16 + b mod 16 = 256 * (a mod 4) + b"
    using d [of b 16] by (simp add: algebra_simps)
  show "(a mod 4 * 16 + b div 16) * 16 + (b mod 16 * 4 + c div 64) div 4 = 256 * (a mod 4) + b" if "c < 256"
    using four that by (simp add: div_small)
  show "(b mod 16 * 4 + c div 64) * 64 + c mod 64 = 256 * (b mod 16) + c"
    using d [of c 64] by (simp add: algebra_simps)
qed

lemma char_of_plus: "char_of (256 * k + code a) = a"
proof -
  have "char_of (256 * k + code a) = (char_of ((256 * k + code a) mod 256) :: char)" by (simp only: char_of_mod_256)
  also have "\<dots> = a" by (simp add: mod_simps)
  finally show ?thesis .
qed

lemma char_of_plus': "char_of (code a + 256 * k) = a"
  using char_of_plus [of k a] by (simp add: add.commute)

lemma div_twice: "code b div 16 div 16 = 0" "code c div 64 div 4 = 0"
  using code_less [of b] code_less [of c] by (simp_all only: div_mult2_eq [symmetric]) simp_all

lemma b64_round_trip: "b64_decode (b64_encode s) = s"
proof (induction s rule: b64_encode.induct)
  case (2 a)
  then show ?case by (simp add: b64_bytes_def b64_split b64_join del: div_mult_mod_eq)
next
  case (3 a b)
  then show ?case by (simp add: b64_bytes_def b64_split b64_join char_of_plus' div_twice)
next
  case (4 a b c s)
  then show ?case by (simp add: b64_bytes_def b64_split b64_join char_of_plus' div_twice)
qed simp

section \<open>The image on the wire\<close>

lemma b64_char_ascii: "code (b64_char n) < 128"
  using b64_char_member [of n] b64_alphabet(4) by (auto simp: list_all_iff)

lemma b64_encode_ascii: "c \<in> set (b64_encode s) \<Longrightarrow> code c < 128"
proof (induction s rule: b64_encode.induct)
  case (4 a b d s)
  then show ?case using b64_char_ascii by auto
qed (use b64_char_ascii in \<open>auto simp: code_def\<close>)

text \<open>
  C32. A local image is the bytes of its file.  When the file can be read and its media type is ASCII, the
  input made of it reaches the wire as it is, as a part of type image, and decoding the base64 text of its
  URI gives back every byte of the file; when it cannot be read, the error is passed on.
\<close>

theorem local_image_on_wire:
  assumes "\<forall>c \<in> set (fl_type_by_ext lib (path_ext path)). code c < 128"
    and "\<forall>data. \<forall>c \<in> set (fl_detect lib data). code c < 128"
  shows "case fl_read lib path of
      Inl e \<Rightarrow> LocalImageInput lib path = Inl (ErrWrap ''local image input: '' e [])
    | Inr data \<Rightarrow> \<exists>part media text. LocalImageInput lib path = Inr part \<and>
        part = JObj [(''mediaType'', JStr media), (''type'', JStr ''image''),
          (''url'', JStr (''data:'' @ media @ '';base64,'' @ text))] \<and>
        b64_decode text = data \<and> wire_input (encode_inputs [part]) = Some (JArr [part])"
proof (cases "fl_read lib path")
  case (Inl e)
  then show ?thesis by (simp add: LocalImageInput_def)
next
  case (Inr data)
  let ?guess = "fl_type_by_ext lib (path_ext path)"
  let ?media = "if ?guess = [] then fl_detect lib data else ?guess"
  let ?part = "JObj [(''mediaType'', JStr ?media), (''type'', JStr ''image''),
      (''url'', JStr (base64_data_uri ?media data))]"
  have media: "\<forall>c \<in> set ?media. code c < 128" using assms by simp
  then have uri: "\<forall>c \<in> set (base64_data_uri ?media data). code c < 128"
    using b64_encode_ascii [of _ data] by (auto simp: base64_data_uri_def code_def)
  from coerce_ascii [OF media] coerce_ascii [OF uri]
  have valid: "valid_utf8 ?media" "valid_utf8 (base64_data_uri ?media data)"
    and part: "LocalImageInput lib path = Inr ?part"
    by (simp_all only: valid_utf8_def LocalImageInput_def Inr sum.case Let_def)
  have "json_ok max_depth (JArr [?part])"
    using valid by (simp add: max_depth_def valid_utf8_ascii code_def)
  then have "wire_input (encode_inputs [?part]) = Some (JArr [?part])" by (intro typed_inputs_wire) simp_all
  with part b64_round_trip [of data] show ?thesis
    unfolding Inr sum.case base64_data_uri_def by blast
qed

text \<open>A file of one byte.\<close>

definition demo_files :: file_lib where
  "demo_files = \<lparr>fl_read = (\<lambda>path. Inr [CHR 0xFF]), fl_type_by_ext = (\<lambda>e. if e = ''.png'' then ''image/png'' else []),
     fl_detect = (\<lambda>d. ''application/octet-stream'')\<rparr>"

theorem local_image_on_wire_witness:
  "\<exists>part text. LocalImageInput demo_files ''/tmp/a.png'' = Inr part \<and> b64_decode text = [CHR 0xFF] \<and>
     wire_input (encode_inputs [part]) = Some (JArr [part])"
  using local_image_on_wire [of demo_files "''/tmp/a.png''"] by (auto simp: demo_files_def path_ext_def code_def)

end
