(* ===== verification/HookServer.thy ===== *)
theory HookServer imports GoErrors GoQuote begin

text \<open>
  The life of the hook listener (\<^verbatim>\<open>Listener\<close> of \<^verbatim>\<open>internal/hookbridge/listener.go\<close>): the accept loop, the
  goroutines of the connections, counted by a wait group, and \<^verbatim>\<open>Close\<close>, any number of which may run at
  once.  What a connection's goroutine does is \<open>HookBridge\<close>; here it runs and ends.
\<close>

text \<open>The loop holds a connection between its accept and the start of its goroutine.\<close>

datatype serve_pc = Accepting | AcceptFailed | Accepted | Counted | ServeEnded

text \<open>The first \<^verbatim>\<open>Close\<close> runs the closing under the once, the others wait for it to be done.\<close>

datatype hook_close_pc = AtOnce | ClosingSocket | ClosingDone | AtWait | HookClosed

record hook_listener =
  hl_listening :: bool
  hl_once :: bool
  hl_done :: bool
  hl_wg :: nat
  hl_running :: nat
  hl_serve :: serve_pc
  hl_closes :: "hook_close_pc list"

definition new_listener :: hook_listener where
  "new_listener = \<lparr>hl_listening = True, hl_once = False, hl_done = False, hl_wg = 0, hl_running = 0,
     hl_serve = Accepting, hl_closes = []\<rparr>"

text \<open>
  \<^verbatim>\<open>New\<close>: a stale socket file is removed, and one that is not there is not an error; then the socket is opened.
\<close>

definition hook_new :: "(string \<Rightarrow> (bool \<times> go_error) option) \<Rightarrow> (string \<Rightarrow> go_error option) \<Rightarrow> string \<Rightarrow> go_error + hook_listener" where
  "hook_new remove listen path =
     (case remove path of
        Some (False, e) \<Rightarrow> Inl (ErrWrap (''hookbridge: remove stale socket '' @ quoted path @ '': '') e [])
      | _ \<Rightarrow>
          (case listen path of
             Some e \<Rightarrow> Inl (ErrWrap (''hookbridge: listen on '' @ quoted path @ '': '') e [])
           | None \<Rightarrow> Inr new_listener))"

text \<open>
  One move of the loop.  \<^verbatim>\<open>Accept\<close> gives a connection or an error while the socket is open, and only an
  error once it is closed.
\<close>

definition serve_move :: "bool \<Rightarrow> hook_listener \<Rightarrow> hook_listener option" where
  "serve_move accepts s =
     (case hl_serve s of
        Accepting \<Rightarrow>
          if accepts then (if hl_listening s then Some (s\<lparr>hl_serve := Accepted\<rparr>) else None)
          else Some (s\<lparr>hl_serve := AcceptFailed\<rparr>)
      | AcceptFailed \<Rightarrow> Some (s\<lparr>hl_serve := if hl_done s then ServeEnded else Accepting\<rparr>)
      | Accepted \<Rightarrow> Some (s\<lparr>hl_serve := Counted, hl_wg := Suc (hl_wg s)\<rparr>)
      | Counted \<Rightarrow> Some (s\<lparr>hl_serve := Accepting, hl_running := Suc (hl_running s)\<rparr>)
      | ServeEnded \<Rightarrow> None)"

definition hook_close_move :: "hook_close_pc \<Rightarrow> hook_listener \<Rightarrow> (hook_close_pc \<times> hook_listener) option" where
  "hook_close_move pc s =
     (case pc of
        AtOnce \<Rightarrow>
          if \<not> hl_once s then Some (ClosingSocket, s\<lparr>hl_once := True\<rparr>)
          else if hl_done s then Some (AtWait, s) else None
      | ClosingSocket \<Rightarrow> Some (ClosingDone, s\<lparr>hl_listening := False\<rparr>)
      | ClosingDone \<Rightarrow> Some (AtWait, s\<lparr>hl_done := True\<rparr>)
      | AtWait \<Rightarrow> if hl_wg s = 0 then Some (HookClosed, s) else None
      | HookClosed \<Rightarrow> None)"

inductive hook_step :: "hook_listener \<Rightarrow> hook_listener \<Rightarrow> bool" where
  hk_serve: "serve_move accepts s = Some t \<Longrightarrow> hook_step s t"
| hk_conn_ends: "0 < hl_running s \<Longrightarrow> hook_step s (s\<lparr>hl_running := hl_running s - 1, hl_wg := hl_wg s - 1\<rparr>)"
| hk_close: "hook_step s (s\<lparr>hl_closes := hl_closes s @ [AtOnce]\<rparr>)"
| hk_close_move: "n < length (hl_closes s) \<Longrightarrow> hook_close_move (hl_closes s ! n) s = Some (pc, t) \<Longrightarrow>
     hook_step s (t\<lparr>hl_closes := (hl_closes s)[n := pc]\<rparr>)"

section \<open>What is left when Close returns\<close>

text \<open>
  The wait group counts the goroutines that run and the one the loop is about to start; the loop's
  connection was accepted while the socket was open; past its closing part a close finds the socket
  closed, and once one returned at most one connection is left, the one the loop held then.
\<close>

definition past_closing :: "hook_close_pc list \<Rightarrow> bool" where
  "past_closing pcs \<longleftrightarrow> (\<exists>pc \<in> set pcs. pc \<noteq> AtOnce \<and> pc \<noteq> ClosingSocket)"

definition counted :: "hook_listener \<Rightarrow> nat" where
  "counted s = hl_running s + (if hl_serve s = Counted then 1 else 0)"

definition hook_inv :: "hook_listener \<Rightarrow> bool" where
  "hook_inv s \<longleftrightarrow> hl_wg s = counted s \<and>
     (hl_done s \<or> past_closing (hl_closes s) \<longrightarrow> \<not> hl_listening s) \<and>
     (HookClosed \<in> set (hl_closes s) \<longrightarrow> counted s + (if hl_serve s = Accepted then 1 else 0) \<le> 1)"

lemma past_closing_simps [simp]:
  "\<not> past_closing []" "past_closing (xs @ [AtOnce]) = past_closing xs" "HookClosed \<in> set xs \<Longrightarrow> past_closing xs"
  by (auto simp: past_closing_def)

lemma past_closing_update:
  "past_closing (xs[n := pc]) \<Longrightarrow> past_closing xs \<or> pc \<noteq> AtOnce \<and> pc \<noteq> ClosingSocket"
  unfolding past_closing_def using set_update_subset_insert [of xs n pc] by blast

lemma hook_inv_serve:
  assumes inv: "hook_inv s" and m: "serve_move accepts s = Some t"
  shows "hook_inv t"
proof (cases "hl_serve s")
  case Accepting
  show ?thesis
  proof (cases accepts)
    case True
    with m Accepting have "hl_listening s" "t = s\<lparr>hl_serve := Accepted\<rparr>" by (simp_all add: serve_move_def split: if_splits)
    moreover from this(1) inv have "HookClosed \<notin> set (hl_closes s)" by (auto simp: hook_inv_def)
    ultimately show ?thesis using inv Accepting by (simp add: hook_inv_def counted_def)
  next
    case False
    with m Accepting have "t = s\<lparr>hl_serve := AcceptFailed\<rparr>" by (simp add: serve_move_def)
    with inv Accepting show ?thesis by (simp add: hook_inv_def counted_def)
  qed
next
  case AcceptFailed
  with m have "t = s\<lparr>hl_serve := if hl_done s then ServeEnded else Accepting\<rparr>" by (simp add: serve_move_def)
  with inv AcceptFailed show ?thesis by (simp add: hook_inv_def counted_def)
next
  case Accepted
  with m have "t = s\<lparr>hl_serve := Counted, hl_wg := Suc (hl_wg s)\<rparr>" by (simp add: serve_move_def)
  with inv Accepted show ?thesis by (simp add: hook_inv_def counted_def)
next
  case Counted
  with m have "t = s\<lparr>hl_serve := Accepting, hl_running := Suc (hl_running s)\<rparr>" by (simp add: serve_move_def)
  with inv Counted show ?thesis by (simp add: hook_inv_def counted_def)
next
  case ServeEnded
  with m show ?thesis by (simp add: serve_move_def)
qed

lemma hook_inv_closes:
  assumes "hook_inv s" and "past_closing pcs \<Longrightarrow> past_closing (hl_closes s) \<or> \<not> hl_listening s"
    and "HookClosed \<in> set pcs \<Longrightarrow> HookClosed \<in> set (hl_closes s) \<or> hl_wg s = 0"
  shows "hook_inv (s\<lparr>hl_closes := pcs\<rparr>)"
  using assms by (auto simp: hook_inv_def counted_def)

lemma hook_inv_close:
  assumes inv: "hook_inv s" and n: "n < length (hl_closes s)" and m: "hook_close_move (hl_closes s ! n) s = Some (pc, t)"
  shows "hook_inv (t\<lparr>hl_closes := (hl_closes s)[n := pc]\<rparr>)"
proof -
  let ?pcs = "(hl_closes s)[n := pc]"
  note past = past_closing_update [of "hl_closes s" n pc]
  have closed: "HookClosed \<in> set ?pcs \<Longrightarrow> HookClosed \<in> set (hl_closes s) \<or> pc = HookClosed"
    using set_update_subset_insert [of "hl_closes s" n pc] by blast
  have beyond: "\<not> hl_listening s" if "hl_closes s ! n \<noteq> AtOnce" "hl_closes s ! n \<noteq> ClosingSocket"
    using inv n that nth_mem [OF n] by (auto simp: hook_inv_def past_closing_def)
  show ?thesis
  proof (cases "hl_closes s ! n")
    case AtOnce
    show ?thesis
    proof (cases "hl_once s")
      case True
      with m AtOnce have t: "hl_done s" "pc = AtWait" "t = s" by (simp_all add: hook_close_move_def split: if_splits)
      with inv have "\<not> hl_listening s" by (simp add: hook_inv_def)
      with t closed show ?thesis by (auto intro: hook_inv_closes [OF inv])
    next
      case False
      with m AtOnce have t: "pc = ClosingSocket" "t = s\<lparr>hl_once := True\<rparr>" by (simp_all add: hook_close_move_def)
      have "hook_inv (s\<lparr>hl_once := True\<rparr>)" using inv by (simp add: hook_inv_def counted_def)
      from hook_inv_closes [OF this, of ?pcs] past closed t show ?thesis by auto
    qed
  next
    case ClosingSocket
    with m have t: "pc = ClosingDone" "t = s\<lparr>hl_listening := False\<rparr>" by (simp_all add: hook_close_move_def)
    have "hook_inv (s\<lparr>hl_listening := False\<rparr>)" using inv by (simp add: hook_inv_def counted_def)
    from hook_inv_closes [OF this, of ?pcs] closed t show ?thesis by auto
  next
    case ClosingDone
    with m have t: "pc = AtWait" "t = s\<lparr>hl_done := True\<rparr>" by (simp_all add: hook_close_move_def)
    have l: "\<not> hl_listening s" using beyond ClosingDone by simp
    then have "hook_inv (s\<lparr>hl_done := True\<rparr>)" using inv by (simp add: hook_inv_def counted_def)
    from hook_inv_closes [OF this, of ?pcs] l closed t show ?thesis by auto
  next
    case AtWait
    with m have t: "pc = HookClosed" "t = s" "hl_wg s = 0" by (simp_all add: hook_close_move_def split: if_splits)
    have "\<not> hl_listening s" using beyond AtWait by simp
    with hook_inv_closes [OF inv, of ?pcs] t show ?thesis by auto
  next
    case HookClosed
    with m show ?thesis by (simp add: hook_close_move_def)
  qed
qed

lemma hook_inv_step: "hook_step s t \<Longrightarrow> hook_inv s \<Longrightarrow> hook_inv t"
proof (induction rule: hook_step.induct)
  case (hk_serve accepts s t)
  then show ?case by (blast intro: hook_inv_serve)
next
  case (hk_conn_ends s)
  then show ?case by (auto simp: hook_inv_def counted_def)
next
  case (hk_close s)
  then show ?case by (intro hook_inv_closes) auto
next
  case (hk_close_move n s pc t)
  then show ?case by (blast intro: hook_inv_close)
qed

interpretation hooks: invariant_system "\<lambda>s. s = new_listener" hook_step hook_inv
  by unfold_locales (simp add: new_listener_def hook_inv_def counted_def, rule hook_inv_step)

text \<open>
  When a close has returned the socket is closed, no goroutine of a connection is left that had been
  counted before, and at most the one connection the accept loop held at that moment is still served.
\<close>

theorem hook_close_drains:
  assumes "reachable (\<lambda>s. s = new_listener) hook_step s" and "HookClosed \<in> set (hl_closes s)"
  shows "\<not> hl_listening s \<and> hl_running s \<le> 1 \<and> (hl_running s = 1 \<longrightarrow> hl_serve s \<notin> {Accepted, Counted})"
  using hooks.reachable_inv [OF assms(1)] assms(2) by (auto simp: hook_inv_def counted_def split: if_splits)

text \<open>That connection exists: a close can return while a request is still being handled.\<close>

lemma hook_close_returns_early:
  "\<exists>s. reachable (\<lambda>s. s = new_listener) hook_step s \<and> hl_closes s = [HookClosed] \<and> hl_running s = 1"
proof -
  let ?at = "\<lambda>l once d wg r sv pc. \<lparr>hl_listening = l, hl_once = once, hl_done = d, hl_wg = wg, hl_running = r,
     hl_serve = sv, hl_closes = [pc]\<rparr>"
  let ?R = "reachable (\<lambda>s. s = new_listener) hook_step"
  have close: "?R s \<Longrightarrow> hl_closes s = [pc] \<Longrightarrow> hook_close_move pc s = Some (pc', t) \<Longrightarrow> ?R (t\<lparr>hl_closes := [pc']\<rparr>)" for s pc pc' t
    using hk_close_move [of 0 s pc' t] by (auto intro: reach_step)
  have serve: "?R s \<Longrightarrow> serve_move a s = Some t \<Longrightarrow> ?R t" for s a t by (blast intro: reach_step hk_serve)
  have "?R new_listener" by (rule reach_start) simp
  then have "?R (?at True False False 0 0 Accepting AtOnce)"
    using hk_close [of new_listener] by (auto simp: new_listener_def intro: reach_step)
  from serve [OF this, of True] have "?R (?at True False False 0 0 Accepted AtOnce)" by (simp add: serve_move_def)
  from close [OF this] have "?R (?at True True False 0 0 Accepted ClosingSocket)" by (simp add: hook_close_move_def)
  from close [OF this] have "?R (?at False True False 0 0 Accepted ClosingDone)" by (simp add: hook_close_move_def)
  from close [OF this] have "?R (?at False True True 0 0 Accepted AtWait)" by (simp add: hook_close_move_def)
  from close [OF this] have "?R (?at False True True 0 0 Accepted HookClosed)" by (simp add: hook_close_move_def)
  from serve [OF this] have "?R (?at False True True 1 0 Counted HookClosed)" by (simp add: serve_move_def)
  from serve [OF this] have "?R (?at False True True 1 1 Accepting HookClosed)" by (simp add: serve_move_def)
  then show ?thesis by (intro exI conjI) (assumption, simp_all)
qed

end
