(* ===== verification/ReconnectHttp.thy ===== *)
theory ReconnectHttp imports Reconnect FanIn HttpProps begin

text \<open>
  The reconnecting HTTP transport as a whole (\<^verbatim>\<open>reconnect_http.go\<close>): the watch loop and the closes of
  \<open>Reconnect\<close>, HTTP transports of \<open>Http\<close> as its connections, for each connection the two goroutines of
  \<open>FanIn\<close>, and any number of calls and notifications, which go to the connection that was current when they
  read it.  Shown: the composition implements its parts, and what becomes of a call.
\<close>

section \<open>State\<close>

text \<open>
  A call: it reads the current connection, is checked, posted, and returns.  A notification is a call without an
  id.
\<close>

datatype rh_call_pc = RhLock | RhCheck nat | RhPost nat | RhWait nat "u64 option" | RhReturned "go_error + raw"

record rh_call =
  rk_notify :: bool
  rk_method :: string
  rk_params :: raw
  rk_pc :: rh_call_pc

text \<open>
  A connection that is not made yet is the one \<^verbatim>\<open>NewHTTP\<close> will give; the goroutines of a connection are off until
  they are started.  The last four components are history: what was posted (the number of the call, its
  connection and its id), the frames each connection delivered, and what the client received.
\<close>

record recon_http =
  rh_link :: recon
  rh_conns :: "nat \<Rightarrow> http"
  rh_notes :: "(nat \<times> notification) gochan"
  rh_requests :: "(nat \<times> chan_request) gochan"
  rh_note_fans :: "nat \<Rightarrow> notification fan_pc"
  rh_request_fans :: "nat \<Rightarrow> chan_request fan_pc"
  rh_calls :: "rh_call list"
  rh_posts :: "(nat \<times> nat \<times> u64 option) list"
  rh_frames :: "nat \<Rightarrow> frame list"
  rh_got_notes :: "(nat \<times> notification) list"
  rh_got_requests :: "(nat \<times> chan_request) list"

definition new_reconnecting_http :: "string \<Rightarrow> (http \<Rightarrow> http) list \<Rightarrow> recon_http" where
  "new_reconnecting_http base opts =
     \<lparr>rh_link = new_reconnecting, rh_conns = (\<lambda>c. new_http base opts), rh_notes = make_chan 32, rh_requests = make_chan 32,
      rh_note_fans = (\<lambda>c. FanOff)(0 := FanIdle), rh_request_fans = (\<lambda>c. FanOff)(0 := FanIdle), rh_calls = [],
      rh_posts = [], rh_frames = (\<lambda>c. []), rh_got_notes = [], rh_got_requests = []\<rparr>"

section \<open>The loop and Close\<close>

text \<open>The loop starts the goroutines of the connection it has installed.\<close>

definition rh_watch :: "watch_event \<Rightarrow> recon_http \<Rightarrow> recon_http option" where
  "rh_watch ev s =
     map_option (\<lambda>l.
         (case rc_watch (rh_link s) of
            Installed n \<Rightarrow> s\<lparr>rh_link := l, rh_note_fans := (rh_note_fans s)(n := FanIdle),
                            rh_request_fans := (rh_request_fans s)(n := FanIdle)\<rparr>
          | _ \<Rightarrow> s\<lparr>rh_link := l\<rparr>))
       (watch_move KindHTTP ev (rh_link s))"

text \<open>A connection ends: its reader does, or it is closed, which cancels the reader.\<close>

definition rh_end :: "nat \<Rightarrow> recon_http \<Rightarrow> recon_http" where
  "rh_end c s =
     s\<lparr>rh_link := (rh_link s)\<lparr>rc_ended := insert c (rc_ended (rh_link s))\<rparr>,
       rh_conns := (rh_conns s)(c := http_close_done (rh_conns s c))\<rparr>"

definition rh_close_move :: "nat \<Rightarrow> recon_http \<Rightarrow> recon_http option" where
  "rh_close_move n s =
     (let pc = rc_closes (rh_link s) ! n in
      map_option (\<lambda>(pc', l).
          s\<lparr>rh_link := l\<lparr>rc_closes := (rc_closes (rh_link s))[n := pc']\<rparr>,
            rh_conns := (case pc of
                CloseInner c \<Rightarrow> (rh_conns s)(c := http_close_done (http_cancel (rh_conns s c)))
              | _ \<Rightarrow> rh_conns s)\<rparr>)
        (recon_close_move pc (rh_link s)))"

section \<open>Frames and the goroutines that pass them on\<close>

definition rh_deliver :: "bool \<Rightarrow> nat \<Rightarrow> frame \<Rightarrow> recon_http \<Rightarrow> recon_http option" where
  "rh_deliver prefer_stop c f s =
     (case http_deliver prefer_stop f (rh_conns s c) of
        None \<Rightarrow> None
      | Some (True, h) \<Rightarrow>
          Some (s\<lparr>rh_conns := (rh_conns s)(c := h), rh_frames := (rh_frames s)(c := rh_frames s c @ [f])\<rparr>)
      | Some (False, h) \<Rightarrow> Some (rh_end c s))"

definition fan_notifications_receive :: "nat \<Rightarrow> recon_http \<Rightarrow> recon_http option" where
  "fan_notifications_receive c s =
     map_option (\<lambda>(pc, ch). s\<lparr>rh_note_fans := (rh_note_fans s)(c := pc),
         rh_conns := (rh_conns s)(c := (rh_conns s c)\<lparr>ht_notes := ch\<rparr>)\<rparr>)
       (fan_receive (rh_note_fans s c) (ht_notes (rh_conns s c)))"

definition fan_notifications_forward :: "nat \<Rightarrow> recon_http \<Rightarrow> recon_http option" where
  "fan_notifications_forward c s =
     map_option (\<lambda>(pc, ch). s\<lparr>rh_note_fans := (rh_note_fans s)(c := pc), rh_notes := ch\<rparr>)
       (fan_forward c (rh_note_fans s c) (rh_notes s))"

definition fan_notifications_stop :: "nat \<Rightarrow> recon_http \<Rightarrow> recon_http option" where
  "fan_notifications_stop c s =
     map_option (\<lambda>pc. s\<lparr>rh_note_fans := (rh_note_fans s)(c := pc)\<rparr>)
       (fan_stop (ht_done (rh_conns s c)) (rc_done (rh_link s)) (rh_note_fans s c))"

definition fan_requests_receive :: "nat \<Rightarrow> recon_http \<Rightarrow> recon_http option" where
  "fan_requests_receive c s =
     map_option (\<lambda>(pc, ch). s\<lparr>rh_request_fans := (rh_request_fans s)(c := pc),
         rh_conns := (rh_conns s)(c := (rh_conns s c)\<lparr>ht_requests := ch\<rparr>)\<rparr>)
       (fan_receive (rh_request_fans s c) (ht_requests (rh_conns s c)))"

definition fan_requests_forward :: "nat \<Rightarrow> recon_http \<Rightarrow> recon_http option" where
  "fan_requests_forward c s =
     map_option (\<lambda>(pc, ch). s\<lparr>rh_request_fans := (rh_request_fans s)(c := pc), rh_requests := ch\<rparr>)
       (fan_forward c (rh_request_fans s c) (rh_requests s))"

definition fan_requests_stop :: "nat \<Rightarrow> recon_http \<Rightarrow> recon_http option" where
  "fan_requests_stop c s =
     map_option (\<lambda>pc. s\<lparr>rh_request_fans := (rh_request_fans s)(c := pc)\<rparr>)
       (fan_stop (ht_done (rh_conns s c)) (rc_done (rh_link s)) (rh_request_fans s c))"

section \<open>Calls\<close>

definition rh_payload :: "rh_call \<Rightarrow> u64 option \<Rightarrow> json" where
  "rh_payload q i =
     (case i of
        Some n \<Rightarrow> enc_request (with_id (rk_method q, rk_params q) n)
      | None \<Rightarrow> enc_notification (rk_method q) (rk_params q))"

definition rh_result :: "(go_error + http_response) \<Rightarrow> rh_call \<Rightarrow> u64 option \<Rightarrow> http \<Rightarrow> go_error + raw" where
  "rh_result outcome q i h =
     (case post (\<lambda>r. outcome) (rh_payload q i) h of
        Inl e \<Rightarrow> Inl e
      | Inr body \<Rightarrow> if rk_notify q then Inr None else http_answer body)"

definition rh_set_pc :: "nat \<Rightarrow> rh_call_pc \<Rightarrow> recon_http \<Rightarrow> recon_http" where
  "rh_set_pc k pc s = s\<lparr>rh_calls := (rh_calls s)[k := (rh_calls s ! k)\<lparr>rk_pc := pc\<rparr>]\<rparr>"

text \<open>One move of call \<open>k\<close>: the lock, the guards of the connection, the id and the request, and the outcome of the post.\<close>

definition rh_send :: "nat \<Rightarrow> nat \<Rightarrow> recon_http \<Rightarrow> recon_http" where
  "rh_send k c s =
     (if rk_notify (rh_calls s ! k)
      then rh_set_pc k (RhWait c None) (s\<lparr>rh_posts := rh_posts s @ [(k, c, None)]\<rparr>)
      else let i = ht_next (rh_conns s c) + 1 in
        rh_set_pc k (RhWait c (Some i))
          (s\<lparr>rh_conns := (rh_conns s)(c := (rh_conns s c)\<lparr>ht_next := i\<rparr>), rh_posts := rh_posts s @ [(k, c, Some i)]\<rparr>))"

definition rh_call_move ::
  "bool \<Rightarrow> go_error option \<Rightarrow> go_error + http_response \<Rightarrow> nat \<Rightarrow> recon_http \<Rightarrow> recon_http option" where
  "rh_call_move prefer_ctx ctx_err outcome k s =
     (case rk_pc (rh_calls s ! k) of
        RhLock \<Rightarrow> Some (rh_set_pc k (RhCheck (rc_current (rh_link s))) s)
      | RhCheck c \<Rightarrow>
          Some (rh_set_pc k (case http_check prefer_ctx (ht_done (rh_conns s c)) ctx_err of
              Some e \<Rightarrow> RhReturned (Inl e) | None \<Rightarrow> RhPost c) s)
      | RhPost c \<Rightarrow> Some (rh_send k c s)
      | RhWait c i \<Rightarrow> Some (rh_set_pc k (RhReturned (rh_result outcome (rh_calls s ! k) i (rh_conns s c))) s)
      | RhReturned r \<Rightarrow> None)"

section \<open>The system\<close>

text \<open>
  What the HTTP client gives for a post is any error but the package's own, or any response whose body can be
  read or not.
\<close>

definition client_outcome :: "go_error + http_response \<Rightarrow> bool" where
  "client_outcome r = (case r of Inl e \<Rightarrow> e \<noteq> ErrClosed | Inr resp \<Rightarrow> rs_body resp \<noteq> Inl ErrClosed)"

inductive rh_step :: "recon_http \<Rightarrow> recon_http \<Rightarrow> bool" where
  rh_watches: "rh_watch ev s = Some t \<Longrightarrow> rh_step s t"
| rh_ends: "c < rc_inners (rh_link s) \<Longrightarrow> rh_step s (rh_end c s)"
| rh_closes: "rh_step s (s\<lparr>rh_link := (rh_link s)\<lparr>rc_closes := rc_closes (rh_link s) @ [CloseStart]\<rparr>\<rparr>)"
| rh_close_moves: "n < length (rc_closes (rh_link s)) \<Longrightarrow> rh_close_move n s = Some t \<Longrightarrow> rh_step s t"
| rh_delivers: "c < rc_inners (rh_link s) \<Longrightarrow> rh_deliver p c f s = Some t \<Longrightarrow> rh_step s t"
| rh_note_received: "fan_notifications_receive c s = Some t \<Longrightarrow> rh_step s t"
| rh_note_forwarded: "fan_notifications_forward c s = Some t \<Longrightarrow> rh_step s t"
| rh_note_stopped: "fan_notifications_stop c s = Some t \<Longrightarrow> rh_step s t"
| rh_request_received: "fan_requests_receive c s = Some t \<Longrightarrow> rh_step s t"
| rh_request_forwarded: "fan_requests_forward c s = Some t \<Longrightarrow> rh_step s t"
| rh_request_stopped: "fan_requests_stop c s = Some t \<Longrightarrow> rh_step s t"
| rh_got_note: "chan_recv (rh_notes s) = RecvVal x ch \<Longrightarrow> rh_step s (s\<lparr>rh_notes := ch, rh_got_notes := rh_got_notes s @ [x]\<rparr>)"
| rh_got_request: "chan_recv (rh_requests s) = RecvVal x ch \<Longrightarrow>
     rh_step s (s\<lparr>rh_requests := ch, rh_got_requests := rh_got_requests s @ [x]\<rparr>)"
| rh_called: "rh_step s (s\<lparr>rh_calls := rh_calls s @ [\<lparr>rk_notify = b, rk_method = m, rk_params = ps, rk_pc = RhLock\<rparr>]\<rparr>)"
| rh_call_moves: "k < length (rh_calls s) \<Longrightarrow> ctx_err \<noteq> Some ErrClosed \<Longrightarrow> client_outcome outcome \<Longrightarrow>
     rh_call_move p ctx_err outcome k s = Some t \<Longrightarrow> rh_step s t"

definition rh_start :: "recon_http \<Rightarrow> bool" where
  "rh_start s \<longleftrightarrow>
     (\<exists>base opts. s = new_reconnecting_http base opts \<and> (\<forall>opt \<in> set opts. \<exists>k v. opt = with_http_header k v))"

section \<open>The parts\<close>

text \<open>The notifications of the system as a fan-in, and its requests as another.\<close>

definition note_view :: "recon_http \<Rightarrow> notification fan_in" where
  "note_view s = \<lparr>fi_srcs = (\<lambda>c. ht_notes (rh_conns s c)), fi_fans = rh_note_fans s, fi_dst = rh_notes s,
     fi_ended = rc_ended (rh_link s), fi_done = rc_done (rh_link s),
     fi_sent = (\<lambda>c. List.map_filter note_of (rh_frames s c)), fi_got = rh_got_notes s\<rparr>"

definition request_view :: "recon_http \<Rightarrow> chan_request fan_in" where
  "request_view s = \<lparr>fi_srcs = (\<lambda>c. ht_requests (rh_conns s c)), fi_fans = rh_request_fans s, fi_dst = rh_requests s,
     fi_ended = rc_ended (rh_link s), fi_done = rc_done (rh_link s),
     fi_sent = (\<lambda>c. List.map_filter request_of (rh_frames s c)), fi_got = rh_got_requests s\<rparr>"

text \<open>
  The connections' own flags agree with the loop's, and the goroutines of a connection that is not installed are
  off.
\<close>

definition unstarted :: "recon_http \<Rightarrow> nat \<Rightarrow> bool" where
  "unstarted s c \<longleftrightarrow> rh_note_fans s c = FanOff \<and> rh_request_fans s c = FanOff"

definition rh_sync :: "recon_http \<Rightarrow> bool" where
  "rh_sync s \<longleftrightarrow> (\<forall>c. ht_done (rh_conns s c) \<longleftrightarrow> c \<in> rc_ended (rh_link s)) \<and>
     (\<forall>c \<ge> rc_inners (rh_link s). unstarted s c) \<and>
     (\<forall>n. rc_watch (rh_link s) \<in> {Installing n, Installed n} \<longrightarrow> n < rc_inners (rh_link s) \<and> unstarted s n)"

text \<open>What a move of the loop leaves alone, and the connection it makes.\<close>

lemma http_watch_keeps:
  assumes "watch_move KindHTTP ev l = Some l'"
  shows "rc_ended l' = rc_ended l" "rc_done l' = rc_done l" "rc_inners l \<le> rc_inners l'"
    "rc_watch l' = Installing n \<Longrightarrow> n = rc_inners l \<and> n < rc_inners l'" "rc_watch l' = Installed n \<Longrightarrow> rc_watch l = Installing n"
    "rc_watch l = Installed n \<Longrightarrow> rc_watch l' = ReadCurrent"
  using assms unfolding watch_move_def by (auto elim!: http_moveE simp: watch_dial_def watch_end_def split: if_splits)

lemma recon_close_keeps:
  assumes "recon_close_move pc l = Some (pc', l')"
  shows "rc_inners l' = rc_inners l" "rc_watch l' = rc_watch l"
    "rc_ended l' = (case pc of CloseInner c \<Rightarrow> insert c (rc_ended l) | _ \<Rightarrow> rc_ended l)"
    "rc_done l' = (pc = CloseMarked \<or> rc_done l)"
  using assms by (auto simp: recon_close_move_def split: close_pc.splits if_splits)

lemma fan_off_stays:
  "fan_receive pc src = Some r \<Longrightarrow> pc \<noteq> FanOff" "fan_forward c pc dst = Some r' \<Longrightarrow> pc \<noteq> FanOff"
  "fan_stop d f pc = Some pc' \<Longrightarrow> pc \<noteq> FanOff"
  by (auto simp: fan_receive_def fan_forward_def fan_stop_def)

lemma rh_sync_start: "rh_start s \<Longrightarrow> rh_sync s"
  using new_http_fresh(3)
  by (auto simp: rh_start_def new_reconnecting_http_def rh_sync_def unstarted_def new_reconnecting_def)

lemma http_deliver_done:
  "http_deliver p f h = Some (b, h') \<Longrightarrow> ht_done h' = ht_done h"
  by (auto simp: http_deliver_def Let_def split: if_splits frame.splits send_res.splits)

lemma rh_sync_end: "rh_sync s \<Longrightarrow> rh_sync (rh_end c s)"
  by (simp add: rh_sync_def rh_end_def http_close_done_def unstarted_def)

lemma rh_sync_calls:
  "rh_sync (s\<lparr>rh_calls := cs\<rparr>) = rh_sync s" "rh_sync (s\<lparr>rh_posts := ps\<rparr>) = rh_sync s"
  "rh_sync (s\<lparr>rh_calls := cs, rh_posts := ps\<rparr>) = rh_sync s"
  "rh_sync (s\<lparr>rh_conns := (rh_conns s)(c := (rh_conns s c)\<lparr>ht_next := i\<rparr>)\<rparr>) = rh_sync s"
  by (auto simp: rh_sync_def unstarted_def)

lemma rh_call_move_cases:
  assumes "rh_call_move p ctx_err outcome k s = Some t"
  obtains pc where "t = rh_set_pc k pc s" | c where "rk_pc (rh_calls s ! k) = RhPost c" "t = rh_send k c s"
  using assms by (auto simp: rh_call_move_def split: rh_call_pc.splits)

lemma rh_deliver_cases:
  assumes "rh_deliver p c f s = Some t"
  obtains "t = rh_end c s"
  | h where "http_deliver p f (rh_conns s c) = Some (True, h)"
      "t = s\<lparr>rh_conns := (rh_conns s)(c := h), rh_frames := (rh_frames s)(c := rh_frames s c @ [f])\<rparr>"
  using assms by (auto simp: rh_deliver_def split: option.splits prod.splits bool.splits)

lemma rh_watch_cases:
  assumes "rh_watch ev s = Some t"
  obtains n l where "watch_move KindHTTP ev (rh_link s) = Some l" "rc_watch (rh_link s) = Installed n"
      "t = s\<lparr>rh_link := l, rh_note_fans := (rh_note_fans s)(n := FanIdle), rh_request_fans := (rh_request_fans s)(n := FanIdle)\<rparr>"
  | l where "watch_move KindHTTP ev (rh_link s) = Some l" "\<And>n. rc_watch (rh_link s) \<noteq> Installed n" "t = s\<lparr>rh_link := l\<rparr>"
  using assms by (cases "rc_watch (rh_link s)") (auto simp: rh_watch_def)

lemma rh_sync_watch:
  assumes w: "rh_watch ev s = Some t" and inv: "rh_sync s"
  shows "rh_sync t"
  using w
proof (cases rule: rh_watch_cases)
  case (1 n l)
  note keeps = http_watch_keeps [OF 1(1)]
  have n: "n < rc_inners (rh_link s)" using inv 1(2) by (auto simp: rh_sync_def)
  have "unstarted t c" if "rc_inners l \<le> c" for c
    using that inv keeps(3) n by (auto simp: rh_sync_def unstarted_def 1(3))
  with inv keeps(1,6) 1(2) show ?thesis by (simp add: rh_sync_def 1(3))
next
  case (2 l)
  note keeps = http_watch_keeps [OF 2(1)]
  have "n < rc_inners l \<and> unstarted s n" if "rc_watch l \<in> {Installing n, Installed n}" for n
    using that inv keeps(3) keeps(4,5) [of n] by (auto simp: rh_sync_def)
  with inv keeps(1,3) show ?thesis by (auto simp: rh_sync_def 2(3) unstarted_def)
qed

lemma rh_sync_close:
  assumes "rh_close_move n s = Some t" and inv: "rh_sync s"
  shows "rh_sync t"
proof -
  from assms(1) obtain pc' l where m: "recon_close_move (rc_closes (rh_link s) ! n) (rh_link s) = Some (pc', l)"
    and t: "t = s\<lparr>rh_link := l\<lparr>rc_closes := (rc_closes (rh_link s))[n := pc']\<rparr>, rh_conns := (case rc_closes (rh_link s) ! n of
                CloseInner c \<Rightarrow> (rh_conns s)(c := http_close_done (http_cancel (rh_conns s c))) | _ \<Rightarrow> rh_conns s)\<rparr>"
    by (auto simp: rh_close_move_def Let_def)
  from inv recon_close_keeps [OF m] show ?thesis
    by (cases "rc_closes (rh_link s) ! n") (auto simp: t rh_sync_def unstarted_def http_close_done_def http_cancel_def)
qed

lemma rh_sync_deliver:
  assumes "rh_deliver p c f s = Some t" and "rh_sync s"
  shows "rh_sync t"
  using assms(1)
proof (cases rule: rh_deliver_cases)
  case (2 h)
  with assms(2) http_deliver_done [OF 2(1)] show ?thesis by (simp add: rh_sync_def unstarted_def)
qed (simp add: rh_sync_end assms(2))

lemma rh_sync_frame:
  assumes "rh_sync s" and "\<And>c. ht_done (rh_conns t c) = ht_done (rh_conns s c)" and "rh_link t = rh_link s"
    and "\<And>c. unstarted s c \<Longrightarrow> unstarted t c"
  shows "rh_sync t"
  using assms by (auto simp: rh_sync_def)

text \<open>
  A move of a goroutine of a fan-in: what it may change, and that it is none of a goroutine that is off.
\<close>

definition rh_fans_move :: "nat \<Rightarrow> recon_http \<Rightarrow> recon_http \<Rightarrow> bool" where
  "rh_fans_move c s t \<longleftrightarrow>
     (\<exists>pc rpc h ns rs. t = s\<lparr>rh_note_fans := (rh_note_fans s)(c := pc), rh_request_fans := (rh_request_fans s)(c := rpc),
        rh_conns := (rh_conns s)(c := h), rh_notes := ns, rh_requests := rs\<rparr> \<and>
      ht_done h = ht_done (rh_conns s c) \<and> ht_next h = ht_next (rh_conns s c) \<and>
      (rh_note_fans s c \<noteq> FanOff \<or> rh_request_fans s c \<noteq> FanOff))"

lemma rh_fans_movesI:
  "fan_notifications_receive c s = Some t \<Longrightarrow> rh_fans_move c s t"
  "fan_requests_receive c s = Some t \<Longrightarrow> rh_fans_move c s t"
  "fan_notifications_forward c s = Some t \<Longrightarrow> rh_fans_move c s t"
  "fan_requests_forward c s = Some t \<Longrightarrow> rh_fans_move c s t"
  "fan_notifications_stop c s = Some t \<Longrightarrow> rh_fans_move c s t"
  "fan_requests_stop c s = Some t \<Longrightarrow> rh_fans_move c s t"
proof -
  let ?u = "\<lambda>pc rpc h ns rs. s\<lparr>rh_note_fans := (rh_note_fans s)(c := pc), rh_request_fans := (rh_request_fans s)(c := rpc),
        rh_conns := (rh_conns s)(c := h), rh_notes := ns, rh_requests := rs\<rparr>"
  have u: "rh_fans_move c s (?u pc rpc h ns rs)"
    if "ht_done h = ht_done (rh_conns s c)" "ht_next h = ht_next (rh_conns s c)" "rh_note_fans s c \<noteq> FanOff \<or> rh_request_fans s c \<noteq> FanOff"
    for pc rpc h ns rs using that unfolding rh_fans_move_def by blast
  show "rh_fans_move c s t" if m: "fan_notifications_receive c s = Some t"
  proof -
    from m obtain pc ch where r: "fan_receive (rh_note_fans s c) (ht_notes (rh_conns s c)) = Some (pc, ch)"
      and t: "t = s\<lparr>rh_note_fans := (rh_note_fans s)(c := pc), rh_conns := (rh_conns s)(c := (rh_conns s c)\<lparr>ht_notes := ch\<rparr>)\<rparr>"
      by (auto simp: fan_notifications_receive_def)
    from u [where h = "(rh_conns s c)\<lparr>ht_notes := ch\<rparr>" and pc = pc and rpc = "rh_request_fans s c" and ns = "rh_notes s" and rs = "rh_requests s"] fan_off_stays(1) [OF r]
    show ?thesis by (simp add: t)
  qed
  show "rh_fans_move c s t" if m: "fan_requests_receive c s = Some t"
  proof -
    from m obtain pc ch where r: "fan_receive (rh_request_fans s c) (ht_requests (rh_conns s c)) = Some (pc, ch)"
      and t: "t = s\<lparr>rh_request_fans := (rh_request_fans s)(c := pc), rh_conns := (rh_conns s)(c := (rh_conns s c)\<lparr>ht_requests := ch\<rparr>)\<rparr>"
      by (auto simp: fan_requests_receive_def)
    from u [where h = "(rh_conns s c)\<lparr>ht_requests := ch\<rparr>" and pc = "rh_note_fans s c" and rpc = pc and ns = "rh_notes s" and rs = "rh_requests s"] fan_off_stays(1) [OF r]
    show ?thesis by (simp add: t)
  qed
  show "rh_fans_move c s t" if m: "fan_notifications_forward c s = Some t"
  proof -
    from m obtain pc ch where r: "fan_forward c (rh_note_fans s c) (rh_notes s) = Some (pc, ch)"
      and t: "t = s\<lparr>rh_note_fans := (rh_note_fans s)(c := pc), rh_notes := ch\<rparr>" by (auto simp: fan_notifications_forward_def)
    from u [where h = "rh_conns s c" and pc = pc and rpc = "rh_request_fans s c" and ns = ch and rs = "rh_requests s"] fan_off_stays(2) [OF r] show ?thesis by (simp add: t)
  qed
  show "rh_fans_move c s t" if m: "fan_requests_forward c s = Some t"
  proof -
    from m obtain pc ch where r: "fan_forward c (rh_request_fans s c) (rh_requests s) = Some (pc, ch)"
      and t: "t = s\<lparr>rh_request_fans := (rh_request_fans s)(c := pc), rh_requests := ch\<rparr>" by (auto simp: fan_requests_forward_def)
    from u [where h = "rh_conns s c" and pc = "rh_note_fans s c" and rpc = pc and ns = "rh_notes s" and rs = ch] fan_off_stays(2) [OF r] show ?thesis by (simp add: t)
  qed
  show "rh_fans_move c s t" if m: "fan_notifications_stop c s = Some t"
  proof -
    from m obtain pc where r: "fan_stop (ht_done (rh_conns s c)) (rc_done (rh_link s)) (rh_note_fans s c) = Some pc"
      and t: "t = s\<lparr>rh_note_fans := (rh_note_fans s)(c := pc)\<rparr>" by (auto simp: fan_notifications_stop_def)
    from u [where h = "rh_conns s c" and pc = pc and rpc = "rh_request_fans s c" and ns = "rh_notes s" and rs = "rh_requests s"] fan_off_stays(3) [OF r] show ?thesis by (simp add: t)
  qed
  show "rh_fans_move c s t" if m: "fan_requests_stop c s = Some t"
  proof -
    from m obtain pc where r: "fan_stop (ht_done (rh_conns s c)) (rc_done (rh_link s)) (rh_request_fans s c) = Some pc"
      and t: "t = s\<lparr>rh_request_fans := (rh_request_fans s)(c := pc)\<rparr>" by (auto simp: fan_requests_stop_def)
    from u [where h = "rh_conns s c" and pc = "rh_note_fans s c" and rpc = pc and ns = "rh_notes s" and rs = "rh_requests s"] fan_off_stays(3) [OF r] show ?thesis by (simp add: t)
  qed
qed

lemma rh_fans_move_keeps:
  assumes "rh_fans_move c s t"
  shows "rh_link t = rh_link s" "ht_done (rh_conns t i) = ht_done (rh_conns s i)" "unstarted s i \<Longrightarrow> unstarted t i"
    "rh_calls t = rh_calls s" "rh_posts t = rh_posts s" "ht_next (rh_conns t i) = ht_next (rh_conns s i)"
proof -
  from assms obtain pc rpc h ns rs where t: "t = s\<lparr>rh_note_fans := (rh_note_fans s)(c := pc), rh_request_fans := (rh_request_fans s)(c := rpc),
      rh_conns := (rh_conns s)(c := h), rh_notes := ns, rh_requests := rs\<rparr>"
    and h: "ht_done h = ht_done (rh_conns s c)" "ht_next h = ht_next (rh_conns s c)"
    and on: "rh_note_fans s c \<noteq> FanOff \<or> rh_request_fans s c \<noteq> FanOff"
    unfolding rh_fans_move_def by blast
  show "rh_link t = rh_link s" "rh_calls t = rh_calls s" "rh_posts t = rh_posts s" by (simp_all add: t)
  show "ht_done (rh_conns t i) = ht_done (rh_conns s i)" "ht_next (rh_conns t i) = ht_next (rh_conns s i)" using h by (simp_all add: t)
  show "unstarted s i \<Longrightarrow> unstarted t i" using on by (cases "i = c") (auto simp: t unstarted_def)
qed

lemma rh_sync_fans: "rh_fans_move c s t \<Longrightarrow> rh_sync s \<Longrightarrow> rh_sync t"
  by (rule rh_sync_frame [of s]) (simp_all add: rh_fans_move_keeps)

lemma rh_sync_step: "rh_step s t \<Longrightarrow> rh_sync s \<Longrightarrow> rh_sync t"
proof (induction rule: rh_step.induct)
  case (rh_call_moves k s ctx_err outcome p t)
  from rh_call_moves(4) show ?case
    by (cases rule: rh_call_move_cases) (use rh_call_moves(5) in \<open>simp_all add: rh_set_pc_def rh_send_def rh_sync_calls Let_def\<close>)
next
  case (rh_closes s)
  then show ?case by (simp add: rh_sync_def unstarted_def)
next
  case (rh_got_note s x ch)
  then show ?case by (simp add: rh_sync_def unstarted_def)
next
  case (rh_got_request s x ch)
  then show ?case by (simp add: rh_sync_def unstarted_def)
next
  case (rh_called s b m ps)
  then show ?case by (simp add: rh_sync_calls)
qed (fact rh_sync_watch rh_sync_end rh_sync_close rh_sync_deliver | erule (1) rh_fans_movesI [THEN rh_sync_fans]
  | erule rh_sync_watch rh_sync_close rh_sync_deliver; assumption | rule rh_sync_end; assumption)+

interpretation rh: invariant_system rh_start rh_step rh_sync
  by unfold_locales (auto intro: rh_sync_start rh_sync_step)

section \<open>The composition implements its parts\<close>

text \<open>What a step does to the loop and to the two fan-ins: one of their steps, or nothing.\<close>

definition part_step :: "recon_http \<Rightarrow> recon_http \<Rightarrow> bool" where
  "part_step s t \<longleftrightarrow>
     (rh_link t = rh_link s \<or> recon_step KindHTTP (rh_link s) (rh_link t)) \<and>
     (note_view t = note_view s \<or> fan_step (note_view s) (note_view t)) \<and>
     (request_view t = request_view s \<or> fan_step (request_view s) (request_view t))"

lemma views_simps:
  "fi_srcs (note_view s) = (\<lambda>c. ht_notes (rh_conns s c))" "fi_fans (note_view s) = rh_note_fans s"
  "fi_dst (note_view s) = rh_notes s" "fi_ended (note_view s) = rc_ended (rh_link s)"
  "fi_done (note_view s) = rc_done (rh_link s)" "fi_sent (note_view s) = (\<lambda>c. List.map_filter note_of (rh_frames s c))"
  "fi_got (note_view s) = rh_got_notes s"
  "fi_srcs (request_view s) = (\<lambda>c. ht_requests (rh_conns s c))" "fi_fans (request_view s) = rh_request_fans s"
  "fi_dst (request_view s) = rh_requests s" "fi_ended (request_view s) = rc_ended (rh_link s)"
  "fi_done (request_view s) = rc_done (rh_link s)" "fi_sent (request_view s) = (\<lambda>c. List.map_filter request_of (rh_frames s c))"
  "fi_got (request_view s) = rh_got_requests s"
  by (simp_all add: note_view_def request_view_def)

text \<open>A step of a view, from the equations of its components.\<close>

lemma fan_step_by: "fan_step s u \<Longrightarrow> t = u \<Longrightarrow> fan_step s t"
  by simp

lemma http_conn_keeps [simp]:
  "ht_notes (http_close_done h) = ht_notes h" "ht_requests (http_close_done h) = ht_requests h"
  "ht_notes (http_cancel h) = ht_notes h" "ht_requests (http_cancel h) = ht_requests h"
  by (simp_all add: http_close_done_def http_cancel_def)

lemma conn_upd_keeps [simp]:
  "ht_notes h = ht_notes (f c) \<Longrightarrow> (\<lambda>i. ht_notes (if i = c then h else f i)) = (\<lambda>i. ht_notes (f i))"
  "ht_requests h = ht_requests (f c) \<Longrightarrow> (\<lambda>i. ht_requests (if i = c then h else f i)) = (\<lambda>i. ht_requests (f i))"
  by (auto simp: fun_eq_iff)

lemma part_watch:
  assumes w: "rh_watch ev s = Some t" and inv: "rh_sync s"
  shows "part_step s t"
  using w
proof (cases rule: rh_watch_cases)
  case (1 n l)
  note keeps = http_watch_keeps [OF 1(1)]
  have "recon_step KindHTTP (rh_link s) l" using 1(1) by (rule r_watch)
  moreover have off: "rh_note_fans s n = FanOff" "rh_request_fans s n = FanOff" using inv 1(2) by (auto simp: rh_sync_def unstarted_def)
  have "fan_step (note_view s) (note_view t)"
    by (rule fan_step_by [OF f_started [of _ n]]) (use off keeps 1(3) in \<open>simp_all add: note_view_def\<close>)
  moreover have "fan_step (request_view s) (request_view t)"
    by (rule fan_step_by [OF f_started [of _ n]]) (use off keeps 1(3) in \<open>simp_all add: request_view_def\<close>)
  ultimately show ?thesis by (simp add: part_step_def 1(3))
next
  case (2 l)
  then show ?thesis
    using http_watch_keeps [OF 2(1)] r_watch [OF 2(1)] by (simp add: part_step_def note_view_def request_view_def)
qed

lemma part_end:
  assumes "c < rc_inners (rh_link s)"
  shows "part_step s (rh_end c s)"
proof -
  have "recon_step KindHTTP (rh_link s) (rh_link (rh_end c s))"
    using r_drop [OF assms, of KindHTTP] by (simp add: rh_end_def)
  moreover have "fan_step (note_view s) (note_view (rh_end c s))"
    by (rule fan_step_by [OF f_ended [of _ c]]) (simp add: note_view_def rh_end_def)
  moreover have "fan_step (request_view s) (request_view (rh_end c s))"
    by (rule fan_step_by [OF f_ended [of _ c]]) (simp add: request_view_def rh_end_def)
  ultimately show ?thesis by (simp add: part_step_def)
qed

lemma part_close:
  assumes n: "n < length (rc_closes (rh_link s))" and "rh_close_move n s = Some t"
  shows "part_step s t"
proof -
  let ?pc = "rc_closes (rh_link s) ! n"
  from assms(2) obtain pc' l where m: "recon_close_move ?pc (rh_link s) = Some (pc', l)"
    and t: "t = s\<lparr>rh_link := l\<lparr>rc_closes := (rc_closes (rh_link s))[n := pc']\<rparr>, rh_conns := (case ?pc of
                CloseInner c \<Rightarrow> (rh_conns s)(c := http_close_done (http_cancel (rh_conns s c))) | _ \<Rightarrow> rh_conns s)\<rparr>"
    by (auto simp: rh_close_move_def Let_def)
  note keeps = recon_close_keeps [OF m]
  have "recon_step KindHTTP (rh_link s) (rh_link t)" using r_close_move [OF n m] by (simp add: t)
  moreover have "note_view t = note_view s \<or> fan_step (note_view s) (note_view t)"
  proof (cases ?pc)
    case CloseMarked
    then show ?thesis using f_done [of "note_view s"] keeps by (auto simp: note_view_def t)
  next
    case (CloseInner c)
    have "fan_step (note_view s) (note_view t)"
      by (rule fan_step_by [OF f_ended [of _ c]]) (use keeps CloseInner in \<open>simp add: note_view_def t\<close>)
    then show ?thesis ..
  qed (use keeps in \<open>simp_all add: note_view_def t\<close>)
  moreover have "request_view t = request_view s \<or> fan_step (request_view s) (request_view t)"
  proof (cases ?pc)
    case CloseMarked
    then show ?thesis using f_done [of "request_view s"] keeps by (auto simp: request_view_def t)
  next
    case (CloseInner c)
    have "fan_step (request_view s) (request_view t)"
      by (rule fan_step_by [OF f_ended [of _ c]]) (use keeps CloseInner in \<open>simp add: request_view_def t\<close>)
    then show ?thesis ..
  qed (use keeps in \<open>simp_all add: request_view_def t\<close>)
  ultimately show ?thesis by (simp add: part_step_def)
qed

lemma part_notes:
  assumes inv: "rh_sync s"
    and m: "fan_notifications_receive c s = Some t \<or> fan_notifications_forward c s = Some t \<or> fan_notifications_stop c s = Some t"
  shows "part_step s t"
proof -
  have l: "rh_link t = rh_link s" using m rh_fans_movesI rh_fans_move_keeps(1) by metis
  from m have "fan_step (note_view s) (note_view t) \<and> request_view t = request_view s"
  proof (elim disjE)
    assume "fan_notifications_receive c s = Some t"
    then obtain pc ch where r: "fan_receive (rh_note_fans s c) (ht_notes (rh_conns s c)) = Some (pc, ch)"
      and t: "t = s\<lparr>rh_note_fans := (rh_note_fans s)(c := pc), rh_conns := (rh_conns s)(c := (rh_conns s c)\<lparr>ht_notes := ch\<rparr>)\<rparr>"
      by (auto simp: fan_notifications_receive_def)
    have "fan_step (note_view s) (note_view t)"
      by (rule fan_step_by [OF f_received [of _ c pc ch]]) (use r in \<open>simp_all add: note_view_def t fun_eq_iff\<close>)
    then show ?thesis by (simp add: request_view_def t)
  next
    assume "fan_notifications_forward c s = Some t"
    then obtain pc ch where r: "fan_forward c (rh_note_fans s c) (rh_notes s) = Some (pc, ch)"
      and t: "t = s\<lparr>rh_note_fans := (rh_note_fans s)(c := pc), rh_notes := ch\<rparr>" by (auto simp: fan_notifications_forward_def)
    have "fan_step (note_view s) (note_view t)"
      by (rule fan_step_by [OF f_forwarded [of c _ pc ch]]) (use r in \<open>simp_all add: note_view_def t\<close>)
    then show ?thesis by (simp add: request_view_def t)
  next
    assume "fan_notifications_stop c s = Some t"
    then obtain pc where r: "fan_stop (ht_done (rh_conns s c)) (rc_done (rh_link s)) (rh_note_fans s c) = Some pc"
      and t: "t = s\<lparr>rh_note_fans := (rh_note_fans s)(c := pc)\<rparr>" by (auto simp: fan_notifications_stop_def)
    have "fan_step (note_view s) (note_view t)"
      by (rule fan_step_by [OF f_stopped [of c _ pc]]) (use r inv in \<open>simp_all add: note_view_def t rh_sync_def\<close>)
    then show ?thesis by (simp add: request_view_def t)
  qed
  with l show ?thesis by (simp add: part_step_def)
qed

lemma part_requests:
  assumes inv: "rh_sync s"
    and m: "fan_requests_receive c s = Some t \<or> fan_requests_forward c s = Some t \<or> fan_requests_stop c s = Some t"
  shows "part_step s t"
proof -
  have l: "rh_link t = rh_link s" using m rh_fans_movesI rh_fans_move_keeps(1) by metis
  from m have "fan_step (request_view s) (request_view t) \<and> note_view t = note_view s"
  proof (elim disjE)
    assume "fan_requests_receive c s = Some t"
    then obtain pc ch where r: "fan_receive (rh_request_fans s c) (ht_requests (rh_conns s c)) = Some (pc, ch)"
      and t: "t = s\<lparr>rh_request_fans := (rh_request_fans s)(c := pc), rh_conns := (rh_conns s)(c := (rh_conns s c)\<lparr>ht_requests := ch\<rparr>)\<rparr>"
      by (auto simp: fan_requests_receive_def)
    have "fan_step (request_view s) (request_view t)"
      by (rule fan_step_by [OF f_received [of _ c pc ch]]) (use r in \<open>simp_all add: request_view_def t fun_eq_iff\<close>)
    then show ?thesis by (simp add: note_view_def t)
  next
    assume "fan_requests_forward c s = Some t"
    then obtain pc ch where r: "fan_forward c (rh_request_fans s c) (rh_requests s) = Some (pc, ch)"
      and t: "t = s\<lparr>rh_request_fans := (rh_request_fans s)(c := pc), rh_requests := ch\<rparr>" by (auto simp: fan_requests_forward_def)
    have "fan_step (request_view s) (request_view t)"
      by (rule fan_step_by [OF f_forwarded [of c _ pc ch]]) (use r in \<open>simp_all add: request_view_def t\<close>)
    then show ?thesis by (simp add: note_view_def t)
  next
    assume "fan_requests_stop c s = Some t"
    then obtain pc where r: "fan_stop (ht_done (rh_conns s c)) (rc_done (rh_link s)) (rh_request_fans s c) = Some pc"
      and t: "t = s\<lparr>rh_request_fans := (rh_request_fans s)(c := pc)\<rparr>" by (auto simp: fan_requests_stop_def)
    have "fan_step (request_view s) (request_view t)"
      by (rule fan_step_by [OF f_stopped [of c _ pc]]) (use r inv in \<open>simp_all add: request_view_def t rh_sync_def\<close>)
    then show ?thesis by (simp add: note_view_def t)
  qed
  with l show ?thesis by (simp add: part_step_def)
qed

lemma http_deliver_queues:
  assumes "http_deliver p f h = Some (True, h')"
  shows "note_of f = None \<Longrightarrow> ht_notes h' = ht_notes h" "request_of f = None \<Longrightarrow> ht_requests h' = ht_requests h"
    "note_of f = Some n \<Longrightarrow> chan_send (ht_notes h) n = SendOk (ht_notes h')"
    "request_of f = Some q \<Longrightarrow> chan_send (ht_requests h) q = SendOk (ht_requests h')"
  using assms by (cases f; auto simp: http_deliver_def Let_def note_of_def request_of_def split: if_splits send_res.splits)+

lemma part_deliver:
  assumes "c < rc_inners (rh_link s)" and "rh_deliver p c f s = Some t"
  shows "part_step s t"
  using assms(2)
proof (cases rule: rh_deliver_cases)
  case (2 h)
  note queues = http_deliver_queues [OF 2(1)]
  have sent: "List.map_filter g (if i = c then rh_frames s c @ [f] else rh_frames s i) =
      (if i = c then List.map_filter g (rh_frames s c) @ (case g f of None \<Rightarrow> [] | Some x \<Rightarrow> [x]) else List.map_filter g (rh_frames s i))"
    for g :: "frame \<Rightarrow> 'x option" and i by (simp add: map_filter_append map_filter_simps split: option.split)
  have "note_view t = note_view s \<or> fan_step (note_view s) (note_view t)"
  proof (cases "note_of f")
    case None
    with queues(1) show ?thesis by (simp add: note_view_def 2(2) sent fun_eq_iff)
  next
    case (Some n)
    have "fan_step (note_view s) (note_view t)"
      by (rule fan_step_by [OF f_sent [of _ c n "ht_notes h"]])
        (use queues(3) Some in \<open>simp_all add: note_view_def 2(2) sent fun_eq_iff\<close>)
    then show ?thesis ..
  qed
  moreover have "request_view t = request_view s \<or> fan_step (request_view s) (request_view t)"
  proof (cases "request_of f")
    case None
    with queues(2) show ?thesis by (simp add: request_view_def 2(2) sent fun_eq_iff)
  next
    case (Some q)
    have "fan_step (request_view s) (request_view t)"
      by (rule fan_step_by [OF f_sent [of _ c q "ht_requests h"]])
        (use queues(4) Some in \<open>simp_all add: request_view_def 2(2) sent fun_eq_iff\<close>)
    then show ?thesis ..
  qed
  ultimately show ?thesis by (simp add: part_step_def 2(2))
qed (simp add: part_end assms(1))

lemma rh_set_pc_views [simp]:
  "rh_link (rh_set_pc k pc s) = rh_link s" "note_view (rh_set_pc k pc s) = note_view s"
  "request_view (rh_set_pc k pc s) = request_view s"
  by (simp_all add: rh_set_pc_def note_view_def request_view_def)

lemma rh_send_views [simp]:
  "rh_link (rh_send k c s) = rh_link s" "note_view (rh_send k c s) = note_view s" "request_view (rh_send k c s) = request_view s"
  by (simp_all add: rh_send_def Let_def) (simp_all add: note_view_def request_view_def)

lemma part_calls:
  assumes "rh_call_move p ctx_err outcome k s = Some t"
  shows "part_step s t"
  using assms by (cases rule: rh_call_move_cases) (simp_all add: part_step_def)

lemma rh_step_parts: "rh_step s t \<Longrightarrow> rh_sync s \<Longrightarrow> part_step s t"
proof (induction rule: rh_step.induct)
  case (rh_closes s)
  then show ?case using r_close [of KindHTTP "rh_link s"] by (simp add: part_step_def note_view_def request_view_def)
next
  case (rh_got_note s x ch)
  have "fan_step (note_view s) (note_view (s\<lparr>rh_notes := ch, rh_got_notes := rh_got_notes s @ [x]\<rparr>))"
    by (rule fan_step_by [OF f_got [of _ x ch]]) (use rh_got_note in \<open>simp_all add: note_view_def\<close>)
  then show ?case by (simp add: part_step_def) (simp add: request_view_def)
next
  case (rh_got_request s x ch)
  have "fan_step (request_view s) (request_view (s\<lparr>rh_requests := ch, rh_got_requests := rh_got_requests s @ [x]\<rparr>))"
    by (rule fan_step_by [OF f_got [of _ x ch]]) (use rh_got_request in \<open>simp_all add: request_view_def\<close>)
  then show ?case by (simp add: part_step_def) (simp add: note_view_def)
next
  case (rh_called s b m ps)
  then show ?case by (simp add: part_step_def note_view_def request_view_def)
qed (blast intro: part_watch part_end part_close part_deliver part_notes part_requests part_calls)+

lemma fan_view_start:
  fixes v :: "'a fan_in"
  assumes "\<And>c. fi_srcs v c = make_chan 32" "fi_fans v = (\<lambda>c. FanOff)(0 := FanIdle)" "fi_dst v = make_chan 32" "fi_ended v = {}"
    "\<not> fi_done v" "\<And>c. fi_sent v c = []" "fi_got v = []"
  shows "reachable (\<lambda>s. s = fan_start) fan_step v"
proof -
  have st: "fan_step fan_start (fan_start\<lparr>fi_fans := (fi_fans fan_start)(0 := FanIdle)\<rparr>)"
    by (rule f_started) (simp add: fan_start_def)
  have v: "v = fan_start\<lparr>fi_fans := (fi_fans fan_start)(0 := FanIdle)\<rparr>"
    by (rule fan_in.equality) (use assms in \<open>simp_all add: fan_start_def fun_eq_iff\<close>)
  have "reachable (\<lambda>s. s = fan_start) fan_step (fan_start :: 'a fan_in)" by (rule reach_start) simp
  from reach_step [OF this st] show ?thesis unfolding v .
qed

lemma rh_parts:
  assumes "reachable rh_start rh_step s"
  shows "reachable (\<lambda>s. s = new_reconnecting) (recon_step KindHTTP) (rh_link s) \<and>
    reachable (\<lambda>s. s = fan_start) fan_step (note_view s) \<and> reachable (\<lambda>s. s = fan_start) fan_step (request_view s)"
  using assms
proof (induction rule: reachable.induct)
  case (reach_start s)
  then obtain base opts where s: "s = new_reconnecting_http base opts" and opts: "\<forall>opt \<in> set opts. \<exists>k v. opt = with_http_header k v"
    by (auto simp: rh_start_def)
  note fresh = new_http_fresh [OF opts, of base]
  have "reachable (\<lambda>s. s = fan_start) fan_step (note_view s)"
    by (rule fan_view_start)
      (simp_all add: s new_reconnecting_http_def new_reconnecting_def note_view_def fresh map_filter_simps)
  moreover have "reachable (\<lambda>s. s = fan_start) fan_step (request_view s)"
    by (rule fan_view_start)
      (simp_all add: s new_reconnecting_http_def new_reconnecting_def request_view_def fresh map_filter_simps)
  moreover have "reachable (\<lambda>s. s = new_reconnecting) (recon_step KindHTTP) (rh_link s)"
    by (rule reachable.reach_start) (simp add: s new_reconnecting_http_def)
  ultimately show ?case by blast
next
  case (reach_step s t)
  have part: "reachable start step v" if "reachable start step u" "v = u \<or> step u v" for start step and u v :: 'x
    using that reachable.reach_step [of start step u v] by auto
  from rh_step_parts [OF reach_step(2) rh.reachable_inv [OF reach_step(1)]] reach_step(3) show ?case
    unfolding part_step_def by (auto intro: part)
qed

text \<open>
  C20. The reconnecting HTTP transport, with its HTTP transports, its goroutines and its calls, implements the
  watch loop and two fan-ins: every reachable state shows a reachable state of each, so that there is
  never more than one live connection and nothing is reordered.  In particular the notifications and the
  requests the client received from a connection are the first ones in the frames of that connection's
  stream, in order and each once.
\<close>

theorem reconnect_http_refines:
  assumes "reachable rh_start rh_step s"
  shows "reachable (\<lambda>s. s = new_reconnecting) (recon_step KindHTTP) (rh_link s) \<and>
    reachable (\<lambda>s. s = fan_start) fan_step (note_view s) \<and> reachable (\<lambda>s. s = fan_start) fan_step (request_view s) \<and>
    prefix (of_conn c (rh_got_notes s)) (List.map_filter note_of (rh_frames s c)) \<and>
    prefix (of_conn c (rh_got_requests s)) (List.map_filter request_of (rh_frames s c))"
proof -
  from rh_parts [OF assms] have p: "reachable (\<lambda>s. s = new_reconnecting) (recon_step KindHTTP) (rh_link s)"
    "reachable (\<lambda>s. s = fan_start) fan_step (note_view s)" "reachable (\<lambda>s. s = fan_start) fan_step (request_view s)" by simp_all
  from fan_inv_prefix [OF fan.reachable_inv [OF p(2)], of c] fan_inv_prefix [OF fan.reachable_inv [OF p(3)], of c] p
  show ?thesis by (simp add: views_simps)
qed

section \<open>What becomes of a call\<close>

definition posts_of :: "nat \<Rightarrow> recon_http \<Rightarrow> (nat \<times> nat \<times> u64 option) list" where
  "posts_of k s = filter (\<lambda>p. fst p = k) (rh_posts s)"

definition first_ids :: "nat \<Rightarrow> u64 list" where
  "first_ids n = map of_nat [1..<Suc n]"

definition ids_on :: "nat \<Rightarrow> recon_http \<Rightarrow> u64 list" where
  "ids_on c s = List.map_filter (\<lambda>(k, d, i). if d = c then i else None) (rh_posts s)"

fun rh_pc_ok :: "nat \<Rightarrow> rh_call_pc \<Rightarrow> nat \<Rightarrow> (nat \<times> nat \<times> u64 option) list \<Rightarrow> bool" where
  "rh_pc_ok k RhLock n ps = (ps = [])"
| "rh_pc_ok k (RhCheck c) n ps = (ps = [] \<and> c < n)"
| "rh_pc_ok k (RhPost c) n ps = (ps = [] \<and> c < n)"
| "rh_pc_ok k (RhWait c i) n ps = (ps = [(k, c, i)] \<and> c < n)"
| "rh_pc_ok k (RhReturned r) n ps =
     (ps = [] \<and> (\<exists>e. r = Inl e) \<or> (\<exists>c i. ps = [(k, c, i)] \<and> c < n \<and> r \<noteq> Inl ErrClosed))"

definition rh_calls_ok :: "recon_http \<Rightarrow> bool" where
  "rh_calls_ok s \<longleftrightarrow>
     (\<forall>k < length (rh_calls s). rh_pc_ok k (rk_pc (rh_calls s ! k)) (rc_inners (rh_link s)) (posts_of k s)) \<and>
     (\<forall>p \<in> set (rh_posts s). fst p < length (rh_calls s)) \<and>
     (\<forall>c. ht_next (rh_conns s c) = of_nat (length (ids_on c s)) \<and> ids_on c s = first_ids (length (ids_on c s)))"

lemma first_ids_Suc: "first_ids (Suc n) = first_ids n @ [of_nat (Suc n)]"
  by (simp add: first_ids_def)

lemma length_first_ids [simp]: "length (first_ids n) = n"
  by (simp add: first_ids_def)

lemma distinct_first_ids:
  assumes "n < 2 ^ 64"
  shows "distinct (first_ids n)"
proof -
  have "unat (of_nat i :: u64) = i" if "i \<le> n" for i using that assms by (simp add: unat_of_nat)
  then have "inj_on (of_nat :: nat \<Rightarrow> u64) {1..<Suc n}" by (intro inj_onI) (metis atLeastLessThan_iff less_Suc_eq_le)
  then show ?thesis by (simp add: first_ids_def distinct_map del: upt_Suc)
qed

lemma rh_calls_ok_frame:
  assumes "rh_calls_ok s" and "rh_calls t = rh_calls s" and "rh_posts t = rh_posts s"
    and "\<And>c. ht_next (rh_conns t c) = ht_next (rh_conns s c)" and "rc_inners (rh_link s) \<le> rc_inners (rh_link t)"
  shows "rh_calls_ok t"
proof -
  have mono: "rh_pc_ok k pc m ps \<Longrightarrow> m \<le> n \<Longrightarrow> rh_pc_ok k pc n ps" for k pc m n ps by (cases pc) auto
  have "posts_of k t = posts_of k s" "ids_on c t = ids_on c s" for k c by (simp_all add: posts_of_def ids_on_def assms(3))
  with assms mono [OF _ assms(5)] show ?thesis by (simp add: rh_calls_ok_def)
qed

text \<open>A call moves, without a post and with one.\<close>

lemma rh_calls_ok_pc:
  assumes "rh_calls_ok s" and "rh_pc_ok k pc (rc_inners (rh_link s)) (posts_of k s)"
  shows "rh_calls_ok (rh_set_pc k pc s)"
proof -
  have "posts_of j (rh_set_pc k pc s) = posts_of j s" "ids_on c (rh_set_pc k pc s) = ids_on c s" for j c
    by (simp_all add: posts_of_def ids_on_def rh_set_pc_def)
  moreover have "rh_pc_ok j (rk_pc ((rh_calls s)[k := (rh_calls s ! k)\<lparr>rk_pc := pc\<rparr>] ! j)) (rc_inners (rh_link s)) (posts_of j s)"
    if "j < length (rh_calls s)" for j
    using that assms by (cases "j = k") (simp_all add: rh_calls_ok_def)
  ultimately show ?thesis using assms(1) by (simp add: rh_calls_ok_def) (simp add: rh_set_pc_def)
qed

lemma rh_calls_ok_send:
  assumes ok: "rh_calls_ok s" and k: "k < length (rh_calls s)" and pc: "rk_pc (rh_calls s ! k) = RhPost c"
  shows "rh_calls_ok (rh_send k c s)"
proof -
  from ok k pc have none: "posts_of k s = []" and c: "c < rc_inners (rh_link s)" by (auto simp: rh_calls_ok_def dest: spec [of _ k])
  define i where "i = (if rk_notify (rh_calls s ! k) then None else Some (ht_next (rh_conns s c) + 1))"
  let ?t = "rh_send k c s"
  have t: "rh_posts ?t = rh_posts s @ [(k, c, i)]" "rh_calls ?t = (rh_calls s)[k := (rh_calls s ! k)\<lparr>rk_pc := RhWait c i\<rparr>]"
    "ht_next (rh_conns ?t d) = (if d = c \<and> i \<noteq> None then the i else ht_next (rh_conns s d))" for d
    by (simp_all add: rh_send_def rh_set_pc_def Let_def i_def)
  have posts: "posts_of j ?t = posts_of j s @ (if j = k then [(k, c, i)] else [])" for j by (simp add: posts_of_def t)
  have ids: "ids_on d ?t = ids_on d s @ (if d = c then (case i of None \<Rightarrow> [] | Some n \<Rightarrow> [n]) else [])" for d
    by (simp add: ids_on_def t map_filter_append map_filter_simps split: option.split)
  have "rh_pc_ok j (rk_pc (rh_calls ?t ! j)) (rc_inners (rh_link ?t)) (posts_of j ?t)" if "j < length (rh_calls ?t)" for j
    using that ok k none c by (cases "j = k") (auto simp: posts t rh_calls_ok_def)
  moreover have "fst p < length (rh_calls ?t)" if "p \<in> set (rh_posts ?t)" for p
    using that ok k by (auto simp: t rh_calls_ok_def)
  moreover have "ht_next (rh_conns ?t d) = of_nat (length (ids_on d ?t)) \<and>
      ids_on d ?t = first_ids (length (ids_on d ?t))" for d
  proof -
    from ok have o: "ht_next (rh_conns s d) = of_nat (length (ids_on d s))" "ids_on d s = first_ids (length (ids_on d s))"
      by (simp_all add: rh_calls_ok_def)
    show ?thesis
    proof (cases "d = c \<and> i \<noteq> None")
      case True
      then have i: "i = Some (of_nat (Suc (length (ids_on d s))))" using o(1) by (auto simp: i_def split: if_splits)
      have "ids_on d ?t = first_ids (Suc (length (ids_on d s)))"
        using True i o(2) by (simp add: ids first_ids_Suc)
      then show ?thesis using True i by (simp add: t ids)
    next
      case False
      then have "ids_on d ?t = ids_on d s" by (auto simp: ids)
      with o False show ?thesis by (auto simp: t)
    qed
  qed
  ultimately show ?thesis by (simp add: rh_calls_ok_def)
qed

text \<open>What a posted call returns is never the error of a closed transport.\<close>

lemma http_answer_open: "http_answer body \<noteq> Inl ErrClosed"
  by (auto simp: http_answer_def unmarshal_error_def split: option.splits goval.splits list.splits)

lemma rh_result_open:
  assumes "client_outcome outcome"
  shows "rh_result outcome q i h \<noteq> Inl ErrClosed"
proof -
  have "post (\<lambda>r. outcome) payload h \<noteq> Inl ErrClosed" for payload
    using assms by (auto simp: post_def client_outcome_def status_error_def Let_def split: sum.splits if_splits)
  then show ?thesis using http_answer_open by (auto simp: rh_result_def split: sum.splits)
qed

lemma rh_calls_ok_move:
  assumes ok: "rh_calls_ok s" and k: "k < length (rh_calls s)" and out: "client_outcome outcome"
    and cur: "rc_current (rh_link s) < rc_inners (rh_link s)" and m: "rh_call_move p ctx_err outcome k s = Some t"
  shows "rh_calls_ok t"
proof -
  have own: "rh_pc_ok k (rk_pc (rh_calls s ! k)) (rc_inners (rh_link s)) (posts_of k s)" using ok k by (simp add: rh_calls_ok_def)
  show ?thesis
  proof (cases "rk_pc (rh_calls s ! k)")
    case RhLock
    with m own cur have t: "t = rh_set_pc k (RhCheck (rc_current (rh_link s))) s" by (simp add: rh_call_move_def)
    show ?thesis unfolding t by (rule rh_calls_ok_pc [OF ok]) (use own RhLock cur in simp)
  next
    case (RhCheck c)
    with m have t: "t = rh_set_pc k (case http_check p (ht_done (rh_conns s c)) ctx_err of
        Some e \<Rightarrow> RhReturned (Inl e) | None \<Rightarrow> RhPost c) s" by (simp add: rh_call_move_def)
    show ?thesis unfolding t by (rule rh_calls_ok_pc [OF ok]) (use own RhCheck in \<open>simp split: option.split\<close>)
  next
    case (RhPost c)
    with m have t: "t = rh_send k c s" by (simp add: rh_call_move_def)
    show ?thesis unfolding t by (rule rh_calls_ok_send [OF ok k RhPost])
  next
    case (RhWait c i)
    with m have t: "t = rh_set_pc k (RhReturned (rh_result outcome (rh_calls s ! k) i (rh_conns s c))) s"
      by (simp add: rh_call_move_def)
    show ?thesis unfolding t by (rule rh_calls_ok_pc [OF ok]) (use own RhWait rh_result_open [OF out] in simp)
  next
    case (RhReturned r)
    with m show ?thesis by (simp add: rh_call_move_def)
  qed
qed

lemma http_deliver_next: "http_deliver p f h = Some (b, h') \<Longrightarrow> ht_next h' = ht_next h"
  by (cases f; auto simp: http_deliver_def Let_def split: if_splits send_res.splits)

lemma rh_calls_ok_fans: "rh_fans_move c s t \<Longrightarrow> rh_calls_ok s \<Longrightarrow> rh_calls_ok t"
  by (rule rh_calls_ok_frame [of s]) (simp_all add: rh_fans_move_keeps)

lemma rh_calls_ok_step:
  assumes "rh_step s t" and "rh_calls_ok s" and "recon_inv (rh_link s)"
  shows "rh_calls_ok t"
  using assms
proof (induction rule: rh_step.induct)
  case (rh_watches ev s t)
  from rh_watches(1) show ?case
  proof (cases rule: rh_watch_cases)
    case (1 n l)
    show ?thesis by (rule rh_calls_ok_frame [OF rh_watches(2)]) (use http_watch_keeps(3) [OF 1(1)] 1(3) in simp_all)
  next
    case (2 l)
    show ?thesis by (rule rh_calls_ok_frame [OF rh_watches(2)]) (use http_watch_keeps(3) [OF 2(1)] 2(3) in simp_all)
  qed
next
  case (rh_ends c s)
  show ?case by (rule rh_calls_ok_frame [OF rh_ends(2)]) (simp_all add: rh_end_def http_close_done_def)
next
  case (rh_closes s)
  show ?case by (rule rh_calls_ok_frame [OF rh_closes(1)]) simp_all
next
  case (rh_close_moves n s t)
  then obtain pc' l where m: "recon_close_move (rc_closes (rh_link s) ! n) (rh_link s) = Some (pc', l)"
    and t: "t = s\<lparr>rh_link := l\<lparr>rc_closes := (rc_closes (rh_link s))[n := pc']\<rparr>, rh_conns := (case rc_closes (rh_link s) ! n of
                CloseInner c \<Rightarrow> (rh_conns s)(c := http_close_done (http_cancel (rh_conns s c))) | _ \<Rightarrow> rh_conns s)\<rparr>"
    by (auto simp: rh_close_move_def Let_def)
  show ?case
    by (rule rh_calls_ok_frame [OF rh_close_moves(3)])
      (use recon_close_keeps(1) [OF m] in \<open>auto simp: t http_close_done_def http_cancel_def split: close_pc.split\<close>)
next
  case (rh_delivers c s p f t)
  from rh_delivers(2) show ?case
  proof (cases rule: rh_deliver_cases)
    case 1
    show ?thesis by (rule rh_calls_ok_frame [OF rh_delivers(3)]) (simp_all add: 1 rh_end_def http_close_done_def)
  next
    case (2 h)
    show ?thesis by (rule rh_calls_ok_frame [OF rh_delivers(3)]) (use http_deliver_next [OF 2(1)] in \<open>simp_all add: 2(2)\<close>)
  qed
next
  case (rh_got_note s x ch)
  show ?case by (rule rh_calls_ok_frame [OF rh_got_note(2)]) simp_all
next
  case (rh_got_request s x ch)
  show ?case by (rule rh_calls_ok_frame [OF rh_got_request(2)]) simp_all
next
  case (rh_called s b m ps)
  let ?t = "s\<lparr>rh_calls := rh_calls s @ [\<lparr>rk_notify = b, rk_method = m, rk_params = ps, rk_pc = RhLock\<rparr>]\<rparr>"
  have keep: "posts_of k ?t = posts_of k s" "ids_on c ?t = ids_on c s" for k c by (simp_all add: posts_of_def ids_on_def)
  have none: "posts_of (length (rh_calls s)) s = []"
    using rh_called(1) by (auto simp: posts_of_def rh_calls_ok_def filter_empty_conv)
  have "rh_pc_ok k (rk_pc (rh_calls ?t ! k)) (rc_inners (rh_link s)) (posts_of k s)" if "k < Suc (length (rh_calls s))" for k
    using that rh_called(1) none by (cases "k = length (rh_calls s)") (auto simp: rh_calls_ok_def nth_append)
  with rh_called(1) show ?case by (auto simp: rh_calls_ok_def keep less_SucI)
next
  case (rh_call_moves k s ctx_err outcome p t)
  have "rc_current (rh_link s) < rc_inners (rh_link s)" using rh_call_moves(6) by (simp add: recon_inv_def only_current_def)
  from rh_calls_ok_move [OF rh_call_moves(5,1,3) this rh_call_moves(4)] show ?case .
qed (blast intro: rh_calls_ok_fans rh_fans_movesI)+

lemma rh_calls_ok_reachable:
  assumes "reachable rh_start rh_step s"
  shows "rh_calls_ok s"
  using assms
proof (induction rule: reachable.induct)
  case (reach_start s)
  then obtain base opts where s: "s = new_reconnecting_http base opts" and opts: "\<forall>opt \<in> set opts. \<exists>k v. opt = with_http_header k v"
    by (auto simp: rh_start_def)
  show ?case
    using new_http_fresh(4) [OF opts, of base]
    by (simp add: s new_reconnecting_http_def rh_calls_ok_def ids_on_def map_filter_simps first_ids_def)
next
  case (reach_step s t)
  have "recon_inv (rh_link s)" by (rule recon.reachable_inv) (use rh_parts [OF reach_step(1)] in blast)
  from rh_calls_ok_step [OF reach_step(2,3) this] show ?case .
qed

text \<open>
  C21. A call through the reconnecting transport is posted at most once, on one connection that was made, and
  never again after a reconnect; a call that failed because the transport was closed was not posted at all, so
  trying it again cannot run it twice; a call that gave a result was posted; and the calls of one connection have
  the ids 1, 2, 3 and so on, all different up to the first 2^64.
\<close>

theorem reconnect_http_calls:
  assumes "reachable rh_start rh_step s" and "k < length (rh_calls s)"
  shows "length (posts_of k s) \<le> 1 \<and> (\<forall>(j, c, i) \<in> set (posts_of k s). c < rc_inners (rh_link s)) \<and>
    (rk_pc (rh_calls s ! k) = RhReturned (Inl ErrClosed) \<longrightarrow> posts_of k s = []) \<and>
    (rk_pc (rh_calls s ! k) = RhReturned (Inr v) \<longrightarrow> posts_of k s \<noteq> []) \<and>
    ids_on c s = first_ids (length (ids_on c s)) \<and> (length (ids_on c s) < 2 ^ 64 \<longrightarrow> distinct (ids_on c s))"
proof -
  from rh_calls_ok_reachable [OF assms(1)] assms(2)
  have ok: "rh_pc_ok k (rk_pc (rh_calls s ! k)) (rc_inners (rh_link s)) (posts_of k s)"
    and ids: "ids_on c s = first_ids (length (ids_on c s))" by (simp_all add: rh_calls_ok_def)
  from ids have "length (ids_on c s) < 2 ^ 64 \<Longrightarrow> distinct (ids_on c s)" by (metis distinct_first_ids)
  with ids ok show ?thesis by (cases "rk_pc (rh_calls s ! k)") auto
qed

section \<open>Runs\<close>

text \<open>Every run of the loop is one of the whole, with the calls left alone.\<close>

lemma rh_exec:
  assumes "recon_exec KindHTTP ev (rh_link s) = Some l"
  shows "\<exists>t. rh_step s t \<and> rh_link t = l \<and> rh_calls t = rh_calls s \<and> rh_posts t = rh_posts s"
proof (cases ev)
  case (Watches w)
  with assms have m: "watch_move KindHTTP w (rh_link s) = Some l" by simp
  let ?t = "the (rh_watch w s)"
  have "rh_watch w s = Some ?t" "rh_link ?t = l \<and> rh_calls ?t = rh_calls s \<and> rh_posts ?t = rh_posts s"
    using m by (simp_all add: rh_watch_def split: watch_pc.split)
  then show ?thesis by (blast intro: rh_watches)
next
  case (Drops i)
  with assms have "i < rc_inners (rh_link s)" "l = (rh_link s)\<lparr>rc_ended := insert i (rc_ended (rh_link s))\<rparr>" by (auto split: if_splits)
  then show ?thesis using rh_ends [of i s] by (intro exI [of _ "rh_end i s"]) (simp add: rh_end_def)
next
  case Closes
  let ?t = "s\<lparr>rh_link := (rh_link s)\<lparr>rc_closes := rc_closes (rh_link s) @ [CloseStart]\<rparr>\<rparr>"
  have "rh_link ?t = l \<and> rh_calls ?t = rh_calls s \<and> rh_posts ?t = rh_posts s" using assms Closes by simp
  then show ?thesis using rh_closes [of s] by blast
next
  case (CloseMoves n)
  with assms obtain pc u where n: "n < length (rc_closes (rh_link s))"
    and m: "recon_close_move (rc_closes (rh_link s) ! n) (rh_link s) = Some (pc, u)"
    and l: "l = u\<lparr>rc_closes := (rc_closes (rh_link s))[n := pc]\<rparr>" by (auto split: if_splits)
  let ?t = "the (rh_close_move n s)"
  have "rh_close_move n s = Some ?t" "rh_link ?t = l \<and> rh_calls ?t = rh_calls s \<and> rh_posts ?t = rh_posts s"
    using m by (simp_all add: rh_close_move_def Let_def l)
  with n show ?thesis by (blast intro: rh_close_moves)
qed

lemma rh_run:
  "reachable rh_start rh_step s \<Longrightarrow> recon_run KindHTTP evs (rh_link s) = Some l \<Longrightarrow>
     \<exists>t. reachable rh_start rh_step t \<and> rh_link t = l \<and> rh_calls t = rh_calls s \<and> rh_posts t = rh_posts s"
proof (induction evs arbitrary: s)
  case (Cons ev evs)
  then obtain m where m: "recon_exec KindHTTP ev (rh_link s) = Some m" "recon_run KindHTTP evs m = Some l"
    by (auto simp: bind_eq_Some_conv)
  from rh_exec [OF m(1)] obtain t where t: "rh_step s t" "rh_link t = m" "rh_calls t = rh_calls s" "rh_posts t = rh_posts s" by blast
  from Cons(1) [of t] reach_step [OF Cons(2) t(1)] t m(2) show ?case by simp
qed auto

text \<open>A call on a transport whose current connection is alive is posted.\<close>

lemma rh_call_posted:
  assumes r: "reachable rh_start rh_step s" and "rc_current (rh_link s) \<notin> rc_ended (rh_link s)" and none: "rh_calls s = []"
  shows "\<exists>t i. reachable rh_start rh_step t \<and> rh_link t = rh_link s \<and> rh_posts t = rh_posts s @ [(0, rc_current (rh_link s), Some i)] \<and>
     rh_calls t = [\<lparr>rk_notify = False, rk_method = m, rk_params = ps, rk_pc = RhWait (rc_current (rh_link s)) (Some i)\<rparr>]"
proof -
  let ?c = "rc_current (rh_link s)" and ?call = "\<lambda>pc. \<lparr>rk_notify = False, rk_method = m, rk_params = ps, rk_pc = pc\<rparr>"
  let ?at = "\<lambda>pc. s\<lparr>rh_calls := [?call pc]\<rparr>"
  have open': "\<not> ht_done (rh_conns s ?c)" using rh.reachable_inv [OF r] assms(2) by (simp add: rh_sync_def)
  have move: "reachable rh_start rh_step (?at pc) \<Longrightarrow> rh_call_move False None (Inl ErrCanceled) 0 (?at pc) = Some t \<Longrightarrow>
      reachable rh_start rh_step t" for pc t
    by (erule reach_step, rule rh_call_moves [of 0 _ None "Inl ErrCanceled" False]) (simp_all add: client_outcome_def)
  have "rh_step s (?at RhLock)" using rh_called [of s False m ps] none by simp
  then have "reachable rh_start rh_step (?at RhLock)" by (rule reach_step [OF r])
  from move [OF this] have "reachable rh_start rh_step (?at (RhCheck ?c))"
    by (simp add: rh_call_move_def rh_set_pc_def)
  from move [OF this] open' have "reachable rh_start rh_step (?at (RhPost ?c))"
    by (simp add: rh_call_move_def rh_set_pc_def http_check_def)
  from move [OF this] have "reachable rh_start rh_step (rh_send 0 ?c (?at (RhPost ?c)))" by (simp add: rh_call_move_def)
  then show ?thesis
    by (intro exI [of _ "rh_send 0 ?c (?at (RhPost ?c))"] exI [of _ "ht_next (rh_conns s ?c) + 1"])
      (simp add: rh_send_def rh_set_pc_def Let_def)
qed

text \<open>
  After a \<^verbatim>\<open>Close\<close> has returned, a call can still be posted: on the connection the loop installed while it
  was closed, which nothing closes.
\<close>

lemma call_after_close:
  "\<exists>s. reachable rh_start rh_step s \<and> rc_closes (rh_link s) = [CloseReturned] \<and> rc_watch (rh_link s) = WatchEnded \<and>
     rc_done (rh_link s) \<and> (\<exists>i. rh_posts s = [(0, 1, Some i)])"
proof -
  let ?s = "new_reconnecting_http ''http://h'' []"
  have "rh_start ?s" unfolding rh_start_def by (intro exI [of _ "''http://h''"] exI [of _ "[]"]) simp
  then have r: "reachable rh_start rh_step ?s" by (rule reach_start)
  obtain l where l: "recon_run KindHTTP leak_events (rh_link ?s) = Some l" "rc_closes l = [CloseReturned]" "rc_done l"
    "rc_watch l = WatchEnded" "rc_current l = 1" "rc_ended l = {0}"
    by (simp add: leak_events_def new_reconnecting_http_def new_reconnecting_def watch_move_def recon_close_move_def
        watch_dial_def watch_end_def)
  from rh_run [OF r l(1)] obtain t where t: "reachable rh_start rh_step t" "rh_link t = l" "rh_calls t = []" "rh_posts t = []"
    by (auto simp: new_reconnecting_http_def)
  have "rc_current (rh_link t) \<notin> rc_ended (rh_link t)" by (simp add: l t)
  from rh_call_posted [OF t(1) this t(3), of "''m''" None] obtain u i where u: "reachable rh_start rh_step u" "rh_link u = rh_link t"
    "rh_posts u = rh_posts t @ [(0, rc_current (rh_link t), Some i)]" by blast
  then have "rh_posts u = [(0, 1, Some i)]" by (simp add: t l)
  with u l t(2) show ?thesis by (intro exI [of _ u]) simp
qed

theorem reconnect_http_calls_witness:
  "\<exists>s. reachable rh_start rh_step s \<and> rh_calls s \<noteq> [] \<and> length (posts_of 0 s) \<le> 1 \<and> ids_on 0 s = [1] \<and> distinct (ids_on 0 s)"
proof -
  let ?s = "new_reconnecting_http ''http://h'' []"
  have "rh_start ?s" unfolding rh_start_def by (intro exI [of _ "''http://h''"] exI [of _ "[]"]) simp
  then have r: "reachable rh_start rh_step ?s" by (rule reach_start)
  from rh_call_posted [OF r, of "''m''" None] obtain t i where t: "reachable rh_start rh_step t" "length (rh_calls t) = 1"
    "rh_posts t = [(0, 0, Some i)]"
    by (auto simp: new_reconnecting_http_def new_reconnecting_def)
  from t(3) have "length (ids_on 0 t) = 1" by (simp add: ids_on_def map_filter_simps)
  with reconnect_http_calls [OF t(1), of 0 None 0] t(1,2) show ?thesis by (intro exI [of _ t]) (auto simp: first_ids_def)
qed

theorem reconnect_http_refines_witness:
  "\<exists>s. reachable rh_start rh_step s \<and> reachable (\<lambda>s. s = new_reconnecting) (recon_step KindHTTP) (rh_link s) \<and>
     prefix (of_conn 0 (rh_got_notes s)) (List.map_filter note_of (rh_frames s 0))"
proof -
  let ?s = "new_reconnecting_http ''http://h'' []"
  have "rh_start ?s" unfolding rh_start_def by (intro exI [of _ "''http://h''"] exI [of _ "[]"]) simp
  then have r: "reachable rh_start rh_step ?s" by (rule reach_start)
  from r reconnect_http_refines [OF r, of 0] show ?thesis by blast
qed

end
