(* ===== verification/RpcStreams.thy ===== *)
theory RpcStreams imports RpcTransport "HOL-Library.Multiset" begin

text \<open>
  The streams of the JSON-RPC transport (\<^verbatim>\<open>transport.go\<close>, \<^verbatim>\<open>reconnect.go\<close>): who has to close each of them, with
  any number of reconnects and closes running at once and sessions that end by themselves.  What the
  operations do to calls is in \<open>RpcSystem\<close>; their critical sections are those of \<open>RpcTransport\<close>.
  The opener is an argument: it gives a new stream, or fails.
\<close>

section \<open>State\<close>

text \<open>The places of a \<^verbatim>\<open>Reconnect\<close> and of a \<^verbatim>\<open>Close\<close>, with the stream each still has to close.\<close>

datatype owner_pc =
    RcCheck | RcOpen | RcInstall nat | RcShut nat | RcOld "nat option" | RcReturned "go_error option"
  | ClLock | ClShut "nat option" | ClSignal | ClReturned

text \<open>
  The streams opened so far are numbered; the closed ones are listed in the order of their closes, and the last
  component is history: the streams that the end of a session dropped.
\<close>

record streams = jrpc +
  st_opened :: nat
  st_closed :: "nat list"
  st_ops :: "owner_pc list"
  st_dropped :: "nat list"

definition new_reconnecting_transport :: "bool \<Rightarrow> go_error option \<Rightarrow> go_error + jrpc" where
  "new_reconnecting_transport has_opener opener_err =
     (if \<not> has_opener then Inl (ErrText ''opener is required'')
      else (case opener_err of Some e \<Rightarrow> Inl e | None \<Rightarrow> Inr (new_transport 0 True)))"

section \<open>Operations\<close>

definition shut_stream :: "nat option \<Rightarrow> streams \<Rightarrow> streams" where
  "shut_stream conn s = s\<lparr>st_closed := st_closed s @ (case conn of None \<Rightarrow> [] | Some c \<Rightarrow> [c])\<rparr>"

definition reconnect_move :: "go_error option \<Rightarrow> owner_pc \<Rightarrow> streams \<Rightarrow> (owner_pc \<times> streams) option" where
  "reconnect_move opener_err pc s =
     (case pc of
        RcCheck \<Rightarrow> Some (case reconnect_check s of Some e \<Rightarrow> RcReturned (Some e) | None \<Rightarrow> RcOpen, s)
      | RcOpen \<Rightarrow>
          Some (case opener_err of
              Some e \<Rightarrow> (RcReturned (Some e), s)
            | None \<Rightarrow> (RcInstall (st_opened s), s\<lparr>st_opened := Suc (st_opened s)\<rparr>))
      | RcInstall c \<Rightarrow>
          Some (case reconnect_install c s of
              (Inl e, t) \<Rightarrow> (RcShut c, t)
            | (Inr pending, t) \<Rightarrow> (RcOld (jt_conn s), t))
      | RcShut c \<Rightarrow> Some (RcReturned (Some ErrClosed), shut_stream (Some c) s)
      | RcOld old \<Rightarrow> Some (RcReturned None, shut_stream old s)
      | _ \<Rightarrow> None)"

definition close_move :: "owner_pc \<Rightarrow> streams \<Rightarrow> (owner_pc \<times> streams) option" where
  "close_move pc s =
     (case pc of
        ClLock \<Rightarrow>
          Some (case close_lock s of
              (None, t) \<Rightarrow> (ClReturned, t)
            | (Some pending, t) \<Rightarrow> (ClShut (jt_conn s), t))
      | ClShut old \<Rightarrow> Some (ClSignal, shut_stream old s)
      | ClSignal \<Rightarrow> Some (ClReturned, close_done s)
      | _ \<Rightarrow> None)"

text \<open>A notification: the guards, and one line on the current stream, which may fail to take it.\<close>

definition rpc_notify ::
  "go_error option \<Rightarrow> (nat \<Rightarrow> string \<Rightarrow> go_error option) \<Rightarrow> string \<Rightarrow> raw \<Rightarrow> ('z) jrpc_scheme \<Rightarrow> go_error option" where
  "rpc_notify ctx_err send method params t =
     (case ctx_err of
        Some e \<Rightarrow> Some e
      | None \<Rightarrow>
          (case notify_conn t of
             Inl e \<Rightarrow> Some e
           | Inr c \<Rightarrow> send c (write_json (enc_notification method params))))"

section \<open>The system\<close>

definition owner_start :: "streams \<Rightarrow> bool" where
  "owner_start s \<longleftrightarrow>
     (\<exists>opener. s = jrpc.extend (new_transport 0 opener) \<lparr>st_opened = 1, st_closed = [], st_ops = [], st_dropped = []\<rparr>)"

text \<open>Calls, replies and deliveries leave the streams alone: a step of theirs changes neither the stream nor the flag.\<close>

inductive owner_step :: "streams \<Rightarrow> streams \<Rightarrow> bool" where
  st_starts: "pc \<in> {RcCheck, ClLock} \<Longrightarrow> owner_step s (s\<lparr>st_ops := st_ops s @ [pc]\<rparr>)"
| st_reconnects: "n < length (st_ops s) \<Longrightarrow> reconnect_move e (st_ops s ! n) s = Some (pc, t) \<Longrightarrow>
     owner_step s (t\<lparr>st_ops := (st_ops s)[n := pc]\<rparr>)"
| st_closes: "n < length (st_ops s) \<Longrightarrow> close_move (st_ops s ! n) s = Some (pc, t) \<Longrightarrow>
     owner_step s (t\<lparr>st_ops := (st_ops s)[n := pc]\<rparr>)"
| st_session_ends: "session_end sid s = (Some pending, t) \<Longrightarrow>
     owner_step s (t\<lparr>st_dropped := st_dropped s @ (case jt_conn s of None \<Rightarrow> [] | Some c \<Rightarrow> [c])\<rparr>)"
| st_calls: "call_register s = (r, t) \<Longrightarrow> owner_step s t"
| st_removes: "owner_step s (remove_pending i s)"
| st_takes: "take_pending sid i s = (k, t) \<Longrightarrow> owner_step s t"
| st_queues: "deliver_request d r s = Some (b, t) \<Longrightarrow> owner_step s t"
| st_notes: "deliver_notification d sid n s = Some (b, t) \<Longrightarrow> owner_step s t"

section \<open>Every stream has one owner\<close>

text \<open>The streams an operation has in hand, and all places a stream can be.\<close>

definition holds :: "owner_pc \<Rightarrow> nat list" where
  "holds pc =
     (case pc of
        RcInstall c \<Rightarrow> [c] | RcShut c \<Rightarrow> [c]
      | RcOld (Some c) \<Rightarrow> [c] | ClShut (Some c) \<Rightarrow> [c] | _ \<Rightarrow> [])"

definition current_stream :: "('z) jrpc_scheme \<Rightarrow> nat list" where
  "current_stream s = (case jt_conn s of None \<Rightarrow> [] | Some c \<Rightarrow> [c])"

definition placed :: "streams \<Rightarrow> nat list" where
  "placed s = current_stream s @ concat (map holds (st_ops s)) @ st_closed s @ st_dropped s"

definition owned_once :: "streams \<Rightarrow> bool" where
  "owned_once s \<longleftrightarrow> mset (placed s) = mset [0..<st_opened s] \<and> (jt_closed s \<longrightarrow> jt_conn s = None) \<and>
     (ClSignal \<in> set (st_ops s) \<or> (\<exists>c. ClShut c \<in> set (st_ops s)) \<longrightarrow> jt_closed s) \<and> (jt_done s \<longrightarrow> jt_closed s)"

lemma mset_holds_update:
  "n < length pcs \<Longrightarrow>
     mset (concat (map holds (pcs[n := pc]))) + mset (holds (pcs ! n)) = mset (concat (map holds pcs)) + mset (holds pc)"
  by (induction pcs arbitrary: n) (auto simp: nth_Cons add_ac split: nat.split)

text \<open>What the critical sections do to the streams.\<close>

definition same_streams :: "streams \<Rightarrow> streams \<Rightarrow> bool" where
  "same_streams s t \<longleftrightarrow> st_opened t = st_opened s \<and> st_closed t = st_closed s \<and> st_ops t = st_ops s \<and> st_dropped t = st_dropped s \<and>
     jt_done t = jt_done s"

lemma run_cancel_streams [simp]:
  "jt_conn (run_cancel c s) = jt_conn s" "jt_closed (run_cancel c s) = jt_closed s" "same_streams s (run_cancel c t) = same_streams s t"
  by (simp_all add: run_cancel_def same_streams_def split: option.split)

lemma close_lock_streams:
  assumes "close_lock s = (p, t)"
  shows "same_streams s t" "p = None \<Longrightarrow> t = s \<and> jt_closed s" "p \<noteq> None \<Longrightarrow> jt_conn t = None \<and> jt_closed t"
proof -
  show "same_streams s t" using assms
    by (auto simp: close_lock_def flush_pending_def Let_def split: if_splits) (simp_all add: same_streams_def)
  show "p = None \<Longrightarrow> t = s \<and> jt_closed s" "p \<noteq> None \<Longrightarrow> jt_conn t = None \<and> jt_closed t"
    using assms by (auto simp: close_lock_def flush_pending_def Let_def split: if_splits)
qed

lemma session_end_streams:
  assumes "session_end sid s = (Some p, t)"
  shows "same_streams s t" "jt_conn t = None" "jt_closed t = jt_closed s"
proof -
  show "same_streams s t" using assms
    by (auto simp: session_end_def flush_pending_def Let_def split: if_splits) (simp_all add: same_streams_def)
  show "jt_conn t = None" "jt_closed t = jt_closed s"
    using assms by (auto simp: session_end_def flush_pending_def Let_def split: if_splits)
qed

lemma reconnect_install_streams:
  assumes "reconnect_install c s = (r, t)"
  shows "same_streams s t" "r = Inl e \<Longrightarrow> t = s \<and> jt_closed s" "r = Inr p \<Longrightarrow> jt_conn t = Some c \<and> \<not> jt_closed t \<and> \<not> jt_closed s"
proof -
  show "same_streams s t" using assms
    by (auto simp: reconnect_install_def flush_pending_def with_cancel_def Let_def split: if_splits) (simp_all add: same_streams_def)
  show "r = Inl e \<Longrightarrow> t = s \<and> jt_closed s" "r = Inr p \<Longrightarrow> jt_conn t = Some c \<and> \<not> jt_closed t \<and> \<not> jt_closed s"
    using assms by (auto simp: reconnect_install_def flush_pending_def with_cancel_def Let_def split: if_splits)
qed

text \<open>An operation at place \<open>n\<close> moves: the streams change hands.\<close>

definition handed :: "streams \<Rightarrow> owner_pc \<Rightarrow> owner_pc \<Rightarrow> streams \<Rightarrow> bool" where
  "handed s old pc t \<longleftrightarrow> st_ops t = st_ops s \<and>
     mset (current_stream t) + mset (holds pc) + mset (st_closed t) + mset (st_dropped t) + mset [0..<st_opened s] =
       mset (current_stream s) + mset (holds old) + mset (st_closed s) + mset (st_dropped s) + mset [0..<st_opened t] \<and>
     (jt_closed t \<longrightarrow> jt_conn t = None) \<and> (jt_closed s \<longrightarrow> jt_closed t) \<and> (jt_done t \<longrightarrow> jt_closed t) \<and>
     (pc = ClSignal \<or> (\<exists>c. pc = ClShut c) \<longrightarrow> jt_closed t)"

lemma owned_once_op:
  assumes inv: "owned_once s" and n: "n < length (st_ops s)" and "handed s (st_ops s ! n) pc t"
  shows "owned_once (t\<lparr>st_ops := (st_ops s)[n := pc]\<rparr>)"
proof -
  let ?t = "t\<lparr>st_ops := (st_ops s)[n := pc]\<rparr>"
  note moved = conjunct1 [OF conjunct2 [OF assms(3) [unfolded handed_def]]]
  have flags: "jt_closed t \<Longrightarrow> jt_conn t = None" "jt_closed s \<Longrightarrow> jt_closed t" "jt_done t \<Longrightarrow> jt_closed t"
    "pc = ClSignal \<or> (\<exists>c. pc = ClShut c) \<Longrightarrow> jt_closed t" using assms(3) by (simp_all add: handed_def)
  let ?ops = "mset (concat (map holds (st_ops s)))" and ?ops' = "mset (concat (map holds ((st_ops s)[n := pc])))"
  let ?h = "mset (holds (st_ops s ! n))" and ?h' = "mset (holds pc)" and ?n = "mset [0..<st_opened s]" and ?n' = "mset [0..<st_opened t]"
  from inv have all: "mset (current_stream s) + ?ops + mset (st_closed s) + mset (st_dropped s) = ?n"
    by (simp add: owned_once_def placed_def add_ac)
  have "mset (current_stream t) + ?ops' + mset (st_closed t) + mset (st_dropped t) + (?n + ?h + ?h') =
      (mset (current_stream t) + ?h' + mset (st_closed t) + mset (st_dropped t) + ?n) + (?ops' + ?h)" by (simp only: add_ac)
  also have "\<dots> = (mset (current_stream s) + ?h + mset (st_closed s) + mset (st_dropped s) + ?n') + (?ops + ?h')"
    by (simp only: moved mset_holds_update [OF n])
  also have "\<dots> = (mset (current_stream s) + ?ops + mset (st_closed s) + mset (st_dropped s)) + ?n' + (?h + ?h')" by (simp only: add_ac)
  also have "\<dots> = ?n' + (?n + ?h + ?h')" by (simp only: all) (simp only: add_ac)
  finally have "mset (current_stream t) + ?ops' + mset (st_closed t) + mset (st_dropped t) = ?n'" by (simp only: add_right_cancel)
  then have "mset (placed ?t) = mset [0..<st_opened ?t]" by (simp add: placed_def current_stream_def add_ac)
  moreover have "jt_closed t" if "ClSignal \<in> set ((st_ops s)[n := pc]) \<or> (\<exists>c. ClShut c \<in> set ((st_ops s)[n := pc]))"
  proof -
    from that set_update_subset_insert [of "st_ops s" n pc]
    have "pc = ClSignal \<or> (\<exists>c. pc = ClShut c) \<or> ClSignal \<in> set (st_ops s) \<or> (\<exists>c. ClShut c \<in> set (st_ops s))" by blast
    then show ?thesis using inv flags(2,4) by (auto simp: owned_once_def)
  qed
  ultimately show ?thesis using flags by (simp add: owned_once_def)
qed

lemma reconnect_handed:
  assumes flags: "jt_closed s \<longrightarrow> jt_conn s = None" "jt_done s \<longrightarrow> jt_closed s" and m: "reconnect_move e old s = Some (pc, t)"
  shows "handed s old pc t"
proof (cases old)
  case RcCheck
  with m flags show ?thesis by (auto simp: reconnect_move_def handed_def holds_def split: option.splits)
next
  case RcOpen
  with m flags show ?thesis
    by (auto simp: reconnect_move_def handed_def holds_def current_stream_def simp del: mset_upt split: option.splits)
next
  case (RcInstall c)
  obtain r u where r: "reconnect_install c s = (r, u)" by (cases "reconnect_install c s")
  note u = reconnect_install_streams [OF r]
  show ?thesis
  proof (cases r)
    case (Inl err)
    with m r u(2) RcInstall flags show ?thesis by (auto simp: reconnect_move_def handed_def holds_def)
  next
    case (Inr p)
    with m r u(1) u(3) [OF Inr] RcInstall flags show ?thesis
      by (auto simp: reconnect_move_def handed_def holds_def current_stream_def same_streams_def split: option.split)
  qed
next
  case (RcShut c)
  with m flags show ?thesis by (auto simp: reconnect_move_def handed_def holds_def shut_stream_def current_stream_def)
next
  case (RcOld c)
  with m flags show ?thesis by (auto simp: reconnect_move_def handed_def holds_def shut_stream_def current_stream_def split: option.splits)
qed (use m in \<open>simp_all add: reconnect_move_def\<close>)

lemma close_handed:
  assumes flags: "jt_closed s \<longrightarrow> jt_conn s = None" "jt_done s \<longrightarrow> jt_closed s" "old = ClSignal \<or> (\<exists>c. old = ClShut c) \<longrightarrow> jt_closed s"
    and m: "close_move old s = Some (pc, t)"
  shows "handed s old pc t"
proof (cases old)
  case ClLock
  obtain p u where r: "close_lock s = (p, u)" by (cases "close_lock s")
  note u = close_lock_streams [OF r]
  show ?thesis
  proof (cases p)
    case None
    with m r u(2) ClLock flags show ?thesis by (auto simp: close_move_def handed_def holds_def)
  next
    case (Some q)
    with u(3) have "jt_conn u = None" "jt_closed u" by simp_all
    with m r u(1) ClLock Some flags show ?thesis
      by (auto simp: close_move_def handed_def holds_def current_stream_def same_streams_def split: option.split)
  qed
next
  case (ClShut c)
  with m flags show ?thesis by (auto simp: close_move_def handed_def holds_def shut_stream_def current_stream_def split: option.splits)
next
  case ClSignal
  with m flags show ?thesis by (auto simp: close_move_def handed_def holds_def close_done_def current_stream_def)
qed (use m in \<open>simp_all add: close_move_def\<close>)

text \<open>Steps that leave the streams, the flags and the operations alone.\<close>

lemma owned_once_same:
  assumes "owned_once s" and "same_streams s t" "jt_conn t = jt_conn s" "jt_closed t = jt_closed s"
  shows "owned_once t"
  using assms by (auto simp: owned_once_def same_streams_def placed_def current_stream_def)

lemma owned_once_step: "owner_step s t \<Longrightarrow> owned_once s \<Longrightarrow> owned_once t"
proof (induction rule: owner_step.induct)
  case (st_starts pc s)
  then show ?case by (auto simp: owned_once_def placed_def current_stream_def holds_def)
next
  case (st_reconnects n s e pc t)
  then have "jt_closed s \<longrightarrow> jt_conn s = None" "jt_done s \<longrightarrow> jt_closed s" by (simp_all add: owned_once_def)
  from owned_once_op [OF st_reconnects(3,1) reconnect_handed [OF this st_reconnects(2)]] show ?case .
next
  case (st_closes n s pc t)
  have "st_ops s ! n \<in> set (st_ops s)" using st_closes(1) by simp
  with st_closes(3) have "jt_closed s \<longrightarrow> jt_conn s = None" "jt_done s \<longrightarrow> jt_closed s"
    "st_ops s ! n = ClSignal \<or> (\<exists>c. st_ops s ! n = ClShut c) \<longrightarrow> jt_closed s" by (auto simp: owned_once_def)
  from owned_once_op [OF st_closes(3,1) close_handed [OF this st_closes(2)]] show ?case .
next
  case (st_session_ends sid s pending t)
  note u = session_end_streams [OF st_session_ends(1)]
  from st_session_ends(2) u show ?case
    by (auto simp: owned_once_def same_streams_def placed_def current_stream_def add_ac split: option.split)
next
  case (st_calls s r t)
  show ?case by (rule owned_once_same [OF st_calls(2)])
    (use st_calls(1) in \<open>auto simp: call_register_def same_streams_def Let_def split: if_splits option.splits\<close>)
next
  case (st_removes s i)
  show ?case by (rule owned_once_same [OF st_removes(1)]) (simp_all add: remove_pending_def same_streams_def)
next
  case (st_takes sid i s k t)
  show ?case by (rule owned_once_same [OF st_takes(2)])
    (use st_takes(1) in \<open>auto simp: take_pending_def remove_pending_def same_streams_def split: if_splits option.splits\<close>)
next
  case (st_queues d r s b t)
  show ?case by (rule owned_once_same [OF st_queues(2)])
    (use st_queues(1) in \<open>auto simp: deliver_request_def same_streams_def split: if_splits send_res.splits\<close>)
next
  case (st_notes d sid n s b t)
  show ?case by (rule owned_once_same [OF st_notes(2)])
    (use st_notes(1) in \<open>auto simp: deliver_notification_def same_streams_def split: if_splits send_res.splits\<close>)
qed

lemma owned_once_start: "owner_start s \<Longrightarrow> owned_once s"
  by (auto simp: owner_start_def owned_once_def new_transport_def start_session_def with_cancel_def run_cancel_def Let_def
      jrpc.extend_def placed_def current_stream_def)

interpretation streams: invariant_system owner_start owner_step owned_once
  by unfold_locales (auto intro: owned_once_start owned_once_step)

text \<open>
  C7. Every stream of a JSON-RPC transport has exactly one place, however reconnects, closes and the
  ends of sessions interleave: it is the current one, in the hands of one operation that will install or close
  it, closed, or dropped by the end of its session.  So no stream is closed twice, none that is current was
  closed, and when the transport is closed and every operation has returned, each stream but the dropped
  ones has been closed.
\<close>

theorem streams_closed_once:
  assumes "reachable owner_start owner_step s"
  shows "mset (current_stream s @ concat (map holds (st_ops s)) @ st_closed s @ st_dropped s) = mset [0..<st_opened s] \<and>
    distinct (st_closed s) \<and> (\<forall>c. jt_conn s = Some c \<longrightarrow> c \<notin> set (st_closed s)) \<and>
    (jt_closed s \<and> (\<forall>pc \<in> set (st_ops s). pc = ClReturned \<or> (\<exists>r. pc = RcReturned r)) \<longrightarrow>
       set (st_closed s) = {0..<st_opened s} - set (st_dropped s))"
proof -
  from streams.reachable_inv [OF assms] have inv: "owned_once s" .
  then have m: "mset (current_stream s @ concat (map holds (st_ops s)) @ st_closed s @ st_dropped s) = mset [0..<st_opened s]"
    by (simp only: owned_once_def placed_def)
  then have d: "distinct (current_stream s @ concat (map holds (st_ops s)) @ st_closed s @ st_dropped s)"
    by (metis distinct_upt mset_eq_imp_distinct_iff)
  from m have e: "set (current_stream s @ concat (map holds (st_ops s)) @ st_closed s @ st_dropped s) = {0..<st_opened s}"
    by (metis mset_eq_setD set_upt)
  have "set (st_closed s) = {0..<st_opened s} - set (st_dropped s)"
    if "jt_closed s" "\<forall>pc \<in> set (st_ops s). pc = ClReturned \<or> (\<exists>r. pc = RcReturned r)"
  proof -
    from inv that(1) have "current_stream s = []" by (simp add: owned_once_def current_stream_def)
    moreover have "holds pc = []" if "pc \<in> set (st_ops s)" for pc using that(1) \<open>\<forall>pc \<in> set (st_ops s). _\<close> by (auto simp: holds_def)
    then have "concat (map holds (st_ops s)) = []" by simp
    ultimately show ?thesis using e d by auto
  qed
  with m d show ?thesis by (auto simp: current_stream_def)
qed

section \<open>A stream that nothing closes\<close>

text \<open>
  When a session ends because its reader met a message it cannot read, the stream, which works, is dropped: the
  \<^verbatim>\<open>Close\<close> that follows finds no stream, and returns.
\<close>

lemma stream_dropped:
  "\<exists>s. reachable owner_start owner_step s \<and> jt_closed s \<and> jt_done s \<and> st_ops s = [ClReturned] \<and> st_opened s = 1 \<and>
     st_dropped s = [0] \<and> st_closed s = []"
proof -
  let ?s = "jrpc.extend (new_transport 0 True) \<lparr>st_opened = 1, st_closed = [], st_ops = [], st_dropped = []\<rparr>"
  have start: "reachable owner_start owner_step ?s"
    by (rule reach_start) (auto simp: owner_start_def)
  have s: "jt_conn ?s = Some 0" "\<not> jt_closed ?s" "jt_session ?s = 1" "st_ops ?s = []" "st_opened ?s = 1" "st_closed ?s = []" "st_dropped ?s = []"
    by (simp_all add: new_transport_def start_session_def with_cancel_def run_cancel_def Let_def jrpc.extend_def)
  obtain p u where r: "session_end 1 ?s = (Some p, u)" using s by (simp add: session_end_def flush_pending_def Let_def)
  note keeps = session_end_streams [OF r]
  let ?u = "u\<lparr>st_dropped := [0]\<rparr>"
  have u: "reachable owner_start owner_step ?u" using reach_step [OF start st_session_ends [OF r]] s by simp
  have f: "st_ops ?u = []" "jt_conn ?u = None" "\<not> jt_closed ?u" "st_opened ?u = 1" "st_closed ?u = []" "st_dropped ?u = [0]"
    using keeps s by (auto simp: same_streams_def)
  let ?v = "?u\<lparr>st_ops := [ClLock]\<rparr>"
  have v: "reachable owner_start owner_step ?v" using reach_step [OF u st_starts [of ClLock ?u]] f(1) by simp
  obtain q w where c: "close_lock ?v = (Some q, w)" using f(3) by (simp add: close_lock_def flush_pending_def Let_def)
  note cl = close_lock_streams [OF c]
  have m: "close_move ClLock ?v = Some (ClShut None, w)" using c f(2) by (simp add: close_move_def)
  have w: "reachable owner_start owner_step (w\<lparr>st_ops := [ClShut None]\<rparr>)"
    using reach_step [OF v st_closes [of 0 ?v "ClShut None" w]] m by simp
  have y: "reachable owner_start owner_step (w\<lparr>st_ops := [ClSignal]\<rparr>)"
    using reach_step [OF w st_closes [of 0 _ ClSignal]] by (simp add: close_move_def shut_stream_def)
  have x: "reachable owner_start owner_step ((close_done w)\<lparr>st_ops := [ClReturned]\<rparr>)"
    using reach_step [OF y st_closes [of 0 _ ClReturned]] by (simp add: close_move_def close_done_def)
  show ?thesis using x cl f
    by (intro exI [of _ "(close_done w)\<lparr>st_ops := [ClReturned]\<rparr>"]) (auto simp: close_done_def same_streams_def)
qed

theorem streams_closed_once_witness:
  "\<exists>s. reachable owner_start owner_step s \<and> st_ops s = [ClReturned] \<and> st_opened s = 1 \<and>
     set (st_closed s) = {0..<1} - {0} \<and> distinct (st_closed s)"
proof -
  obtain s where s: "reachable owner_start owner_step s" "jt_closed s" "st_ops s = [ClReturned]" "st_opened s = 1" "st_dropped s = [0]"
    using stream_dropped by blast
  from streams_closed_once [OF s(1)] s show ?thesis by (intro exI [of _ s]) auto
qed

end
