(* ===== verification/RetryClient.thy ===== *)
theory RetryClient imports Retry ClientApi begin

text \<open>
  \<^verbatim>\<open>RetryTransport\<close> as a transport (\<^verbatim>\<open>retry.go\<close>): a connection made of a connection and a policy, on which the
  client's methods run.  The loop is that of \<open>Retry\<close>; the wait between two attempts is an argument.
\<close>

record 'c retry_transport =
  rt_inner :: 'c
  rt_config :: retry_config

definition new_retry_transport :: "'c \<Rightarrow> retry_config \<Rightarrow> 'c retry_transport" where
  "new_retry_transport inner cfg = \<lparr>rt_inner = inner, rt_config = with_defaults cfg\<rparr>"

text \<open>One attempt; an attempt that fails leaves the caller's result as it was.\<close>

definition retry_attempt :: "'s connection \<Rightarrow> string \<Rightarrow> payload \<Rightarrow> ('s \<times> raw) call" where
  "retry_attempt c m p s =
     (case conn_call c m p (fst s) of
        (Inl e, t) \<Rightarrow> (Some e, (t, snd s))
      | (Inr v, t) \<Rightarrow> (None, (t, v)))"

definition retry_wait :: "'s pause \<Rightarrow> ('s \<times> raw) pause" where
  "retry_wait pause k s = (case pause k (fst s) of (e, t) \<Rightarrow> (e, (t, snd s)))"

text \<open>Notifications and closes go to the inner transport, without a retry.\<close>

definition retry_connection :: "'s pause \<Rightarrow> 's connection retry_transport \<Rightarrow> 's connection" where
  "retry_connection pause r =
     \<lparr>conn_call = (\<lambda>m p s.
        (case retry_call (rt_config r) (retry_attempt (rt_inner r) m p) (retry_wait pause) (s, None) of
           (Some e, (t, v)) \<Rightarrow> (Inl e, t)
         | (None, (t, v)) \<Rightarrow> (Inr v, t))),
      conn_notify = conn_notify (rt_inner r), conn_close = conn_close (rt_inner r)\<rparr>"

section \<open>Methods over it\<close>

text \<open>
  Attempts \<open>a\<close>, \<open>a + 1\<close> and so on failed with errors that are retried, the waits after them were not
  cancelled, and the world is then in the last state.
\<close>

inductive failed_attempts :: "'s connection \<Rightarrow> string \<Rightarrow> payload \<Rightarrow> 's pause \<Rightarrow> nat \<Rightarrow> 's \<Rightarrow> nat \<Rightarrow> 's \<Rightarrow> bool"
  for c m p pause where
  fa_none: "failed_attempts c m p pause a s a s"
| fa_failed: "conn_call c m p s = (Inl e, t) \<Longrightarrow> is_retryable (Some e) \<Longrightarrow> pause a t = (None, u) \<Longrightarrow>
     failed_attempts c m p pause (Suc a) u b v \<Longrightarrow> failed_attempts c m p pause a s b v"

lemma failed_attempts_le: "failed_attempts c m p pause a s b v \<Longrightarrow> a \<le> b"
  by (induction rule: failed_attempts.induct) auto

lemma retry_loop_failed:
  "failed_attempts c m p pause a s b v \<Longrightarrow> b < n \<Longrightarrow>
     \<exists>err'. retry_loop n (retry_attempt c m p) (retry_wait pause) a err (s, r) =
       retry_loop n (retry_attempt c m p) (retry_wait pause) b err' (v, r)"
proof (induction arbitrary: err rule: failed_attempts.induct)
  case (fa_failed s e t a u b v)
  have "Suc a < n" using failed_attempts_le [OF fa_failed(4)] fa_failed(6) by simp
  then have "retry_loop n (retry_attempt c m p) (retry_wait pause) a err (s, r) =
      retry_loop n (retry_attempt c m p) (retry_wait pause) (Suc a) (Some e) (u, r)"
    using fa_failed(1-3) by (subst retry_loop.simps) (auto simp: retry_attempt_def retry_wait_def)
  with fa_failed(5) [OF fa_failed(6)] show ?case by metis
qed auto

text \<open>The attempt that is the last: it succeeds, fails for good, or is the last allowed.\<close>

lemma retry_connection_call:
  assumes f: "failed_attempts c m p pause 0 s k v" and k: "int k < rc_max_attempts (with_defaults cfg)"
    and final: "conn_call c m p v = (x, t)" "\<And>e. x = Inl e \<Longrightarrow> \<not> is_retryable (Some e) \<or> int (Suc k) = rc_max_attempts (with_defaults cfg)"
  shows "conn_call (retry_connection pause (new_retry_transport c cfg)) m p s = conn_call c m p v"
proof -
  let ?n = "nat (rc_max_attempts (with_defaults cfg))"
  have n: "k < ?n" using k by simp
  from retry_loop_failed [OF f n, of None None] obtain err where
    l: "retry_loop ?n (retry_attempt c m p) (retry_wait pause) 0 None (s, None) =
      retry_loop ?n (retry_attempt c m p) (retry_wait pause) k err (v, None)" by blast
  have "retry_loop ?n (retry_attempt c m p) (retry_wait pause) k err (v, None) = retry_attempt c m p (v, None)"
  proof (cases x)
    case (Inl e)
    have "is_retryable (Some e) \<Longrightarrow> k = ?n - 1" using final(2) [OF Inl] k by auto
    then show ?thesis using n final(1) Inl by (subst retry_loop.simps) (auto simp: retry_attempt_def)
  next
    case (Inr w)
    then show ?thesis using n final(1) by (subst retry_loop.simps) (auto simp: retry_attempt_def)
  qed
  with l show ?thesis
    using final(1)
    by (cases x) (simp_all add: retry_connection_def new_retry_transport_def retry_call_def with_defaults_idem retry_attempt_def)
qed

text \<open>
  C35. A method of the client over a retrying transport: after \<open>k\<close> attempts that failed with errors that are
  retried, fewer than the policy allows, the method gives exactly what it would give over the inner transport in
  the state the world is in then, whatever it decodes the answer into, and leaves the same state.  With
  \<open>k = 0\<close>: a call that does not fail with such an error is not changed by the policy at all.
\<close>

theorem retry_transparent:
  assumes "failed_attempts c m p pause 0 s k v" and "int k < rc_max_attempts (with_defaults cfg)"
    and "\<And>e. fst (conn_call c m p v) = Inl e \<Longrightarrow> \<not> is_retryable (Some e) \<or> int (Suc k) = rc_max_attempts (with_defaults cfg)"
  shows "call_for env t (retry_connection pause (new_retry_transport c cfg)) m p s = call_for env t c m p v"
proof -
  obtain x u where x: "conn_call c m p v = (x, u)" by (cases "conn_call c m p v")
  have "conn_call (retry_connection pause (new_retry_transport c cfg)) m p s = conn_call c m p v"
    by (rule retry_connection_call [OF assms(1,2) x]) (use assms(3) x in simp)
  then show ?thesis by (simp add: call_for_def then_do_def)
qed

text \<open>A connection that fails twice with an internal error and then answers; the state counts the calls.\<close>

definition flaky_connection :: "nat connection" where
  "flaky_connection =
     \<lparr>conn_call = (\<lambda>m p n. (if n < 2 then Inl internal_error else Inr (Some (JObj [])), Suc n)),
      conn_notify = (\<lambda>m p n. (None, n)), conn_close = (\<lambda>n. (None, n))\<rparr>"

theorem retry_transparent_witness:
  "call_for no_codecs (TStruct []) (retry_connection (\<lambda>a n. (None, n)) (new_retry_transport flaky_connection unset_config)) ''m'' NoParams 0
     = (Inr (VStruct []), 3)"
proof -
  have "failed_attempts flaky_connection ''m'' NoParams (\<lambda>a n. (None, n)) 0 0 2 2"
    by (rule fa_failed [of _ _ _ _ internal_error 1 _ _ 1], simp_all add: flaky_connection_def internal_error_retryable)
      (rule fa_failed [of _ _ _ _ internal_error 2 _ _ 2], simp_all add: internal_error_retryable fa_none [of _ _ _ _ 2, simplified] numeral_2_eq_2 fa_none)
  from retry_transparent [OF this, of unset_config no_codecs "TStruct []"] show ?thesis
    by (simp add: unset_defaults default_retry_config_def flaky_connection_def call_for_def then_do_def decode_answer_def json_unmarshal_def)
qed

end
