(* ===== verification/Envelope.thy ===== *)
theory Envelope imports Protocol RpcProps begin

text \<open>
  The envelopes of the \<^verbatim>\<open>protocol\<close> package (\<^verbatim>\<open>RPCRequest\<close>, \<^verbatim>\<open>RPCResponse\<close>, \<^verbatim>\<open>RPCNotification\<close> of the generated
  \<^verbatim>\<open>schema\<close> package, the helpers of \<^verbatim>\<open>envelope.go\<close> and \<^verbatim>\<open>rpc_ext.go\<close>) beside the ones the transport writes and
  reads: two descriptions of one format.
\<close>

section \<open>Types\<close>

definition RPCError_t :: gotype where
  "RPCError_t = TStruct [(''code'', False, TInt 64), (''message'', False, TString), (''data'', True, TRaw)]"

definition RPCRequest_t :: gotype where
  "RPCRequest_t = TStruct [(''jsonrpc'', True, TString), (''method'', False, TString), (''id'', True, TRaw), (''params'', True, TRaw)]"

definition RPCResponse_t :: gotype where
  "RPCResponse_t = TStruct [(''jsonrpc'', True, TString), (''id'', True, TRaw), (''result'', True, TRaw), (''error'', True, TPtr RPCError_t)]"

definition RPCNotification_t :: gotype where
  "RPCNotification_t = TStruct [(''jsonrpc'', True, TString), (''method'', False, TString), (''params'', True, TRaw)]"

section \<open>Helpers\<close>

text \<open>Parameters and results that are absent are decoded as null.\<close>

definition DecodeParams :: "codecs \<Rightarrow> gotype \<Rightarrow> notification \<Rightarrow> goval option" where
  "DecodeParams env t n = decode_raw env t (nt_params n)"

definition request_decode_params :: "codecs \<Rightarrow> gotype \<Rightarrow> request \<Rightarrow> goval option" where
  "request_decode_params env t r = decode_raw env t (req_params r)"

definition DecodeResult :: "codecs \<Rightarrow> gotype \<Rightarrow> goval \<Rightarrow> goval option" where
  "DecodeResult env t v =
     (case v of
        VStruct [ver, i, VRaw r, e] \<Rightarrow> decode_raw env t (Some r)
      | _ \<Rightarrow> decode_raw env t None)"

text \<open>\<^verbatim>\<open>RawJSON\<close> of a typed value; the values it is called with marshal without an error.\<close>

definition RawJSON :: "codecs \<Rightarrow> gotype \<Rightarrow> goval \<Rightarrow> json" where
  "RawJSON env t v = goenc env t v"

definition StringID :: "string \<Rightarrow> json" where
  "StringID i = RawJSON no_codecs TString (VStr i)"

definition NumberID :: "int \<Rightarrow> json" where
  "NumberID i = RawJSON no_codecs (TInt 64) (VInt i)"

section \<open>Ids and absent parameters\<close>

text \<open>An id that is not negative, as a number or as its digits, is the one the transport reads.\<close>

lemma NumberID_parsed:
  assumes "0 \<le> i" and "i < 2 ^ 63"
  shows "parse_id (NumberID i) = Some (of_int i)"
proof -
  have w: "unat (of_nat (nat i) :: u64) = nat i" using assms by (simp add: unat_of_nat nat_less_iff del: of_nat_nat)
  have "parse_id (NumberID i) = parse_uint64 (show_int i)" by (simp add: parse_id_def NumberID_def RawJSON_def)
  also have "show_int i = show_nat (unat (of_nat (nat i) :: u64))" unfolding w using assms by (simp add: show_int_def)
  also have "parse_uint64 \<dots> = Some (of_nat (nat i))" by (rule parse_uint64_show)
  finally show ?thesis using assms(1) by simp
qed

lemma StringID_parsed: "parse_id (StringID (show_nat (unat w))) = Some w"
proof -
  have "coerce_utf8 0 (show_nat (unat w)) = show_nat (unat w)"
    by (rule coerce_ascii) (use show_nat_digits [of "unat w"] in \<open>auto simp: is_digit_def list_all_iff\<close>)
  then show ?thesis by (simp add: parse_id_def StringID_def RawJSON_def parse_uint64_show)
qed

text \<open>A negative id is none for the transport: the message ends the session.\<close>

lemma NumberID_negative: "i < 0 \<Longrightarrow> parse_id (NumberID i) = None"
  by (simp add: parse_id_def NumberID_def RawJSON_def show_int_def parse_uint64_def is_digit_def code_def)

lemma decode_absent: "decode_raw env (TStruct fs) None = Some (zero (TStruct fs))"
  by (simp add: decode_raw_def json_unmarshal_def)

section \<open>One format\<close>

lemma envelope_names:
  "names_ok [''jsonrpc'', ''method'', ''id'', ''params'']" "names_ok [''jsonrpc'', ''id'', ''result'', ''error'']"
  "names_ok [''jsonrpc'', ''method'', ''params'']"
  by code_simp+

lemma envelope_matches [simp]:
  "match_name [''jsonrpc'', ''method'', ''id'', ''params''] ''jsonrpc'' = Some 0"
  "match_name [''jsonrpc'', ''method'', ''id'', ''params''] ''method'' = Some 1"
  "match_name [''jsonrpc'', ''method'', ''id'', ''params''] ''id'' = Some 2"
  "match_name [''jsonrpc'', ''method'', ''id'', ''params''] ''params'' = Some 3"
  "match_name [''jsonrpc'', ''method'', ''params''] ''jsonrpc'' = Some 0"
  "match_name [''jsonrpc'', ''method'', ''params''] ''method'' = Some 1"
  "match_name [''jsonrpc'', ''method'', ''params''] ''params'' = Some 2"
  by (simp_all add: match_name_def)

text \<open>What the transport writes, the protocol package reads.\<close>

lemma request_decoded:
  assumes "valid_utf8 m"
  shows "json_unmarshal env RPCRequest_t (enc_request (with_id (m, p) i)) =
    Some (VStruct [VStr ''2.0'', VStr m, VRaw (JNum (show_nat (unat i))), raw_val p])"
  using assms
  by (cases p) (simp_all add: json_unmarshal_def RPCRequest_t_def enc_request_def with_id_def opt_member_def raw_val_def valid_utf8_def)

lemma notification_decoded:
  assumes "valid_utf8 m"
  shows "json_unmarshal env RPCNotification_t (enc_notification m p) = Some (VStruct [VStr ''2.0'', VStr m, raw_val p])"
  using assms
  by (cases p) (simp_all add: json_unmarshal_def RPCNotification_t_def enc_notification_def opt_member_def raw_val_def valid_utf8_def)

text \<open>What the protocol package writes, the transport reads.\<close>

lemma request_read:
  assumes "valid_utf8 m"
  shows "read_frame (goenc env RPCRequest_t (VStruct [VStr ver, VStr m, VRaw i, raw_val p])) = FRequest i m p"
  using assms
  by (cases p; cases "ver = []")
    (simp_all add: RPCRequest_t_def read_frame_def call_frame_def map_get_def raw_val_def valid_utf8_def)

lemma notification_read:
  assumes "valid_utf8 m"
  shows "read_frame (goenc env RPCNotification_t (VStruct [VStr ver, VStr m, raw_val p])) = FNotify \<lparr>nt_method = m, nt_params = p\<rparr>"
  using assms
  by (cases p; cases "ver = []")
    (simp_all add: RPCNotification_t_def read_frame_def call_frame_def map_get_def raw_val_def valid_utf8_def)

lemma response_read:
  assumes "0 \<le> i" and "i < 2 ^ 63"
  shows "read_frame (goenc env RPCResponse_t (VStruct [VStr ver, VRaw (NumberID i), raw_val r, VNil])) =
    FResponse (of_int i) \<lparr>cr_raw = r, cr_err = None, cr_rpc = None\<rparr>"
  using NumberID_parsed [OF assms]
  by (cases r; cases "ver = []")
    (simp_all add: RPCResponse_t_def read_frame_def response_frame_def map_get_def raw_val_def Let_def)

end
