(* ===== verification/MockServer.thy ===== *)
theory MockServer imports RpcProps JsonLines begin

text \<open>
  The server of the tests (\<^verbatim>\<open>internal/testutil/mock_server.go\<close>): a second implementation of the protocol,
  with a decoder and an encoder of its own, at the other end of a pipe.  Its messages, its read loop, and
  the interleavings of the loop with the goroutines that wait for a reply of the client.
\<close>

section \<open>Messages\<close>

text \<open>
  The server writes Go maps, whose keys come out in order, and reads into one struct for requests,
  notifications and responses.
\<close>

definition go_map :: "(string \<times> json) list \<Rightarrow> json" where
  "go_map es = JObj (fold (\<lambda>(k, v). put k v) es [])"

definition mock_message_type :: gotype where
  "mock_message_type = TStruct
     [(''jsonrpc'', True, TString), (''method'', True, TString), (''id'', True, TRaw), (''params'', True, TRaw),
      (''result'', True, TRaw), (''error'', True, TPtr rpc_error_type)]"

record mock_message =
  mm_method :: string
  mm_id :: raw
  mm_params :: raw
  mm_result :: raw

definition raw_of :: "goval \<Rightarrow> raw" where
  "raw_of v = (case v of VRaw j \<Rightarrow> Some j | _ \<Rightarrow> None)"

definition dec_mock_message :: "json \<Rightarrow> mock_message option" where
  "dec_mock_message j =
     (case json_unmarshal no_codecs mock_message_type j of
        Some (VStruct [v, VStr m, i, p, r, e]) \<Rightarrow>
          Some \<lparr>mm_method = m, mm_id = raw_of i, mm_params = raw_of p, mm_result = raw_of r\<rparr>
      | _ \<Rightarrow> None)"

definition mock_request_message :: "int option \<Rightarrow> string \<Rightarrow> raw \<Rightarrow> json" where
  "mock_request_message i method params =
     go_map ([(''jsonrpc'', JStr ''2.0''), (''method'', JStr (coerce_utf8 0 method))]
       @ (case i of None \<Rightarrow> [] | Some n \<Rightarrow> [(''id'', JNum (show_int n))]) @ opt_member ''params'' params)"

definition mock_result_message :: "json \<Rightarrow> json \<Rightarrow> json" where
  "mock_result_message i result =
     go_map [(''jsonrpc'', JStr ''2.0''), (''id'', i), (''result'', result)]"

definition mock_error_message :: "json \<Rightarrow> int \<Rightarrow> string \<Rightarrow> json" where
  "mock_error_message i c m =
     go_map [(''jsonrpc'', JStr ''2.0''), (''id'', i),
       (''error'', go_map [(''code'', JNum (show_int c)), (''message'', JStr (coerce_utf8 0 m))])]"

section \<open>State and operations\<close>

text \<open>
  A handler is given the parameters and returns a value or an error; a nil value is null.  The pipe
  is what was written to it and whether both ends are open.
\<close>

type_synonym method_handler = "raw \<Rightarrow> go_error + json"

record mock =
  ms_handlers :: "string \<rightharpoonup> method_handler"
  ms_pending :: "int \<rightharpoonup> addr"
  ms_done :: bool
  ms_open :: bool
  ms_written :: string
  ms_heap :: "addr \<rightharpoonup> json gochan"
  ms_brk :: addr

definition new_mock :: mock where
  "new_mock = \<lparr>ms_handlers = Map.empty, ms_pending = Map.empty, ms_done = False, ms_open = True,
     ms_written = [], ms_heap = Map.empty, ms_brk = 0\<rparr>"

definition mock_handle :: "string \<Rightarrow> method_handler \<Rightarrow> ('z) mock_scheme \<Rightarrow> ('z) mock_scheme" where
  "mock_handle m h s = s\<lparr>ms_handlers := (ms_handlers s)(m \<mapsto> h)\<rparr>"

definition mock_write :: "json \<Rightarrow> ('z) mock_scheme \<Rightarrow> go_error option \<times> ('z) mock_scheme" where
  "mock_write j s =
     (if ms_open s then (None, s\<lparr>ms_written := ms_written s @ write_json j\<rparr>)
      else (Some (ErrText ''io: read/write on closed pipe''), s))"

definition mock_notify :: "string \<Rightarrow> raw \<Rightarrow> ('z) mock_scheme \<Rightarrow> go_error option \<times> ('z) mock_scheme" where
  "mock_notify m p s = mock_write (mock_request_message None m p) s"

text \<open>\<^verbatim>\<open>Request\<close> returns an empty object at once.\<close>

definition mock_request :: "int \<Rightarrow> string \<Rightarrow> raw \<Rightarrow> ('z) mock_scheme \<Rightarrow> (json \<times> go_error option) \<times> ('z) mock_scheme" where
  "mock_request i m p s =
     (case mock_write (mock_request_message (Some i) m p) s of (e, t) \<Rightarrow> ((JObj [], e), t))"

text \<open>The locked parts of \<^verbatim>\<open>RequestAndWait\<close>: a new channel under the id, and the removal of the entry.\<close>

definition mock_register :: "int \<Rightarrow> ('z) mock_scheme \<Rightarrow> addr \<times> ('z) mock_scheme" where
  "mock_register i s =
     (let a = ms_brk s in
      (a, s\<lparr>ms_heap := (ms_heap s)(a \<mapsto> make_chan 1), ms_brk := Suc a, ms_pending := (ms_pending s)(i \<mapsto> a)\<rparr>))"

definition mock_forget :: "int \<Rightarrow> ('z) mock_scheme \<Rightarrow> ('z) mock_scheme" where
  "mock_forget i s = s\<lparr>ms_pending := (ms_pending s)(i := None)\<rparr>"

section \<open>The read loop\<close>

text \<open>
  A response: the channel and the payload the loop is about to offer, when the id is a number and waited
  for.  A null id decodes to 0, and a response without a result counts as null.
\<close>

definition mock_id :: "raw \<Rightarrow> int option" where
  "mock_id r =
     (case r of None \<Rightarrow> None
      | Some j \<Rightarrow> (case json_unmarshal no_codecs (TInt 64) j of Some (VInt n) \<Rightarrow> Some n | _ \<Rightarrow> None))"

definition mock_take_reply :: "mock_message \<Rightarrow> ('z) mock_scheme \<Rightarrow> (addr \<times> json) option \<times> ('z) mock_scheme" where
  "mock_take_reply m s =
     (case mock_id (mm_id m) of
        None \<Rightarrow> (None, s)
      | Some n \<Rightarrow>
          (case ms_pending s n of
             None \<Rightarrow> (None, s)
           | Some a \<Rightarrow> (Some (a, case mm_result m of None \<Rightarrow> JNull | Some r \<Rightarrow> r), mock_forget n s)))"

text \<open>The select with a default.\<close>

definition mock_offer :: "addr \<Rightarrow> json \<Rightarrow> ('z) mock_scheme \<Rightarrow> ('z) mock_scheme" where
  "mock_offer a p s =
     (case ms_heap s a of
        None \<Rightarrow> s
      | Some ch \<Rightarrow> (case chan_send ch p of SendOk ch' \<Rightarrow> s\<lparr>ms_heap := (ms_heap s)(a \<mapsto> ch')\<rparr> | _ \<Rightarrow> s))"

definition mock_response :: "('z) mock_scheme \<Rightarrow> string \<Rightarrow> json \<Rightarrow> raw \<Rightarrow> json" where
  "mock_response s m i p =
     (case ms_handlers s m of
        None \<Rightarrow>
          if m = ''initialize'' \<or> m = ''initialized'' \<or> m = ''session/start'' then mock_result_message i (go_map [])
          else mock_error_message i (- 32601) (''method not found: '' @ m)
      | Some h \<Rightarrow>
          (case h p of
             Inl e \<Rightarrow> mock_error_message i (- 32603) (error_text e)
           | Inr v \<Rightarrow> mock_result_message i v))"

text \<open>A notification runs its handler and answers nothing; the error of a write is dropped.\<close>

definition mock_dispatch :: "mock_message \<Rightarrow> ('z) mock_scheme \<Rightarrow> (addr \<times> json) option \<times> ('z) mock_scheme" where
  "mock_dispatch m s =
     (if mm_method m = [] then mock_take_reply m s
      else (case mm_id m of
              None \<Rightarrow> (None, s)
            | Some i \<Rightarrow> (None, snd (mock_write (mock_response s (mm_method m) i (mm_params m)) s))))"

definition mock_line :: "string \<Rightarrow> ('z) mock_scheme \<Rightarrow> (addr \<times> json) option \<times> ('z) mock_scheme" where
  "mock_line line s =
     (if line = [] then (None, s)
      else (case json_parse line of
              None \<Rightarrow> (None, s)
            | Some j \<Rightarrow> (case dec_mock_message j of None \<Rightarrow> (None, s) | Some m \<Rightarrow> mock_dispatch m s)))"

definition max_mock_line :: nat where
  "max_mock_line = 2 ^ 20"

text \<open>The loop on its own: each line in turn, until the server is done or a line does not fit.\<close>

definition mock_serve :: "string \<Rightarrow> ('z) mock_scheme \<Rightarrow> ('z) mock_scheme" where
  "mock_serve line s = (case mock_line line s of (None, t) \<Rightarrow> t | (Some (a, p), t) \<Rightarrow> mock_offer a p t)"

fun mock_lines :: "string list \<Rightarrow> ('z) mock_scheme \<Rightarrow> ('z) mock_scheme" where
  "mock_lines [] s = s"
| "mock_lines (l # ls) s = (if ms_done s then s else mock_lines ls (mock_serve l s))"

definition mock_read_loop :: "string \<Rightarrow> ('z) mock_scheme \<Rightarrow> ('z) mock_scheme" where
  "mock_read_loop input s = mock_lines (fst (scan_lines max_mock_line input)) s"

section \<open>Helpers of the tests\<close>

text \<open>\<^verbatim>\<open>MustReadParams\<close> panics where this is \<^term>\<open>None\<close>.\<close>

definition must_read_params :: "codecs \<Rightarrow> gotype \<Rightarrow> goval \<Rightarrow> raw \<Rightarrow> goval option" where
  "must_read_params env t cur params = (case params of None \<Rightarrow> Some cur | Some j \<Rightarrow> godec env t cur j)"

section \<open>Text of the messages\<close>

lemma mock_result_message_eq:
  "mock_result_message i r = JObj [(''id'', i), (''jsonrpc'', JStr ''2.0''), (''result'', r)]"
  by (simp add: mock_result_message_def go_map_def less_char_def)

lemma mock_error_message_eq:
  "mock_error_message i c m =
     JObj [(''error'', JObj [(''code'', JNum (show_int c)), (''message'', JStr (coerce_utf8 0 m))]), (''id'', i),
       (''jsonrpc'', JStr ''2.0'')]"
  by (simp add: mock_error_message_def go_map_def less_char_def)

lemma mock_request_message_eq:
  "mock_request_message i m p =
     JObj ((case i of None \<Rightarrow> [] | Some n \<Rightarrow> [(''id'', JNum (show_int n))]) @
       [(''jsonrpc'', JStr ''2.0''), (''method'', JStr (coerce_utf8 0 m))] @ opt_member ''params'' p)"
  by (cases i; cases p) (simp_all add: mock_request_message_def go_map_def less_char_def opt_member_def)

lemma num_ok_show_int: "num_ok (show_int n)"
proof -
  have "scan_unsigned (show_nat k) = Some (show_nat k, [])" for k
    using num_ok_show_nat [of k] show_nat_head [of k]
    by (auto simp: num_ok_def scan_num_def is_digit_def code_def split: list.splits if_splits option.splits)
  then show ?thesis using num_ok_show_nat by (simp add: show_int_def num_ok_def scan_num_def)
qed

lemmas mock_keys = valid_utf8_ascii code_def max_depth_def

lemma mock_text_ok:
  "json_ok (max_depth - 1) i \<Longrightarrow> json_ok (max_depth - 1) r \<Longrightarrow> json_ok max_depth (mock_result_message i r)"
  "json_ok (max_depth - 1) i \<Longrightarrow> valid_utf8 m \<Longrightarrow> json_ok max_depth (mock_error_message i c m)"
  by (simp_all add: mock_result_message_eq mock_error_message_eq mock_keys num_ok_show_int)
    (simp add: valid_utf8_def)

section \<open>What the server reads\<close>

lemma dec_mock_request:
  assumes "valid_utf8 m"
  shows "dec_mock_message (enc_request (with_id (m, p) i)) =
    Some \<lparr>mm_method = m, mm_id = Some (JNum (show_nat (unat i))), mm_params = p, mm_result = None\<rparr>"
  using assms
  by (cases p) (simp_all add: dec_mock_message_def enc_request_def with_id_def opt_member_def json_unmarshal_def
      mock_message_type_def match_name_def raw_of_def valid_utf8_def)

lemma mock_line_text:
  assumes "json_ok max_depth j"
  shows "mock_line (print_json h j) s =
    (case dec_mock_message j of None \<Rightarrow> (None, s) | Some m \<Rightarrow> mock_dispatch m s)"
proof -
  note parse = json_parse_print [OF assms, of h]
  have "json_parse [] = None" by code_simp
  with parse have "print_json h j \<noteq> []" by auto
  with parse show ?thesis by (simp add: mock_line_def del: print_json.simps)
qed

lemma mock_reads_line:
  assumes "json_ok max_depth j" and "length (print_json False j) < max_mock_line" and "\<not> ms_done s"
  shows "mock_read_loop (write_json j @ rest) s = mock_read_loop rest (mock_serve (print_json False j) s)"
  using scan_lines_line [OF print_graphic(1) [OF assms(1)] assms(2), of rest] assms(3)
  by (simp add: mock_read_loop_def write_json_def del: print_json.simps)

section \<open>A client's calls and their answers\<close>

text \<open>
  What a call of the client may return, by the handlers of the server.  The methods of a session's start
  succeed without a handler; with which value is left open.
\<close>

definition mock_outcome :: "('z) mock_scheme \<Rightarrow> string \<Rightarrow> raw \<Rightarrow> outcome \<Rightarrow> bool" where
  "mock_outcome s m p out =
     (case ms_handlers s m of
        None \<Rightarrow>
          if m = ''initialize'' \<or> m = ''initialized'' \<or> m = ''session/start'' then (\<exists>v. out = Succeeded v)
          else out = Failed (ErrRPC \<lparr>rpc_code = - 32601, rpc_message = ''method not found: '' @ m, rpc_data = None\<rparr>)
      | Some h \<Rightarrow>
          (case h p of
             Inl e \<Rightarrow> out = Failed (ErrRPC \<lparr>rpc_code = - 32603, rpc_message = error_text e, rpc_data = None\<rparr>)
           | Inr v \<Rightarrow> out = Succeeded (Some v)))"

text \<open>A call and an answer that can be written, the call on a line the server takes.\<close>

definition answerable :: "('z) mock_scheme \<Rightarrow> u64 \<times> string \<times> raw \<Rightarrow> bool" where
  "answerable s c = (case c of (i, m, p) \<Rightarrow>
     m \<noteq> [] \<and> valid_utf8 m \<and> raw_ok p \<and>
     length (print_json False (enc_request (with_id (m, p) i))) < max_mock_line \<and>
     (case ms_handlers s m of
        None \<Rightarrow> True
      | Some h \<Rightarrow> (case h p of Inl e \<Rightarrow> valid_utf8 (error_text e) | Inr v \<Rightarrow> json_ok (max_depth - 1) v)))"

definition call_line :: "u64 \<times> string \<times> raw \<Rightarrow> string" where
  "call_line c = (case c of (i, m, p) \<Rightarrow> write_json (enc_request (with_id (m, p) i)))"

definition answers :: "('z) mock_scheme \<Rightarrow> u64 \<times> string \<times> raw \<Rightarrow> json \<Rightarrow> bool" where
  "answers s c j = (case c of (i, m, p) \<Rightarrow>
     json_ok max_depth j \<and> (\<exists>r. read_frame j = FResponse i r \<and> mock_outcome s m p (call_outcome r)))"

lemma valid_utf8_text: "list_all (\<lambda>c. code c < 128) t \<Longrightarrow> valid_utf8 m \<Longrightarrow> valid_utf8 (t @ m)"
  by (induction t) (simp_all add: valid_utf8_ascii)

lemma read_result: "read_frame (mock_result_message (JNum (show_nat (unat i))) v)
    = FResponse i \<lparr>cr_raw = Some v, cr_err = None, cr_rpc = None\<rparr>"
  by (simp add: mock_result_message_eq read_frame_def response_frame_def map_get_def parse_id_def parse_uint64_show Let_def)

lemma read_error:
  assumes "valid_utf8 m" and "- (2 ^ 63) \<le> c" and "c < 2 ^ 63"
  shows "read_frame (mock_error_message (JNum (show_nat (unat i))) c m)
    = FResponse i \<lparr>cr_raw = None, cr_err = None, cr_rpc = Some \<lparr>rpc_code = c, rpc_message = m, rpc_data = None\<rparr>\<rparr>"
proof -
  let ?e = "\<lparr>rpc_code = c, rpc_message = m, rpc_data = None\<rparr>"
  have "dec_rpc_error (JObj [(''code'', JNum (show_int c)), (''message'', JStr (coerce_utf8 0 m))]) = Some ?e"
    using dec_enc_rpc_error [of ?e] assms by (simp add: enc_rpc_error_def opt_member_def)
  then show ?thesis
    by (simp add: mock_error_message_eq read_frame_def response_frame_def map_get_def parse_id_def parse_uint64_show Let_def)
qed

lemma mock_response_answers:
  assumes "answerable s (i, m, p)"
  shows "answers s (i, m, p) (mock_response s m (JNum (show_nat (unat i))) p)"
proof -
  have i: "json_ok (max_depth - 1) (JNum (show_nat (unat i)))" by (simp add: num_ok_show_nat)
  have result: "json_ok (max_depth - 1) v \<Longrightarrow> answers s (i, m, p) (mock_result_message (JNum (show_nat (unat i))) v)"
    if "mock_outcome s m p (Succeeded (Some v))" for v
    using that mock_text_ok(1) [OF i] by (simp add: answers_def read_result call_outcome_def)
  have error: "answers s (i, m, p) (mock_error_message (JNum (show_nat (unat i))) c t)"
    if "mock_outcome s m p (Failed (ErrRPC \<lparr>rpc_code = c, rpc_message = t, rpc_data = None\<rparr>))"
      "valid_utf8 t" "- (2 ^ 63) \<le> c" "c < 2 ^ 63" for c t
    using that mock_text_ok(2) [OF i] by (simp add: answers_def read_error call_outcome_def)
  have nf: "valid_utf8 (''method not found: '' @ m)"
    using assms by (intro valid_utf8_text) (simp_all add: answerable_def code_def)
  show ?thesis
  proof (cases "ms_handlers s m")
    case None
    let ?session = "m = ''initialize'' \<or> m = ''initialized'' \<or> m = ''session/start''"
    show ?thesis
    proof (cases ?session)
      case True
      then have "mock_outcome s m p (Succeeded (Some (JObj [])))" unfolding mock_outcome_def None option.case by metis
      moreover have "mock_response s m (JNum (show_nat (unat i))) p = mock_result_message (JNum (show_nat (unat i))) (JObj [])"
        using True by (simp only: mock_response_def None option.case if_True go_map_def fold_simps(1))
      ultimately show ?thesis using result [of "JObj []"] by (simp add: max_depth_def)
    next
      case False
      with nf show ?thesis by (auto simp: mock_response_def mock_outcome_def None intro!: error)
    qed
  next
    case (Some h)
    with assms show ?thesis
      by (cases "h p") (auto simp: mock_response_def mock_outcome_def answerable_def intro!: result error)
  qed
qed

lemma mock_serves_call:
  assumes "answerable s (i, m, p)" and "ms_open s"
  shows "mock_serve (print_json False (enc_request (with_id (m, p) i))) s
    = s\<lparr>ms_written := ms_written s @ write_json (mock_response s m (JNum (show_nat (unat i))) p)\<rparr>"
proof -
  from assms(1) have m: "m \<noteq> []" "valid_utf8 m" "raw_ok p" by (simp_all add: answerable_def)
  show ?thesis
    by (simp add: mock_serve_def mock_line_text [OF enc_request_ok [OF m(2,3)]] dec_mock_request [OF m(2)]
        mock_dispatch_def m(1) mock_write_def assms(2))
qed

text \<open>The line is taken with the state's handlers, which no call changes.\<close>

lemma answerable_written [simp]: "answerable (s\<lparr>ms_written := w\<rparr>) c = answerable s c"
  by (simp add: answerable_def)

lemma answers_written [simp]: "answers (s\<lparr>ms_written := w\<rparr>) c j = answers s c j"
  by (simp add: answers_def mock_outcome_def split: prod.split)

text \<open>
  C9. Two implementations of the protocol agree.  Calls the client writes one after the other to a server
  of the tests are answered in their order, by one line each: the client reads it as the response to
  the call's id, with the result of the method's handler, its error, or the error that there is none; the
  methods of a session's start succeed when there is none.  Nothing else of the server changes.
\<close>

theorem mock_answers_calls:
  assumes "list_all (answerable s) calls" and "ms_open s" and "\<not> ms_done s"
  shows "\<exists>js. mock_read_loop (concat (map call_line calls)) s = s\<lparr>ms_written := ms_written s @ concat (map write_json js)\<rparr> \<and>
     list_all2 (answers s) calls js \<and>
     (\<forall>j \<in> set js. \<forall>rest. json_decode (write_json j @ rest) = Some (j, CHR 0x0A # rest))"
  using assms
proof (induction calls arbitrary: s)
  case Nil
  then show ?case by (simp add: mock_read_loop_def)
next
  case (Cons c calls)
  obtain i m p where c: "c = (i, m, p)" by (cases c)
  let ?j = "mock_response s m (JNum (show_nat (unat i))) p"
  let ?t = "s\<lparr>ms_written := ms_written s @ write_json ?j\<rparr>"
  from Cons.prems c have ok: "answerable s (i, m, p)" by simp
  then have req: "json_ok max_depth (enc_request (with_id (m, p) i))"
    "length (print_json False (enc_request (with_id (m, p) i))) < max_mock_line"
    by (auto simp: answerable_def intro: enc_request_ok)
  have "mock_read_loop (concat (map call_line (c # calls))) s = mock_read_loop (concat (map call_line calls)) ?t"
    using mock_reads_line [OF req Cons.prems(3)] mock_serves_call [OF ok Cons.prems(2)]
    by (simp add: c call_line_def)
  moreover from Cons.prems obtain js where js:
    "mock_read_loop (concat (map call_line calls)) ?t = ?t\<lparr>ms_written := ms_written ?t @ concat (map write_json js)\<rparr>"
    "list_all2 (answers s) calls js" "\<forall>j \<in> set js. \<forall>rest. json_decode (write_json j @ rest) = Some (j, CHR 0x0A # rest)"
    using Cons.IH [of ?t] by (auto simp: list.pred_map comp_def)
  moreover have "answers s c ?j" using mock_response_answers [OF ok] by (simp add: c)
  moreover from this have "json_decode (write_json ?j @ rest) = Some (?j, CHR 0x0A # rest)" for rest
    using json_decode_print [of ?j "CHR 0x0A # rest" False] ends_number_newline
    by (simp add: answers_def c write_json_def)
  ultimately show ?case by (intro exI [of _ "?j # js"]) simp
qed

definition demo_mock :: mock where
  "demo_mock = mock_handle ''turn/start'' (\<lambda>p. case p of None \<Rightarrow> Inl (ErrText ''boom'') | Some j \<Rightarrow> Inr j) new_mock"

theorem mock_answers_calls_witness:
  "\<exists>js. ms_written (mock_read_loop (concat (map call_line [(1, ''turn/start'', Some JNull), (2, ''turn/start'', None), (3, ''x'', None)])) demo_mock)
       = concat (map write_json js) \<and>
     list_all2 (answers demo_mock) [(1, ''turn/start'', Some JNull), (2, ''turn/start'', None), (3, ''x'', None)] js"
proof -
  have n: "unat (1 :: u64) = 1" "unat (2 :: u64) = 2" "unat (3 :: u64) = 3" by simp_all
  have "list_all (answerable demo_mock) [(1, ''turn/start'', Some JNull), (2, ''turn/start'', None), (3, ''x'', None)]"
    by (simp add: answerable_def demo_mock_def mock_handle_def new_mock_def raw_ok_def enc_request_def with_id_def opt_member_def
        mock_keys max_mock_line_def print_members.simps quote_def esc_char_def n show_nat.simps
        utf8_more_ascii)
  moreover have "ms_open demo_mock" "\<not> ms_done demo_mock" "ms_written demo_mock = []"
    by (simp_all add: demo_mock_def mock_handle_def new_mock_def)
  ultimately show ?thesis using mock_answers_calls [of demo_mock] by fastforce
qed

section \<open>A request of the server and the client's reply\<close>

lemma dec_mock_reply:
  assumes "case err of None \<Rightarrow> True | Some e \<Rightarrow>
      valid_utf8 (rpc_message e) \<and> - (2 ^ 63) \<le> rpc_code e \<and> rpc_code e < 2 ^ 63"
  shows "dec_mock_message (enc_reply i r err) = Some \<lparr>mm_method = [], mm_id = Some i, mm_params = None, mm_result = Some r\<rparr>"
proof -
  have e: "godec no_codecs rpc_error_type (zero rpc_error_type) (enc_rpc_error e) = Some (rpc_error_val e)"
    "enc_rpc_error e \<noteq> JNull" if "err = Some e" for e
    using that assms unmarshal_marshal [OF rpc_error_type_ok wt_rpc_error [of e]]
    by (simp_all add: json_unmarshal_def enc_rpc_error_eq [symmetric]) (simp add: enc_rpc_error_def)
  show ?thesis
    by (cases err) (simp_all add: e dec_mock_message_def enc_reply_def opt_member_def json_unmarshal_def mock_message_type_def
        match_name_def raw_of_def)
qed

lemma mock_id_show: "- (2 ^ 63) \<le> n \<Longrightarrow> n < 2 ^ 63 \<Longrightarrow> mock_id (Some (JNum (show_int n))) = Some n"
  using dec_int_show [of 64 n] by (simp add: mock_id_def json_unmarshal_def int_fits_def)

lemma read_mock_request:
  assumes "valid_utf8 m"
  shows "read_frame (mock_request_message (Some n) m p) = FRequest (JNum (show_int n)) m p"
    and "read_frame (mock_request_message None m p) = FNotify \<lparr>nt_method = m, nt_params = p\<rparr>"
  using assms
  by (cases p; simp add: mock_request_message_eq read_frame_def map_get_def call_frame_def opt_member_def valid_utf8_def)+

lemma mock_request_ok:
  assumes "valid_utf8 m" and "raw_ok p"
  shows "json_ok max_depth (mock_request_message i m p)"
proof -
  have "coerce_utf8 0 m = m" using assms(1) by (simp add: valid_utf8_def)
  with assms show ?thesis
    by (cases i; cases p) (simp_all add: mock_request_message_eq opt_member_def raw_ok_def mock_keys num_ok_show_int)
qed

text \<open>What a wait returns for the client's reply; the error of a reply is lost.\<close>

lemma mock_takes_reply:
  assumes "- (2 ^ 63) \<le> n" and "n < 2 ^ 63" and "json_ok max_depth (enc_reply (JNum (show_int n)) v err)"
    and "case err of None \<Rightarrow> True | Some e \<Rightarrow>
      valid_utf8 (rpc_message e) \<and> - (2 ^ 63) \<le> rpc_code e \<and> rpc_code e < 2 ^ 63"
    and "ms_pending s n = Some a"
  shows "mock_line (print_json False (enc_reply (JNum (show_int n)) v err)) s = (Some (a, v), mock_forget n s)"
  using assms(5)
  by (simp add: mock_line_text [OF assms(3)] dec_mock_reply [OF assms(4)] mock_dispatch_def mock_take_reply_def
      mock_id_show [OF assms(1,2)])

lemma enc_reply_ok:
  assumes "json_ok (max_depth - 1) v"
  shows "json_ok max_depth (enc_reply (JNum (show_int n)) v None)"
  using assms by (simp add: enc_reply_def opt_member_def mock_keys num_ok_show_int)

text \<open>
  A request of the server of the tests reaches the client and its reply comes back.  The message that
  is written is one line, which the client reads as a request with that id, method and parameters; when
  the client replies with a value, the read loop puts that value in the channel of the wait and its
  entry is gone, so that a second reply changes nothing.
\<close>

theorem mock_request_and_reply:
  assumes "- (2 ^ 63) \<le> n" and "n < 2 ^ 63" and "valid_utf8 m" and "raw_ok p" and "json_ok (max_depth - 1) v"
    and "ms_open s" and "\<not> ms_done s" and "mock_register n s = (a, t)"
    and "length (print_json False (enc_reply (JNum (show_int n)) v None)) < max_mock_line"
  shows "\<exists>msg u w. mock_write (mock_request_message (Some n) m p) t = (None, u) \<and>
     ms_written u = ms_written s @ write_json msg \<and>
     json_decode (write_json msg @ rest) = Some (msg, CHR 0x0A # rest) \<and>
     read_frame msg = FRequest (JNum (show_int n)) m p \<and>
     w = mock_read_loop (write_json (enc_reply (JNum (show_int n)) v None)) u \<and>
     ms_heap w a = Some \<lparr>chan_buf = [v], chan_cap = 1, chan_closed = False\<rparr> \<and> ms_pending w n = None \<and>
     mock_read_loop (write_json (enc_reply (JNum (show_int n)) v None)) w = w"
proof -
  let ?msg = "mock_request_message (Some n) m p"
  let ?r = "enc_reply (JNum (show_int n)) v None"
  let ?u = "t\<lparr>ms_written := ms_written t @ write_json ?msg\<rparr>"
  let ?w = "mock_offer a v (mock_forget n ?u)"
  from assms(8) have t: "ms_written t = ms_written s" "ms_open t" "\<not> ms_done t" "ms_pending t n = Some a"
    "ms_heap t a = Some (make_chan 1)"
    using assms(6,7) by (auto simp: mock_register_def Let_def)
  have wrote: "mock_write ?msg t = (None, ?u)" using t(2) by (simp add: mock_write_def)
  have decode: "json_decode (write_json ?msg @ rest) = Some (?msg, CHR 0x0A # rest)"
    using json_decode_print [OF mock_request_ok [OF assms(3,4)] ends_number_newline, of False] by (simp add: write_json_def)
  note r_ok = enc_reply_ok [OF assms(5), of n]
  have read: "mock_read_loop (write_json ?r) x = mock_serve (print_json False ?r) x" if "\<not> ms_done x" for x :: "'a mock_scheme"
    using mock_reads_line [OF r_ok assms(9) that, of "[]"] by (simp add: mock_read_loop_def)
  have first: "mock_read_loop (write_json ?r) ?u = ?w"
    using mock_takes_reply [OF assms(1,2) r_ok, of ?u a] t by (simp add: read mock_serve_def)
  have heap: "ms_heap ?w a = Some \<lparr>chan_buf = [v], chan_cap = 1, chan_closed = False\<rparr>"
    and rest: "ms_pending ?w n = None" "\<not> ms_done ?w"
    using t by (simp_all add: mock_offer_def mock_forget_def chan_send_def make_chan_def)
  have "mock_line (print_json False ?r) ?w = (None, ?w)"
    by (simp add: mock_line_text [OF r_ok] dec_mock_reply mock_dispatch_def mock_take_reply_def mock_id_show [OF assms(1,2)] rest(1))
  then have second: "mock_read_loop (write_json ?r) ?w = ?w" by (simp add: read [OF rest(2)] mock_serve_def)
  show ?thesis
    using wrote decode read_mock_request(1) [OF assms(3)] first heap rest(1) second t(1)
    by (intro exI [of _ ?msg] exI [of _ ?u] exI [of _ ?w]) simp
qed

theorem mock_request_and_reply_witness:
  "\<exists>(w :: mock) line. ms_heap w 0 = Some \<lparr>chan_buf = [JBool True], chan_cap = 1, chan_closed = False\<rparr> \<and>
     mock_read_loop (write_json (enc_reply (JNum (show_int (- 7))) (JBool True) None)) w = w \<and>
     json_decode (write_json line) = Some (line, [CHR 0x0A]) \<and> read_frame line = FRequest (JNum (show_int (- 7))) ''ask'' None"
proof -
  let ?n = "- 7 :: int"
  have "length (show_int ?n) = 2" by (simp add: show_int_def show_nat.simps)
  then have len: "length (print_json False (enc_reply (JNum (show_int ?n)) (JBool True) None)) < max_mock_line"
    by (simp add: enc_reply_def opt_member_def mock_keys max_mock_line_def print_members.simps quote_def esc_char_def)
  have ok: "valid_utf8 ''ask''" "raw_ok None" "json_ok (max_depth - 1) (JBool True)"
    by (simp_all add: mock_keys raw_ok_def)
  obtain a t where r: "mock_register ?n new_mock = (a, t)" by (cases "mock_register ?n new_mock")
  then have "a = 0" by (auto simp: mock_register_def new_mock_def Let_def)
  with mock_request_and_reply [OF _ _ ok _ _ r len, of "[]"] show ?thesis
    by (auto simp: new_mock_def)
qed

end
