(* ===== verification/MockWaits.thy ===== *)
theory MockWaits imports MockServer begin

text \<open>
  The goroutines of the server of the tests: the read loop and any number of \<^verbatim>\<open>RequestAndWait\<close>, the end of
  whose contexts and \<^verbatim>\<open>Close\<close> may come at any time.  The lines the loop reads are arbitrary.
\<close>

datatype mock_reader = MReading | MLine string | MSend addr json | MEnded

datatype mock_pc = MWrite | MWait | MForget go_error | MGot json | MFailed go_error

record mock_wait =
  mw_id :: int
  mw_ch :: addr
  mw_msg :: json
  mw_pc :: mock_pc

text \<open>The last component is the history of the replies the loop took for a wait.\<close>

record mock_sys = mock +
  mk_reader :: mock_reader
  mk_waits :: "mock_wait list"
  mk_taken :: "(int \<times> json) list"

definition mock_start :: "mock_sys \<Rightarrow> bool" where
  "mock_start s \<longleftrightarrow> (\<exists>hs. s = mock.extend (new_mock\<lparr>ms_handlers := hs\<rparr>) \<lparr>mk_reader = MReading, mk_waits = [], mk_taken = []\<rparr>)"

definition set_wait :: "nat \<Rightarrow> mock_pc \<Rightarrow> mock_sys \<Rightarrow> mock_sys" where
  "set_wait k pc s = s\<lparr>mk_waits := (mk_waits s)[k := (mk_waits s ! k)\<lparr>mw_pc := pc\<rparr>]\<rparr>"

definition wait_at :: "mock_sys \<Rightarrow> nat \<Rightarrow> mock_pc \<Rightarrow> bool" where
  "wait_at s k pc \<longleftrightarrow> k < length (mk_waits s) \<and> mw_pc (mk_waits s ! k) = pc"

text \<open>One move of a wait: its write, its removal from the table, and the arms of its select.\<close>

inductive wait_move :: "nat \<Rightarrow> mock_sys \<Rightarrow> mock_sys \<Rightarrow> bool" for k s where
  wm_write: "wait_at s k MWrite \<Longrightarrow> mock_write (mw_msg (mk_waits s ! k)) s = (e, t) \<Longrightarrow>
     wait_move k s (set_wait k (case e of None \<Rightarrow> MWait | Some err \<Rightarrow> MForget err) t)"
| wm_forget: "wait_at s k (MForget e) \<Longrightarrow> wait_move k s (set_wait k (MFailed e) (mock_forget (mw_id (mk_waits s ! k)) s))"
| wm_reply: "wait_at s k MWait \<Longrightarrow> ms_heap s (mw_ch (mk_waits s ! k)) = Some ch \<Longrightarrow> chan_recv ch = RecvVal v ch' \<Longrightarrow>
     wait_move k s (set_wait k (MGot v) (s\<lparr>ms_heap := (ms_heap s)(mw_ch (mk_waits s ! k) \<mapsto> ch')\<rparr>))"
| wm_context: "wait_at s k MWait \<Longrightarrow> wait_move k s (set_wait k (MForget e) s)"
| wm_done: "wait_at s k MWait \<Longrightarrow> ms_done s \<Longrightarrow> wait_move k s (set_wait k (MFailed (ErrText ''mock server closed'')) s)"

text \<open>One move of the loop: a line with the check behind it, the end of the stream, the line's handling, and the offer.\<close>

definition taken_reply :: "(addr \<times> json) option \<Rightarrow> mock_reader" where
  "taken_reply r = (case r of None \<Rightarrow> MReading | Some (a, p) \<Rightarrow> MSend a p)"

definition reply_history :: "(addr \<times> json) option \<Rightarrow> mock_message option \<Rightarrow> (int \<times> json) list" where
  "reply_history r m =
     (case r of None \<Rightarrow> []
      | Some (a, p) \<Rightarrow> (case Option.bind m (mock_id \<circ> mm_id) of None \<Rightarrow> [] | Some n \<Rightarrow> [(n, p)]))"

definition line_message :: "string \<Rightarrow> mock_message option" where
  "line_message l = Option.bind (json_parse l) dec_mock_message"

inductive reader_move :: "mock_sys \<Rightarrow> mock_sys \<Rightarrow> bool" for s where
  rm_line: "mk_reader s = MReading \<Longrightarrow> reader_move s (s\<lparr>mk_reader := if ms_done s then MEnded else MLine l\<rparr>)"
| rm_end: "mk_reader s = MReading \<Longrightarrow> reader_move s (s\<lparr>mk_reader := MEnded\<rparr>)"
| rm_handle: "mk_reader s = MLine l \<Longrightarrow> mock_line l s = (r, t) \<Longrightarrow>
     reader_move s (t\<lparr>mk_reader := taken_reply r, mk_taken := mk_taken s @ reply_history r (line_message l)\<rparr>)"
| rm_send: "mk_reader s = MSend a p \<Longrightarrow> reader_move s ((mock_offer a p s)\<lparr>mk_reader := MReading\<rparr>)"

inductive mock_step :: "mock_sys \<Rightarrow> mock_sys \<Rightarrow> bool" where
  sk_handle: "mock_step s (mock_handle m h s)"
| sk_notify: "mock_step s (snd (mock_notify m p s))"
| sk_request: "mock_step s (snd (mock_request i m p s))"
| sk_register: "mock_register i s = (a, t) \<Longrightarrow>
     mock_step s (t\<lparr>mk_waits := mk_waits s @ [\<lparr>mw_id = i, mw_ch = a, mw_msg = mock_request_message (Some i) m p, mw_pc = MWrite\<rparr>]\<rparr>)"
| sk_wait: "wait_move k s t \<Longrightarrow> mock_step s t"
| sk_reader: "reader_move s t \<Longrightarrow> mock_step s t"
| sk_close_done: "mock_step s (s\<lparr>ms_done := True\<rparr>)"
| sk_close_conn: "ms_done s \<Longrightarrow> mock_step s (s\<lparr>ms_open := False\<rparr>)"

section \<open>Invariant\<close>

text \<open>
  The values on their way to a channel: the one the loop is about to offer, and those in the buffer.  A
  waited-for channel has none, no channel has two, and what arrives was taken for the wait's id.
\<close>

definition sending :: "mock_sys \<Rightarrow> (addr \<times> json) option" where
  "sending s = (case mk_reader s of MSend a p \<Rightarrow> Some (a, p) | _ \<Rightarrow> None)"

lemma sending_simps [simp]:
  "sending (s\<lparr>mk_reader := MSend a p\<rparr>) = Some (a, p)" "sending (s\<lparr>mk_reader := MReading\<rparr>) = None"
  "sending (s\<lparr>ms_heap := h\<rparr>) = sending s" "sending (s\<lparr>mk_waits := ws\<rparr>) = sending s"
  "sending (s\<lparr>mk_taken := h'\<rparr>) = sending s"
  by (simp_all add: sending_def)

definition slot :: "mock_sys \<Rightarrow> addr \<Rightarrow> json list" where
  "slot s a =
     (case sending s of None \<Rightarrow> [] | Some (b, p) \<Rightarrow> if b = a then [p] else []) @
     (case ms_heap s a of None \<Rightarrow> [] | Some ch \<Rightarrow> chan_buf ch)"

definition one_place :: "(addr \<rightharpoonup> json gochan) \<Rightarrow> addr \<Rightarrow> addr \<Rightarrow> bool" where
  "one_place heap brk a =
     (case heap a of None \<Rightarrow> brk \<le> a | Some ch \<Rightarrow> a < brk \<and> chan_cap ch = 1 \<and> \<not> chan_closed ch)"

lemma slot_waits [simp]: "slot (s\<lparr>mk_waits := ws\<rparr>) a = slot s a"
  by (simp add: slot_def)

definition mock_heap_ok :: "mock_sys \<Rightarrow> bool" where
  "mock_heap_ok s \<longleftrightarrow> (\<forall>a. one_place (ms_heap s) (ms_brk s) a) \<and>
     (\<forall>a p. sending s = Some (a, p) \<longrightarrow> a < ms_brk s)"

definition table_ok :: "mock_sys \<Rightarrow> bool" where
  "table_ok s \<longleftrightarrow> map_inj (ms_pending s) \<and> (\<forall>a. length (slot s a) \<le> 1) \<and>
     (\<forall>i a. ms_pending s i = Some a \<longrightarrow> a < ms_brk s \<and> slot s a = [])"

definition wait_ok :: "mock_sys \<Rightarrow> mock_wait \<Rightarrow> bool" where
  "wait_ok s w \<longleftrightarrow> mw_ch w < ms_brk s \<and> (\<forall>i. ms_pending s i = Some (mw_ch w) \<longrightarrow> i = mw_id w) \<and>
     (\<forall>p \<in> set (slot s (mw_ch w)). (mw_id w, p) \<in> set (mk_taken s)) \<and>
     (\<forall>p. mw_pc w = MGot p \<longrightarrow> (mw_id w, p) \<in> set (mk_taken s))"

definition mock_inv :: "mock_sys \<Rightarrow> bool" where
  "mock_inv s \<longleftrightarrow> mock_heap_ok s \<and> table_ok s \<and> (\<forall>w \<in> set (mk_waits s). wait_ok s w) \<and> distinct (map mw_ch (mk_waits s))"

lemma mock_inv_start: "mock_start s \<Longrightarrow> mock_inv s"
  by (auto simp: mock_start_def mock.extend_def new_mock_def mock_inv_def mock_heap_ok_def one_place_def table_ok_def slot_def sending_def)

text \<open>Steps that leave the values where they are, and may shrink the table.\<close>

definition mock_quiet :: "mock_sys \<Rightarrow> mock_sys \<Rightarrow> bool" where
  "mock_quiet s t \<longleftrightarrow> ms_heap t = ms_heap s \<and> ms_brk t = ms_brk s \<and> sending t = sending s \<and>
     set (mk_taken s) \<subseteq> set (mk_taken t) \<and>
     (\<forall>i a. ms_pending t i = Some a \<longrightarrow> ms_pending s i = Some a) \<and>
     map mw_ch (mk_waits t) = map mw_ch (mk_waits s) \<and>
     (\<forall>w \<in> set (mk_waits t). \<exists>v \<in> set (mk_waits s). mw_id v = mw_id w \<and> mw_ch v = mw_ch w \<and>
        (\<forall>p. mw_pc w = MGot p \<longrightarrow> mw_pc v = MGot p))"

lemma mock_quiet_inv:
  assumes q: "mock_quiet s t" and inv: "mock_inv s"
  shows "mock_inv t"
proof -
  from q have eq: "ms_heap t = ms_heap s" "ms_brk t = ms_brk s" "sending t = sending s" by (simp_all add: mock_quiet_def)
  then have sl: "slot t = slot s" by (simp add: slot_def fun_eq_iff)
  have "wait_ok t w" if "w \<in> set (mk_waits t)" for w
  proof -
    from q that obtain v where v: "v \<in> set (mk_waits s)" "mw_id v = mw_id w" "mw_ch v = mw_ch w"
      "\<forall>p. mw_pc w = MGot p \<longrightarrow> mw_pc v = MGot p" unfolding mock_quiet_def by blast
    with inv have "wait_ok s v" by (simp add: mock_inv_def)
    moreover have "set (mk_taken s) \<subseteq> set (mk_taken t)" "\<forall>i a. ms_pending t i = Some a \<longrightarrow> ms_pending s i = Some a"
      using q by (simp_all add: mock_quiet_def)
    ultimately show ?thesis using v(2-4) by (auto simp: wait_ok_def eq sl)
  qed
  moreover from inv have "mock_heap_ok t" by (simp add: mock_inv_def mock_heap_ok_def eq)
  moreover have "table_ok t"
  proof -
    have sub: "ms_pending t i = Some a \<Longrightarrow> ms_pending s i = Some a" for i a using q by (simp add: mock_quiet_def)
    have "table_ok s" using inv by (simp add: mock_inv_def)
    with sub show ?thesis by (fastforce simp: table_ok_def map_inj_def sl eq)
  qed
  ultimately show ?thesis using inv q by (simp add: mock_inv_def mock_quiet_def)
qed

lemma set_wait_set:
  "w \<in> set (mk_waits (set_wait k pc s)) \<Longrightarrow> k < length (mk_waits s) \<Longrightarrow>
     w \<in> set (mk_waits s) \<or> w = (mk_waits s ! k)\<lparr>mw_pc := pc\<rparr>"
  by (auto simp: set_wait_def dest: set_update_subset_insert [THEN subsetD])

lemma set_wait_sel [simp]:
  "ms_heap (set_wait k pc s) = ms_heap s" "ms_brk (set_wait k pc s) = ms_brk s" "ms_pending (set_wait k pc s) = ms_pending s"
  "mk_taken (set_wait k pc s) = mk_taken s" "sending (set_wait k pc s) = sending s" "slot (set_wait k pc s) a = slot s a"
  "map mw_ch (mk_waits (set_wait k pc s)) = map mw_ch (mk_waits s)"
  by (simp_all add: set_wait_def sending_def slot_def map_update)
    (cases "k < length (mk_waits s)"; simp add: nth_map [symmetric] list_update_beyond del: nth_map)

lemma quiet_set_wait:
  assumes "k < length (mk_waits s)" and "\<And>p. pc \<noteq> MGot p"
  shows "mock_quiet s (set_wait k pc s)"
  unfolding mock_quiet_def
proof (intro conjI ballI)
  fix w assume "w \<in> set (mk_waits (set_wait k pc s))"
  from set_wait_set [OF this assms(1)] assms show
    "\<exists>v \<in> set (mk_waits s). mw_id v = mw_id w \<and> mw_ch v = mw_ch w \<and> (\<forall>p. mw_pc w = MGot p \<longrightarrow> mw_pc v = MGot p)"
    by (auto intro: nth_mem)
qed simp_all

lemma mock_quiet_trans: "mock_quiet s t \<Longrightarrow> mock_quiet t u \<Longrightarrow> mock_quiet s u"
  unfolding mock_quiet_def by (intro conjI ballI) (simp | metis subset_trans)+

lemma mock_quiet_simple:
  assumes "ms_heap t = ms_heap s" "ms_brk t = ms_brk s" "sending t = sending s" "mk_taken t = mk_taken s"
    "\<And>i a. ms_pending t i = Some a \<Longrightarrow> ms_pending s i = Some a" "mk_waits t = mk_waits s"
  shows "mock_quiet s t"
  using assms by (auto simp: mock_quiet_def)

lemma mock_forget_quiet: "mock_quiet s (mock_forget i s)"
  by (rule mock_quiet_simple) (auto simp: mock_forget_def sending_def split: if_splits)

lemma mock_write_quiet: "mock_quiet s (snd (mock_write j s))"
  by (rule mock_quiet_simple) (simp_all add: mock_write_def sending_def split: if_splits)

lemma mock_line_quiet: "mock_quiet s (snd (mock_line l s))"
proof -
  have "mock_quiet s s" by (rule mock_quiet_simple) auto
  moreover have "mock_quiet s (snd (mock_take_reply m s))" for m
    using mock_forget_quiet by (auto simp: mock_take_reply_def \<open>mock_quiet s s\<close> split: option.split)
  ultimately show ?thesis
    using mock_write_quiet by (auto simp: mock_line_def mock_dispatch_def split: option.split)
qed

lemma mock_line_history: "mk_taken (snd (mock_line l s)) = mk_taken s"
  by (simp add: mock_line_def mock_dispatch_def mock_take_reply_def mock_write_def mock_forget_def split: option.split)

text \<open>The channel the loop takes for a reply: it was in the table under the id, and no longer is.\<close>

lemma mock_line_taken:
  assumes "mock_line l s = (Some (a, p), t)"
  shows "\<exists>n m. line_message l = Some m \<and> mock_id (mm_id m) = Some n \<and> ms_pending s n = Some a \<and> t = mock_forget n s"
  using assms
  by (auto simp: mock_line_def line_message_def mock_dispatch_def mock_take_reply_def split: if_splits option.splits)

section \<open>Steps that move a value\<close>

lemma mock_forget_sel [simp]:
  "ms_pending (mock_forget n s) = (ms_pending s)(n := None)" "ms_heap (mock_forget n s) = ms_heap s"
  "ms_brk (mock_forget n s) = ms_brk s" "mk_waits (mock_forget n s) = mk_waits s" "mk_taken (mock_forget n s) = mk_taken s"
  by (simp_all add: mock_forget_def)

lemma mock_inv_register:
  assumes inv: "mock_inv s" and r: "mock_register i s = (a, t)"
  shows "mock_inv (t\<lparr>mk_waits := mk_waits s @ [\<lparr>mw_id = i, mw_ch = a, mw_msg = j, mw_pc = MWrite\<rparr>]\<rparr>)" (is "mock_inv ?t")
proof -
  from r have t: "a = ms_brk s" "ms_heap t = (ms_heap s)(a \<mapsto> make_chan 1)" "ms_brk t = Suc a"
    "ms_pending t = (ms_pending s)(i \<mapsto> a)" "mk_reader t = mk_reader s" "mk_taken t = mk_taken s"
    by (auto simp: mock_register_def Let_def)
  have hp: "mock_heap_ok s" and tb: "table_ok s" and ws: "\<And>w. w \<in> set (mk_waits s) \<Longrightarrow> wait_ok s w"
    and d: "distinct (map mw_ch (mk_waits s))" using inv by (auto simp: mock_inv_def)
  have snd: "sending ?t = sending s" "sending t = sending s" by (simp_all add: sending_def t)
  from hp have old: "one_place (ms_heap s) (ms_brk s) b" for b by (simp add: mock_heap_ok_def)
  from old [of a] t(1) have none: "ms_heap s a = None" by (simp add: one_place_def split: option.splits)
  have no_snd: "sending s \<noteq> Some (a, p)" for p using hp t(1) by (auto simp: mock_heap_ok_def)
  have sl: "slot t b = (if b = a then [] else slot s b)" for b
    using no_snd [of "snd (the (sending s))"] by (cases "sending s") (auto simp: slot_def snd t(2) split: if_splits)
  have sl_a: "slot s a = []" using none no_snd by (auto simp: slot_def split: option.split)
  have no_pend: "ms_pending s k \<noteq> Some a" for k using tb t(1) by (auto simp: table_ok_def)
  have "mock_heap_ok ?t"
  proof -
    have "one_place (ms_heap ?t) (ms_brk ?t) b" for b
      using old [of b] t(1) by (auto simp: t(2,3) one_place_def split: option.splits)
    moreover have "sending ?t = Some (b, p) \<Longrightarrow> b < ms_brk ?t" for b p
      using hp t(1) by (auto simp: snd t(3) mock_heap_ok_def less_SucI)
    ultimately show ?thesis by (simp add: mock_heap_ok_def)
  qed
  moreover have "table_ok ?t"
    using tb no_pend t(1) sl_a by (auto simp: table_ok_def t(3,4) sl less_SucI intro: map_inj_upd)
  moreover have "wait_ok ?t w" if "w \<in> set (mk_waits s)" for w
    using ws [OF that] t(1) no_pend by (auto simp: wait_ok_def t(3,4,6) sl)
  moreover have "wait_ok ?t \<lparr>mw_id = i, mw_ch = a, mw_msg = j, mw_pc = MWrite\<rparr>"
    using no_pend by (auto simp: wait_ok_def t(3,4) sl)
  moreover have "a \<notin> mw_ch ` set (mk_waits s)" using ws t(1) by (fastforce simp: wait_ok_def)
  ultimately show ?thesis using d by (auto simp: mock_inv_def)
qed

lemma mock_inv_taken:
  assumes inv: "mock_inv s" and idle: "sending s = None" and pend: "ms_pending s n = Some a"
  shows "mock_inv ((mock_forget n s)\<lparr>mk_reader := MSend a p, mk_taken := mk_taken s @ [(n, p)]\<rparr>)" (is "mock_inv ?t")
proof -
  have hp: "mock_heap_ok s" and tb: "table_ok s" and ws: "\<And>w. w \<in> set (mk_waits s) \<Longrightarrow> wait_ok s w"
    and d: "distinct (map mw_ch (mk_waits s))" using inv by (auto simp: mock_inv_def)
  have t: "ms_pending ?t = (ms_pending s)(n := None)" "ms_heap ?t = ms_heap s" "ms_brk ?t = ms_brk s"
    "mk_waits ?t = mk_waits s" by (simp_all add: mock_forget_def)
  have snd: "sending ?t = Some (a, p)" by (simp add: sending_def)
  have sl: "slot ?t b = (if b = a then [p] else slot s b)" for b
    using tb pend by (auto simp: slot_def snd t idle table_ok_def split: option.split)
  have a: "a < ms_brk s" using tb pend by (auto simp: table_ok_def)
  have inj: "ms_pending s i = Some a \<Longrightarrow> i = n" for i using tb pend by (auto simp: table_ok_def map_inj_def)
  have "mock_heap_ok ?t" using hp a by (auto simp: mock_heap_ok_def snd t)
  moreover have "table_ok ?t" using tb inj by (auto simp: table_ok_def sl t)
  moreover have "wait_ok ?t w" if "w \<in> set (mk_waits s)" for w
    using ws [OF that] pend by (auto simp: wait_ok_def t sl)
  ultimately show ?thesis using d by (simp add: mock_inv_def t)
qed

lemma mock_inv_sent:
  assumes inv: "mock_inv s" and r: "mk_reader s = MSend a p"
  shows "ms_heap (mock_offer a p s) a = Some \<lparr>chan_buf = [p], chan_cap = 1, chan_closed = False\<rparr>"
    and "mock_inv ((mock_offer a p s)\<lparr>mk_reader := MReading\<rparr>)" (is "mock_inv ?t")
proof -
  have hp: "mock_heap_ok s" and tb: "table_ok s" and ws: "\<And>w. w \<in> set (mk_waits s) \<Longrightarrow> wait_ok s w"
    and d: "distinct (map mw_ch (mk_waits s))" using inv by (auto simp: mock_inv_def)
  have snd: "sending s = Some (a, p)" by (simp add: sending_def r)
  have one: "one_place (ms_heap s) (ms_brk s) a" and a: "a < ms_brk s" using hp snd by (auto simp: mock_heap_ok_def)
  then obtain ch where ch: "ms_heap s a = Some ch" "chan_cap ch = 1" "\<not> chan_closed ch"
    by (auto simp: one_place_def split: option.splits)
  have "length (slot s a) \<le> 1" using tb by (simp add: table_ok_def)
  then have buf: "chan_buf ch = []" by (simp add: slot_def snd ch(1))
  have t: "mock_offer a p s = s\<lparr>ms_heap := (ms_heap s)(a \<mapsto> \<lparr>chan_buf = [p], chan_cap = 1, chan_closed = False\<rparr>)\<rparr>"
    using ch buf by (cases ch) (simp add: mock_offer_def chan_send_def)
  then show "ms_heap (mock_offer a p s) a = Some \<lparr>chan_buf = [p], chan_cap = 1, chan_closed = False\<rparr>" by simp
  have snd': "sending ?t = None" by (simp add: sending_def)
  have sl: "slot ?t b = slot s b" for b using ch(1) buf by (auto simp: slot_def snd t)
  have "one_place (ms_heap ?t) (ms_brk ?t) b" for b
    using hp a by (auto simp: mock_heap_ok_def t one_place_def)
  then have "mock_heap_ok ?t" by (simp add: mock_heap_ok_def snd')
  moreover have "table_ok ?t" using tb by (simp add: table_ok_def sl) (simp add: t)
  moreover have "wait_ok ?t w" if "w \<in> set (mk_waits s)" for w
    using ws [OF that] by (simp add: wait_ok_def sl) (simp add: t)
  ultimately show "mock_inv ?t" using d by (simp add: mock_inv_def) (simp add: t)
qed

lemma mock_inv_received:
  assumes inv: "mock_inv s" and k: "k < length (mk_waits s)"
    and ch: "ms_heap s (mw_ch (mk_waits s ! k)) = Some ch" and r: "chan_recv ch = RecvVal v ch'"
  shows "mock_inv (set_wait k (MGot v) (s\<lparr>ms_heap := (ms_heap s)(mw_ch (mk_waits s ! k) \<mapsto> ch')\<rparr>))" (is "mock_inv ?t")
proof -
  let ?w = "mk_waits s ! k" let ?a = "mw_ch ?w"
  have hp: "mock_heap_ok s" and tb: "table_ok s" and ws: "\<And>w. w \<in> set (mk_waits s) \<Longrightarrow> wait_ok s w"
    and d: "distinct (map mw_ch (mk_waits s))" using inv by (auto simp: mock_inv_def)
  from r obtain xs where buf: "chan_buf ch = v # xs" and ch': "ch' = ch\<lparr>chan_buf := xs\<rparr>" by (auto simp: chan_simps)
  have t: "ms_heap ?t = (ms_heap s)(?a \<mapsto> ch')" "ms_brk ?t = ms_brk s" "ms_pending ?t = ms_pending s"
    "mk_taken ?t = mk_taken s" "map mw_ch (mk_waits ?t) = map mw_ch (mk_waits s)" by simp_all
  have snd: "sending ?t = sending s" by (simp add: set_wait_def sending_def)
  have len: "length (slot s ?a) \<le> 1" using tb by (simp add: table_ok_def)
  then have sl_a: "slot s ?a = [v]" "xs = []" by (auto simp: slot_def ch buf split: option.splits)
  have sl: "slot (s\<lparr>ms_heap := (ms_heap s)(?a \<mapsto> ch')\<rparr>) b = (if b = ?a then [] else slot s b)" for b
    using sl_a by (auto simp: slot_def ch' ch buf split: option.splits)
  have no_pend: "ms_pending s i \<noteq> Some ?a" for i using tb sl_a by (auto simp: table_ok_def)
  have "one_place (ms_heap ?t) (ms_brk ?t) b" for b
    using hp ch by (auto simp: mock_heap_ok_def t one_place_def ch' split: option.splits)
  then have "mock_heap_ok ?t" using hp by (simp add: mock_heap_ok_def snd)
  moreover have "table_ok ?t" using tb by (auto simp: table_ok_def sl t(2,3))
  moreover have "wait_ok ?t w" if w: "w \<in> set (mk_waits ?t)" for w
  proof -
    from set_wait_set [OF w] k consider "w \<in> set (mk_waits s)" | "w = ?w\<lparr>mw_pc := MGot v\<rparr>" by auto
    then show ?thesis
    proof cases
      case 1
      from ws [OF this] show ?thesis by (auto simp: wait_ok_def t(2-4) sl)
    next
      case 2
      from ws [OF nth_mem [OF k]] sl_a 2 show ?thesis by (auto simp: wait_ok_def t(2-4) sl)
    qed
  qed
  ultimately show ?thesis using d by (simp add: mock_inv_def t(5))
qed

section \<open>The system\<close>

lemma mock_inv_wait:
  assumes m: "wait_move k s t" and inv: "mock_inv s"
  shows "mock_inv t"
  using m
proof cases
  case (wm_write e u)
  have q: "mock_quiet s u" using mock_write_quiet [of s "mw_msg (mk_waits s ! k)"] wm_write(3) by simp
  have "k < length (mk_waits u)" using wm_write(2,3) by (auto simp: wait_at_def mock_write_def split: if_splits)
  then have "mock_quiet u t" unfolding wm_write(1) by (rule quiet_set_wait) (simp split: option.split)
  from mock_quiet_trans [OF q this] inv show ?thesis by (rule mock_quiet_inv)
next
  case (wm_forget e)
  let ?u = "mock_forget (mw_id (mk_waits s ! k)) s"
  have "mock_quiet ?u t" unfolding wm_forget(1) by (rule quiet_set_wait) (use wm_forget(2) in \<open>simp_all add: wait_at_def\<close>)
  from mock_quiet_trans [OF mock_forget_quiet this] inv show ?thesis by (rule mock_quiet_inv)
next
  case (wm_reply ch v ch')
  then have "k < length (mk_waits s)" by (simp add: wait_at_def)
  from mock_inv_received [OF inv this wm_reply(3,4)] wm_reply(1) show ?thesis by simp
next
  case (wm_context e)
  then have "mock_quiet s t" unfolding wm_context(1) by (intro quiet_set_wait) (simp_all add: wait_at_def)
  then show ?thesis using inv by (rule mock_quiet_inv)
next
  case wm_done
  then have "mock_quiet s t" unfolding wm_done(1) by (intro quiet_set_wait) (simp_all add: wait_at_def)
  then show ?thesis using inv by (rule mock_quiet_inv)
qed

lemma mock_inv_reader:
  assumes m: "reader_move s t" and inv: "mock_inv s"
  shows "mock_inv t"
  using m
proof cases
  case (rm_line l)
  then have "mock_quiet s t" by (intro mock_quiet_simple) (simp_all add: sending_def)
  then show ?thesis using inv by (rule mock_quiet_inv)
next
  case rm_end
  then have "mock_quiet s t" by (intro mock_quiet_simple) (simp_all add: sending_def)
  then show ?thesis using inv by (rule mock_quiet_inv)
next
  case (rm_handle l r u)
  have idle: "sending s = None" using rm_handle(2) by (simp add: sending_def)
  show ?thesis
  proof (cases r)
    case None
    have q: "mock_quiet s u" using mock_line_quiet [of s l] rm_handle(3) by simp
    then have "sending u = None" using idle by (simp add: mock_quiet_def)
    moreover have "mk_taken u = mk_taken s" using mock_line_history [of l s] rm_handle(3) by simp
    ultimately have "mock_quiet u t" unfolding rm_handle(1) None
      by (intro mock_quiet_simple) (simp_all add: taken_reply_def reply_history_def)
    from mock_quiet_trans [OF q this] inv show ?thesis by (rule mock_quiet_inv)
  next
    case (Some ap)
    obtain a p where ap: "ap = (a, p)" by (cases ap)
    from mock_line_taken [of l s a p u] rm_handle(3) Some ap obtain n m where
      n: "line_message l = Some m" "mock_id (mm_id m) = Some n" "ms_pending s n = Some a" "u = mock_forget n s" by auto
    have "t = (mock_forget n s)\<lparr>mk_reader := MSend a p, mk_taken := mk_taken s @ [(n, p)]\<rparr>"
      using rm_handle(1) n by (simp add: Some ap taken_reply_def reply_history_def)
    with mock_inv_taken [OF inv idle n(3)] show ?thesis by simp
  qed
next
  case (rm_send a p)
  with mock_inv_sent(2) [OF inv] show ?thesis by simp
qed

lemma mock_inv_step: "mock_step s t \<Longrightarrow> mock_inv s \<Longrightarrow> mock_inv t"
proof (induction rule: mock_step.induct)
  case (sk_handle s m h)
  have "mock_quiet s (mock_handle m h s)" by (rule mock_quiet_simple) (simp_all add: mock_handle_def sending_def)
  then show ?case using sk_handle by (rule mock_quiet_inv)
next
  case (sk_notify s m p)
  then show ?case using mock_quiet_inv [OF mock_write_quiet] by (simp add: mock_notify_def)
next
  case (sk_request s i m p)
  have "snd (mock_request i m p s) = snd (mock_write (mock_request_message (Some i) m p) s)"
    by (simp add: mock_request_def split: prod.split)
  with sk_request show ?case using mock_quiet_inv [OF mock_write_quiet] by simp
next
  case (sk_register i s a t m p)
  then show ?case by (blast intro: mock_inv_register)
next
  case (sk_close_done s)
  have "mock_quiet s (s\<lparr>ms_done := True\<rparr>)" by (rule mock_quiet_simple) (simp_all add: sending_def)
  then show ?case using sk_close_done by (rule mock_quiet_inv)
next
  case (sk_close_conn s)
  have "mock_quiet s (s\<lparr>ms_open := False\<rparr>)" by (rule mock_quiet_simple) (simp_all add: sending_def)
  then show ?case using sk_close_conn(2) by (rule mock_quiet_inv)
qed (auto intro: mock_inv_wait mock_inv_reader)

interpretation mock: invariant_system mock_start mock_step mock_inv
  by unfold_locales (auto intro: mock_inv_start mock_inv_step)

text \<open>
  C37. No reply is lost or mixed up in the server of the tests.  In every interleaving of waits, ends of
  contexts, replies and closes, the loop's offer of a reply finds its channel empty, so the default of
  its select is never taken; and what a wait returns is the payload of a reply the loop took for the
  wait's own id.
\<close>

theorem mock_wait_gets_own_reply:
  assumes "reachable mock_start mock_step s"
  shows "(\<forall>a p. mk_reader s = MSend a p \<longrightarrow>
       ms_heap (mock_offer a p s) a = Some \<lparr>chan_buf = [p], chan_cap = 1, chan_closed = False\<rparr>) \<and>
     (\<forall>w \<in> set (mk_waits s). \<forall>p. mw_pc w = MGot p \<longrightarrow> (mw_id w, p) \<in> set (mk_taken s))"
proof -
  have inv: "mock_inv s" by (rule mock.reachable_inv [OF assms])
  then have "\<forall>w \<in> set (mk_waits s). \<forall>p. mw_pc w = MGot p \<longrightarrow> (mw_id w, p) \<in> set (mk_taken s)"
    by (auto simp: mock_inv_def wait_ok_def)
  with inv show ?thesis by (blast intro: mock_inv_sent(1))
qed

text \<open>A wait for the reply to request 7, step by step.\<close>

definition demo_reply :: json where
  "demo_reply = enc_reply (JNum (show_int 7)) (JBool True) None"

definition demo_at :: "mock_reader \<Rightarrow> (int \<rightharpoonup> addr) \<Rightarrow> json list \<Rightarrow> mock_pc \<Rightarrow> string \<Rightarrow> (int \<times> json) list \<Rightarrow> mock_sys" where
  "demo_at r pend buf pc w h = \<lparr>ms_handlers = Map.empty, ms_pending = pend, ms_done = False, ms_open = True, ms_written = w,
     ms_heap = [0 \<mapsto> \<lparr>chan_buf = buf, chan_cap = 1, chan_closed = False\<rparr>], ms_brk = 1, mk_reader = r,
     mk_waits = [\<lparr>mw_id = 7, mw_ch = 0, mw_msg = mock_request_message (Some 7) ''ask'' None, mw_pc = pc\<rparr>], mk_taken = h\<rparr>"

lemmas demo_at_simps = demo_at_def wait_at_def set_wait_def

lemma demo_reply_ok: "json_ok max_depth demo_reply"
  unfolding demo_reply_def by (rule enc_reply_ok) simp

lemma demo_line:
  "mock_line (print_json False demo_reply) (demo_at r [7 \<mapsto> 0] buf pc w h) = (Some (0, JBool True), demo_at r Map.empty buf pc w h)"
  "line_message (print_json False demo_reply)
     = Some \<lparr>mm_method = [], mm_id = Some (JNum (show_int 7)), mm_params = None, mm_result = Some (JBool True)\<rparr>"
proof -
  have "ms_pending (demo_at r [7 \<mapsto> 0] buf pc w h) 7 = Some 0" by (simp add: demo_at_def)
  from mock_takes_reply [OF _ _ demo_reply_ok [unfolded demo_reply_def] _ this]
  show "mock_line (print_json False demo_reply) (demo_at r [7 \<mapsto> 0] buf pc w h) = (Some (0, JBool True), demo_at r Map.empty buf pc w h)"
    by (simp add: demo_reply_def mock_forget_def demo_at_def del: print_json.simps)
  show "line_message (print_json False demo_reply)
     = Some \<lparr>mm_method = [], mm_id = Some (JNum (show_int 7)), mm_params = None, mm_result = Some (JBool True)\<rparr>"
    using json_parse_print [OF demo_reply_ok, of False] dec_mock_reply [of None "JNum (show_int 7)" "JBool True"]
    by (simp add: line_message_def demo_reply_def del: print_json.simps)
qed

lemma demo_sending_reachable:
  "reachable mock_start mock_step (demo_at (MSend 0 (JBool True)) Map.empty [] MWait
     (write_json (mock_request_message (Some 7) ''ask'' None)) [(7, JBool True)])"
proof -
  let ?w = "write_json (mock_request_message (Some 7) ''ask'' None)" and ?l = "print_json False demo_reply"
  let ?s = "mock.extend new_mock \<lparr>mk_reader = MReading, mk_waits = [], mk_taken = []\<rparr> :: mock_sys"
  have "?s = mock.extend (new_mock\<lparr>ms_handlers := Map.empty\<rparr>) \<lparr>mk_reader = MReading, mk_waits = [], mk_taken = []\<rparr>"
    by (simp add: new_mock_def)
  then have "reachable mock_start mock_step ?s" by (intro reach_start) (auto simp: mock_start_def)
  moreover have "mock_step ?s (demo_at MReading [7 \<mapsto> 0] [] MWrite [] [])"
    using sk_register [of 7 ?s 0 _ "''ask''" None]
    by (simp add: mock_register_def mock.extend_def new_mock_def demo_at_def make_chan_def)
  ultimately have "reachable mock_start mock_step (demo_at MReading [7 \<mapsto> 0] [] MWrite [] [])" by (rule reach_step)
  moreover have "mock_step (demo_at MReading [7 \<mapsto> 0] [] MWrite [] []) (demo_at MReading [7 \<mapsto> 0] [] MWait ?w [])"
    using sk_wait [OF wm_write [of "demo_at MReading [7 \<mapsto> 0] [] MWrite [] []" 0]] by (simp add: demo_at_simps mock_write_def)
  ultimately have "reachable mock_start mock_step (demo_at MReading [7 \<mapsto> 0] [] MWait ?w [])" by (rule reach_step)
  moreover have "mock_step (demo_at MReading [7 \<mapsto> 0] [] MWait ?w []) (demo_at (MLine ?l) [7 \<mapsto> 0] [] MWait ?w [])"
    using sk_reader [OF rm_line [of "demo_at MReading [7 \<mapsto> 0] [] MWait ?w []" ?l]] by (simp add: demo_at_def del: print_json.simps)
  ultimately have "reachable mock_start mock_step (demo_at (MLine ?l) [7 \<mapsto> 0] [] MWait ?w [])" by (rule reach_step)
  moreover have "mock_step (demo_at (MLine ?l) [7 \<mapsto> 0] [] MWait ?w []) (demo_at (MSend 0 (JBool True)) Map.empty [] MWait ?w [(7, JBool True)])"
    using sk_reader [OF rm_handle [OF _ demo_line(1) [of "MLine ?l" "[]" MWait ?w "[]"]]]
    by (simp add: demo_line(2) taken_reply_def reply_history_def mock_id_show demo_at_def del: print_json.simps)
  ultimately show ?thesis by (rule reach_step)
qed

theorem mock_wait_gets_own_reply_witness:
  "\<exists>s. reachable mock_start mock_step s \<and> mk_reader s = MSend 0 (JBool True) \<and>
     ms_heap (mock_offer 0 (JBool True) s) 0 = Some \<lparr>chan_buf = [JBool True], chan_cap = 1, chan_closed = False\<rparr>"
proof (intro exI conjI)
  show "mk_reader (demo_at (MSend 0 (JBool True)) Map.empty [] MWait
     (write_json (mock_request_message (Some 7) ''ask'' None)) [(7, JBool True)]) = MSend 0 (JBool True)" by (simp add: demo_at_def)
  then show "ms_heap (mock_offer 0 (JBool True) (demo_at (MSend 0 (JBool True)) Map.empty [] MWait
     (write_json (mock_request_message (Some 7) ''ask'' None)) [(7, JBool True)])) 0
     = Some \<lparr>chan_buf = [JBool True], chan_cap = 1, chan_closed = False\<rparr>"
    using mock_wait_gets_own_reply [OF demo_sending_reachable] by blast
qed (rule demo_sending_reachable)

end
