(* ===== verification/StdioSystem.thy ===== *)
theory StdioSystem imports Stdio begin

text \<open>
  The goroutines around the \<^verbatim>\<open>jrpc2\<close> client of the stdio transport (\<^verbatim>\<open>NewStdio\<close> and \<^verbatim>\<open>Close\<close> of \<^verbatim>\<open>stdio.go\<close>):
  the callbacks for requests of the server, each of which blocks until its request is answered, the
  notifications, the stop of the client and any number of closes.  When \<^verbatim>\<open>jrpc2\<close> runs a callback and when
  it stops is its own choice.
\<close>

section \<open>State\<close>

datatype callback_pc = CbOffer | CbAwait | CbReturned "go_error + json"

text \<open>The last component is history: the first reply the request was given.\<close>

record callback =
  cb_request :: chan_request
  cb_pc :: callback_pc
  cb_first :: "reply_result option"

datatype once = OnceFree | OnceRunning | OnceDone

datatype stdio_close_pc = ScOnce | ScClient | ScSignal "go_error option" | ScEnded "go_error option"

text \<open>Requests are named by the number of their callback; the last component is what the client took.\<close>

record stdio_sys =
  si_requests :: "nat gochan"
  si_notes :: "notification gochan"
  si_done :: bool
  si_once :: once
  si_callbacks :: "callback list"
  si_closes :: "stdio_close_pc list"
  si_taken :: "nat list"

definition new_stdio :: stdio_sys where
  "new_stdio = \<lparr>si_requests = make_chan 32, si_notes = make_chan 32, si_done = False, si_once = OnceFree,
     si_callbacks = [], si_closes = [], si_taken = []\<rparr>"

section \<open>Operations\<close>

text \<open>A notification is queued, or dropped once the transport is done; with neither possible it blocks.\<close>

definition stdio_on_notify :: "bool \<Rightarrow> notification \<Rightarrow> stdio_sys \<Rightarrow> stdio_sys option" where
  "stdio_on_notify prefer_done n s =
     (if prefer_done \<and> si_done s then Some s
      else (case chan_send (si_notes s) n of
              SendOk ch \<Rightarrow> Some (s\<lparr>si_notes := ch\<rparr>)
            | _ \<Rightarrow> if si_done s then Some s else None))"

definition new_callback :: "string \<Rightarrow> raw \<Rightarrow> callback" where
  "new_callback m p = \<lparr>cb_request = new_chan_request JNull m p, cb_pc = CbOffer, cb_first = None\<rparr>"

definition set_callback :: "nat \<Rightarrow> callback \<Rightarrow> stdio_sys \<Rightarrow> stdio_sys" where
  "set_callback k c s = s\<lparr>si_callbacks := (si_callbacks s)[k := c]\<rparr>"

text \<open>The arms of the first select of a callback, and of the second; the event says which arm runs.\<close>

definition callback_offer :: "nat \<Rightarrow> stdio_sys \<Rightarrow> stdio_sys option" where
  "callback_offer k s =
     (let c = si_callbacks s ! k in
      if cb_pc c = CbOffer
      then (case chan_send (si_requests s) k of
              SendOk ch \<Rightarrow> Some (set_callback k (c\<lparr>cb_pc := CbAwait\<rparr>) (s\<lparr>si_requests := ch\<rparr>))
            | _ \<Rightarrow> None)
      else None)"

definition callback_stop :: "callback_event \<Rightarrow> nat \<Rightarrow> stdio_sys \<Rightarrow> stdio_sys option" where
  "callback_stop ev k s =
     (let c = si_callbacks s ! k in
      if cb_pc c \<in> {CbOffer, CbAwait} \<and> (ev = TransportDone \<and> si_done s \<or> (\<exists>e \<in> {ErrCanceled, ErrDeadlineExceeded}. ev = ContextDone e))
      then Some (set_callback k (c\<lparr>cb_pc := CbReturned (on_callback ev)\<rparr>) s) else None)"

definition callback_reply :: "nat \<Rightarrow> stdio_sys \<Rightarrow> stdio_sys option" where
  "callback_reply k s =
     (let c = si_callbacks s ! k in
      if cb_pc c = CbAwait
      then (case chan_recv (cq_chan (cb_request c)) of
              RecvVal rr ch \<Rightarrow>
                Some (set_callback k (c\<lparr>cb_request := (cb_request c)\<lparr>cq_chan := ch\<rparr>, cb_pc := CbReturned (on_callback (Replied rr))\<rparr>) s)
            | _ \<Rightarrow> None)
      else None)"

text \<open>The client replies to a request, with the history of the first reply.\<close>

definition reply_request :: "reply_result \<Rightarrow> nat \<Rightarrow> stdio_sys \<Rightarrow> stdio_sys option" where
  "reply_request rr k s =
     (let c = si_callbacks s ! k in
      (case put_reply rr (cb_request c) of
         None \<Rightarrow> None
       | Some (e, q) \<Rightarrow> Some (set_callback k (c\<lparr>cb_request := q, cb_first := (case e of None \<Rightarrow> Some rr | Some _ \<Rightarrow> cb_first c)\<rparr>) s)))"

definition stdio_on_stop :: "stdio_sys \<Rightarrow> stdio_sys" where
  "stdio_on_stop s = s\<lparr>si_done := True\<rparr>"

text \<open>\<^verbatim>\<open>Close\<close>: the first runs the body, with the error of the \<^verbatim>\<open>jrpc2\<close> client; others wait for it and return none.\<close>

definition stdio_close_move :: "go_error option \<Rightarrow> stdio_close_pc \<Rightarrow> stdio_sys \<Rightarrow> (stdio_close_pc \<times> stdio_sys) option" where
  "stdio_close_move err pc s =
     (case pc of
        ScOnce \<Rightarrow>
          (case si_once s of
             OnceFree \<Rightarrow> Some (ScClient, s\<lparr>si_once := OnceRunning\<rparr>)
           | OnceRunning \<Rightarrow> None
           | OnceDone \<Rightarrow> Some (ScEnded None, s))
      | ScClient \<Rightarrow> Some (ScSignal err, s)
      | ScSignal e \<Rightarrow> Some (ScEnded e, s\<lparr>si_done := True, si_once := OnceDone\<rparr>)
      | ScEnded e \<Rightarrow> None)"

section \<open>The system\<close>

inductive stdio_step :: "stdio_sys \<Rightarrow> stdio_sys \<Rightarrow> bool" where
  so_notify: "stdio_on_notify d n s = Some t \<Longrightarrow> stdio_step s t"
| so_note_taken: "chan_recv (si_notes s) = RecvVal n ch \<Longrightarrow> stdio_step s (s\<lparr>si_notes := ch\<rparr>)"
| so_callback: "stdio_step s (s\<lparr>si_callbacks := si_callbacks s @ [new_callback m p]\<rparr>)"
| so_offer: "k < length (si_callbacks s) \<Longrightarrow> callback_offer k s = Some t \<Longrightarrow> stdio_step s t"
| so_stop_callback: "k < length (si_callbacks s) \<Longrightarrow> callback_stop ev k s = Some t \<Longrightarrow> stdio_step s t"
| so_answered: "k < length (si_callbacks s) \<Longrightarrow> callback_reply k s = Some t \<Longrightarrow> stdio_step s t"
| so_request_taken: "chan_recv (si_requests s) = RecvVal k ch \<Longrightarrow>
     stdio_step s (s\<lparr>si_requests := ch, si_taken := si_taken s @ [k]\<rparr>)"
| so_replied: "k \<in> set (si_taken s) \<Longrightarrow> reply_request rr k s = Some t \<Longrightarrow> stdio_step s t"
| so_stop: "stdio_step s (stdio_on_stop s)"
| so_close: "stdio_step s (s\<lparr>si_closes := si_closes s @ [ScOnce]\<rparr>)"
| so_close_move: "n < length (si_closes s) \<Longrightarrow> stdio_close_move err (si_closes s ! n) s = Some (pc, t) \<Longrightarrow>
     stdio_step s (t\<lparr>si_closes := (si_closes s)[n := pc]\<rparr>)"

section \<open>Invariant\<close>

text \<open>
  A request has no reply; or its first one is in the channel; or the callback returned it.  A request in
  the queue or taken is one whose callback is past its offer, and it is there once.
\<close>

definition returned_ok :: "bool \<Rightarrow> callback \<Rightarrow> bool" where
  "returned_ok finished c \<longleftrightarrow>
     (\<forall>res. cb_pc c = CbReturned res \<longrightarrow>
        (\<exists>r. cb_first c = Some r \<and> res = on_callback (Replied r) \<and> chan_buf (cq_chan (cb_request c)) = []) \<or>
        res = Inl ErrClosed \<and> finished \<or> res \<in> {Inl ErrCanceled, Inl ErrDeadlineExceeded})"

definition callback_ok :: "bool \<Rightarrow> callback \<Rightarrow> bool" where
  "callback_ok finished c \<longleftrightarrow>
     chan_cap (cq_chan (cb_request c)) = 1 \<and> \<not> chan_closed (cq_chan (cb_request c)) \<and>
     cq_replied (cb_request c) = (cb_first c \<noteq> None) \<and>
     (cb_first c = None \<longrightarrow> chan_buf (cq_chan (cb_request c)) = []) \<and>
     (\<forall>r. cb_first c = Some r \<longrightarrow> chan_buf (cq_chan (cb_request c)) \<noteq> [r] \<longrightarrow>
        chan_buf (cq_chan (cb_request c)) = [] \<and> cb_pc c = CbReturned (on_callback (Replied r))) \<and>
     returned_ok finished c"

definition queued :: "stdio_sys \<Rightarrow> nat list" where
  "queued s = si_taken s @ chan_buf (si_requests s)"

definition stdio_inv :: "stdio_sys \<Rightarrow> bool" where
  "stdio_inv s \<longleftrightarrow> (\<forall>c \<in> set (si_callbacks s). callback_ok (si_done s) c) \<and> distinct (queued s) \<and>
     (\<forall>k \<in> set (queued s). k < length (si_callbacks s) \<and> cb_pc (si_callbacks s ! k) \<noteq> CbOffer) \<and>
     chan_cap (si_requests s) = 32 \<and> \<not> chan_closed (si_requests s)"

lemma stdio_inv_start: "s = new_stdio \<Longrightarrow> stdio_inv s"
  by (simp add: new_stdio_def stdio_inv_def queued_def)

lemma callback_ok_mono: "callback_ok f c \<Longrightarrow> (f \<Longrightarrow> g) \<Longrightarrow> callback_ok g c"
  by (auto simp: callback_ok_def returned_ok_def)

lemma new_callback_ok: "callback_ok f (new_callback m p)"
  by (simp add: callback_ok_def returned_ok_def new_callback_def new_chan_request_def)

lemma stdio_inv_frame:
  assumes "stdio_inv s" and "si_callbacks t = si_callbacks s" and "queued t = queued s" and "si_done s \<Longrightarrow> si_done t"
    and "chan_cap (si_requests t) = chan_cap (si_requests s)" and "chan_closed (si_requests t) = chan_closed (si_requests s)"
  shows "stdio_inv t"
  using assms callback_ok_mono [of "si_done s" _ "si_done t"] by (auto simp: stdio_inv_def)

lemma stdio_inv_callback:
  assumes inv: "stdio_inv s" and k: "k < length (si_callbacks s)" and c: "callback_ok (si_done s) c"
    and pc: "cb_pc c = CbOffer \<Longrightarrow> k \<notin> set (queued s)"
  shows "stdio_inv (set_callback k c s)"
proof -
  have "callback_ok (si_done s) d" if "d \<in> set ((si_callbacks s)[k := c])" for d
    using set_update_subset_insert [of "si_callbacks s" k c] that inv c by (auto simp: stdio_inv_def)
  moreover have "cb_pc ((si_callbacks s)[k := c] ! i) \<noteq> CbOffer" if "i \<in> set (queued s)" for i
    using that inv pc k by (cases "i = k") (auto simp: stdio_inv_def)
  moreover have "queued (set_callback k c s) = queued s" by (simp add: queued_def set_callback_def)
  ultimately show ?thesis using inv by (simp add: stdio_inv_def set_callback_def)
qed

text \<open>A callback that is not past its offer is not queued.\<close>

lemma offer_not_queued: "stdio_inv s \<Longrightarrow> cb_pc (si_callbacks s ! k) = CbOffer \<Longrightarrow> k \<notin> set (queued s)"
  by (auto simp: stdio_inv_def)

lemma callback_at_ok: "stdio_inv s \<Longrightarrow> k < length (si_callbacks s) \<Longrightarrow> callback_ok (si_done s) (si_callbacks s ! k)"
  by (simp add: stdio_inv_def)

lemma callback_ok_await:
  "callback_ok f c \<Longrightarrow> cb_pc c \<in> {CbOffer, CbAwait} \<Longrightarrow> callback_ok f (c\<lparr>cb_pc := CbAwait\<rparr>)"
  by (auto simp: callback_ok_def returned_ok_def)

lemma callback_ok_stopped:
  "callback_ok f c \<Longrightarrow> cb_pc c \<in> {CbOffer, CbAwait} \<Longrightarrow>
     ev = TransportDone \<and> f \<or> ev \<in> {ContextDone ErrCanceled, ContextDone ErrDeadlineExceeded} \<Longrightarrow>
     callback_ok f (c\<lparr>cb_pc := CbReturned (on_callback ev)\<rparr>)"
  by (auto simp: callback_ok_def returned_ok_def on_callback_def)

lemma callback_ok_received:
  assumes "callback_ok f c" and "cb_pc c = CbAwait" and "chan_recv (cq_chan (cb_request c)) = RecvVal rr ch"
  shows "callback_ok f (c\<lparr>cb_request := (cb_request c)\<lparr>cq_chan := ch\<rparr>, cb_pc := CbReturned (on_callback (Replied rr))\<rparr>)"
proof -
  from assms(3) obtain xs where b: "chan_buf (cq_chan (cb_request c)) = rr # xs" "ch = (cq_chan (cb_request c))\<lparr>chan_buf := xs\<rparr>"
    by (auto simp: chan_simps)
  with assms(1,2) have "cb_first c = Some rr" "xs = []" by (auto simp: callback_ok_def)
  with assms(1) b show ?thesis by (simp add: callback_ok_def returned_ok_def)
qed

lemma put_reply_total: "callback_ok f c \<Longrightarrow> put_reply rr (cb_request c) \<noteq> None"
  by (auto simp: callback_ok_def put_reply_def chan_send_def)

lemma callback_ok_replied:
  assumes "callback_ok f c" and "put_reply rr (cb_request c) = Some (e, q)" and "cb_pc c \<noteq> CbOffer"
  shows "callback_ok f (c\<lparr>cb_request := q, cb_first := (case e of None \<Rightarrow> Some rr | Some x \<Rightarrow> cb_first c)\<rparr>)"
  using assms by (auto simp: callback_ok_def returned_ok_def put_reply_def chan_send_def split: if_splits)

lemma stdio_inv_offer:
  assumes inv: "stdio_inv s" and k: "k < length (si_callbacks s)" and m: "callback_offer k s = Some t"
  shows "stdio_inv t"
proof -
  let ?c = "si_callbacks s ! k"
  from m obtain ch where pc: "cb_pc ?c = CbOffer" and send: "chan_send (si_requests s) k = SendOk ch"
    and t: "t = set_callback k (?c\<lparr>cb_pc := CbAwait\<rparr>) (s\<lparr>si_requests := ch\<rparr>)"
    by (auto simp: callback_offer_def Let_def split: if_splits send_res.splits)
  from send have ch: "chan_buf ch = chan_buf (si_requests s) @ [k]" "chan_cap ch = chan_cap (si_requests s)"
    "chan_closed ch = chan_closed (si_requests s)" by (auto simp: chan_send_def split: if_splits)
  let ?u = "set_callback k (?c\<lparr>cb_pc := CbAwait\<rparr>) s"
  have u: "stdio_inv ?u"
    by (rule stdio_inv_callback [OF inv k]) (use callback_ok_await [OF callback_at_ok [OF inv k]] pc in simp_all)
  have q: "queued t = queued ?u @ [k]" by (simp add: t queued_def set_callback_def ch(1))
  have "k \<notin> set (queued s)" by (rule offer_not_queued [OF inv pc])
  then have "k \<notin> set (queued ?u)" by (simp add: queued_def set_callback_def)
  with u k show ?thesis
    by (auto simp: stdio_inv_def q) (simp_all add: t set_callback_def ch)
qed

lemma stdio_inv_step: "stdio_step s t \<Longrightarrow> stdio_inv s \<Longrightarrow> stdio_inv t"
proof (induction rule: stdio_step.induct)
  case (so_notify d n s t)
  then have "si_callbacks t = si_callbacks s" "queued t = queued s" "si_done t = si_done s" "si_requests t = si_requests s"
    by (auto simp: stdio_on_notify_def queued_def split: if_splits send_res.splits)
  with so_notify show ?case by (intro stdio_inv_frame [OF so_notify(2)]) simp_all
next
  case (so_note_taken s n ch)
  then show ?case by (intro stdio_inv_frame [OF so_note_taken(2)]) (simp_all add: queued_def)
next
  case (so_callback s m p)
  then show ?case using new_callback_ok by (auto simp: stdio_inv_def queued_def nth_append less_SucI)
next
  case (so_offer k s t)
  then show ?case by (blast intro: stdio_inv_offer)
next
  case (so_stop_callback k s ev t)
  let ?c = "si_callbacks s ! k"
  from so_stop_callback(2) have t: "t = set_callback k (?c\<lparr>cb_pc := CbReturned (on_callback ev)\<rparr>) s"
    and pc: "cb_pc ?c \<in> {CbOffer, CbAwait}"
    and ev: "ev = TransportDone \<and> si_done s \<or> ev \<in> {ContextDone ErrCanceled, ContextDone ErrDeadlineExceeded}"
    by (auto simp: callback_stop_def Let_def split: if_splits)
  show ?case unfolding t
    by (rule stdio_inv_callback [OF so_stop_callback(3,1)])
      (use callback_ok_stopped [OF callback_at_ok [OF so_stop_callback(3,1)] pc ev] in simp_all)
next
  case (so_answered k s t)
  let ?c = "si_callbacks s ! k"
  from so_answered(2) obtain rr ch where pc: "cb_pc ?c = CbAwait" and r: "chan_recv (cq_chan (cb_request ?c)) = RecvVal rr ch"
    and t: "t = set_callback k (?c\<lparr>cb_request := (cb_request ?c)\<lparr>cq_chan := ch\<rparr>, cb_pc := CbReturned (on_callback (Replied rr))\<rparr>) s"
    by (auto simp: callback_reply_def Let_def split: if_splits recv_res.splits)
  show ?case unfolding t
    by (rule stdio_inv_callback [OF so_answered(3,1)])
      (use callback_ok_received [OF callback_at_ok [OF so_answered(3,1)] pc r] in simp_all)
next
  case (so_request_taken s k ch)
  then show ?case by (intro stdio_inv_frame [OF so_request_taken(2)]) (auto simp: queued_def chan_simps)
next
  case (so_replied k s rr t)
  let ?c = "si_callbacks s ! k"
  have k: "k < length (si_callbacks s)" "cb_pc ?c \<noteq> CbOffer" using so_replied(1,3) by (auto simp: stdio_inv_def queued_def)
  from so_replied(2) obtain e q where p: "put_reply rr (cb_request ?c) = Some (e, q)"
    and t: "t = set_callback k (?c\<lparr>cb_request := q, cb_first := (case e of None \<Rightarrow> Some rr | Some x \<Rightarrow> cb_first ?c)\<rparr>) s"
    by (auto simp: reply_request_def Let_def split: option.splits)
  show ?case unfolding t
    by (rule stdio_inv_callback [OF so_replied(3) k(1)])
      (use callback_ok_replied [OF callback_at_ok [OF so_replied(3) k(1)] p k(2)] k(2) in simp_all)
next
  case (so_stop s)
  then show ?case by (intro stdio_inv_frame [OF so_stop]) (simp_all add: stdio_on_stop_def queued_def)
next
  case (so_close s)
  then show ?case by (intro stdio_inv_frame [OF so_close]) (simp_all add: queued_def)
next
  case (so_close_move n s err pc t)
  then have "si_callbacks t = si_callbacks s" "queued t = queued s" "si_done s \<Longrightarrow> si_done t" "si_requests t = si_requests s"
    by (auto simp: stdio_close_move_def queued_def split: stdio_close_pc.splits once.splits)
  then show ?case by (intro stdio_inv_frame [OF so_close_move(3)]) (simp_all add: queued_def)
qed

interpretation stdio: invariant_system "\<lambda>s. s = new_stdio" stdio_step stdio_inv
  by unfold_locales (rule stdio_inv_start stdio_inv_step; assumption)+

text \<open>
  C13. A callback of the stdio transport gives \<^verbatim>\<open>jrpc2\<close> the first reply to its request.  In every
  interleaving of callbacks, the client, the ends of contexts, the stop of the client and closes: what a
  callback returned is the first reply, or the transport was done or the context ended; a reply
  never blocks; a callback whose request is answered can return the answer; and once the transport
  is done no callback is stuck.
\<close>

theorem stdio_callback_returns:
  assumes "reachable (\<lambda>s. s = new_stdio) stdio_step s" and "k < length (si_callbacks s)"
  shows "(\<forall>res. cb_pc (si_callbacks s ! k) = CbReturned res \<longrightarrow>
       (\<exists>r. cb_first (si_callbacks s ! k) = Some r \<and> res = on_callback (Replied r)) \<or>
       res = Inl ErrClosed \<and> si_done s \<or> res \<in> {Inl ErrCanceled, Inl ErrDeadlineExceeded}) \<and>
     put_reply rr (cb_request (si_callbacks s ! k)) \<noteq> None \<and>
     (\<forall>r. cb_pc (si_callbacks s ! k) = CbAwait \<longrightarrow> cb_first (si_callbacks s ! k) = Some r \<longrightarrow>
       (\<exists>t. stdio_step s t \<and> cb_pc (si_callbacks t ! k) = CbReturned (on_callback (Replied r)))) \<and>
     (cb_pc (si_callbacks s ! k) \<in> {CbOffer, CbAwait} \<longrightarrow> si_done s \<longrightarrow>
       (\<exists>t. stdio_step s t \<and> cb_pc (si_callbacks t ! k) = CbReturned (Inl ErrClosed)))"
proof -
  let ?c = "si_callbacks s ! k"
  have ok: "callback_ok (si_done s) ?c" by (rule callback_at_ok [OF stdio.reachable_inv [OF assms(1)] assms(2)])
  have answered: "\<exists>t. stdio_step s t \<and> cb_pc (si_callbacks t ! k) = CbReturned (on_callback (Replied r))"
    if "cb_pc ?c = CbAwait" "cb_first ?c = Some r" for r
  proof -
    from ok that have "chan_buf (cq_chan (cb_request ?c)) = [r]" by (auto simp: callback_ok_def)
    then have "chan_recv (cq_chan (cb_request ?c)) = RecvVal r ((cq_chan (cb_request ?c))\<lparr>chan_buf := []\<rparr>)"
      by (simp add: chan_recv_def)
    with that(1) have "callback_reply k s \<noteq> None" "\<And>t. callback_reply k s = Some t \<Longrightarrow>
        cb_pc (si_callbacks t ! k) = CbReturned (on_callback (Replied r))"
      using assms(2) by (auto simp: callback_reply_def set_callback_def Let_def)
    then show ?thesis using so_answered [OF assms(2)] by blast
  qed
  have stuck: "\<exists>t. stdio_step s t \<and> cb_pc (si_callbacks t ! k) = CbReturned (Inl ErrClosed)"
    if "cb_pc ?c \<in> {CbOffer, CbAwait}" "si_done s"
  proof -
    from that have "callback_stop TransportDone k s = Some (set_callback k (?c\<lparr>cb_pc := CbReturned (Inl ErrClosed)\<rparr>) s)"
      by (auto simp: callback_stop_def on_callback_def Let_def)
    from so_stop_callback [OF assms(2) this] assms(2) show ?thesis by (auto simp: set_callback_def)
  qed
  have "\<forall>res. cb_pc ?c = CbReturned res \<longrightarrow> (\<exists>r. cb_first ?c = Some r \<and> res = on_callback (Replied r)) \<or>
       res = Inl ErrClosed \<and> si_done s \<or> res \<in> {Inl ErrCanceled, Inl ErrDeadlineExceeded}"
    using ok by (auto simp: callback_ok_def returned_ok_def)
  with answered stuck put_reply_total [OF ok] show ?thesis by blast
qed

text \<open>One request, taken by the client and refused with an error that has data; the data is not passed on.\<close>

definition stdio_at :: "nat list \<Rightarrow> nat list \<Rightarrow> callback \<Rightarrow> stdio_sys" where
  "stdio_at buf taken c = \<lparr>si_requests = \<lparr>chan_buf = buf, chan_cap = 32, chan_closed = False\<rparr>, si_notes = make_chan 32,
     si_done = False, si_once = OnceFree, si_callbacks = [c], si_closes = [], si_taken = taken\<rparr>"

definition demo_refusal :: reply_result where
  "demo_refusal = \<lparr>rr_result = JNull, rr_error = Some \<lparr>rpc_code = 7, rpc_message = ''no'', rpc_data = Some JNull\<rparr>\<rparr>"

definition refused_callback :: callback where
  "refused_callback = (new_callback ''ask'' None)\<lparr>cb_pc := CbAwait, cb_first := Some demo_refusal,
     cb_request := (new_chan_request JNull ''ask'' None)\<lparr>cq_replied := True, cq_chan := \<lparr>chan_buf = [demo_refusal], chan_cap = 1, chan_closed = False\<rparr>\<rparr>\<rparr>"

lemma refused_reachable: "reachable (\<lambda>s. s = new_stdio) stdio_step (stdio_at [] [0] refused_callback)"
proof -
  let ?c = "new_callback ''ask'' None"
  have "reachable (\<lambda>s. s = new_stdio) stdio_step new_stdio" by (rule reach_start) simp
  moreover have "stdio_step new_stdio (stdio_at [] [] ?c)"
    using so_callback [of new_stdio "''ask''" None] by (simp add: new_stdio_def stdio_at_def make_chan_def)
  ultimately have "reachable (\<lambda>s. s = new_stdio) stdio_step (stdio_at [] [] ?c)" by (rule reach_step)
  moreover have "stdio_step (stdio_at [] [] ?c) (stdio_at [0] [] (?c\<lparr>cb_pc := CbAwait\<rparr>))"
    by (rule so_offer [of 0]) (simp_all add: stdio_at_def callback_offer_def new_callback_def chan_send_def set_callback_def)
  ultimately have "reachable (\<lambda>s. s = new_stdio) stdio_step (stdio_at [0] [] (?c\<lparr>cb_pc := CbAwait\<rparr>))" by (rule reach_step)
  moreover have "stdio_step (stdio_at [0] [] (?c\<lparr>cb_pc := CbAwait\<rparr>)) (stdio_at [] [0] (?c\<lparr>cb_pc := CbAwait\<rparr>))"
    using so_request_taken [of "stdio_at [0] [] (?c\<lparr>cb_pc := CbAwait\<rparr>)" 0 "\<lparr>chan_buf = [], chan_cap = 32, chan_closed = False\<rparr>"]
    by (simp add: stdio_at_def chan_recv_def)
  ultimately have "reachable (\<lambda>s. s = new_stdio) stdio_step (stdio_at [] [0] (?c\<lparr>cb_pc := CbAwait\<rparr>))" by (rule reach_step)
  moreover have "stdio_step (stdio_at [] [0] (?c\<lparr>cb_pc := CbAwait\<rparr>)) (stdio_at [] [0] refused_callback)"
    by (rule so_replied [of 0 _ demo_refusal])
      (simp_all add: stdio_at_def reply_request_def new_callback_def new_chan_request_def put_reply_def chan_send_def make_chan_def
        set_callback_def refused_callback_def)
  ultimately show ?thesis by (rule reach_step)
qed

theorem stdio_callback_returns_witness:
  "\<exists>t. stdio_step (stdio_at [] [0] refused_callback) t \<and>
     cb_pc (si_callbacks t ! 0) = CbReturned (Inl (ErrRPC \<lparr>rpc_code = 7, rpc_message = ''no'', rpc_data = None\<rparr>))"
  using stdio_callback_returns [OF refused_reachable, of 0]
  by (auto simp: stdio_at_def refused_callback_def on_callback_def demo_refusal_def)

end
