(* ===== verification/WsLink.thy ===== *)
theory WsLink imports WebSocketCalls RpcProps Http begin

text \<open>
  The ends of a WebSocket transport's life and its text (\<^verbatim>\<open>websocket.go\<close>): the options and the dial of
  \<^verbatim>\<open>NewWebSocket\<close>, the frames \<^verbatim>\<open>write\<close> sends, and \<^verbatim>\<open>Close\<close> beside the end of the reader.  Dialling,
  and the connection, are the library's: arguments.
\<close>

section \<open>Options and dial\<close>

text \<open>\<^verbatim>\<open>http.Header\<close> with \<^verbatim>\<open>Add\<close>: a key holds its values in order.  A header that was never set is nil.\<close>

type_synonym multi_headers = "string \<rightharpoonup> string list"

definition header_add :: "string \<Rightarrow> string \<Rightarrow> multi_headers \<Rightarrow> multi_headers" where
  "header_add k v m =
     m(canonical_key k \<mapsto> (case m (canonical_key k) of None \<Rightarrow> [v] | Some vs \<Rightarrow> vs @ [v]))"

record 'c ws_options =
  wo_headers :: "multi_headers option"
  wo_client :: "'c option"

definition with_ws_header :: "string \<Rightarrow> string \<Rightarrow> 'c ws_options \<Rightarrow> 'c ws_options" where
  "with_ws_header k v w =
     w\<lparr>wo_headers := Some (header_add k v (case wo_headers w of None \<Rightarrow> Map.empty | Some m \<Rightarrow> m))\<rparr>"

definition with_ws_bearer_token :: "string \<Rightarrow> 'c ws_options \<Rightarrow> 'c ws_options" where
  "with_ws_bearer_token token = with_ws_header ''Authorization'' (''Bearer '' @ token)"

definition with_ws_api_key :: "string \<Rightarrow> 'c ws_options \<Rightarrow> 'c ws_options" where
  "with_ws_api_key key = with_ws_header ''X-API-Key'' key"

definition with_ws_http_client :: "'c \<Rightarrow> 'c ws_options \<Rightarrow> 'c ws_options" where
  "with_ws_http_client c w = w\<lparr>wo_client := Some c\<rparr>"

text \<open>The state of a link: the transport, whether the reader runs, and what was done to the connection.\<close>

datatype link_close_pc =
    WcCheck | WcCancel | WcConn | WcSwap "go_error option" | WcDone "go_error option" | WcReturned "go_error option"

record ws_link =
  wl_ws :: ws
  wl_reading :: bool
  wl_cancelled :: bool
  wl_open :: bool
  wl_frames :: "string list"
  wl_closers :: "link_close_pc list"

definition dial_options :: "('c ws_options \<Rightarrow> 'c ws_options) list \<Rightarrow> 'c ws_options" where
  "dial_options opts = fold (\<lambda>opt w. opt w) opts \<lparr>wo_headers = None, wo_client = None\<rparr>"

definition dial_websocket ::
  "(string \<Rightarrow> 'c ws_options \<Rightarrow> go_error option) \<Rightarrow> string \<Rightarrow> ('c ws_options \<Rightarrow> 'c ws_options) list \<Rightarrow> go_error + ws_link" where
  "dial_websocket dial url opts =
     (case dial url (dial_options opts) of
        Some e \<Rightarrow> Inl e
      | None \<Rightarrow> Inr \<lparr>wl_ws = new_websocket, wl_reading = True, wl_cancelled = False, wl_open = True, wl_frames = [], wl_closers = []\<rparr>)"

section \<open>Frames\<close>

text \<open>A message is one text frame, without a newline and with HTML escaped; the connection may fail to take it.\<close>

definition ws_text :: "json \<Rightarrow> string" where
  "ws_text j = print_json True j"

definition ws_write :: "go_error option \<Rightarrow> json \<Rightarrow> ws_link \<Rightarrow> go_error option \<times> ws_link" where
  "ws_write conn_err payload s =
     (case conn_err of Some e \<Rightarrow> (Some e, s) | None \<Rightarrow> (None, s\<lparr>wl_frames := wl_frames s @ [ws_text payload]\<rparr>))"

definition ws_notify :: "go_error option \<Rightarrow> go_error option \<Rightarrow> string \<Rightarrow> raw \<Rightarrow> ws_link \<Rightarrow> go_error option \<times> ws_link" where
  "ws_notify ctx_err conn_err method params s =
     (case ws_notify_check (ws_done (wl_ws s)) ctx_err of
        Some e \<Rightarrow> (Some e, s)
      | None \<Rightarrow> ws_write conn_err (enc_notification method params) s)"

section \<open>Close\<close>

text \<open>
  One move of a \<^verbatim>\<open>Close\<close>, with the error of the connection's close.  The last two parts are \<^verbatim>\<open>terminate\<close>,
  which the reader runs as well when it ends.
\<close>

definition link_close_move :: "go_error option \<Rightarrow> link_close_pc \<Rightarrow> ws_link \<Rightarrow> (link_close_pc \<times> ws_link) option" where
  "link_close_move err pc s =
     (case pc of
        WcCheck \<Rightarrow> Some (if ws_done (wl_ws s) then WcReturned None else WcCancel, s)
      | WcCancel \<Rightarrow> Some (WcConn, s\<lparr>wl_cancelled := True\<rparr>)
      | WcConn \<Rightarrow> Some (WcSwap err, s\<lparr>wl_open := False\<rparr>)
      | WcSwap e \<Rightarrow> Some (WcDone e, s\<lparr>wl_ws := snd (ws_swap (wl_ws s))\<rparr>)
      | WcDone e \<Rightarrow> Some (WcReturned e, s\<lparr>wl_ws := ws_close_done (wl_ws s)\<rparr>)
      | WcReturned e \<Rightarrow> None)"

text \<open>What calls do to the transport meanwhile keeps it done once it is; a call may still be registered.\<close>

inductive link_step :: "ws_link \<Rightarrow> ws_link \<Rightarrow> bool" where
  wl_calls: "(ws_done (wl_ws s) \<Longrightarrow> ws_done w) \<Longrightarrow> (ws_done w \<Longrightarrow> ws_done (wl_ws s)) \<Longrightarrow> link_step s (s\<lparr>wl_ws := w\<rparr>)"
| wl_write: "ws_write err payload s = (e, t) \<Longrightarrow> link_step s t"
| wl_reader_ends: "wl_reading s \<Longrightarrow> link_step s (s\<lparr>wl_reading := False, wl_closers := wl_closers s @ [WcSwap None]\<rparr>)"
| wl_close: "link_step s (s\<lparr>wl_closers := wl_closers s @ [WcCheck]\<rparr>)"
| wl_close_move: "n < length (wl_closers s) \<Longrightarrow> link_close_move err (wl_closers s ! n) s = Some (pc, t) \<Longrightarrow>
     link_step s (t\<lparr>wl_closers := (wl_closers s)[n := pc]\<rparr>)"

definition link_start :: "ws_link \<Rightarrow> bool" where
  "link_start s \<longleftrightarrow> s = \<lparr>wl_ws = new_websocket, wl_reading = True, wl_cancelled = False, wl_open = True, wl_frames = [], wl_closers = []\<rparr>"

text \<open>What holds while some goroutine is at a place, by that place.\<close>

definition closer_ok :: "ws_link \<Rightarrow> link_close_pc \<Rightarrow> bool" where
  "closer_ok s pc =
     (case pc of
        WcCheck \<Rightarrow> True
      | WcCancel \<Rightarrow> True
      | WcConn \<Rightarrow> wl_cancelled s
      | WcSwap e \<Rightarrow> \<not> wl_reading s \<or> wl_cancelled s \<and> \<not> wl_open s
      | WcDone e \<Rightarrow> \<not> wl_reading s \<or> wl_cancelled s \<and> \<not> wl_open s
      | WcReturned e \<Rightarrow> ws_done (wl_ws s))"

definition link_inv :: "ws_link \<Rightarrow> bool" where
  "link_inv s \<longleftrightarrow> (\<forall>pc \<in> set (wl_closers s). closer_ok s pc) \<and>
     (ws_done (wl_ws s) \<longrightarrow> \<not> wl_reading s \<or> wl_cancelled s \<and> \<not> wl_open s)"

lemma closer_ok_mono:
  "closer_ok s pc \<Longrightarrow> (wl_reading t \<Longrightarrow> wl_reading s) \<Longrightarrow> (wl_cancelled s \<Longrightarrow> wl_cancelled t) \<Longrightarrow> (wl_open t \<Longrightarrow> wl_open s) \<Longrightarrow>
     (ws_done (wl_ws s) \<Longrightarrow> ws_done (wl_ws t)) \<Longrightarrow> closer_ok t pc"
  by (cases pc) (auto simp: closer_ok_def)

lemma link_inv_start: "link_start s \<Longrightarrow> link_inv s"
  by (simp add: link_start_def link_inv_def new_websocket_def)

lemma link_inv_move:
  assumes inv: "link_inv s" and n: "n < length (wl_closers s)"
    and m: "link_close_move err (wl_closers s ! n) s = Some (pc, t)"
  shows "link_inv (t\<lparr>wl_closers := (wl_closers s)[n := pc]\<rparr>)"
proof -
  let ?t = "t\<lparr>wl_closers := (wl_closers s)[n := pc]\<rparr>"
  from inv n have own: "closer_ok s (wl_closers s ! n)" by (simp add: link_inv_def)
  from m have mono: "wl_reading t = wl_reading s" "wl_cancelled s \<Longrightarrow> wl_cancelled t" "wl_open t \<Longrightarrow> wl_open s"
    "ws_done (wl_ws s) \<Longrightarrow> ws_done (wl_ws t)"
    by (auto simp: link_close_move_def ws_swap_def ws_close_done_def split: link_close_pc.splits if_splits)
  have new: "closer_ok ?t pc" "ws_done (wl_ws t) \<Longrightarrow> \<not> wl_reading t \<or> wl_cancelled t \<and> \<not> wl_open t"
    using m own conjunct2 [OF inv [unfolded link_inv_def]]
    by (cases "wl_closers s ! n"; auto simp: link_close_move_def closer_ok_def ws_swap_def ws_close_done_def split: if_splits)+
  have "closer_ok ?t x" if "x \<in> set (wl_closers s)" for x
  proof (rule closer_ok_mono)
    show "closer_ok s x" using inv that by (simp add: link_inv_def)
  qed (use mono in simp_all)
  with new show ?thesis
    using set_update_subset_insert [of "wl_closers s" n pc] by (auto simp: link_inv_def)
qed

lemma link_inv_step: "link_step s t \<Longrightarrow> link_inv s \<Longrightarrow> link_inv t"
proof (induction rule: link_step.induct)
  case (wl_calls s w)
  have "closer_ok s pc \<Longrightarrow> closer_ok (s\<lparr>wl_ws := w\<rparr>) pc" for pc by (rule closer_ok_mono) (use wl_calls in auto)
  with wl_calls show ?case by (auto simp: link_inv_def)
next
  case (wl_write err payload s e t)
  then have t: "wl_closers t = wl_closers s" "wl_ws t = wl_ws s" "wl_reading t = wl_reading s" "wl_open t = wl_open s"
    "wl_cancelled t = wl_cancelled s" by (auto simp: ws_write_def split: option.splits)
  have "closer_ok s pc \<Longrightarrow> closer_ok t pc" for pc by (rule closer_ok_mono) (use t in auto)
  with wl_write t show ?case by (auto simp: link_inv_def)
next
  case (wl_reader_ends s)
  let ?t = "s\<lparr>wl_reading := False, wl_closers := wl_closers s @ [WcSwap None]\<rparr>"
  have "closer_ok s pc \<Longrightarrow> closer_ok ?t pc" for pc by (rule closer_ok_mono) auto
  moreover have "closer_ok ?t (WcSwap None)" by (simp add: closer_ok_def)
  ultimately show ?case using wl_reader_ends by (auto simp: link_inv_def)
next
  case (wl_close s)
  let ?t = "s\<lparr>wl_closers := wl_closers s @ [WcCheck]\<rparr>"
  have "closer_ok s pc \<Longrightarrow> closer_ok ?t pc" for pc by (rule closer_ok_mono) auto
  moreover have "closer_ok ?t WcCheck" by (simp add: closer_ok_def)
  ultimately show ?case using wl_close by (auto simp: link_inv_def)
qed (blast intro: link_inv_move)

interpretation link: invariant_system link_start link_step link_inv
  by unfold_locales (auto intro: link_inv_start link_inv_step)

text \<open>
  When a \<^verbatim>\<open>Close\<close> has returned, the transport is done; and a transport that is done has lost its reader, or
  a close cancelled it and closed its connection.
\<close>

lemma link_closed:
  assumes "reachable link_start link_step s"
  shows "(WcReturned e \<in> set (wl_closers s) \<longrightarrow> ws_done (wl_ws s)) \<and>
    (ws_done (wl_ws s) \<longrightarrow> \<not> wl_reading s \<or> wl_cancelled s \<and> \<not> wl_open s)"
  using link.reachable_inv [OF assms] by (auto simp: link_inv_def closer_ok_def)

text \<open>A close that comes after the reader ended on its own does nothing: the context of the reader is never cancelled.\<close>

lemma link_never_cancelled:
  "\<exists>s. reachable link_start link_step s \<and> wl_closers s = [WcReturned None, WcReturned None] \<and> \<not> wl_cancelled s"
proof -
  let ?w = new_websocket and ?d = "ws_close_done (snd (ws_swap new_websocket))"
  let ?s = "\<lambda>w r pcs. \<lparr>wl_ws = w, wl_reading = r, wl_cancelled = False, wl_open = True, wl_frames = [], wl_closers = pcs\<rparr>"
  have go: "reachable link_start link_step (?s v False pcs) \<Longrightarrow> n < length pcs \<Longrightarrow>
      link_close_move None (pcs ! n) (?s v False pcs) = Some (pc, ?s v' False pcs) \<Longrightarrow>
      reachable link_start link_step (?s v' False (pcs[n := pc]))" for v v' pcs n pc
    using wl_close_move [of n "?s v False pcs" None pc "?s v' False pcs"] by (auto intro: reach_step)
  have "reachable link_start link_step (?s ?w True [])" by (rule reach_start) (simp add: link_start_def)
  then have "reachable link_start link_step (?s ?w False [WcSwap None])"
    using wl_reader_ends [of "?s ?w True []"] by (auto intro: reach_step)
  from go [OF this, of 0 "WcDone None" "snd (ws_swap ?w)"]
  have "reachable link_start link_step (?s (snd (ws_swap ?w)) False [WcDone None])" by (simp add: link_close_move_def)
  from go [OF this, of 0 "WcReturned None" ?d]
  have "reachable link_start link_step (?s ?d False [WcReturned None])" by (simp add: link_close_move_def)
  then have "reachable link_start link_step (?s ?d False [WcReturned None, WcCheck])"
    using wl_close [of "?s ?d False [WcReturned None]"] by (auto intro: reach_step)
  from go [OF this, of 1 "WcReturned None" ?d]
  have "reachable link_start link_step (?s ?d False [WcReturned None, WcReturned None])"
    by (simp add: link_close_move_def ws_close_done_def)
  then show ?thesis by (intro exI conjI) (assumption, simp_all)
qed

section \<open>What the other end reads\<close>

lemma ws_frame_text:
  assumes "json_ok max_depth j"
  shows "ws_frame (ws_text j) = (case read_frame j of FBad e \<Rightarrow> None | f \<Rightarrow> Some f)"
  using json_parse_print [OF assms, of True] by (simp add: ws_frame_def ws_text_def del: print_json.simps)

lemma enc_notification_ok:
  assumes "valid_utf8 m" and "raw_ok p"
  shows "json_ok max_depth (enc_notification m p)"
proof -
  have "coerce_utf8 0 m = m" using assms(1) by (simp add: valid_utf8_def)
  with assms show ?thesis
    by (cases p) (simp_all add: enc_notification_def opt_member_def raw_ok_def valid_utf8_ascii code_def max_depth_def)
qed

lemma read_notification:
  "valid_utf8 m \<Longrightarrow> read_frame (enc_notification m p) = FNotify \<lparr>nt_method = m, nt_params = p\<rparr>"
  by (cases p) (simp_all add: enc_notification_def read_frame_def map_get_def call_frame_def opt_member_def valid_utf8_def)

text \<open>
  A frame is read back by the reader of the other end as what was written: a call with its id, method and
  parameters, a notification, and a reply as the outcome of the call with that id.
\<close>

theorem ws_frames_read:
  assumes "valid_utf8 m" and "raw_ok p" and "json_ok (max_depth - 1) v"
  shows "ws_frame (ws_text (enc_request (with_id (m, p) i))) = Some (FRequest (JNum (show_nat (unat i))) m p) \<and>
     ws_frame (ws_text (enc_notification m p)) = Some (FNotify \<lparr>nt_method = m, nt_params = p\<rparr>) \<and>
     (\<exists>r. ws_frame (ws_text (enc_reply (JNum (show_nat (unat i))) v None)) = Some (FResponse i r) \<and>
        call_outcome r = Succeeded (Some v))"
proof -
  have "json_ok max_depth (enc_reply (JNum (show_nat (unat i))) v None)"
    using assms(3) by (simp add: enc_reply_def opt_member_def num_ok_show_nat valid_utf8_ascii code_def max_depth_def)
  moreover obtain r where "read_frame (enc_reply (JNum (show_nat (unat i))) v None) = FResponse i r"
    "call_outcome r = Succeeded (Some v)"
    by (auto simp: enc_reply_def opt_member_def read_frame_def response_frame_def map_get_def parse_id_def parse_uint64_show
        call_outcome_def Let_def)
  ultimately show ?thesis
    using ws_frame_text [OF enc_request_ok [OF assms(1,2), of i]] read_request_frame [OF assms(1), of p i]
      ws_frame_text [OF enc_notification_ok [OF assms(1,2)]] read_notification [OF assms(1), of p]
    by (simp add: ws_frame_text)
qed

theorem ws_frames_read_witness:
  "ws_frame (ws_text (enc_request (with_id (''m'', Some (JArr [])) 5))) = Some (FRequest (JNum (show_nat (unat (5 :: u64)))) ''m'' (Some (JArr [])))"
  using ws_frames_read [of "''m''" "Some (JArr [])" "JNull" 5]
  by (simp add: valid_utf8_ascii code_def raw_ok_def max_depth_def)

end
