(* ===== verification/Example.thy ===== *)
theory Example imports NewClient OpenThread begin

text \<open>
  Finding the binary and the daemon's socket (\<^verbatim>\<open>client.go\<close>), and the program of \<^verbatim>\<open>examples/simple\<close>, which uses
  the library from one end to the other: it finds the binary, creates a client over a process with a
  handler that approves everything, and runs one prompt.
\<close>

section \<open>Paths\<close>

text \<open>
  \<^verbatim>\<open>filepath.Join\<close> on a Unix system: the non-empty elements with a slash between them, cleaned.  Cleaning
  works through the segments with the ones kept so far in reverse.
\<close>

fun split_slash :: "string \<Rightarrow> string list" where
  "split_slash [] = [[]]"
| "split_slash (c # s) =
     (if c = CHR ''/'' then [] # split_slash s
      else (case split_slash s of [] \<Rightarrow> [[c]] | x # xs \<Rightarrow> (c # x) # xs))"

definition clean_segment :: "bool \<Rightarrow> string \<Rightarrow> string list \<Rightarrow> string list" where
  "clean_segment rooted x kept =
     (if x = [] \<or> x = ''.'' then kept
      else if x = ''..''
      then (case kept of
              y # ys \<Rightarrow> if y = ''..'' then x # kept else ys
            | [] \<Rightarrow> if rooted then [] else [x])
      else x # kept)"

fun join_slash :: "string list \<Rightarrow> string" where
  "join_slash [] = []"
| "join_slash [x] = x"
| "join_slash (x # xs) = x @ CHR ''/'' # join_slash xs"

definition clean_path :: "string \<Rightarrow> string" where
  "clean_path p =
     (let rooted = has_prefix ''/'' p;
          body = join_slash (rev (fold (clean_segment rooted) (split_slash p) []))
      in if rooted then CHR ''/'' # body else if body = [] then ''.'' else body)"

definition join_path :: "string list \<Rightarrow> string" where
  "join_path elems =
     (let es = dropWhile (\<lambda>x. x = []) elems in if es = [] then [] else clean_path (join_slash es))"

section \<open>The environment\<close>

text \<open>The error of the home directory is dropped; without one its path is empty.\<close>

definition default_daemon_socket_path :: "string \<Rightarrow> string" where
  "default_daemon_socket_path home = join_path [home, ''.codex'', ''app-server-control'', ''app-server-control.sock'']"

definition find_binary :: "(string \<Rightarrow> string) \<Rightarrow> (string \<Rightarrow> bool) \<Rightarrow> (string \<Rightarrow> go_error + string) \<Rightarrow> go_error + string" where
  "find_binary env exists look_path =
     (case filter (\<lambda>p. p \<noteq> [] \<and> exists p) (map env [''CODEX_BIN'', ''CODEX_CLI_PATH'']) of
        p # ps \<Rightarrow> Inr p
      | [] \<Rightarrow> look_path ''codex'')"

text \<open>The search, and the socket of a home directory.\<close>

lemma find_binary_order:
  "find_binary env exists look =
     (if env ''CODEX_BIN'' \<noteq> [] \<and> exists (env ''CODEX_BIN'') then Inr (env ''CODEX_BIN'')
      else if env ''CODEX_CLI_PATH'' \<noteq> [] \<and> exists (env ''CODEX_CLI_PATH'') then Inr (env ''CODEX_CLI_PATH'')
      else look ''codex'')"
  by (simp add: find_binary_def)

lemma daemon_socket_home:
  "default_daemon_socket_path ''/home/u'' = ''/home/u/.codex/app-server-control/app-server-control.sock''"
  by (simp add: default_daemon_socket_path_def join_path_def clean_path_def has_prefix_def clean_segment_def)

text \<open>Without a home directory the socket is looked for below the working directory.\<close>

lemma daemon_socket_no_home:
  "default_daemon_socket_path [] = ''.codex/app-server-control/app-server-control.sock''"
  by (simp add: default_daemon_socket_path_def join_path_def clean_path_def has_prefix_def clean_segment_def)

text \<open>A path that was cleaned has no empty segment, no dot, and a double dot only at the start of a relative one.\<close>

fun clean_kept :: "bool \<Rightarrow> string list \<Rightarrow> bool" where
  "clean_kept rooted [] = True"
| "clean_kept rooted (x # xs) \<longleftrightarrow> x \<noteq> [] \<and> x \<noteq> ''.'' \<and> (x = ''..'' \<longrightarrow> \<not> rooted \<and> set xs \<subseteq> {''..''}) \<and> clean_kept rooted xs"

lemma clean_segment_kept: "clean_kept rooted kept \<Longrightarrow> clean_kept rooted (clean_segment rooted x kept)"
  by (cases kept) (auto simp: clean_segment_def)

lemma clean_path_kept: "clean_kept rooted kept \<Longrightarrow> clean_kept rooted (fold (clean_segment rooted) xs kept)"
  by (induction xs arbitrary: kept) (auto intro: clean_segment_kept)

section \<open>A handler that approves\<close>

text \<open>The answer to a question is the label of its first option, or yes; later questions with the same id win.\<close>

definition question_answer :: "goval \<Rightarrow> string \<times> string" where
  "question_answer q =
     (case q of
        VStruct [h, VStr i, t, VSlice (VStruct [VStr label, d] # opts)] \<Rightarrow> (i, label)
      | VStruct [h, VStr i, t, opts] \<Rightarrow> (i, ''yes'')
      | _ \<Rightarrow> ([], ''yes''))"

definition auto_answers :: "goval list \<Rightarrow> (string \<times> goval) list" where
  "auto_answers qs = fold (\<lambda>q. case question_answer q of (i, a) \<Rightarrow> put i (VStr a)) qs []"

definition auto_user_input :: typed_handler where
  "auto_user_input v =
     Inr (VStruct [VMap (case v of VStruct [i, t, u, VSlice qs] \<Rightarrow> auto_answers qs | _ \<Rightarrow> [])])"

definition auto_approver :: approval_handler where
  "auto_approver = \<lparr>on_exec = (\<lambda>v. Inr (VStruct [VStr ApprovalDecisionAccept])), on_file = (\<lambda>v. Inr (VStruct [VStr FileChangeApprovalDecisionAccept])),
     on_permissions = (\<lambda>v. Inr (zero PermissionsApprovalResponse_t)), on_user_input = auto_user_input\<rparr>"

section \<open>The program\<close>

text \<open>
  How it ends: \<^verbatim>\<open>log.Fatalf\<close> with a message, which runs no deferred call, or a line and the deferred closes.
  \<^term>\<open>None\<close> is a run that has not ended.
\<close>

datatype example_end = Fatal string | Printed string

definition default_prompt :: string where
  "default_prompt = ''echo the word PONG''"

definition example_main :: "(string \<Rightarrow> string) \<Rightarrow> (string \<Rightarrow> bool) \<Rightarrow> (string \<Rightarrow> go_error + string) \<Rightarrow> 'io world \<Rightarrow>
    timelib \<Rightarrow> anylib \<Rightarrow> go_error option \<Rightarrow> output_round list \<Rightarrow> string list \<Rightarrow> example_end option \<times> 'io effect list" where
  "example_main env exists look w tlib alib ctx_err rounds args =
     (case find_binary env exists look of
        Inl e \<Rightarrow>
          (Some (Fatal (''codex binary not found: '' @ error_text e @ [CHR 0x0A] @ ''Set CODEX_BIN or install codex in PATH'')), [])
      | Inr bin \<Rightarrow>
          (case new_client w ([WithStdioProcess bin [''app-server''], WithApprovalHandler (Some auto_approver)]
                :: (unit, 'io) client_option list) [] of
             (Inl e, fx) \<Rightarrow> (Some (Fatal (''create client: '' @ error_text e)), fx)
           | (Inr cl, fx) \<Rightarrow>
               (case StartThread tlib alib (world_conn w) True ctx_err
                   [WithInitialInput (case args of [] \<Rightarrow> default_prompt | a # as \<Rightarrow> a)] rounds fx (new_sessions 0) of
                  (None, fx', ss) \<Rightarrow> (None, fx')
                | (Some (Inl e), fx', ss) \<Rightarrow> (Some (Fatal (''start thread: '' @ error_text e)), fx')
                | (Some (Inr th), fx', ss) \<Rightarrow>
                    (Some (Printed (''Thread '' @ sth_id th @ '': done'' @ [CHR 0x0A])), snd (close_client w cl fx')))))"

section \<open>What it approves and what it leaves behind\<close>

lemma auto_answers_map:
  "map_of (fold (\<lambda>q. case question_answer q of (i, a) \<Rightarrow> put i (VStr a)) qs kvs) i =
     (case filter (\<lambda>q. fst (question_answer q) = i) qs of
        [] \<Rightarrow> map_of kvs i
      | ms \<Rightarrow> Some (VStr (snd (question_answer (last ms)))))"
proof (induction qs arbitrary: kvs)
  case (Cons q qs)
  obtain k a where "question_answer q = (k, a)" by (cases "question_answer q")
  with Cons show ?case by (auto simp: put_map_of split: list.split)
qed simp

text \<open>
  The handler of the example accepts every command and every change of a file, and answers every question
  it is asked: with the answer of the last question under the id.
\<close>

lemma auto_approver_accepts:
  "approval_adapter auto_approver MethodItemCommandExecutionRequestApproval p = Inr r \<Longrightarrow> r = Some (JObj [(''decision'', JStr ''accept'')])"
  "approval_adapter auto_approver MethodItemFileChangeRequestApproval p = Inr r \<Longrightarrow> r = Some (JObj [(''decision'', JStr ''accept'')])"
  by (auto simp: approval_adapter_def decode_server_request_def request_table_def auto_approver_def respond_def server_response_from_def
      CommandExecutionApprovalResponse_t_def FileChangeApprovalResponse_t_def coerce_ascii code_def
      simp del: coerce_utf8.simps split: sum.splits option.splits)

lemma auto_approver_answers:
  assumes "q \<in> set qs" and "question_answer q = (i, a)"
  shows "\<exists>q' \<in> set qs. fst (question_answer q') = i \<and>
    map_of (auto_answers qs) i = Some (VStr (snd (question_answer q')))"
proof -
  let ?ms = "filter (\<lambda>q. fst (question_answer q) = i) qs"
  from assms have "q \<in> set ?ms" by simp
  then have ne: "?ms \<noteq> []" by (metis empty_iff list.set(1))
  then have "last ?ms \<in> set ?ms" by (rule last_in_set)
  moreover have "map_of (auto_answers qs) i = Some (VStr (snd (question_answer (last ?ms))))"
    using ne by (cases ?ms) (simp_all add: auto_answers_def auto_answers_map)
  ultimately show ?thesis by auto
qed

lemma example_client_process:
  assumes "new_client w ([WithStdioProcess bin args, WithApprovalHandler h] :: (unit, 'io) client_option list) [] = (Inr cl, fx)"
    and "bin \<noteq> []"
  shows "cl_process cl" and "cl_handler cl = map_option Approvals h"
  using assms
  by (auto simp: new_client_def then_do_def giving_def choose_transport_def zero_config_def auto_init_def Let_def
      split: option.splits prod.splits sum.splits if_splits)

text \<open>A run that prints closes the transport and shuts its process down, as its last effects.\<close>

lemma example_cleans_up:
  assumes "example_main env exists look w tlib alib ctx_err rounds args = (Some (Printed line), fx)"
    and "\<And>p. look ''codex'' = Inr p \<Longrightarrow> p \<noteq> []"
  shows "\<exists>pre. fx = pre @ [ClosedTransport, ShutDown]"
proof -
  obtain bin where b: "find_binary env exists look = Inr bin"
    using assms(1) by (auto simp: example_main_def split: sum.splits)
  then have ne: "bin \<noteq> []" using assms(2) by (auto simp: find_binary_order split: if_splits)
  from assms(1) b obtain cl fx0 fx1 where n: "new_client w ([WithStdioProcess bin [''app-server''], WithApprovalHandler (Some auto_approver)]
      :: (unit, 'a) client_option list) [] = (Inr cl, fx0)" and fx: "fx = snd (close_client w cl fx1)"
    by (auto simp: example_main_def split: sum.splits prod.splits option.splits)
  from example_client_process(1) [OF n ne] fx show ?thesis by (simp add: close_cleanup cleanup_def)
qed

text \<open>A server that refuses the thread: the program ends with its process running and its transport open.\<close>

definition refusing_world :: "unit world" where
  "refusing_world =
     \<lparr>dial = (\<lambda>fx i. None), start_process = (\<lambda>fx p args env d. None),
      answer = (\<lambda>fx m p. if m = MethodThreadStart then Inl ErrDisconnected else Inr (Some (JObj []))),
      notify_err = (\<lambda>fx m. None), close_err = (\<lambda>fx. None), home_socket = []\<rparr>"

lemma example_leaves_process:
  "\<exists>fx. example_main (\<lambda>v. []) (\<lambda>p. False) (\<lambda>n. Inr ''/bin/codex'') refusing_world tlib alib None rounds []
      = (Some (Fatal (''start thread: '' @ error_text ErrDisconnected)), fx) \<and>
    Started ''/bin/codex'' [''app-server''] [] [] \<in> set fx \<and> ShutDown \<notin> set fx \<and> ClosedTransport \<notin> set fx"
proof -
  have init: "decode_answer no_codecs InitializeResult_t (Some (JObj [])) = Inr (zero InitializeResult_t)"
    by (simp add: decode_answer_def json_unmarshal_def InitializeResult_t_def)
  let ?fx = "[Started ''/bin/codex'' [''app-server''] [] [], Called MethodInitialize (enc InitializeRequest_t sdk_init_request),
    Notified MethodInitialized NoParams]"
  have n: "new_client refusing_world ([WithStdioProcess ''/bin/codex'' [''app-server''], WithApprovalHandler (Some auto_approver)]
      :: (unit, unit) client_option list) [] = (Inr \<lparr>cl_transport = ProcessStdio, cl_handler = Some (Approvals auto_approver),
        cl_slots = sem_capacity 0, cl_process = True\<rparr>, ?fx)"
    by (simp add: new_client_def zero_config_def then_do_def giving_def choose_transport_def refusing_world_def Let_def
        auto_init_def Initialize_def call_for_def world_conn_def init)
  have "acquire True None (new_sessions 0) \<noteq> None" "\<And>e. acquire True None (new_sessions 0) \<noteq> Some (Inl e)"
    by (auto simp: acquire_def new_sessions_def sem_capacity_def begin_open_def acquire_thread_slot_def default_max_threads_def
        split: option.split)
  then obtain ss where slot: "acquire True None (new_sessions 0) = Some (Inr ss)"
    by (metis old.sum.exhaust option.exhaust)
  have refused: "ThreadStart tlib (world_conn refusing_world) req fx = (Inl ErrDisconnected, fx @ [Called MethodThreadStart (Params (thread_start_marshal req))])"
    for req fx
    by (simp add: ThreadStart_def thread_call_def call_for_def then_do_def world_conn_def refusing_world_def)
  show ?thesis
    by (simp add: example_main_def find_binary_def n StartThread_def with_slot_def slot refused Let_def)
qed

end
