(* ===== verification/FakeTransport.thy ===== *)
theory FakeTransport imports ClientProps begin

text \<open>
  The transport of the client's own tests (\<^verbatim>\<open>client_test_helpers.go\<close>): it answers from a value, a function
  or an error it was given, records what it is called with and counts.  As a connection it is what the
  methods of \<open>ClientApi\<close> run on.
\<close>

section \<open>State\<close>

text \<open>
  A result is a Go value: a thread, a turn or another one, here with the document its encoding gives.
\<close>

datatype fake_value = FakeThread json | FakeTurn json | FakeValue json

fun fake_json :: "fake_value \<Rightarrow> json" where
  "fake_json (FakeThread j) = j"
| "fake_json (FakeTurn j) = j"
| "fake_json (FakeValue j) = j"

record fake =
  fk_method :: string
  fk_params :: payload
  fk_notify_method :: string
  fk_handler :: "request_handler option"
  fk_result :: "fake_value option"
  fk_function :: "(string \<Rightarrow> payload \<Rightarrow> fake_value option) option"
  fk_call_err :: "go_error option"
  fk_notify_err :: "go_error option"
  fk_close_err :: "go_error option"
  fk_calls :: nat
  fk_notifies :: nat
  fk_closes :: nat

section \<open>Answers\<close>

definition default_model_list :: json where
  "default_model_list = JObj [(''models'', JArr [JStr ''gpt-4.1-mini'', JStr ''gpt-5.1'', JStr ''gpt-5.4-mini''])]"

definition fake_wrapped :: "string \<Rightarrow> fake_value \<Rightarrow> json option" where
  "fake_wrapped method v =
     (if method \<in> {MethodThreadStart, MethodThreadResume, MethodThreadRead}
      then (case v of FakeThread j \<Rightarrow> Some (JObj [(''thread'', j)]) | _ \<Rightarrow> None)
      else if method = MethodTurnStart
      then (case v of FakeTurn j \<Rightarrow> Some (JObj [(''turn'', j)]) | _ \<Rightarrow> None)
      else if method = MethodModelList then Some (fake_json v)
      else None)"

definition decode_fake :: "string \<Rightarrow> fake_value \<Rightarrow> json" where
  "decode_fake method v = (case fake_wrapped method v of Some j \<Rightarrow> j | None \<Rightarrow> fake_json v)"

text \<open>Without an answer the caller's result is left alone, which is the empty answer.\<close>

definition fake_answer :: "fake \<Rightarrow> string \<Rightarrow> payload \<Rightarrow> go_error + raw" where
  "fake_answer f method params =
     (case fk_call_err f of
        Some e \<Rightarrow> Inl e
      | None \<Rightarrow>
          (case (case fk_function f of None \<Rightarrow> None | Some g \<Rightarrow> g method params) of
             Some v \<Rightarrow> Inr (Some (decode_fake method v))
           | None \<Rightarrow>
               if method = MethodModelList then Inr (Some (decode_fake method (FakeValue default_model_list)))
               else Inr (map_option (decode_fake method) (fk_result f))))"

section \<open>Operations\<close>

text \<open>A call with an ended context is counted but not recorded.\<close>

definition fake_call :: "go_error option \<Rightarrow> string \<Rightarrow> payload \<Rightarrow> fake \<Rightarrow> (go_error + raw) \<times> fake" where
  "fake_call ctx_err method params f =
     (let g = f\<lparr>fk_calls := Suc (fk_calls f)\<rparr> in
      case ctx_err of
        Some e \<Rightarrow> (Inl e, g)
      | None \<Rightarrow> (fake_answer f method params, g\<lparr>fk_method := method, fk_params := params\<rparr>))"

definition fake_notify :: "go_error option \<Rightarrow> string \<Rightarrow> payload \<Rightarrow> fake \<Rightarrow> go_error option \<times> fake" where
  "fake_notify ctx_err method params f =
     (let g = f\<lparr>fk_notifies := Suc (fk_notifies f)\<rparr> in
      case ctx_err of
        Some e \<Rightarrow> (Some e, g)
      | None \<Rightarrow> (fk_notify_err f, g\<lparr>fk_notify_method := method\<rparr>))"

definition fake_set_handler :: "request_handler option \<Rightarrow> fake \<Rightarrow> fake" where
  "fake_set_handler h f = f\<lparr>fk_handler := h\<rparr>"

definition fake_close :: "fake \<Rightarrow> go_error option \<times> fake" where
  "fake_close f = (fk_close_err f, f\<lparr>fk_closes := Suc (fk_closes f)\<rparr>)"

definition fake_connection :: "go_error option \<Rightarrow> fake connection" where
  "fake_connection ctx_err =
     \<lparr>conn_call = fake_call ctx_err, conn_notify = fake_notify ctx_err, conn_close = fake_close\<rparr>"

section \<open>The client over it\<close>

text \<open>
  A method that starts, resumes or reads a thread gets the thread the test injected, through the
  envelope it decodes; the call is counted and recorded once.
\<close>

lemma fake_thread:
  assumes "fk_call_err f = None" and "fk_function f = None" and "fk_result f = Some (FakeThread j)"
    and "thread_unmarshal lib j = Some t"
  shows "\<exists>p. ThreadStart lib (fake_connection None) req f =
    (Inr (thread_of (thread_val t)), f\<lparr>fk_calls := Suc (fk_calls f), fk_method := MethodThreadStart, fk_params := p\<rparr>)"
proof -
  have "json_unmarshal (protocol_codecs lib) thread_resp_t (JObj [(''thread'', j)]) = Some (VStruct [thread_val t])"
    using assms(4) by (simp add: json_unmarshal_def thread_resp_t_def match_name_def protocol_codecs_def)
  moreover have "fake_answer f MethodThreadStart p = Inr (Some (JObj [(''thread'', j)]))" for p
    using assms(1-3) by (simp add: fake_answer_def decode_fake_def fake_wrapped_def)
  ultimately show ?thesis
    by (simp add: ThreadStart_def thread_call_def call_for_def then_do_def fake_connection_def fake_call_def
        decode_answer_def giving_def field0_def Let_def) blast
qed

text \<open>
  The default list of models is under a key that \<^verbatim>\<open>Models\<close> does not read: the method gives none, while
  the check of a model, which collects every string, accepts the three.
\<close>

lemma fake_model_list:
  "fk_call_err f = None \<Longrightarrow> fk_function f = None \<Longrightarrow> fake_answer f MethodModelList p = Inr (Some default_model_list)"
  by (simp add: fake_answer_def decode_fake_def fake_wrapped_def)

lemma fake_models_empty:
  assumes "fk_call_err f = None" and "fk_function f = None"
  shows "fst (Models (fake_connection None) f) = Inr []"
proof -
  have "match_name [''data''] ''models'' = None" by (simp add: match_name_def code_def)
  then have "decode_answer no_codecs modelListResponse_t (Some default_model_list) = Inr (VStruct [VNil])"
    by (simp add: decode_answer_def default_model_list_def modelListResponse_t_def json_unmarshal_def)
  then show ?thesis
    using fake_model_list [OF assms]
    by (simp add: Models_def ModelList_def call_for_def then_do_def fake_connection_def fake_call_def giving_def field0_def vfields_def
        vslice_def Let_def)
qed

lemma fake_accepts_default:
  assumes "fk_call_err f = None" and "fk_function f = None" and "trim_space m \<in> {''gpt-4.1-mini'', ''gpt-5.1'', ''gpt-5.4-mini''}"
  shows "fst (validate_model (\<lambda>l. True) (fake_connection None) now m no_catalog f) = None"
proof -
  have "collect_strings_from_json (\<lambda>l. True) (Some default_model_list) = Inr [''gpt-4.1-mini'', ''gpt-5.1'', ''gpt-5.4-mini'']"
    by (simp add: collect_strings_from_json_def default_model_list_def list_all_iff obj_map_def)
  then show ?thesis
    using fake_model_list [OF assms(1,2)] assms(3)
    by (auto simp: validate_model_def load_model_catalog_def fetch_models_def then_do_def fake_connection_def fake_call_def
        no_catalog_def Let_def)
qed

end
