(* ===== verification/SchemaScript.thy ===== *)
theory SchemaScript imports JsonRoundTrip begin

text \<open>
  The generator of the pinned schema (\<^verbatim>\<open>scripts/generate_schema.go\<close>): it runs the app server's generator,
  decodes the bundle into Go values and writes it indented, with its keys sorted, so that repeated runs
  give the same file.  The text of a floating-point number is an argument.
\<close>

section \<open>Indented text\<close>

text \<open>\<^verbatim>\<open>json.MarshalIndent\<close> with two blanks: members and elements on lines of their own, a blank after a colon.\<close>

definition new_line :: "nat \<Rightarrow> string" where
  "new_line k = CHR 0x0A # replicate (2 * k) (CHR '' '')"

fun pretty :: "nat \<Rightarrow> json \<Rightarrow> string"
and pretty_elems :: "nat \<Rightarrow> json list \<Rightarrow> string"
and pretty_members :: "nat \<Rightarrow> (string \<times> json) list \<Rightarrow> string" where
  "pretty k (JArr js) = (if js = [] then ''[]'' else CHR ''['' # pretty_elems (Suc k) js @ new_line k @ '']'')"
| "pretty k (JObj ms) = (if ms = [] then ''{}'' else CHR ''{'' # pretty_members (Suc k) ms @ new_line k @ ''}'')"
| "pretty k JNull = print_json True JNull"
| "pretty k (JBool b) = print_json True (JBool b)"
| "pretty k (JNum l) = print_json True (JNum l)"
| "pretty k (JStr s) = print_json True (JStr s)"
| "pretty_elems k [] = []"
| "pretty_elems k (j # js) = new_line k @ pretty k j @ (if js = [] then [] else CHR '','' # pretty_elems k js)"
| "pretty_members k [] = []"
| "pretty_members k ((x, j) # ms) =
     new_line k @ quote True x @ CHR '':'' # CHR '' '' # pretty k j @ (if ms = [] then [] else CHR '','' # pretty_members k ms)"

section \<open>Go values of any type\<close>

text \<open>
  Decoding into \<^verbatim>\<open>any\<close>: numbers become floats, objects become maps, which are written in key order; of
  members with one key the last stays.
\<close>

fun go_value :: "(string \<Rightarrow> string option) \<Rightarrow> json \<Rightarrow> json option"
and go_elems :: "(string \<Rightarrow> string option) \<Rightarrow> json list \<Rightarrow> json list option"
and go_members :: "(string \<Rightarrow> string option) \<Rightarrow> (string \<times> json) list \<Rightarrow> (string \<times> json) list \<Rightarrow> (string \<times> json) list option" where
  "go_value f JNull = Some JNull"
| "go_value f (JBool b) = Some (JBool b)"
| "go_value f (JNum l) = map_option JNum (f l)"
| "go_value f (JStr s) = Some (JStr s)"
| "go_value f (JArr js) = map_option JArr (go_elems f js)"
| "go_value f (JObj ms) = map_option JObj (go_members f [] ms)"
| "go_elems f [] = Some []"
| "go_elems f (j # js) = (case go_value f j of None \<Rightarrow> None | Some v \<Rightarrow> map_option ((#) v) (go_elems f js))"
| "go_members f kvs [] = Some kvs"
| "go_members f kvs ((k, j) # ms) = (case go_value f j of None \<Rightarrow> None | Some v \<Rightarrow> go_members f (put k v kvs) ms)"

section \<open>The script\<close>

definition marshal_sorted :: "json \<Rightarrow> string" where
  "marshal_sorted v = pretty 0 v @ [CHR 0x0A]"

definition normalize_schema :: "(string \<Rightarrow> string option) \<Rightarrow> string \<Rightarrow> string option" where
  "normalize_schema f text = map_option marshal_sorted (Option.bind (json_parse text) (go_value f))"

text \<open>
  The script: an exit with the text of an error, or the file it wrote.  The temporary directory, the
  generator's run, what it left and the write are the world's.
\<close>

datatype schema_end = SchemaFailed string | SchemaWritten string

definition generate_schema ::
  "(string \<Rightarrow> string option) \<Rightarrow> string option \<Rightarrow> string option \<Rightarrow> string + string \<Rightarrow> string option \<Rightarrow> schema_end" where
  "generate_schema f temp_err run_err bundle write_err =
     (case temp_err of
        Some e \<Rightarrow> SchemaFailed (''error creating temp dir: '' @ e)
      | None \<Rightarrow>
          (case run_err of
             Some e \<Rightarrow> SchemaFailed (''error running codex app-server generate-json-schema: '' @ e)
           | None \<Rightarrow>
               (case bundle of
                  Inl e \<Rightarrow> SchemaFailed (''error reading generated schema: '' @ e)
                | Inr text \<Rightarrow>
                    (case normalize_schema f text of
                       None \<Rightarrow> SchemaFailed ''error parsing generated schema JSON: ''
                     | Some out \<Rightarrow>
                         (case write_err of
                            Some e \<Rightarrow> SchemaFailed (''error writing schema to '' @ e)
                          | None \<Rightarrow> SchemaWritten out)))))"

section \<open>Indented text is read back\<close>

lemma skip_ws_blanks: "skip_ws (replicate n (CHR '' '') @ s) = skip_ws s"
  by (induction n) (simp_all add: skip_ws_def is_ws_def code_def)

lemma skip_ws_new_line [simp]: "skip_ws (new_line k @ s) = skip_ws s"
  using skip_ws_blanks [of "2 * k" s] by (simp add: new_line_def skip_ws_def is_ws_def code_def)

lemma skip_ws_blank [simp]: "skip_ws (CHR '' '' # s) = skip_ws s"
  by (simp add: skip_ws_def is_ws_def code_def)

lemma parse_skip_ws:
  "skip_ws s = skip_ws t \<Longrightarrow> parse_value n d s = parse_value n d t"
  "skip_ws s = skip_ws t \<Longrightarrow> parse_elems n d s = parse_elems n d t"
  "skip_ws s = skip_ws t \<Longrightarrow> parse_members n d s = parse_members n d t"
proof -
  have val: "skip_ws s = skip_ws t \<Longrightarrow> parse_value n d s = parse_value n d t" for n by (cases n) simp_all
  show "parse_value n d s = parse_value n d t" if "skip_ws s = skip_ws t" using val [OF that] .
  show "parse_elems n d s = parse_elems n d t" if "skip_ws s = skip_ws t" using val [OF that] by (cases n) simp_all
  show "parse_members n d s = parse_members n d t" if "skip_ws s = skip_ws t" using that by (cases n) simp_all
qed

lemma parse_new_line [simp]:
  "parse_value n d (new_line k @ s) = parse_value n d s" "parse_elems n d (new_line k @ s) = parse_elems n d s"
  "parse_members n d (new_line k @ s) = parse_members n d s" "parse_value n d (CHR '' '' # s) = parse_value n d s"
  by (rule parse_skip_ws; simp)+

lemma ends_number_new_line [simp]: "ends_number (new_line k @ s)"
  by (simp add: new_line_def ends_number_def is_digit_def code_def)

text \<open>What a value starts with.\<close>

lemma pretty_head:
  assumes "json_ok d j"
  shows "\<exists>c r. pretty k j = c # r \<and> starts_value c"
proof (cases j)
  case (JArr js)
  then show ?thesis by (simp add: starts_value_def is_ws_def code_def)
next
  case (JObj ms)
  then show ?thesis by (simp add: starts_value_def is_ws_def code_def)
qed (use print_head [OF assms, of True] in auto)

lemma pretty_scalar:
  "\<nexists>ms. j = JObj ms \<Longrightarrow> \<nexists>js. j = JArr js \<Longrightarrow> pretty k j = print_json True j"
  by (cases j) auto

lemma parse_pretty:
  "json_ok d j \<Longrightarrow> ends_number rest \<Longrightarrow> 2 * length (pretty k j) < n \<Longrightarrow>
     parse_value n d (pretty k j @ rest) = Some (j, rest)"
  "elems_ok d js \<Longrightarrow> js \<noteq> [] \<Longrightarrow> 2 * length (pretty_elems k js) + 1 < n \<Longrightarrow>
     parse_elems n d (pretty_elems k js @ new_line i @ CHR '']'' # rest) = Some (js, rest)"
  "members_ok d ms \<Longrightarrow> ms \<noteq> [] \<Longrightarrow> 2 * length (pretty_members k ms) + 1 < n \<Longrightarrow>
     parse_members n d (pretty_members k ms @ new_line i @ CHR ''}'' # rest) = Some (ms, rest)"
proof (induction d j and d js and d ms arbitrary: n k rest and n k i rest and n k i rest
    rule: json_ok_elems_ok_members_ok.induct)
  case (5 d js)
  then obtain m where n: "n = Suc m" by (cases n) auto
  show ?case
  proof (cases "js = []")
    case True
    with 5(2) show ?thesis by (simp add: n skip_ws_def is_ws_def code_def)
  next
    case False
    then obtain j js' where js: "js = j # js'" by (cases js) auto
    from 5(2) have ok: "0 < d" "elems_ok (d - 1) js" by auto
    then have "json_ok (d - 1) j" by (simp add: js)
    from pretty_head [OF this, of "Suc k"] obtain c r where "pretty (Suc k) j = c # r" "starts_value c" by blast
    then have "take 1 (skip_ws (pretty_elems (Suc k) js @ new_line k @ CHR '']'' # rest)) \<noteq> '']''"
      by (simp add: js skip_ws_start) (auto simp: starts_value_def)
    moreover have "pretty k (JArr js) @ rest = CHR ''['' # pretty_elems (Suc k) js @ new_line k @ CHR '']'' # rest"
      using False by simp
    moreover have "parse_elems m (d - 1) (pretty_elems (Suc k) js @ new_line k @ CHR '']'' # rest) = Some (js, rest)"
      using 5(1) [OF ok(2) False, of "Suc k" m k rest] 5(4) False n by simp
    moreover have "skip_ws (CHR ''['' # s) = CHR ''['' # s" for s by (simp add: skip_ws_def is_ws_def code_def)
    ultimately show ?thesis using ok(1) by (simp add: n del: pretty.simps)
  qed
next
  case (6 d ms)
  then obtain m where n: "n = Suc m" by (cases n) auto
  show ?case
  proof (cases "ms = []")
    case True
    with 6(2) show ?thesis by (simp add: n skip_ws_def is_ws_def code_def)
  next
    case False
    then obtain x j ms' where ms: "ms = (x, j) # ms'" by (cases ms) auto
    from 6(2) have ok: "0 < d" "members_ok (d - 1) ms" by auto
    have "take 1 (skip_ws (pretty_members (Suc k) ms @ new_line k @ CHR ''}'' # rest)) \<noteq> ''}''"
      by (simp add: ms quote_def) (simp add: skip_ws_def is_ws_def code_def)
    moreover have "pretty k (JObj ms) @ rest = CHR ''{'' # pretty_members (Suc k) ms @ new_line k @ CHR ''}'' # rest"
      using False by simp
    moreover have "parse_members m (d - 1) (pretty_members (Suc k) ms @ new_line k @ CHR ''}'' # rest) = Some (ms, rest)"
      using 6(1) [OF ok(2) False, of "Suc k" m k rest] 6(4) False n by simp
    moreover have "skip_ws (CHR ''{'' # s) = CHR ''{'' # s" for s by (simp add: skip_ws_def is_ws_def code_def)
    ultimately show ?thesis using ok(1) by (simp add: n del: pretty.simps)
  qed
next
  case (8 d j js)
  then obtain m where n: "n = Suc m" by (cases n) auto
  from 8(3) have ok: "json_ok d j" "elems_ok d js" by auto
  let ?t = "(if js = [] then [] else CHR '','' # pretty_elems k js) @ new_line i @ CHR '']'' # rest"
  have e: "ends_number ?t" by (simp add: ends_number_punct)
  have "length (pretty k j) \<le> length (pretty_elems k (j # js))" by simp
  with 8(1) [OF ok(1) e, of k m] 8(5) n have v: "parse_value m d (pretty k j @ ?t) = Some (j, ?t)" by simp
  have "js \<noteq> [] \<Longrightarrow> parse_elems m d (pretty_elems k js @ new_line i @ CHR '']'' # rest) = Some (js, rest)"
    using 8(2) [OF ok(2), of k m i rest] 8(5) n by simp
  with v show ?case by (simp add: n skip_ws_punct)
next
  case (10 d x j ms)
  then obtain m where n: "n = Suc m" by (cases n) auto
  from 10(3) have ok: "valid_utf8 x" "json_ok d j" "members_ok d ms" by auto
  let ?t = "(if ms = [] then [] else CHR '','' # pretty_members k ms) @ new_line i @ CHR ''}'' # rest"
  have e: "ends_number ?t" by (simp add: ends_number_punct)
  with 10(1) [OF ok(2) e, of k m] 10(5) n have v: "parse_value m d (pretty k j @ ?t) = Some (j, ?t)" by simp
  have "ms \<noteq> [] \<Longrightarrow> parse_members m d (pretty_members k ms @ new_line i @ CHR ''}'' # rest) = Some (ms, rest)"
    using 10(2) [OF ok(3), of k m i rest] 10(5) n by simp
  moreover have "skip_ws (CHR 0x22 # r) = CHR 0x22 # r" for r by (simp add: skip_ws_def is_ws_def code_def)
  moreover have "code (CHR 0x22) = 0x22" by (simp add: code_def)
  ultimately show ?case using v ok(1)
    by (simp add: n quote_def skip_ws_punct read_string_quote)
qed ((simp only: pretty.simps, rule parse_scalar_value; simp) | simp)+

section \<open>What was read can be written\<close>

lemma coerce_take: "take k (coerce_utf8 k s) = take k s"
  by (induction k s rule: coerce_utf8.induct) simp_all

lemma coerce_utf8_again: "coerce_utf8 k (coerce_utf8 k s) = coerce_utf8 k s"
proof (induction k s rule: coerce_utf8.induct)
  case (3 c r)
  show ?case
  proof (cases "utf8_more c r")
    case None
    have "utf8_more (CHR 0xEF) (CHR 0xBF # CHR 0xBD # t) = Some 2" for t
      by (simp add: utf8_more_def lead_bytes_def conts_def code_def numeral_2_eq_2)
    with None 3 show ?thesis by (simp add: replacement_char_def numeral_2_eq_2)
  next
    case (Some k)
    then have "utf8_more c (coerce_utf8 k r) = Some k"
      by (rule utf8_more_take) (simp add: coerce_take)
    with Some 3 show ?thesis by simp
  qed
qed simp_all

lemma read_string_valid: "read_string r = Some (s, t) \<Longrightarrow> valid_utf8 s"
  by (auto simp: read_string_def valid_utf8_def coerce_utf8_again split: option.splits)

text \<open>A value with valid texts within a nesting, its numbers left open.\<close>

fun text_ok :: "nat \<Rightarrow> json \<Rightarrow> bool"
and texts_ok :: "nat \<Rightarrow> json list \<Rightarrow> bool"
and entries_ok :: "nat \<Rightarrow> (string \<times> json) list \<Rightarrow> bool" where
  "text_ok d JNull = True"
| "text_ok d (JBool b) = True"
| "text_ok d (JNum l) = True"
| "text_ok d (JStr s) = valid_utf8 s"
| "text_ok d (JArr js) = (0 < d \<and> texts_ok (d - 1) js)"
| "text_ok d (JObj ms) = (0 < d \<and> entries_ok (d - 1) ms)"
| "texts_ok d [] = True"
| "texts_ok d (j # js) = (text_ok d j \<and> texts_ok d js)"
| "entries_ok d [] = True"
| "entries_ok d ((k, j) # ms) = (valid_utf8 k \<and> text_ok d j \<and> entries_ok d ms)"

lemma parse_text_ok:
  "parse_value n d s = Some (j, t) \<Longrightarrow> text_ok d j"
  "parse_elems n d s = Some (js, t) \<Longrightarrow> texts_ok d js"
  "parse_members n d s = Some (ms, t) \<Longrightarrow> entries_ok d ms"
proof (induction n d s and n d s and n d s arbitrary: j t and js t and ms t
    rule: parse_value_parse_elems_parse_members.induct)
  case (2 n d s)
  then show ?case
    by (auto simp: parse_scalar_def split: list.splits if_splits dest: read_string_valid)
next
  case (4 n d s)
  then show ?case by (fastforce split: list.splits if_splits option.splits)
next
  case (6 n d s)
  then show ?case by (fastforce split: list.splits if_splits option.splits dest: read_string_valid)
qed simp_all

section \<open>The file is stable\<close>

text \<open>A Go value: its maps in key order, its numbers texts that decoding and writing keep.\<close>

fun settled :: "(string \<Rightarrow> string option) \<Rightarrow> json \<Rightarrow> bool"
and settled_elems :: "(string \<Rightarrow> string option) \<Rightarrow> json list \<Rightarrow> bool"
and settled_members :: "(string \<Rightarrow> string option) \<Rightarrow> (string \<times> json) list \<Rightarrow> bool" where
  "settled f JNull = True"
| "settled f (JBool b) = True"
| "settled f (JNum l) = (f l = Some l)"
| "settled f (JStr s) = True"
| "settled f (JArr js) = settled_elems f js"
| "settled f (JObj ms) = (keys_sorted ms \<and> settled_members f ms)"
| "settled_elems f [] = True"
| "settled_elems f (j # js) = (settled f j \<and> settled_elems f js)"
| "settled_members f [] = True"
| "settled_members f ((k, j) # ms) = (settled f j \<and> settled_members f ms)"

lemma settled_members_all: "settled_members f ms \<longleftrightarrow> (\<forall>(k, j)\<in>set ms. settled f j)"
  by (induction ms) auto

lemma members_ok_all: "members_ok d ms \<longleftrightarrow> (\<forall>(k, j)\<in>set ms. valid_utf8 k \<and> json_ok d j)"
  by (induction ms) auto

lemma put_set: "x \<in> set (put k v kvs) \<Longrightarrow> x = (k, v) \<or> x \<in> set kvs"
  by (induction kvs) (auto split: if_splits)

lemma settled_put: "settled_members f kvs \<Longrightarrow> settled f v \<Longrightarrow> settled_members f (put k v kvs)"
  by (fastforce simp: settled_members_all dest: put_set)

lemma members_ok_put: "members_ok d kvs \<Longrightarrow> valid_utf8 k \<Longrightarrow> json_ok d v \<Longrightarrow> members_ok d (put k v kvs)"
  by (fastforce simp: members_ok_all dest: put_set)

lemma go_value_settled:
  assumes "\<And>l l'. f l = Some l' \<Longrightarrow> f l' = Some l' \<and> num_ok l'"
  shows "text_ok d j \<Longrightarrow> go_value f j = Some v \<Longrightarrow> settled f v \<and> json_ok d v"
    and "texts_ok d js \<Longrightarrow> go_elems f js = Some vs \<Longrightarrow> settled_elems f vs \<and> elems_ok d vs"
    and "entries_ok d ms \<Longrightarrow> settled_members f kvs \<Longrightarrow> members_ok d kvs \<Longrightarrow> keys_sorted kvs \<Longrightarrow>
           go_members f kvs ms = Some res \<Longrightarrow> settled_members f res \<and> members_ok d res \<and> keys_sorted res"
proof (induction d j and d js and d ms arbitrary: v and vs and kvs res rule: text_ok_texts_ok_entries_ok.induct)
  case (3 d l)
  then show ?case using assms by auto
next
  case (6 d ms)
  then obtain res where "0 < d" "entries_ok (d - 1) ms" "go_members f [] ms = Some res" "v = JObj res" by auto
  with 6(1) [of "[]" res] show ?case by (simp add: keys_sorted_def)
next
  case (10 d k j ms)
  from 10(7) obtain v where v: "go_value f j = Some v" and r: "go_members f (put k v kvs) ms = Some res"
    by (cases "go_value f j") simp_all
  from 10(3) have ok: "valid_utf8 k" "text_ok d j" "entries_ok d ms" by auto
  from 10(1) [OF ok(2) v] have "settled f v" "json_ok d v" by auto
  then show ?case
    using 10(2) [OF ok(3) settled_put [OF 10(4)] members_ok_put [OF 10(5) ok(1)] put_sorted [OF 10(6)] r] by simp
qed (auto split: option.splits)

lemma settled_kept:
  "settled f j \<Longrightarrow> go_value f j = Some j"
  "settled_elems f js \<Longrightarrow> go_elems f js = Some js"
  "settled_members f ms \<Longrightarrow> keys_sorted (kvs @ ms) \<Longrightarrow> go_members f kvs ms = Some (kvs @ ms)"
proof (induction f j and f js and f ms arbitrary: and and kvs rule: settled_settled_elems_settled_members.induct)
  case (10 f k j ms)
  have "keys_sorted (kvs @ [(k, j)])" using 10(4) by (simp add: keys_sorted_def sorted_wrt_append)
  with 10 show ?case by (simp add: put_append)
qed simp_all

lemma settled_marshalled:
  assumes "settled f v" and "json_ok max_depth v"
  shows "json_parse (marshal_sorted v) = Some v" and "normalize_schema f (marshal_sorted v) = Some (marshal_sorted v)"
proof -
  have "json_ok max_depth v \<Longrightarrow> ends_number [CHR 0x0A]" by (simp add: ends_number_def is_digit_def code_def)
  with parse_pretty(1) [OF assms(2), of "[CHR 0x0A]" 0 "Suc (2 * length (marshal_sorted v))"] assms(2)
  show p: "json_parse (marshal_sorted v) = Some v"
    by (simp add: json_parse_def marshal_sorted_def skip_ws_def is_ws_def code_def)
  from settled_kept(1) [OF assms(1)] p
  show "normalize_schema f (marshal_sorted v) = Some (marshal_sorted v)" by (simp add: normalize_schema_def)
qed

text \<open>
  C38. Running the generator again on the file it wrote writes the same file: whatever the app
  server's generator left, if it was decoded, the file is the text of one value with its keys sorted, it
  decodes to that value, and normalising it changes nothing; and a run writes exactly that file.  The text
  of a floating-point number is assumed to be a JSON number that decodes to the same float.
\<close>

theorem schema_stable:
  assumes floats: "\<And>l l'. f l = Some l' \<Longrightarrow> f l' = Some l' \<and> num_ok l'"
    and run: "generate_schema f None None (Inr raw) None = SchemaWritten text"
  shows "normalize_schema f raw = Some text \<and>
    (\<exists>v. settled f v \<and> json_parse text = Some v \<and> text = marshal_sorted v) \<and>
    generate_schema f None None (Inr text) None = SchemaWritten text"
proof -
  from run have n: "normalize_schema f raw = Some text"
    by (auto simp: generate_schema_def split: option.splits)
  then obtain j v where j: "json_parse raw = Some j" and v: "go_value f j = Some v" and t: "text = marshal_sorted v"
    by (auto simp: normalize_schema_def bind_eq_Some_conv)
  from j have "text_ok max_depth j"
    by (auto simp: json_parse_def simp del: parse_value.simps split: option.splits if_splits dest: parse_text_ok(1))
  from go_value_settled(1) [OF floats this v] have s: "settled f v" "json_ok max_depth v" by auto
  from settled_marshalled [OF s] s n t show ?thesis by (auto simp: generate_schema_def)
qed

theorem schema_stable_witness:
  "normalize_schema (\<lambda>l. None) ''{\"b\": [true, null], \"a\": \"x\"}'' = Some (marshal_sorted (JObj [(''a'', JStr ''x''), (''b'', JArr [JBool True, JNull])])) \<and>
   generate_schema (\<lambda>l. None) None None (Inr (marshal_sorted (JObj [(''a'', JStr ''x''), (''b'', JArr [JBool True, JNull])]))) None =
     SchemaWritten (marshal_sorted (JObj [(''a'', JStr ''x''), (''b'', JArr [JBool True, JNull])]))"
proof -
  let ?v = "JObj [(''a'', JStr ''x''), (''b'', JArr [JBool True, JNull])]"
  let ?in = "''{\"b\": [true, null], \"a\": \"x\"}''"
  have "json_parse ?in = Some (JObj [(''b'', JArr [JBool True, JNull]), (''a'', JStr ''x'')])" by code_simp
  moreover have "go_value (\<lambda>l. None) (JObj [(''b'', JArr [JBool True, JNull]), (''a'', JStr ''x'')]) = Some ?v" by code_simp
  ultimately have "normalize_schema (\<lambda>l. None) ?in = Some (marshal_sorted ?v)" by (simp add: normalize_schema_def)
  then have "generate_schema (\<lambda>l. None) None None (Inr ?in) None = SchemaWritten (marshal_sorted ?v)"
    by (simp add: generate_schema_def)
  from schema_stable [OF _ this] show ?thesis by simp
qed

end
