(* ===== verification/Spec2Isabelle.thy ===== *)
theory Spec2Isabelle imports BrokerSystem Retry RpcProps ProtocolProps WaitProps OutputProps Interaction Sessions ClientProps NewClient HookBridge Stdio WebSocketCalls Process Reconnect FanIn Streaming Delivery TypedHttp RpcPromises OpenThread Serving FileInput HookServer ReconnectHttp RpcStreams RetryClient Envelope MockWaits StdioSystem WsLink Example FakeTransport SchemaScript begin

text \<open>
  \<^bold>\<open>A verification library for the Go client of the Codex app server.\<close>

  The repository is a client library in Go.  A program creates a \<^verbatim>\<open>Client\<close> (\<^verbatim>\<open>New\<close> in \<^verbatim>\<open>client.go\<close>)
  over one of several transports, calls methods that become JSON-RPC requests, and receives what the
  server sends by itself: notifications, which become typed events and reach any number of
  subscriptions, and requests, which go to a handler that must answer.  On top of this, sessions run
  turns, wait for them and collect their output.  The library models that program from the byte level
  of a message up to the methods a caller sees; JSON and the parts of the Go library it uses
  are modelled too, so that statements about the wire are statements about text.

  \<^bold>\<open>Foundations.\<close>
  \<^item> \<open>Prelude\<close>: the collections, reachability, and the locale \<open>invariant_system\<close>, the contract of every
    state machine here: an invariant that holds at the start and is kept by every step.  Each system
    below interprets it, and its properties rest on the interpretation.
  \<^item> \<open>GoChan\<close>: buffered channels, with the panics of a closed one as \<^term>\<open>SendPanic\<close>; the locale
    \<open>bounded_fifo\<close> is what their users rely on.
  \<^item> \<open>GoText\<close>, \<open>GoQuote\<close>: the functions of \<^verbatim>\<open>strings\<close>, \<^verbatim>\<open>bytes\<close>, \<^verbatim>\<open>strconv\<close> and \<^verbatim>\<open>unicode/utf8\<close> that are
    called.  A Go string is a sequence of bytes, and one character of a \<^typ>\<open>string\<close> is one byte.
  \<^item> \<open>Json\<close>, \<open>JsonText\<close>, \<open>JsonRoundTrip\<close>, \<open>JsonLines\<close>: documents, the printer and the parser of
    \<^verbatim>\<open>encoding/json\<close>, the proof that parsing undoes printing with any continuation of the stream, and that a
    printed document is one line, which the protocols with a message per line need.
  \<^item> \<open>GoStruct\<close>: \<^verbatim>\<open>json.Marshal\<close> and \<^verbatim>\<open>json.Unmarshal\<close> driven by type descriptions; a round trip is proved once
    for every description.  \<open>WireTypes\<close> has a description for each struct of \<^verbatim>\<open>internal/protocol\<close>, its
    generated \<^verbatim>\<open>schema\<close> package, \<^verbatim>\<open>events.go\<close> and \<^verbatim>\<open>events_extra.go\<close>; \<open>Names\<close> the methods and enum values.
  \<^item> \<open>GoErrors\<close>: errors as values, \<^verbatim>\<open>errors.Is\<close> and \<^verbatim>\<open>errors.As\<close>, and the classifications of \<^verbatim>\<open>types.go\<close>,
    \<^verbatim>\<open>wait.go\<close> and \<^verbatim>\<open>retry.go\<close>.

  \<^bold>\<open>Transports\<close> (\<^verbatim>\<open>internal/transport\<close>).
  \<^item> \<open>RpcTransport\<close>, \<open>RpcSystem\<close>, \<open>RpcProps\<close>: \<^verbatim>\<open>transport.go\<close> and \<^verbatim>\<open>reconnect.go\<close>.  One definition per critical
    section of the mutex and per select; then all calls, readers, closes and reconnects interleaved.
    Shown: a response only reaches the call it answers, readers do not block, no call is lost, closing is
    final, the messages survive the wire, and the one way in which a call can be lost after a reconnect.
    \<open>RpcStreams\<close>: which operation closes which stream, each once.
  \<^item> \<open>Promises\<close>: what a transport promises to its calls, without tables and goroutines, and the locale
    \<open>promise_keeper\<close> of its implementations.  \<open>RpcPromises\<close> interprets it on the transport above, reconnects
    included, and \<open>WebSocket\<close>, \<open>WebSocketProps\<close>, \<open>WebSocketCalls\<close> on that of \<^verbatim>\<open>websocket.go\<close>.
    \<open>WsLink\<close>: its options, dial, frames and closes.
  \<^item> \<open>Callback\<close>: requests that are answered over a reply channel (\<^verbatim>\<open>transport.go\<close>), at most once.
  \<^item> \<open>Http\<close>, \<open>HttpProps\<close>: \<^verbatim>\<open>http.go\<close>; the outcome of a call on every branch, and server-sent events in order.
  \<^item> \<open>Stdio\<close>: \<^verbatim>\<open>stdio.go\<close> and \<^verbatim>\<open>combine.go\<close>; \<open>StdioSystem\<close>: the goroutines around the \<^verbatim>\<open>jrpc2\<close> client, and that
    each callback returns the first reply to its request.  \<open>Retry\<close>, \<open>RetryClient\<close>: \<^verbatim>\<open>retry.go\<close>,
    its loop, and the client's methods over a retrying transport.  \<open>Envelope\<close>: the envelopes of the \<^verbatim>\<open>protocol\<close>
    package are the messages of the transport.
  \<^item> \<open>Reconnect\<close>, \<open>FanIn\<close>: \<^verbatim>\<open>reconnect_ws.go\<close> and \<^verbatim>\<open>reconnect_http.go\<close>: one live connection at a time, bounded
    back-off, and the order of each connection kept.  \<open>ReconnectHttp\<close>: the HTTP one as a whole, which implements
    both, and what becomes of its calls.
  \<^item> \<open>Process\<close>: \<^verbatim>\<open>internal/process/process.go\<close>: the escalation of a shutdown and that it ends.

  \<^bold>\<open>The client.\<close>
  \<^item> \<open>Broker\<close>, \<open>BrokerSystem\<close>: the broker of \<^verbatim>\<open>events.go\<close> and its subscribers: what a subscriber receives, and
    that nothing panics.  \<open>Delivery\<close>: the notification loop of \<^verbatim>\<open>client.go\<close>, as one system with the HTTP
    transport on one side and the broker with its subscribers on the other.
  \<^item> \<open>Protocol\<close>, \<open>ProtocolProps\<close>: the codecs of \<^verbatim>\<open>item.go\<close>, \<^verbatim>\<open>types.go\<close>, \<^verbatim>\<open>decode.go\<close> and \<^verbatim>\<open>marshal_ext.go\<close>.
    \<open>Events\<close>: from a notification to a typed event.  \<open>Jsonx\<close>: \<^verbatim>\<open>internal/jsonx\<close>.
  \<^item> \<open>Interaction\<close>: requests of the server, the approval adapter and the dispatcher (\<^verbatim>\<open>interaction.go\<close>).
  \<^item> \<open>Wait\<close>, \<open>WaitProps\<close>, \<open>OutputProps\<close>: \<^verbatim>\<open>wait.go\<close> and \<^verbatim>\<open>output.go\<close>.  \<open>Streaming\<close>: the goroutine of \<^verbatim>\<open>RunStreamed\<close>.
  \<^item> \<open>Serving\<close>: the adapter of \<^verbatim>\<open>client.go\<close>, and a request of the server from its event to its answer.
  \<^item> \<open>Sessions\<close>, \<open>OpenThread\<close>: the limit of live threads, and the calls that open one.  \<open>ClientApi\<close>, \<open>ClientOps\<close>, \<open>ClientProps\<close>: the methods of the
    client, its sessions, logins and the model catalog.  \<open>TypedHttp\<close>: the methods over the HTTP transport
    and a server that sees text.  \<open>NewClient\<close>: options and \<^verbatim>\<open>New\<close>.
  \<^item> \<open>FileInput\<close>: an image from a file, with base64 and its inverse.
  \<^item> \<open>HookBridge\<close>, \<open>HookServer\<close>: \<^verbatim>\<open>internal/hookbridge\<close> (a connection, and the life of the listener) and the
    shim of \<^verbatim>\<open>cmd\<close>.
  \<^item> \<open>Example\<close>: \<^verbatim>\<open>FindBinary\<close>, the default socket and the program of \<^verbatim>\<open>examples/simple\<close>.

  \<^bold>\<open>Beside the client.\<close>
  \<^item> \<open>MockServer\<close>, \<open>MockWaits\<close>: \<^verbatim>\<open>internal/testutil/mock_server.go\<close>, the server the tests run the client against: it
    and the client agree on every pipelined call, and a wait returns a reply to its own id.
  \<^item> \<open>FakeTransport\<close>: \<^verbatim>\<open>client_test_helpers.go\<close>, a transport that answers what a test gave it.
  \<^item> \<open>SchemaScript\<close>: \<^verbatim>\<open>scripts/generate_schema.go\<close>, and that the file it writes is stable.

  \<^bold>\<open>Conventions.\<close>  A pointer or slice that may be nil is an option; a panic and a goroutine that blocks are \<^term>\<open>None\<close>
  where the text of the definition says so; an error is a value of \<^typ>\<open>go_error\<close>.  Goroutines are program counters in a
  step relation, and a step is a critical section, a select or a channel operation.  Where Go leaves a choice
  (the order of a map, the arm of a select with two ready, a timer) the choice is an argument or a
  step, and the properties hold for all.  64-bit counters are words and wrap; the
  step relations of the transports and of the broker stop before a counter of ids or sessions would come round.  History variables record a run
  and guide no step.  The waits for a turn are functions of what their rounds observe, a list; that
  they return is stated for the observations that occur, not by a bound.  There is no fuel in the library.

  \<^bold>\<open>Parameters.\<close>  \<^typ>\<open>timelib\<close> (\<^verbatim>\<open>time.Parse\<close>, \<^verbatim>\<open>strconv.ParseFloat\<close>), \<^typ>\<open>anylib\<close> (the order of a Go map and the
  text of a float), a connection of \<open>ClientApi\<close> (the transport below the methods), the world of \<open>NewClient\<close> (dials,
  processes, the server), \<^typ>\<open>http_client\<close> (\<^verbatim>\<open>net/http\<close>), \<^typ>\<open>file_lib\<close> (reading a file and guessing its
  media type), the wrapped transport of \<open>Retry\<close>, the outcome of a WebSocket dial, and for \<open>Example\<close> the
  environment, the existence of files and the look-up in the path.

  \<^bold>\<open>Not modelled.\<close>  Dialling and listening: pure I/O.  The calls of the \<^verbatim>\<open>jrpc2\<close>
  client behind the stdio transport and the frames of the WebSocket library belong to libraries.  Rounding
  of floating-point delays in \<open>Retry\<close> (they are real numbers), cancellation of a call that \<^verbatim>\<open>net/http\<close> has begun, and data
  races on fields without a lock are left out.  So is the text of a time that is encoded; the client encodes none.
\<close>

end
